(* ===== verification/Silicium_Prelude.thy ===== *)
theory Silicium_Prelude
  imports Main
begin

text \<open>
  The prelude of the development: outcomes of C++ operations, storage slots for manually managed
  object lifetimes, the template parameter \<open>T\<close> as a record of its special member functions, and the
  generic list lemmas the components share.

  An operation of the library is a function from the state it works on to an \<open>outcome\<close>: it returns
  (\<open>Ok\<close>), leaves by a C++ exception (\<open>Raise\<close>, with the state the exception leaves behind), or does
  something the language or an \<open>assert\<close> of the library forbids (\<open>Fault\<close>).
\<close>

section \<open>Outcomes\<close>

text \<open>
  \<open>Dead_Object\<close>: an object is read, assigned or destroyed where none is alive.  \<open>Live_Object\<close>: a
  placement new on storage whose object was not destroyed, or another member of a union written over
  it (the old object leaks).
  \<open>Wrong_Alternative\<close>: the storage is used at another type than the one that lives there.
  \<open>Bad_Index\<close>: an index outside a table of functions.  \<open>Out_Of_Range\<close>: an iterator outside its range
  is dereferenced or formed.  \<open>Terminated\<close>: an exception leaves a \<open>noexcept\<close> function.
\<close>

datatype fault =
    Dead_Object | Live_Object | Wrong_Alternative | Bad_Index | Out_Of_Range
  | Null_Pointer | Assertion_Failed | Unreachable_Executed | Terminated

datatype ('s, 'e, 'r) outcome = Ok 'r 's | Raise 'e 's | Fault fault

type_synonym ('s, 'e, 'r) op = "'s \<Rightarrow> ('s, 'e, 'r) outcome"

definition ret :: "'r \<Rightarrow> ('s, 'e, 'r) op" where
  "ret r s = Ok r s"

definition bind_op :: "('s, 'e, 'r) op \<Rightarrow> ('r \<Rightarrow> ('s, 'e, 'q) op) \<Rightarrow> ('s, 'e, 'q) op" where
  "bind_op m f s = (case m s of Ok r s' \<Rightarrow> f r s' | Raise e s' \<Rightarrow> Raise e s' | Fault x \<Rightarrow> Fault x)"

definition then_op :: "('s, 'e, 'r) op \<Rightarrow> ('s, 'e, 'q) op \<Rightarrow> ('s, 'e, 'q) op" where
  "then_op m n s = (case m s of Ok r s' \<Rightarrow> n s' | Raise e s' \<Rightarrow> Raise e s' | Fault x \<Rightarrow> Fault x)"

definition modify :: "('s \<Rightarrow> 's) \<Rightarrow> ('s, 'e, unit) op" where
  "modify f s = Ok () (f s)"

text \<open>\<open>BOOST_NOEXCEPT\<close>: an exception that reaches the border calls \<open>std::terminate\<close>.\<close>

definition noexcept :: "('s, 'e, 'r) op \<Rightarrow> ('s, 'e, 'r) op" where
  "noexcept m s = (case m s of Raise e s' \<Rightarrow> Fault Terminated | x \<Rightarrow> x)"

text \<open>\<open>try { m } catch (...) { h; throw; }\<close>\<close>

definition catch_rethrow :: "('s, 'e, 'r) op \<Rightarrow> ('s \<Rightarrow> 's) \<Rightarrow> ('s, 'e, 'r) op" where
  "catch_rethrow m h s = (case m s of Raise e s' \<Rightarrow> Raise e (h s') | x \<Rightarrow> x)"

text \<open>An operation on the first or the second object of a pair (\<open>*this\<close> and \<open>other\<close>).\<close>

definition on_this :: "('a, 'e, 'r) op \<Rightarrow> ('a \<times> 'b, 'e, 'r) op" where
  "on_this m s = (case m (fst s) of
      Ok r a \<Rightarrow> Ok r (a, snd s) | Raise e a \<Rightarrow> Raise e (a, snd s) | Fault x \<Rightarrow> Fault x)"

definition on_other :: "('b, 'e, 'r) op \<Rightarrow> ('a \<times> 'b, 'e, 'r) op" where
  "on_other m s = (case m (snd s) of
      Ok r b \<Rightarrow> Ok r (fst s, b) | Raise e b \<Rightarrow> Raise e (fst s, b) | Fault x \<Rightarrow> Fault x)"

lemmas outcome_defs = ret_def bind_op_def then_op_def modify_def noexcept_def catch_rethrow_def
  on_this_def on_other_def

text \<open>The state in which an operation leaves the objects, whether it returned or threw.\<close>

fun leaves :: "('s, 'e, 'r) outcome \<Rightarrow> ('s \<Rightarrow> bool) \<Rightarrow> bool" where
  "leaves (Ok r s) P = P s"
| "leaves (Raise e s) P = P s"
| "leaves (Fault x) P = False"

fun final_state :: "'s \<Rightarrow> ('s, 'e, 'r) outcome \<Rightarrow> 's" where
  "final_state d (Ok r s) = s"
| "final_state d (Raise e s) = s"
| "final_state d (Fault x) = d"

lemma leaves_mono: "leaves x P \<Longrightarrow> (\<And>s. P s \<Longrightarrow> Q s) \<Longrightarrow> leaves x Q"
  by (cases x) auto

lemma leaves_not_fault: "leaves x P \<Longrightarrow> x \<noteq> Fault f"
  by (cases x) auto

lemma leaves_final_state: "leaves x P \<Longrightarrow> P (final_state d x)"
  by (cases x) auto

text \<open>Reading operations change nothing; they only may fault.\<close>

fun read2 :: "('a \<Rightarrow> 'b \<Rightarrow> 'c) \<Rightarrow> fault + 'a \<Rightarrow> fault + 'b \<Rightarrow> fault + 'c" where
  "read2 f (Inl x) _ = Inl x"
| "read2 f (Inr a) (Inl x) = Inl x"
| "read2 f (Inr a) (Inr b) = Inr (f a b)"

fun read1 :: "('a \<Rightarrow> 'c) \<Rightarrow> fault + 'a \<Rightarrow> fault + 'c" where
  "read1 f (Inl x) = Inl x"
| "read1 f (Inr a) = Inr (f a)"

section \<open>The template parameter T\<close>

text \<open>
  The special member functions of an element type.  Each may throw; then it leaves the objects it
  was working on in some state (the second components of the left summand).
\<close>

record ('a, 'e) element_type =
  copy_construct :: "'a \<Rightarrow> 'e + 'a"
  move_construct :: "'a \<Rightarrow> ('e \<times> 'a) + ('a \<times> 'a)"
  copy_assign :: "'a \<Rightarrow> 'a \<Rightarrow> ('e \<times> 'a) + 'a"
  move_assign :: "'a \<Rightarrow> 'a \<Rightarrow> ('e \<times> 'a \<times> 'a) + ('a \<times> 'a)"

text \<open>
  What the library relies on where it declares a function \<open>noexcept\<close> (moves of \<open>T\<close> do not throw),
  and what makes \<open>T\<close> a regular type (copying and moving transport the value).
\<close>

definition nothrow_movable :: "('a, 'e) element_type \<Rightarrow> bool" where
  "nothrow_movable T \<longleftrightarrow>
     (\<forall>x. \<exists>y z. move_construct T x = Inr (y, z)) \<and>
     (\<forall>d x. \<exists>y z. move_assign T d x = Inr (y, z))"

definition regular :: "('a, 'e) element_type \<Rightarrow> bool" where
  "regular T \<longleftrightarrow>
     (\<forall>x y. copy_construct T x = Inr y \<longrightarrow> y = x) \<and>
     (\<forall>x y z. move_construct T x = Inr (y, z) \<longrightarrow> y = x) \<and>
     (\<forall>d x y. copy_assign T d x = Inr y \<longrightarrow> y = x) \<and>
     (\<forall>d x y z. move_assign T d x = Inr (y, z) \<longrightarrow> y = x)"

text \<open>A built-in type such as \<open>int\<close>: copies and moves are both plain copies and never throw.\<close>

definition trivial_type :: "('a, 'e) element_type" where
  "trivial_type = \<lparr>copy_construct = Inr, move_construct = (\<lambda>x. Inr (x, x)),
     copy_assign = (\<lambda>d x. Inr x), move_assign = (\<lambda>d x. Inr (x, x))\<rparr>"

lemma trivial_type_simps [simp]:
  "copy_construct trivial_type x = Inr x"
  "move_construct trivial_type x = Inr (x, x)"
  "copy_assign trivial_type d x = Inr x"
  "move_assign trivial_type d x = Inr (x, x)"
  by (simp_all add: trivial_type_def)

lemma trivial_type_nothrow [simp]: "nothrow_movable trivial_type"
  by (simp add: nothrow_movable_def)

lemma trivial_type_regular [simp]: "regular trivial_type"
  by (simp add: regular_def)

lemma nothrow_move_construct:
  "nothrow_movable T \<Longrightarrow> \<exists>y z. move_construct T x = Inr (y, z)"
  by (simp add: nothrow_movable_def)

lemma nothrow_move_assign:
  "nothrow_movable T \<Longrightarrow> \<exists>y z. move_assign T d x = Inr (y, z)"
  by (simp add: nothrow_movable_def)

lemma regular_copy_construct: "regular T \<Longrightarrow> copy_construct T x = Inr y \<Longrightarrow> y = x"
  unfolding regular_def by blast

lemma regular_move_construct: "regular T \<Longrightarrow> move_construct T x = Inr (y, z) \<Longrightarrow> y = x"
  unfolding regular_def by blast

lemma regular_copy_assign: "regular T \<Longrightarrow> copy_assign T d x = Inr y \<Longrightarrow> y = x"
  unfolding regular_def by blast

lemma regular_move_assign: "regular T \<Longrightarrow> move_assign T d x = Inr (y, z) \<Longrightarrow> y = x"
  unfolding regular_def by blast

lemmas regularD = regular_copy_construct regular_move_construct regular_copy_assign
  regular_move_assign

section \<open>Storage slots\<close>

text \<open>A piece of aligned storage: raw memory, or memory in which an object is alive.\<close>

datatype 'a slot = Raw | Live 'a

fun slot_construct :: "'e + 'a \<Rightarrow> ('a slot, 'e, unit) op" where
  "slot_construct (Inl e) s = Raise e s"
| "slot_construct (Inr x) Raw = Ok () (Live x)"
| "slot_construct (Inr x) (Live y) = Fault Live_Object"

fun slot_destroy :: "('a slot, 'e, unit) op" where
  "slot_destroy Raw = Fault Dead_Object"
| "slot_destroy (Live x) = Ok () Raw"

fun slot_read :: "'a slot \<Rightarrow> fault + 'a" where
  "slot_read Raw = Inl Dead_Object"
| "slot_read (Live x) = Inr x"

text \<open>Operations between the storage of \<open>*this\<close> (first) and that of \<open>other\<close> (second).\<close>

fun slot_copy_construct :: "('a, 'e) element_type \<Rightarrow> ('a slot \<times> 'a slot, 'e, unit) op" where
  "slot_copy_construct T (d, Raw) = Fault Dead_Object"
| "slot_copy_construct T (Live y, Live x) = Fault Live_Object"
| "slot_copy_construct T (Raw, Live x) =
     (case copy_construct T x of Inl e \<Rightarrow> Raise e (Raw, Live x) | Inr y \<Rightarrow> Ok () (Live y, Live x))"

fun slot_move_construct :: "('a, 'e) element_type \<Rightarrow> ('a slot \<times> 'a slot, 'e, unit) op" where
  "slot_move_construct T (d, Raw) = Fault Dead_Object"
| "slot_move_construct T (Live y, Live x) = Fault Live_Object"
| "slot_move_construct T (Raw, Live x) = (case move_construct T x of
       Inl (e, x') \<Rightarrow> Raise e (Raw, Live x')
     | Inr (y, x') \<Rightarrow> Ok () (Live y, Live x'))"

fun slot_copy_assign :: "('a, 'e) element_type \<Rightarrow> ('a slot \<times> 'a slot, 'e, unit) op" where
  "slot_copy_assign T (Live d, Live x) = (case copy_assign T d x of
       Inl (e, d') \<Rightarrow> Raise e (Live d', Live x)
     | Inr y \<Rightarrow> Ok () (Live y, Live x))"
| "slot_copy_assign T _ = Fault Dead_Object"

fun slot_move_assign :: "('a, 'e) element_type \<Rightarrow> ('a slot \<times> 'a slot, 'e, unit) op" where
  "slot_move_assign T (Live d, Live x) = (case move_assign T d x of
       Inl (e, d', x') \<Rightarrow> Raise e (Live d', Live x')
     | Inr (y, x') \<Rightarrow> Ok () (Live y, Live x'))"
| "slot_move_assign T _ = Fault Dead_Object"

section \<open>Lists\<close>

text \<open>\<open>std::find\<close> splits a range at the first occurrence of an element.\<close>

primrec before_first :: "'a \<Rightarrow> 'a list \<Rightarrow> 'a list" where
  "before_first c [] = []"
| "before_first c (x # xs) = (if x = c then [] else x # before_first c xs)"

primrec from_first :: "'a \<Rightarrow> 'a list \<Rightarrow> 'a list" where
  "from_first c [] = []"
| "from_first c (x # xs) = (if x = c then x # xs else from_first c xs)"

lemma before_first_append_absent [simp]:
  "c \<notin> set xs \<Longrightarrow> before_first c (xs @ ys) = xs @ before_first c ys"
  by (induction xs) auto

lemma before_first_absent [simp]: "c \<notin> set xs \<Longrightarrow> before_first c xs = xs"
  by (induction xs) auto

lemma from_first_absent [simp]: "c \<notin> set xs \<Longrightarrow> from_first c xs = []"
  by (induction xs) auto

lemma from_first_append_absent [simp]:
  "c \<notin> set xs \<Longrightarrow> from_first c (xs @ ys) = from_first c ys"
  by (induction xs) auto

lemma before_from_first: "before_first c xs @ from_first c xs = xs"
  by (induction xs) auto

lemma from_first_eq_Nil: "from_first c xs = [] \<longleftrightarrow> c \<notin> set xs"
  by (induction xs) auto

lemma not_in_before_first [simp]: "c \<notin> set (before_first c xs)"
  by (induction xs) auto

lemma from_first_hd: "from_first c xs = y # ys \<Longrightarrow> y = c"
  by (induction xs) (auto split: if_splits)

lemma length_from_first: "length (from_first c xs) \<le> length xs"
  by (induction xs) auto

lemma take_add_drop: "take m xs @ take n (drop m xs) = take (m + n) xs"
  by (simp add: take_add)

end
