(* ===== verification/Optional.thy ===== *)
theory Optional
  imports Silicium_Prelude
begin

text \<open>
  \<open>silicium/optional.hpp\<close>: an optional value with manual lifetime management.  An \<open>optional_obj\<close> is
  the pair of the flag \<open>m_is_set\<close> and the storage slot \<open>m_storage\<close>; every constructor, assignment
  and the destructor is a function on objects, so that the invariant ``the flag is set iff an object
  is alive in the storage'' is something the operations have to maintain.  The abstraction
  \<open>opt_abs\<close> reads an object as a value of HOL's \<open>option\<close>.
\<close>

section \<open>Objects\<close>

record 'a optional_obj =
  is_set :: bool
  storage :: "'a slot"

definition set_flag :: "bool \<Rightarrow> ('a optional_obj, 'e, unit) op" where
  "set_flag b = modify (is_set_update (\<lambda>_. b))"

definition on_storage :: "('a slot, 'e, 'r) op \<Rightarrow> ('a optional_obj, 'e, 'r) op" where
  "on_storage m x = (case m (storage x) of
      Ok r s \<Rightarrow> Ok r (x\<lparr>storage := s\<rparr>)
    | Raise e s \<Rightarrow> Raise e (x\<lparr>storage := s\<rparr>)
    | Fault f \<Rightarrow> Fault f)"

definition on_storages ::
    "('a slot \<times> 'a slot, 'e, 'r) op \<Rightarrow> ('a optional_obj \<times> 'a optional_obj, 'e, 'r) op" where
  "on_storages m p = (case m (storage (fst p), storage (snd p)) of
      Ok r s \<Rightarrow> Ok r ((fst p)\<lparr>storage := fst s\<rparr>, (snd p)\<lparr>storage := snd s\<rparr>)
    | Raise e s \<Rightarrow> Raise e ((fst p)\<lparr>storage := fst s\<rparr>, (snd p)\<lparr>storage := snd s\<rparr>)
    | Fault f \<Rightarrow> Fault f)"

section \<open>Constructors and destructor\<close>

text \<open>\<open>optional()\<close> and \<open>optional(none_t)\<close>.\<close>

definition opt_none :: "'a optional_obj" where
  "opt_none = \<lparr>is_set = False, storage = Raw\<rparr>"

text \<open>A constructor starts on raw storage; \<open>b\<close> is the initialiser of \<open>m_is_set\<close>.\<close>

definition uninitialised :: "bool \<Rightarrow> 'a optional_obj" where
  "uninitialised b = \<lparr>is_set = b, storage = Raw\<rparr>"

text \<open>\<open>optional(optional \&\&other)\<close>: the state is the pair of the new object and \<open>other\<close>.\<close>

definition opt_move_ctor ::
    "('a, 'e) element_type \<Rightarrow> ('a optional_obj \<times> 'a optional_obj, 'e, unit) op" where
  "opt_move_ctor T = noexcept (\<lambda>(this, other).
     (let this = uninitialised (is_set other)
      in if is_set this then on_storages (slot_move_construct T) (this, other)
         else Ok () (this, other)))"

definition opt_copy_ctor ::
    "('a, 'e) element_type \<Rightarrow> ('a optional_obj \<times> 'a optional_obj, 'e, unit) op" where
  "opt_copy_ctor T = (\<lambda>(this, other).
     (let this = uninitialised (is_set other)
      in if is_set this then on_storages (slot_copy_construct T) (this, other)
         else Ok () (this, other)))"

text \<open>
  \<open>optional(T \&\&)\<close>, \<open>optional(T const \&)\<close> and \<open>optional(some_t, Args \&\&...)\<close>: the object is
  constructed in the storage from \<open>init\<close>, the result of the constructor of \<open>T\<close> that is called.
\<close>

definition opt_value_move_ctor ::
    "('a, 'e) element_type \<Rightarrow> 'a \<Rightarrow> ('a optional_obj, 'e, unit) op" where
  "opt_value_move_ctor T v = noexcept (\<lambda>_. on_storage
     (slot_construct (case move_construct T v of Inl (e, _) \<Rightarrow> Inl e | Inr (y, _) \<Rightarrow> Inr y))
     (uninitialised True))"

definition opt_value_copy_ctor ::
    "('a, 'e) element_type \<Rightarrow> 'a \<Rightarrow> ('a optional_obj, 'e, unit) op" where
  "opt_value_copy_ctor T v =
     (\<lambda>_. on_storage (slot_construct (copy_construct T v)) (uninitialised True))"

definition opt_some_ctor :: "'e + 'a \<Rightarrow> ('a optional_obj, 'e, unit) op" where
  "opt_some_ctor init = (\<lambda>_. on_storage (slot_construct init) (uninitialised True))"

definition opt_dtor :: "('a optional_obj, 'e, unit) op" where
  "opt_dtor = noexcept (\<lambda>x. if \<not> is_set x then Ok () x else on_storage slot_destroy x)"

section \<open>Assignment\<close>

definition opt_move_assign ::
    "('a, 'e) element_type \<Rightarrow> ('a optional_obj \<times> 'a optional_obj, 'e, unit) op" where
  "opt_move_assign T = noexcept (\<lambda>p.
     if is_set (fst p)
     then (if is_set (snd p) then on_storages (slot_move_assign T) p
           else on_this (then_op (on_storage slot_destroy) (set_flag False)) p)
     else (if is_set (snd p)
           then then_op (on_storages (slot_move_construct T)) (on_this (set_flag True)) p
           else Ok () p))"

definition opt_copy_assign ::
    "('a, 'e) element_type \<Rightarrow> ('a optional_obj \<times> 'a optional_obj, 'e, unit) op" where
  "opt_copy_assign T = (\<lambda>p.
     if is_set (fst p)
     then (if is_set (snd p) then on_storages (slot_copy_assign T) p
           else on_this (then_op (on_storage slot_destroy) (set_flag False)) p)
     else (if is_set (snd p)
           then then_op (on_storages (slot_copy_construct T)) (on_this (set_flag True)) p
           else Ok () p))"

text \<open>\<open>operator=(T const \&)\<close>\<close>

definition opt_assign_value ::
    "('a, 'e) element_type \<Rightarrow> 'a \<Rightarrow> ('a optional_obj, 'e, unit) op" where
  "opt_assign_value T v = (\<lambda>x.
     if is_set x
     then on_storage (\<lambda>s. case slot_copy_assign T (s, Live v) of
              Ok r p \<Rightarrow> Ok r (fst p) | Raise e p \<Rightarrow> Raise e (fst p) | Fault f \<Rightarrow> Fault f) x
     else then_op (on_storage (slot_construct (copy_construct T v))) (set_flag True) x)"

text \<open>\<open>operator=(T \&\&)\<close>\<close>

definition opt_assign_rvalue ::
    "('a, 'e) element_type \<Rightarrow> 'a \<Rightarrow> ('a optional_obj, 'e, unit) op" where
  "opt_assign_rvalue T v = noexcept (\<lambda>x.
     if is_set x
     then on_storage (\<lambda>s. case slot_move_assign T (s, Live v) of
              Ok r p \<Rightarrow> Ok r (fst p) | Raise e p \<Rightarrow> Raise e (fst p) | Fault f \<Rightarrow> Fault f) x
     else then_op (on_storage (slot_construct
              (case move_construct T v of Inl (e, _) \<Rightarrow> Inl e | Inr (y, _) \<Rightarrow> Inr y)))
            (set_flag True) x)"

definition opt_assign_none :: "('a optional_obj, 'e, unit) op" where
  "opt_assign_none = noexcept (\<lambda>x.
     if is_set x then then_op (on_storage slot_destroy) (set_flag False) x else Ok () x)"

text \<open>\<open>emplace(args...)\<close>: \<open>init\<close> is the outcome of the constructor of \<open>T\<close> on \<open>args\<close>.\<close>

definition opt_emplace :: "'e + 'a \<Rightarrow> ('a optional_obj, 'e, unit) op" where
  "opt_emplace init =
     then_op opt_assign_none (then_op (on_storage (slot_construct init)) (set_flag True))"

text \<open>
  \<open>swap\<close>.  \<open>opt_emplace_from\<close> is \<open>emplace\<close> with an argument that reads from the other object: the
  argument is evaluated after \<open>*this = none\<close>.  If only \<open>*this\<close> is set, the source emplaces
  \<open>std::move(*this)\<close>, which is the optional itself and not its value, so that \<open>T\<close> has to be
  constructible from \<open>optional<T> \&\&\<close>; that constructor is the parameter \<open>from_optional\<close>.
  \<open>swap_values\<close> is \<open>swap(T \&, T \&)\<close>.
\<close>

definition opt_emplace_from ::
    "('b, 'e, 'a) op \<Rightarrow> ('a optional_obj \<times> 'b, 'e, unit) op" where
  "opt_emplace_from arg = then_op (on_this opt_assign_none)
     (bind_op (on_other arg)
        (\<lambda>v. then_op (on_this (on_storage (slot_construct (Inr v)))) (on_this (set_flag True))))"

definition move_out :: "('a, 'e) element_type \<Rightarrow> ('a optional_obj, 'e, 'a) op" where
  "move_out T y = (case storage y of
      Raw \<Rightarrow> Fault Dead_Object
    | Live w \<Rightarrow> (case move_construct T w of
          Inl (e, w') \<Rightarrow> Raise e (y\<lparr>storage := Live w'\<rparr>)
        | Inr (v, w') \<Rightarrow> Ok v (y\<lparr>storage := Live w'\<rparr>)))"

fun slot_swap :: "('a \<Rightarrow> 'a \<Rightarrow> ('e \<times> 'a \<times> 'a) + ('a \<times> 'a)) \<Rightarrow> ('a slot \<times> 'a slot, 'e, unit) op" where
  "slot_swap swap_values (Live x, Live y) = (case swap_values x y of
      Inl (e, x', y') \<Rightarrow> Raise e (Live x', Live y')
    | Inr (x', y') \<Rightarrow> Ok () (Live x', Live y'))"
| "slot_swap swap_values _ = Fault Dead_Object"

definition opt_swap ::
    "('a, 'e) element_type \<Rightarrow> ('a \<Rightarrow> 'a \<Rightarrow> ('e \<times> 'a \<times> 'a) + ('a \<times> 'a)) \<Rightarrow>
     ('a optional_obj, 'e, 'a) op \<Rightarrow> ('a optional_obj \<times> 'a optional_obj, 'e, unit) op" where
  "opt_swap T swap_values from_optional p =
     (if is_set (fst p)
      then (if is_set (snd p) then on_storages (slot_swap swap_values) p
            else (case then_op (opt_emplace_from from_optional) (on_other opt_assign_none) (snd p, fst p) of
                Ok r q \<Rightarrow> Ok r (snd q, fst q)
              | Raise e q \<Rightarrow> Raise e (snd q, fst q)
              | Fault f \<Rightarrow> Fault f))
      else (if is_set (snd p)
            then then_op (opt_emplace_from (move_out T)) (on_other opt_assign_none) p
            else Ok () p))"

section \<open>Access\<close>

definition opt_not :: "'a optional_obj \<Rightarrow> bool" where
  "opt_not x = (\<not> is_set x)"

text \<open>\<open>operator*\<close> and \<open>operator->\<close>, with their \<open>assert\<close>.\<close>

definition opt_deref :: "'a optional_obj \<Rightarrow> fault + 'a" where
  "opt_deref x = (if opt_not x then Inl Assertion_Failed else slot_read (storage x))"

datatype optional_error = Bad_Optional_Access

definition throw_if_empty :: "('a optional_obj, optional_error, unit) op" where
  "throw_if_empty x = (if is_set x then Ok () x else Raise Bad_Optional_Access x)"

definition opt_value :: "('a optional_obj, optional_error, 'a) op" where
  "opt_value = then_op throw_if_empty
     (\<lambda>x. case opt_deref x of Inl f \<Rightarrow> Fault f | Inr v \<Rightarrow> Ok v x)"

text \<open>\<open>or_throw\<close>: the handler either throws or, by returning, reaches \<open>SILICIUM_UNREACHABLE\<close>.\<close>

definition opt_or_throw :: "'e option \<Rightarrow> ('a optional_obj, 'e, 'a) op" where
  "opt_or_throw handler x = (if is_set x
     then (case opt_deref x of Inl f \<Rightarrow> Fault f | Inr v \<Rightarrow> Ok v x)
     else (case handler of Some e \<Rightarrow> Raise e x | None \<Rightarrow> Fault Unreachable_Executed))"

section \<open>Comparison, hashing, mapping\<close>

definition opt_eq ::
    "('a \<Rightarrow> 'a \<Rightarrow> bool) \<Rightarrow> 'a optional_obj \<Rightarrow> 'a optional_obj \<Rightarrow> fault + bool" where
  "opt_eq eq l r = (if is_set l \<and> is_set r then read2 eq (opt_deref l) (opt_deref r)
                    else Inr (opt_not l = opt_not r))"

definition opt_eq_value :: "('a \<Rightarrow> 'a \<Rightarrow> bool) \<Rightarrow> 'a optional_obj \<Rightarrow> 'a \<Rightarrow> fault + bool" where
  "opt_eq_value eq l v = (if is_set l then read1 (\<lambda>x. eq x v) (opt_deref l) else Inr False)"

definition value_eq_opt :: "('a \<Rightarrow> 'a \<Rightarrow> bool) \<Rightarrow> 'a \<Rightarrow> 'a optional_obj \<Rightarrow> fault + bool" where
  "value_eq_opt eq v r = opt_eq_value eq r v"

definition opt_eq_none :: "'a optional_obj \<Rightarrow> bool" where
  "opt_eq_none x = opt_not x"

definition opt_neq ::
    "('a \<Rightarrow> 'a \<Rightarrow> bool) \<Rightarrow> 'a optional_obj \<Rightarrow> 'a optional_obj \<Rightarrow> fault + bool" where
  "opt_neq eq l r = read1 Not (opt_eq eq l r)"

definition opt_less ::
    "('a \<Rightarrow> 'a \<Rightarrow> bool) \<Rightarrow> 'a optional_obj \<Rightarrow> 'a optional_obj \<Rightarrow> fault + bool" where
  "opt_less lt l r =
     (if is_set l
      then (if is_set r then read2 lt (opt_deref l) (opt_deref r) else Inr False)
      else (if is_set r then Inr True else Inr False))"

definition opt_print :: "('a \<Rightarrow> string) \<Rightarrow> 'a optional_obj \<Rightarrow> fault + string" where
  "opt_print show_value x = (if is_set x then read1 show_value (opt_deref x) else Inr ''none'')"

definition opt_hash_value :: "('a \<Rightarrow> nat) \<Rightarrow> 'a optional_obj \<Rightarrow> fault + nat" where
  "opt_hash_value h x = (if is_set x then read1 h (opt_deref x) else Inr 0)"

definition std_hash_optional :: "('a \<Rightarrow> nat) \<Rightarrow> 'a optional_obj \<Rightarrow> fault + nat" where
  "std_hash_optional h x = opt_hash_value h x"

definition make_optional ::
    "('a, 'e) element_type \<Rightarrow> 'a \<Rightarrow> ('a optional_obj, 'e, unit) op" where
  "make_optional T v = opt_value_move_ctor T v"

text \<open>\<open>fmap\<close>: the result is the optional that holds the transformed value.\<close>

definition opt_fmap :: "'a optional_obj \<Rightarrow> ('a \<Rightarrow> 'b) \<Rightarrow> fault + 'b optional_obj" where
  "opt_fmap x f = (if is_set x
     then read1 (\<lambda>v. \<lparr>is_set = True, storage = Live (f v)\<rparr>) (opt_deref x)
     else Inr opt_none)"

fun all_of :: "'a optional_obj list \<Rightarrow> bool" where
  "all_of [] = True"
| "all_of (head # tail) = (if opt_not head then False else all_of tail)"

fun deref_all :: "'a optional_obj list \<Rightarrow> fault + 'a list" where
  "deref_all [] = Inr []"
| "deref_all (x # xs) = read2 (#) (opt_deref x) (deref_all xs)"

definition variadic_fmap :: "('a list \<Rightarrow> 'b) \<Rightarrow> 'a optional_obj list \<Rightarrow> fault + 'b optional_obj" where
  "variadic_fmap f xs = (if all_of xs
     then read1 (\<lambda>vs. \<lparr>is_set = True, storage = Live (f vs)\<rparr>) (deref_all xs)
     else Inr opt_none)"

section \<open>Optional references\<close>

text \<open>
  \<open>optional<T \&>\<close> is a pointer; \<open>None\<close> is \<open>nullptr\<close>, and the objects it may point to live in a heap.
\<close>

record optional_ref =
  m_data :: "nat option"

definition optref_none :: optional_ref where
  "optref_none = \<lparr>m_data = None\<rparr>"

definition optref_some :: "nat \<Rightarrow> optional_ref" where
  "optref_some a = \<lparr>m_data = Some a\<rparr>"

definition optref_emplace :: "nat \<Rightarrow> (optional_ref, 'e, unit) op" where
  "optref_emplace a = modify (m_data_update (\<lambda>_. Some a))"

definition optref_not :: "optional_ref \<Rightarrow> bool" where
  "optref_not x = (m_data x = None)"

definition optref_deref :: "(nat \<rightharpoonup> 'a) \<Rightarrow> optional_ref \<Rightarrow> fault + 'a" where
  "optref_deref heap x = (case m_data x of
      None \<Rightarrow> Inl Assertion_Failed
    | Some a \<Rightarrow> (case heap a of None \<Rightarrow> Inl Dead_Object | Some v \<Rightarrow> Inr v))"

definition optref_value :: "(nat \<rightharpoonup> 'a) \<Rightarrow> (optional_ref, optional_error, 'a) op" where
  "optref_value heap x = (if optref_not x then Raise Bad_Optional_Access x
     else (case optref_deref heap x of Inl f \<Rightarrow> Fault f | Inr v \<Rightarrow> Ok v x))"

section \<open>The lifetime invariant and the abstraction to option\<close>

definition opt_inv :: "'a optional_obj \<Rightarrow> bool" where
  "opt_inv x \<longleftrightarrow> (is_set x \<longleftrightarrow> storage x \<noteq> Raw)"

fun slot_abs :: "'a slot \<Rightarrow> 'a option" where
  "slot_abs Raw = None"
| "slot_abs (Live x) = Some x"

definition opt_abs :: "'a optional_obj \<Rightarrow> 'a option" where
  "opt_abs x = (if is_set x then slot_abs (storage x) else None)"

lemma opt_inv_cases:
  assumes "opt_inv x"
  obtains (none) "x = \<lparr>is_set = False, storage = Raw\<rparr>"
        | (some) v where "x = \<lparr>is_set = True, storage = Live v\<rparr>"
  using assms by (cases x; cases "storage x") (auto simp: opt_inv_def)

lemma opt_inv_simps [simp]:
  "opt_inv \<lparr>is_set = False, storage = Raw\<rparr>"
  "opt_inv \<lparr>is_set = True, storage = Live v\<rparr>"
  "\<not> opt_inv \<lparr>is_set = True, storage = Raw\<rparr>"
  "\<not> opt_inv \<lparr>is_set = False, storage = Live v\<rparr>"
  by (simp_all add: opt_inv_def)

lemma opt_abs_simps [simp]:
  "opt_abs \<lparr>is_set = False, storage = s\<rparr> = None"
  "opt_abs \<lparr>is_set = True, storage = Live v\<rparr> = Some v"
  by (simp_all add: opt_abs_def)

lemmas opt_op_defs = opt_move_assign_def opt_copy_assign_def opt_assign_value_def
  opt_assign_rvalue_def opt_assign_none_def opt_emplace_def opt_dtor_def
  opt_move_ctor_def opt_copy_ctor_def opt_value_move_ctor_def opt_value_copy_ctor_def
  opt_some_ctor_def make_optional_def uninitialised_def
  set_flag_def on_storage_def on_storages_def outcome_defs Let_def

text \<open>
  One lemma per operation: from objects that satisfy the invariant it does not fault, and whether it
  returns or throws, the objects satisfy the invariant again.
\<close>

lemma opt_move_assign_inv:
  assumes "nothrow_movable T" "opt_inv a" "opt_inv b"
  shows "leaves (opt_move_assign T (a, b)) (\<lambda>(a, b). opt_inv a \<and> opt_inv b)"
proof -
  show ?thesis
  proof (cases rule: opt_inv_cases [OF assms(2)]; cases rule: opt_inv_cases [OF assms(3)])
    fix v w assume "a = \<lparr>is_set = True, storage = Live v\<rparr>" "b = \<lparr>is_set = True, storage = Live w\<rparr>"
    with nothrow_move_assign [OF assms(1), of v w] show ?thesis by (auto simp: opt_op_defs)
  next
    fix w assume "a = \<lparr>is_set = False, storage = Raw\<rparr>" "b = \<lparr>is_set = True, storage = Live w\<rparr>"
    with nothrow_move_construct [OF assms(1), of w] show ?thesis by (auto simp: opt_op_defs)
  qed (simp_all add: opt_op_defs)
qed

lemma opt_copy_assign_inv:
  assumes "opt_inv a" "opt_inv b"
  shows "leaves (opt_copy_assign T (a, b)) (\<lambda>(a, b'). opt_inv a \<and> b' = b)"
  by (cases rule: opt_inv_cases [OF assms(1)]; cases rule: opt_inv_cases [OF assms(2)])
     (auto simp: opt_op_defs split: sum.splits)

lemma opt_assign_value_inv: "opt_inv a \<Longrightarrow> leaves (opt_assign_value T v a) opt_inv"
  by (cases a rule: opt_inv_cases; cases "copy_construct T v")
     (auto simp: opt_op_defs split: sum.splits)

lemma opt_assign_rvalue_inv:
  assumes "nothrow_movable T" "opt_inv a"
  shows "leaves (opt_assign_rvalue T v a) opt_inv"
  using assms(2)
proof (cases a rule: opt_inv_cases)
  case none
  with nothrow_move_construct [OF assms(1), of v] show ?thesis by (auto simp: opt_op_defs)
next
  case (some d)
  with nothrow_move_assign [OF assms(1), of d v] show ?thesis by (auto simp: opt_op_defs)
qed

lemma opt_assign_none_result: "opt_inv a \<Longrightarrow> opt_assign_none a = Ok () opt_none"
  by (cases a rule: opt_inv_cases) (auto simp: opt_op_defs opt_none_def)

lemma opt_emplace_result:
  "opt_inv a \<Longrightarrow> opt_emplace init a = (case init of
     Inl e \<Rightarrow> Raise e opt_none | Inr v \<Rightarrow> Ok () \<lparr>is_set = True, storage = Live v\<rparr>)"
  by (cases init)
     (simp_all add: opt_emplace_def then_op_def opt_assign_none_result, simp_all add: opt_op_defs opt_none_def)

lemma opt_emplace_inv: "opt_inv a \<Longrightarrow> leaves (opt_emplace init a) opt_inv"
  by (cases init) (simp_all add: opt_emplace_result opt_none_def)

lemma opt_dtor_result: "opt_inv a \<Longrightarrow> \<exists>b. opt_dtor a = Ok () b \<and> storage b = Raw"
  by (cases a rule: opt_inv_cases) (auto simp: opt_op_defs)

lemma opt_move_ctor_inv:
  assumes "nothrow_movable T" "opt_inv b"
  shows "\<exists>a' b'. opt_move_ctor T (a, b) = Ok () (a', b') \<and> opt_inv a' \<and> opt_inv b'"
  using assms(2)
proof (cases b rule: opt_inv_cases)
  case none
  then show ?thesis by (auto simp: opt_op_defs)
next
  case (some w)
  with nothrow_move_construct [OF assms(1), of w] show ?thesis by (auto simp: opt_op_defs)
qed

section \<open>Functional behaviour: refinement of option\<close>

lemma opt_move_assign_abs:
  assumes T: "nothrow_movable T" "regular T" and inv: "opt_inv a" "opt_inv b"
  shows "\<exists>a' b'. opt_move_assign T (a, b) = Ok () (a', b') \<and> opt_abs a' = opt_abs b \<and>
           is_set b' = is_set b"
proof (cases rule: opt_inv_cases [OF inv(1)]; cases rule: opt_inv_cases [OF inv(2)])
  fix v w assume "a = \<lparr>is_set = True, storage = Live v\<rparr>" "b = \<lparr>is_set = True, storage = Live w\<rparr>"
  with nothrow_move_assign [OF T(1), of v w] regular_move_assign [OF T(2), of v w]
  show ?thesis by (auto simp: opt_op_defs)
next
  fix w assume "a = \<lparr>is_set = False, storage = Raw\<rparr>" "b = \<lparr>is_set = True, storage = Live w\<rparr>"
  with nothrow_move_construct [OF T(1), of w] regular_move_construct [OF T(2), of w]
  show ?thesis by (auto simp: opt_op_defs)
qed (auto simp: opt_op_defs)

lemma opt_copy_assign_abs:
  assumes "regular T" "opt_inv a" "opt_inv b" "opt_copy_assign T (a, b) = Ok () (a', b')"
  shows "opt_abs a' = opt_abs b \<and> b' = b"
  using assms(4) regularD [OF assms(1)]
  by (cases rule: opt_inv_cases [OF assms(2)]; cases rule: opt_inv_cases [OF assms(3)])
     (auto simp: opt_op_defs split: sum.splits)

lemma opt_deref_abs: "opt_inv x \<Longrightarrow> opt_abs x = Some v \<Longrightarrow> opt_deref x = Inr v"
  by (cases x rule: opt_inv_cases) (auto simp: opt_deref_def opt_not_def)

lemma opt_value_result:
  "opt_inv x \<Longrightarrow> opt_value x = (case opt_abs x of Some v \<Rightarrow> Ok v x | None \<Rightarrow> Raise Bad_Optional_Access x)"
  by (cases x rule: opt_inv_cases) (auto simp: opt_value_def throw_if_empty_def then_op_def opt_deref_def opt_not_def)

lemma opt_eq_result:
  assumes "opt_inv l" "opt_inv r"
  shows "opt_eq eq l r = Inr (case (opt_abs l, opt_abs r) of
     (Some x, Some y) \<Rightarrow> eq x y | (None, None) \<Rightarrow> True | _ \<Rightarrow> False)"
  by (cases rule: opt_inv_cases [OF assms(1)]; cases rule: opt_inv_cases [OF assms(2)])
     (auto simp: opt_eq_def opt_deref_def opt_not_def)

lemma opt_less_result:
  assumes "opt_inv l" "opt_inv r"
  shows "opt_less lt l r = Inr (case (opt_abs l, opt_abs r) of
     (Some x, Some y) \<Rightarrow> lt x y | (None, Some y) \<Rightarrow> True | _ \<Rightarrow> False)"
  by (cases rule: opt_inv_cases [OF assms(1)]; cases rule: opt_inv_cases [OF assms(2)])
     (auto simp: opt_less_def opt_deref_def opt_not_def)

lemma opt_hash_value_result:
  "opt_inv x \<Longrightarrow> opt_hash_value h x = Inr (case opt_abs x of Some v \<Rightarrow> h v | None \<Rightarrow> 0)"
  by (cases x rule: opt_inv_cases) (auto simp: opt_hash_value_def opt_deref_def opt_not_def)

lemma all_of_abs: "all_of xs \<longleftrightarrow> (\<forall>x \<in> set xs. is_set x)"
  by (induction xs) (auto simp: opt_not_def)

lemma deref_all_abs:
  "list_all opt_inv xs \<Longrightarrow> all_of xs \<Longrightarrow> deref_all xs = Inr (map (\<lambda>x. the (opt_abs x)) xs)"
proof (induction xs)
  case (Cons x xs)
  then have "opt_inv x" by simp
  then show ?case
    using Cons by (cases x rule: opt_inv_cases) (simp_all add: opt_deref_def opt_not_def)
qed simp

lemma opt_swap_abs:
  assumes "nothrow_movable T" "regular T" "opt_inv a" "opt_inv b"
    and "\<And>x y. swap_values x y = Inr (y, x)" "\<not> (is_set a \<and> \<not> is_set b)"
  shows "\<exists>a' b'. opt_swap T swap_values from_optional (a, b) = Ok () (a', b') \<and>
    opt_inv a' \<and> opt_inv b' \<and> opt_abs a' = opt_abs b \<and> opt_abs b' = opt_abs a"
proof (cases rule: opt_inv_cases [OF assms(3)]; cases rule: opt_inv_cases [OF assms(4)])
  fix w assume "a = \<lparr>is_set = False, storage = Raw\<rparr>" "b = \<lparr>is_set = True, storage = Live w\<rparr>"
  with nothrow_move_construct [OF assms(1), of w] regular_move_construct [OF assms(2), of w]
  show ?thesis by (auto simp: opt_swap_def opt_emplace_from_def move_out_def opt_op_defs)
qed (use assms(5,6) in \<open>auto simp: opt_swap_def opt_op_defs\<close>)

section \<open>Every sequence of calls is free of lifetime errors\<close>

text \<open>
  The member functions that change an optional, as calls a client makes on two living objects
  \<open>(this, other)\<close>; \<open>Exchange_Roles\<close> lets the client use the second object as \<open>this\<close>.  A client may
  catch an exception and go on with the objects as the exception left them.
\<close>

datatype ('a, 'e) opt_call =
    Move_Assign | Copy_Assign | Assign_Value 'a | Assign_Rvalue 'a | Assign_None
  | Emplace "'e + 'a" | Exchange_Roles

fun opt_exec :: "('a, 'e) element_type \<Rightarrow> ('a, 'e) opt_call \<Rightarrow>
    ('a optional_obj \<times> 'a optional_obj, 'e, unit) op" where
  "opt_exec T Move_Assign p = opt_move_assign T p"
| "opt_exec T Copy_Assign p = opt_copy_assign T p"
| "opt_exec T (Assign_Value v) p = on_this (opt_assign_value T v) p"
| "opt_exec T (Assign_Rvalue v) p = on_this (opt_assign_rvalue T v) p"
| "opt_exec T Assign_None p = on_this opt_assign_none p"
| "opt_exec T (Emplace init) p = on_this (opt_emplace init) p"
| "opt_exec T Exchange_Roles p = Ok () (snd p, fst p)"

fun opt_run :: "('a, 'e) element_type \<Rightarrow> ('a, 'e) opt_call list \<Rightarrow>
    ('a optional_obj \<times> 'a optional_obj, 'e, unit) op" where
  "opt_run T [] p = Ok () p"
| "opt_run T (c # cs) p = (case opt_exec T c p of
      Ok _ q \<Rightarrow> opt_run T cs q
    | Raise e q \<Rightarrow> opt_run T cs q
    | Fault f \<Rightarrow> Fault f)"

lemma leaves_on_this:
  "leaves (m (fst p)) P \<Longrightarrow> leaves (on_this m p) (\<lambda>q. P (fst q) \<and> snd q = snd p)"
  by (cases "m (fst p)") (auto simp: on_this_def)

lemma opt_exec_inv:
  assumes "nothrow_movable T" "opt_inv (fst p)" "opt_inv (snd p)"
  shows "leaves (opt_exec T c p) (\<lambda>q. opt_inv (fst q) \<and> opt_inv (snd q))"
proof (cases c)
  case Move_Assign
  with opt_move_assign_inv [OF assms] show ?thesis
    by (auto simp: case_prod_beta elim!: leaves_mono)
next
  case Copy_Assign
  with opt_copy_assign_inv [OF assms(2,3), of T] assms(3) show ?thesis
    by (auto simp: case_prod_beta elim!: leaves_mono)
next
  case (Assign_Value v)
  with leaves_on_this [where p = p and m = "opt_assign_value T v", OF opt_assign_value_inv [OF assms(2), of T v]] assms(3) show ?thesis
    by (auto elim!: leaves_mono)
next
  case (Assign_Rvalue v)
  with leaves_on_this [where p = p and m = "opt_assign_rvalue T v", OF opt_assign_rvalue_inv [OF assms(1,2), of v]] assms(3) show ?thesis
    by (auto elim!: leaves_mono)
next
  case Assign_None
  with assms show ?thesis by (simp add: on_this_def opt_assign_none_result opt_none_def)
next
  case (Emplace init)
  with leaves_on_this [where p = p and m = "opt_emplace init", OF opt_emplace_inv [OF assms(2), of init]] assms(3) show ?thesis
    by (auto elim!: leaves_mono)
next
  case Exchange_Roles
  with assms show ?thesis by simp
qed

lemma opt_run_inv:
  assumes "nothrow_movable T" "opt_inv a" "opt_inv b"
  shows "leaves (opt_run T calls (a, b)) (\<lambda>(a', b'). opt_inv a' \<and> opt_inv b')"
  using assms(2,3)
proof (induction calls arbitrary: a b)
  case Nil
  then show ?case by simp
next
  case (Cons c cs)
  with opt_exec_inv [OF assms(1), of "(a, b)" c] show ?case
    by (cases "opt_exec T c (a, b)") auto
qed

lemma opt_dtor_leaves: "opt_inv a \<Longrightarrow> leaves (opt_dtor a) (\<lambda>d. storage d = Raw)"
  by (cases a rule: opt_inv_cases) (auto simp: opt_op_defs)

lemma opt_dtor_after:
  "leaves x (\<lambda>(a, b). opt_inv a \<and> opt_inv b) \<Longrightarrow>
   leaves x (\<lambda>(a, b). leaves (opt_dtor a) (\<lambda>d. storage d = Raw) \<and> leaves (opt_dtor b) (\<lambda>d. storage d = Raw))"
  by (erule leaves_mono) (auto intro: opt_dtor_leaves)

text \<open>
  C12: two optionals that start in the invariant, for a \<open>T\<close> whose moves do not throw: any sequence of
  assignments and emplaces in either direction, where the copies and constructors of \<open>T\<close> may throw
  and the client goes on after it, never touches a dead object, never constructs over a living one
  and never terminates; the flag tells the truth at the end, and destroying the two objects then
  leaves no object alive.
\<close>

theorem opt_run_lifetime_safe:
  assumes "nothrow_movable T" "opt_inv a" "opt_inv b"
  shows "leaves (opt_run T calls (a, b)) (\<lambda>(a', b'). opt_inv a' \<and> opt_inv b') \<and>
    leaves (opt_run T calls (a, b)) (\<lambda>(a', b').
      leaves (opt_dtor a') (\<lambda>d. storage d = Raw) \<and> leaves (opt_dtor b') (\<lambda>d. storage d = Raw))"
  using opt_run_inv [OF assms] opt_dtor_after by blast

lemma opt_run_lifetime_safe_witness:
  "leaves (opt_run (trivial_type :: (int, unit) element_type)
      [Copy_Assign, Emplace (Inl ()), Exchange_Roles, Assign_None] (opt_none, \<lparr>is_set = True, storage = Live 3\<rparr>))
    (\<lambda>(a', b'). opt_inv a' \<and> opt_inv b')"
  by (rule opt_run_lifetime_safe [THEN conjunct1]) (simp_all add: opt_none_def)

text \<open>
  Copy assignment refines assignment of HOL options.  If it returns, \<open>*this\<close> has the value of
  \<open>other\<close>; if the copy of \<open>T\<close> throws, \<open>*this\<close> is still empty if it was, and still holds some object
  if it did; \<open>other\<close> is the same in either case, and there is no lifetime error.
\<close>

theorem opt_copy_assign_refines:
  assumes "regular T" "opt_inv a" "opt_inv b"
  shows "case opt_copy_assign T (a, b) of
      Ok _ (a', b') \<Rightarrow> opt_inv a' \<and> opt_abs a' = opt_abs b \<and> b' = b
    | Raise e (a', b') \<Rightarrow> opt_inv a' \<and> is_set a' = is_set a \<and> is_set b \<and> b' = b
    | Fault f \<Rightarrow> False"
  using regularD [OF assms(1)]
  by (cases rule: opt_inv_cases [OF assms(2)]; cases rule: opt_inv_cases [OF assms(3)])
     (auto simp: opt_op_defs split: sum.splits)

text \<open>A type whose copy constructor throws on negative values.\<close>

definition partial_copy :: "(int, string) element_type" where
  "partial_copy = trivial_type\<lparr>copy_construct :=
     (\<lambda>x. if x < 0 then Inl ''negative'' else Inr x)\<rparr>"

lemma opt_copy_assign_refines_witness:
  "case opt_copy_assign partial_copy (opt_none, \<lparr>is_set = True, storage = Live (- 1)\<rparr>) of
      Ok _ (a', b') \<Rightarrow> False
    | Raise e (a', b') \<Rightarrow> opt_inv a' \<and> \<not> is_set a' \<and> e = ''negative''
    | Fault f \<Rightarrow> False"
proof -
  have "regular partial_copy" by (simp add: regular_def partial_copy_def split: if_splits)
  from opt_copy_assign_refines [OF this, of opt_none "\<lparr>is_set = True, storage = Live (- 1)\<rparr>"]
  show ?thesis by (simp add: opt_none_def opt_op_defs partial_copy_def)
qed

text \<open>
  With a totally ordered \<open>T\<close>, exactly one of \<open>l < r\<close>, \<open>l == r\<close> and \<open>r < l\<close> holds for any two
  optionals (an empty one is below every other), and equal optionals have equal hashes.
\<close>

theorem opt_order_trichotomy:
  fixes l r :: "'a::linorder optional_obj"
  assumes "opt_inv l" "opt_inv r"
  shows "(opt_less (<) l r, opt_eq (=) l r, opt_less (<) r l) \<in>
      {(Inr True, Inr False, Inr False), (Inr False, Inr True, Inr False), (Inr False, Inr False, Inr True)}
    \<and> (opt_eq (=) l r \<noteq> Inr True \<or> opt_hash_value h l = opt_hash_value h r)"
  unfolding opt_eq_result [OF assms] opt_less_result [OF assms] opt_less_result [OF assms(2,1)]
    opt_hash_value_result [OF assms(1)] opt_hash_value_result [OF assms(2)]
  by (cases "opt_abs l"; cases "opt_abs r") auto

lemma opt_order_trichotomy_witness:
  "opt_less (<) opt_none \<lparr>is_set = True, storage = Live (0::int)\<rparr> = Inr True"
  using opt_order_trichotomy [of "opt_none :: int optional_obj" "\<lparr>is_set = True, storage = Live (0::int)\<rparr>" nat]
  by (auto simp: opt_none_def opt_less_def opt_eq_def opt_not_def)

end
