(* ===== verification/Error_Or.thy ===== *)
theory Error_Or
  imports Optional
begin

text \<open>
  \<open>silicium/error_or.hpp\<close>: either a value or an error code, kept in a union.  An object is the integer
  \<open>code\<close>, which decides between the two, and what lives in the union: the value, the pointer to the
  error category, or nothing yet.  An error code is a number and a category; a default-constructed one
  has the number 0 and the system category, which is 0 here.
\<close>

record error_code =
  ec_value :: int
  ec_category :: nat

definition no_error :: error_code where
  "no_error = \<lparr>ec_value = 0, ec_category = 0\<rparr>"

definition is_set_error :: "error_code \<Rightarrow> bool" where
  "is_set_error e \<longleftrightarrow> ec_value e \<noteq> 0"

definition throw_error :: "error_code \<Rightarrow> ('s, error_code, 'r) op" where
  "throw_error error s = Raise error s"

definition throw_if_error :: "error_code \<Rightarrow> ('s, error_code, unit) op" where
  "throw_if_error error s = (if \<not> is_set_error error then Ok () s else throw_error error s)"

section \<open>Objects\<close>

datatype 'v eo_union = Nothing | Value_Member 'v | Category_Member nat

record 'v error_or =
  code :: int
  members :: "'v eo_union"

fun union_construct :: "'e + 'v \<Rightarrow> ('v eo_union, 'e, unit) op" where
  "union_construct init (Value_Member v) = Fault Live_Object"
| "union_construct (Inl e) u = Raise e u"
| "union_construct (Inr v) u = Ok () (Value_Member v)"

fun union_destroy :: "('v eo_union, 'e, unit) op" where
  "union_destroy (Value_Member v) = Ok () Nothing"
| "union_destroy Nothing = Fault Dead_Object"
| "union_destroy (Category_Member c) = Fault Wrong_Alternative"

fun union_value :: "'v eo_union \<Rightarrow> fault + 'v" where
  "union_value (Value_Member v) = Inr v"
| "union_value Nothing = Inl Dead_Object"
| "union_value (Category_Member c) = Inl Wrong_Alternative"

fun union_category :: "'v eo_union \<Rightarrow> fault + nat" where
  "union_category (Category_Member c) = Inr c"
| "union_category _ = Inl Wrong_Alternative"

definition set_code :: "int \<Rightarrow> ('v error_or, 'e, unit) op" where
  "set_code c = modify (code_update (\<lambda>_. c))"

definition on_members :: "('v eo_union, 'e, 'r) op \<Rightarrow> ('v error_or, 'e, 'r) op" where
  "on_members m x = (case m (members x) of
      Ok r u \<Rightarrow> Ok r (x\<lparr>members := u\<rparr>)
    | Raise e u \<Rightarrow> Raise e (x\<lparr>members := u\<rparr>)
    | Fault f \<Rightarrow> Fault f)"

definition is_error :: "'v error_or \<Rightarrow> bool" where
  "is_error x \<longleftrightarrow> code x \<noteq> 0"

section \<open>Constructors, destructor, assignment\<close>

definition eo_default :: "'v \<Rightarrow> 'v error_or" where
  "eo_default default_value = \<lparr>code = 0, members = Value_Member default_value\<rparr>"

text \<open>
  The constructors from a value; \<open>init\<close> is the outcome of the constructor of \<open>Value\<close> that is called.
  The ones from an rvalue and from a convertible type are \<open>noexcept\<close>.
\<close>

definition eo_from_value :: "'e + 'v \<Rightarrow> ('v error_or, 'e, unit) op" where
  "eo_from_value init = (\<lambda>_. on_members (union_construct init) \<lparr>code = 0, members = Nothing\<rparr>)"

definition eo_from_rvalue :: "'e + 'v \<Rightarrow> ('v error_or, 'e, unit) op" where
  "eo_from_rvalue init = noexcept (eo_from_value init)"

definition eo_from_error :: "error_code \<Rightarrow> 'v error_or" where
  "eo_from_error error = \<lparr>code = ec_value error, members = Category_Member (ec_category error)\<rparr>"

text \<open>Copy and move construction; the state is the pair of the new object and \<open>other\<close>.\<close>

fun union_set_category :: "nat \<Rightarrow> ('v eo_union, 'e, unit) op" where
  "union_set_category c (Value_Member v) = Fault Live_Object"
| "union_set_category c _ = Ok () (Category_Member c)"

definition take_category :: "('v error_or \<times> 'v error_or, 'e, unit) op" where
  "take_category p = (case union_category (members (snd p)) of
      Inl f \<Rightarrow> Fault f
    | Inr c \<Rightarrow> on_this (on_members (union_set_category c)) p)"

definition copy_value :: "('v, 'e) element_type \<Rightarrow> ('v error_or \<times> 'v error_or, 'e, unit) op" where
  "copy_value T p = (case union_value (members (snd p)) of
      Inl f \<Rightarrow> Fault f
    | Inr v \<Rightarrow> on_this (on_members (union_construct (copy_construct T v))) p)"

definition move_value :: "('v, 'e) element_type \<Rightarrow> ('v error_or \<times> 'v error_or, 'e, unit) op" where
  "move_value T p = (case union_value (members (snd p)) of
      Inl f \<Rightarrow> Fault f
    | Inr v \<Rightarrow> (case move_construct T v of
          Inl (e, v') \<Rightarrow> Raise e (fst p, (snd p)\<lparr>members := Value_Member v'\<rparr>)
        | Inr (w, v') \<Rightarrow> on_this (on_members (union_construct (Inr w))) (fst p, (snd p)\<lparr>members := Value_Member v'\<rparr>)))"

definition eo_copy_ctor :: "('v, 'e) element_type \<Rightarrow> ('v error_or \<times> 'v error_or, 'e, unit) op" where
  "eo_copy_ctor T = (\<lambda>(this, other).
     (let this = \<lparr>code = code other, members = Nothing\<rparr>
      in if is_error other then take_category (this, other) else copy_value T (this, other)))"

definition eo_move_ctor :: "('v, 'e) element_type \<Rightarrow> ('v error_or \<times> 'v error_or, 'e, unit) op" where
  "eo_move_ctor T = noexcept (\<lambda>(this, other).
     (let this = \<lparr>code = code other, members = Nothing\<rparr>
      in if is_error other then take_category (this, other) else move_value T (this, other)))"

definition eo_move_assign :: "('v, 'e) element_type \<Rightarrow> ('v error_or \<times> 'v error_or, 'e, unit) op" where
  "eo_move_assign T = noexcept (\<lambda>p.
     if is_error (fst p)
     then then_op (on_this (set_code (code (snd p))))
            (\<lambda>p. if is_error (snd p) then take_category p else move_value T p) p
     else (if is_error (snd p)
           then then_op (on_this (on_members union_destroy))
                  (then_op (on_this (set_code (code (snd p)))) take_category) p
           else (case (union_value (members (fst p)), union_value (members (snd p))) of
               (Inr d, Inr v) \<Rightarrow> (case move_assign T d v of
                   Inl (e, d', v') \<Rightarrow> Raise e ((fst p)\<lparr>members := Value_Member d'\<rparr>, (snd p)\<lparr>members := Value_Member v'\<rparr>)
                 | Inr (d', v') \<Rightarrow> Ok () ((fst p)\<lparr>members := Value_Member d'\<rparr>, (snd p)\<lparr>members := Value_Member v'\<rparr>))
             | (Inl f, _) \<Rightarrow> Fault f
             | (Inr _, Inl f) \<Rightarrow> Fault f)))"

definition eo_dtor :: "('v error_or, 'e, unit) op" where
  "eo_dtor = noexcept (\<lambda>x. if \<not> is_error x then on_members union_destroy x else Ok () x)"

text \<open>Copy assignment copies, moves from the copy, and destroys it at the end of the function.\<close>

definition eo_copy_assign :: "('v, 'e) element_type \<Rightarrow> ('v error_or \<times> 'v error_or, 'e, unit) op" where
  "eo_copy_assign T p = (case eo_copy_ctor T (snd p, snd p) of
      Fault f \<Rightarrow> Fault f
    | Raise e q \<Rightarrow> Raise e p
    | Ok _ (copy, other) \<Rightarrow> (case eo_move_assign T (fst p, copy) of
          Fault f \<Rightarrow> Fault f
        | Raise e (this, copy') \<Rightarrow> (case (eo_dtor copy' :: ('v error_or, 'e, unit) outcome) of
              Fault f \<Rightarrow> Fault f | Raise e' _ \<Rightarrow> Fault Terminated | Ok _ _ \<Rightarrow> Raise e (this, other))
        | Ok _ (this, copy') \<Rightarrow> (case (eo_dtor copy' :: ('v error_or, 'e, unit) outcome) of
              Fault f \<Rightarrow> Fault f | Raise e' _ \<Rightarrow> Fault Terminated | Ok _ _ \<Rightarrow> Ok () (this, other))))"

text \<open>\<open>operator=(Value \&\&)\<close> and \<open>operator=(Value const \&)\<close>: \<open>code\<close> is cleared before the construction.\<close>

definition eo_assign_rvalue :: "('v, 'e) element_type \<Rightarrow> 'v \<Rightarrow> ('v error_or, 'e, unit) op" where
  "eo_assign_rvalue T v = noexcept (\<lambda>x.
     if is_error x
     then then_op (set_code 0) (on_members (union_construct
            (case move_construct T v of Inl (e, _) \<Rightarrow> Inl e | Inr (w, _) \<Rightarrow> Inr w))) x
     else (case union_value (members x) of
         Inl f \<Rightarrow> Fault f
       | Inr d \<Rightarrow> (case move_assign T d v of
             Inl (e, d', _) \<Rightarrow> Raise e (x\<lparr>members := Value_Member d'\<rparr>)
           | Inr (d', _) \<Rightarrow> Ok () (x\<lparr>members := Value_Member d'\<rparr>))))"

definition eo_assign_value :: "('v, 'e) element_type \<Rightarrow> 'v \<Rightarrow> ('v error_or, 'e, unit) op" where
  "eo_assign_value T v = (\<lambda>x.
     if is_error x
     then then_op (set_code 0) (on_members (union_construct (copy_construct T v))) x
     else (case union_value (members x) of
         Inl f \<Rightarrow> Fault f
       | Inr d \<Rightarrow> (case copy_assign T d v of
             Inl (e, d') \<Rightarrow> Raise e (x\<lparr>members := Value_Member d'\<rparr>)
           | Inr d' \<Rightarrow> Ok () (x\<lparr>members := Value_Member d'\<rparr>))))"

section \<open>Access\<close>

definition eo_error :: "'v error_or \<Rightarrow> fault + error_code" where
  "eo_error x = (if is_error x
     then read1 (\<lambda>c. \<lparr>ec_value = code x, ec_category = c\<rparr>) (union_category (members x))
     else Inr no_error)"

text \<open>\<open>get\<close> throws the error or gives access to the value; \<open>move_value\<close> does the same.\<close>

definition eo_get :: "('v error_or, error_code, 'v) op" where
  "eo_get x = (if is_error x
     then (case eo_error x of Inl f \<Rightarrow> Fault f | Inr e \<Rightarrow> throw_error e x)
     else (case union_value (members x) of Inl f \<Rightarrow> Fault f | Inr v \<Rightarrow> Ok v x))"

definition eo_throw_if_error :: "('v error_or, error_code, unit) op" where
  "eo_throw_if_error x = (if is_error x
     then (case eo_error x of Inl f \<Rightarrow> Fault f | Inr e \<Rightarrow> throw_error e x)
     else Ok () x)"

definition eo_move_value :: "('v error_or, error_code, 'v) op" where
  "eo_move_value = then_op eo_throw_if_error
     (\<lambda>x. case union_value (members x) of Inl f \<Rightarrow> Fault f | Inr v \<Rightarrow> Ok v x)"

text \<open>\<open>get_ptr\<close>: \<open>None\<close> is null; otherwise the pointer is to the value member, alive or not.\<close>

definition eo_get_ptr :: "'v error_or \<Rightarrow> 'v eo_union option" where
  "eo_get_ptr x = (if is_error x then None else Some (members x))"

definition eo_get_optional :: "('v, 'e) element_type \<Rightarrow> ('v error_or, 'e, 'v optional_obj) op" where
  "eo_get_optional T x = (case eo_get_ptr x of
      None \<Rightarrow> Ok opt_none x
    | Some u \<Rightarrow> (case union_value u of
          Inl f \<Rightarrow> Fault f
        | Inr v \<Rightarrow> (case move_construct T v of
              Inl (e, v') \<Rightarrow> Fault Terminated
            | Inr (w, v') \<Rightarrow> Ok \<lparr>is_set = True, storage = Live w\<rparr> (x\<lparr>members := Value_Member v'\<rparr>))))"

section \<open>Comparison, hashing, mapping\<close>

definition eo_equals ::
    "('v \<Rightarrow> 'w \<Rightarrow> bool) \<Rightarrow> 'v error_or \<Rightarrow> 'w error_or \<Rightarrow> fault + bool" where
  "eo_equals eq x y =
     (if is_error x \<noteq> is_error y then Inr False
      else if is_error x then read2 (=) (eo_error x) (eo_error y)
      else read2 eq (union_value (members x)) (union_value (members y)))"

definition eo_equals_value :: "('v \<Rightarrow> 'w \<Rightarrow> bool) \<Rightarrow> 'v error_or \<Rightarrow> 'w \<Rightarrow> fault + bool" where
  "eo_equals_value eq x right =
     (if is_error x then Inr False else read1 (\<lambda>v. eq v right) (union_value (members x)))"

definition eo_equals_error :: "'v error_or \<Rightarrow> error_code \<Rightarrow> fault + bool" where
  "eo_equals_error x right = (if \<not> is_error x then Inr False else read1 (\<lambda>e. e = right) (eo_error x))"

definition eo_not_equal ::
    "('v \<Rightarrow> 'w \<Rightarrow> bool) \<Rightarrow> 'v error_or \<Rightarrow> 'w error_or \<Rightarrow> fault + bool" where
  "eo_not_equal eq x y = read1 Not (eo_equals eq x y)"

text \<open>\<open>operator<\<close>; \<open>lt_error\<close> and \<open>lt\<close> are the orders of the two alternatives.\<close>

definition eo_less ::
    "(error_code \<Rightarrow> error_code \<Rightarrow> bool) \<Rightarrow> ('v \<Rightarrow> 'v \<Rightarrow> bool) \<Rightarrow> 'v error_or \<Rightarrow> 'v error_or \<Rightarrow> fault + bool" where
  "eo_less lt_error lt x y =
     (if is_error x
      then (if is_error y then read2 lt_error (eo_error x) (eo_error y) else Inr True)
      else (if is_error y then Inr False
            else read2 lt (union_value (members x)) (union_value (members y))))"

definition eo_hash_value ::
    "(error_code \<Rightarrow> nat) \<Rightarrow> ('v \<Rightarrow> nat) \<Rightarrow> 'v error_or \<Rightarrow> fault + nat" where
  "eo_hash_value hash_error hash_val x =
     (if is_error x then read1 hash_error (eo_error x) else read1 hash_val (union_value (members x)))"

definition eo_print ::
    "(error_code \<Rightarrow> string) \<Rightarrow> ('v \<Rightarrow> string) \<Rightarrow> 'v error_or \<Rightarrow> fault + string" where
  "eo_print show_error show_val x =
     (if is_error x then read1 show_error (eo_error x) else read1 show_val (union_value (members x)))"

definition eo_map :: "'v error_or \<Rightarrow> ('v \<Rightarrow> 'w) \<Rightarrow> fault + 'w error_or" where
  "eo_map maybe on_value =
     (if is_error maybe then read1 eo_from_error (eo_error maybe)
      else read1 (\<lambda>v. \<lparr>code = 0, members = Value_Member (on_value v)\<rparr>) (union_value (members maybe)))"

section \<open>Invariant and abstraction\<close>

definition eo_inv :: "'v error_or \<Rightarrow> bool" where
  "eo_inv x \<longleftrightarrow> (case members x of
      Value_Member v \<Rightarrow> code x = 0 | Category_Member c \<Rightarrow> code x \<noteq> 0 | Nothing \<Rightarrow> False)"

definition eo_abs :: "'v error_or \<Rightarrow> error_code + 'v" where
  "eo_abs x = (case members x of
      Value_Member v \<Rightarrow> Inr v
    | Category_Member c \<Rightarrow> Inl \<lparr>ec_value = code x, ec_category = c\<rparr>
    | Nothing \<Rightarrow> Inl no_error)"

lemma eo_inv_cases:
  assumes "eo_inv x"
  obtains (val) v where "x = \<lparr>code = 0, members = Value_Member v\<rparr>"
        | (err) n c where "n \<noteq> 0" "x = \<lparr>code = n, members = Category_Member c\<rparr>"
  using assms by (cases x; cases "members x") (auto simp: eo_inv_def)

lemma eo_inv_simps [simp]:
  "eo_inv \<lparr>code = n, members = Value_Member v\<rparr> \<longleftrightarrow> n = 0"
  "eo_inv \<lparr>code = n, members = Category_Member c\<rparr> \<longleftrightarrow> n \<noteq> 0"
  "\<not> eo_inv \<lparr>code = n, members = Nothing\<rparr>"
  by (simp_all add: eo_inv_def)

lemma eo_abs_simps [simp]:
  "eo_abs \<lparr>code = n, members = Value_Member v\<rparr> = Inr v"
  "eo_abs \<lparr>code = n, members = Category_Member c\<rparr> = Inl \<lparr>ec_value = n, ec_category = c\<rparr>"
  by (simp_all add: eo_abs_def)

lemma is_error_simp [simp]: "is_error \<lparr>code = n, members = u\<rparr> \<longleftrightarrow> n \<noteq> 0"
  by (simp add: is_error_def)

lemmas eo_op_defs = eo_move_ctor_def eo_copy_ctor_def eo_move_assign_def eo_assign_rvalue_def
  eo_assign_value_def eo_dtor_def take_category_def copy_value_def move_value_def on_members_def
  set_code_def outcome_defs Let_def

lemma eo_dtor_inv: "eo_inv x \<Longrightarrow> leaves (eo_dtor x) (\<lambda>y. \<forall>v. members y \<noteq> Value_Member v)"
  by (cases x rule: eo_inv_cases) (auto simp: eo_op_defs)

lemma eo_dtor_ok:
  "eo_inv x \<Longrightarrow> \<exists>y. (eo_dtor x :: ('v error_or, 'e, unit) outcome) = Ok () y" for x :: "'v error_or"
  by (cases x rule: eo_inv_cases) (auto simp: eo_op_defs)

lemma eo_move_assign_result:
  assumes T: "nothrow_movable T" and inv: "eo_inv a" "eo_inv b"
  shows "\<exists>a' b'. eo_move_assign T (a, b) = Ok () (a', b') \<and> eo_inv a' \<and> eo_inv b' \<and>
    is_error b' = is_error b \<and> (regular T \<longrightarrow> eo_abs a' = eo_abs b)"
proof (cases rule: eo_inv_cases [OF inv(1)]; cases rule: eo_inv_cases [OF inv(2)])
  fix d v assume "a = \<lparr>code = 0, members = Value_Member d\<rparr>" "b = \<lparr>code = 0, members = Value_Member v\<rparr>"
  with nothrow_move_assign [OF T, of d v] regular_move_assign [of T d v] show ?thesis
    by (auto simp: eo_op_defs)
next
  fix n c v assume "n \<noteq> 0" "a = \<lparr>code = n, members = Category_Member c\<rparr>" "b = \<lparr>code = 0, members = Value_Member v\<rparr>"
  with nothrow_move_construct [OF T, of v] regular_move_construct [of T v] show ?thesis
    by (auto simp: eo_op_defs)
qed (auto simp: eo_op_defs)

lemma eo_copy_ctor_result:
  assumes "eo_inv b"
  shows "case eo_copy_ctor T (a, b) of
      Ok _ (a', b') \<Rightarrow> eo_inv a' \<and> b' = b \<and> (regular T \<longrightarrow> eo_abs a' = eo_abs b)
    | Raise e (a', b') \<Rightarrow> b' = b \<and> \<not> is_error b
    | Fault f \<Rightarrow> False"
  using assms
proof (cases b rule: eo_inv_cases)
  case (val v)
  with regular_copy_construct [of T v] show ?thesis by (cases "copy_construct T v") (auto simp: eo_op_defs)
qed (auto simp: eo_op_defs)

lemma eo_copy_assign_result:
  assumes T: "nothrow_movable T" and inv: "eo_inv a" "eo_inv b"
  shows "case eo_copy_assign T (a, b) of
      Ok _ (a', b') \<Rightarrow> eo_inv a' \<and> b' = b \<and> (regular T \<longrightarrow> eo_abs a' = eo_abs b)
    | Raise e (a', b') \<Rightarrow> a' = a \<and> b' = b
    | Fault f \<Rightarrow> False"
proof -
  note c = eo_copy_ctor_result [OF inv(2), of T b]
  show ?thesis
  proof (cases "eo_copy_ctor T (b, b)")
    case (Ok r q)
    obtain copy other where q: "q = (copy, other)" by fastforce
    with c Ok have copy: "eo_inv copy" "other = b" "regular T \<longrightarrow> eo_abs copy = eo_abs b" by simp_all
    from eo_move_assign_result [OF T inv(1) copy(1)] obtain a' copy' where
      m: "eo_move_assign T (a, copy) = Ok () (a', copy')" "eo_inv a'" "eo_inv copy'"
        "regular T \<longrightarrow> eo_abs a' = eo_abs copy" by blast
    from eo_dtor_ok [OF m(3)] obtain y where "(eo_dtor copy' :: ('a error_or, 'b, unit) outcome) = Ok () y" by blast
    with Ok q m copy show ?thesis by (simp add: eo_copy_assign_def)
  qed (use c in \<open>auto simp: eo_copy_assign_def\<close>)
qed

lemma eo_assign_rvalue_result:
  assumes T: "nothrow_movable T" and inv: "eo_inv a"
  shows "\<exists>a'. eo_assign_rvalue T v a = Ok () a' \<and> eo_inv a' \<and> (regular T \<longrightarrow> eo_abs a' = Inr v)"
  using inv
proof (cases a rule: eo_inv_cases)
  case (val d)
  with nothrow_move_assign [OF T, of d v] regular_move_assign [of T d v] show ?thesis by (auto simp: eo_op_defs)
next
  case (err n c)
  with nothrow_move_construct [OF T, of v] regular_move_construct [of T v] show ?thesis by (auto simp: eo_op_defs)
qed

lemma eo_assign_value_inv:
  assumes "eo_inv a" "copy_construct T v = Inr w"
  shows "leaves (eo_assign_value T v a) eo_inv"
  using assms by (cases a rule: eo_inv_cases) (auto simp: eo_op_defs split: sum.splits)

section \<open>Properties\<close>

datatype ('v, 'e) eo_call =
    Eo_Move_Assign | Eo_Copy_Assign | Eo_Assign_Rvalue 'v | Eo_Assign_Value 'v | Eo_Assign_Error error_code
  | Eo_Exchange_Roles

text \<open>Assigning an error converts it to an \<open>error_or\<close> and moves from that temporary.\<close>

fun eo_exec :: "('v, 'e) element_type \<Rightarrow> ('v, 'e) eo_call \<Rightarrow> ('v error_or \<times> 'v error_or, 'e, unit) op" where
  "eo_exec T Eo_Move_Assign p = eo_move_assign T p"
| "eo_exec T Eo_Copy_Assign p = eo_copy_assign T p"
| "eo_exec T (Eo_Assign_Rvalue v) p = on_this (eo_assign_rvalue T v) p"
| "eo_exec T (Eo_Assign_Value v) p = on_this (eo_assign_value T v) p"
| "eo_exec T (Eo_Assign_Error e) p = (case eo_move_assign T (fst p, eo_from_error e) of
      Ok r q \<Rightarrow> Ok r (fst q, snd p) | Raise x q \<Rightarrow> Raise x (fst q, snd p) | Fault f \<Rightarrow> Fault f)"
| "eo_exec T Eo_Exchange_Roles p = Ok () (snd p, fst p)"

fun eo_run :: "('v, 'e) element_type \<Rightarrow> ('v, 'e) eo_call list \<Rightarrow> ('v error_or \<times> 'v error_or, 'e, unit) op" where
  "eo_run T [] p = Ok () p"
| "eo_run T (c # cs) p = (case eo_exec T c p of
      Ok _ q \<Rightarrow> eo_run T cs q | Raise e q \<Rightarrow> eo_run T cs q | Fault f \<Rightarrow> Fault f)"

text \<open>Errors that are assigned are errors, and the copy constructor behind \<open>operator=(Value const \&)\<close> returns.\<close>

fun eo_call_ok :: "('v, 'e) element_type \<Rightarrow> ('v, 'e) eo_call \<Rightarrow> bool" where
  "eo_call_ok T (Eo_Assign_Error e) \<longleftrightarrow> is_set_error e"
| "eo_call_ok T (Eo_Assign_Value v) \<longleftrightarrow> (\<exists>w. copy_construct T v = Inr w)"
| "eo_call_ok T _ \<longleftrightarrow> True"

lemma eo_exec_inv:
  assumes T: "nothrow_movable T" and inv: "eo_inv (fst p)" "eo_inv (snd p)" and c: "eo_call_ok T c"
  shows "leaves (eo_exec T c p) (\<lambda>q. eo_inv (fst q) \<and> eo_inv (snd q))"
proof (cases c)
  case Eo_Move_Assign
  with eo_move_assign_result [OF T inv] show ?thesis by auto
next
  case Eo_Copy_Assign
  with eo_copy_assign_result [OF T inv] inv show ?thesis
    by (cases "eo_copy_assign T p") auto
next
  case (Eo_Assign_Rvalue v)
  with eo_assign_rvalue_result [OF T inv(1), of v] inv(2) show ?thesis by (auto simp: on_this_def)
next
  case (Eo_Assign_Value v)
  with c obtain w where "copy_construct T v = Inr w" by auto
  from eo_assign_value_inv [OF inv(1) this] Eo_Assign_Value inv(2) show ?thesis
    by (cases "eo_assign_value T v (fst p)") (auto simp: on_this_def)
next
  case (Eo_Assign_Error e)
  with c have "eo_inv (eo_from_error e :: 'a error_or)" by (simp add: eo_from_error_def is_set_error_def)
  from eo_move_assign_result [OF T inv(1) this] Eo_Assign_Error inv(2) show ?thesis by auto
next
  case Eo_Exchange_Roles
  with inv show ?thesis by simp
qed

lemma eo_run_inv:
  assumes "nothrow_movable T"
  shows "eo_inv a \<Longrightarrow> eo_inv b \<Longrightarrow> \<forall>c \<in> set calls. eo_call_ok T c \<Longrightarrow>
    leaves (eo_run T calls (a, b)) (\<lambda>(a', b'). eo_inv a' \<and> eo_inv b')"
proof (induction calls arbitrary: a b)
  case (Cons c cs)
  with eo_exec_inv [OF assms, of "(a, b)" c] show ?case
    by (cases "eo_exec T c (a, b)") auto
qed simp

text \<open>
  C13: any sequence of assignments to two \<open>error_or\<close> objects, from each other, from values whose
  \<open>operator=(Value const \&)\<close> does not throw, and from error codes that are set (not zero), for a value
  whose moves do not throw and whose copies may throw everywhere else: \<open>code\<close> always says what lives in
  the union, and no member is read, overwritten or destroyed that is not alive; the destructors at the
  end leave no value alive.
\<close>

theorem eo_run_lifetime_safe:
  assumes "nothrow_movable T" "eo_inv a" "eo_inv b" "\<forall>c \<in> set calls. eo_call_ok T c"
  shows "leaves (eo_run T calls (a, b)) (\<lambda>(a', b'). eo_inv a' \<and> eo_inv b' \<and>
    leaves (eo_dtor a') (\<lambda>y. \<forall>v. members y \<noteq> Value_Member v) \<and>
    leaves (eo_dtor b') (\<lambda>y. \<forall>v. members y \<noteq> Value_Member v))"
  by (rule leaves_mono [OF eo_run_inv [OF assms]]) (auto intro: eo_dtor_inv)

lemma eo_run_lifetime_safe_witness:
  "leaves (eo_run (trivial_type :: (int, unit) element_type)
      [Eo_Copy_Assign, Eo_Assign_Error \<lparr>ec_value = 5, ec_category = 1\<rparr>, Eo_Exchange_Roles, Eo_Move_Assign]
      (eo_default 0, eo_default 7))
    (\<lambda>(a', b'). eo_inv a' \<and> eo_inv b' \<and> leaves (eo_dtor a') (\<lambda>y. \<forall>v. members y \<noteq> Value_Member v) \<and>
      leaves (eo_dtor b') (\<lambda>y. \<forall>v. members y \<noteq> Value_Member v))"
  by (rule eo_run_lifetime_safe) (simp_all add: eo_default_def is_set_error_def)

text \<open>
  Copy assignment has the strong exception guarantee and transports the value or the error: if it
  throws, both objects are unchanged.
\<close>

theorem eo_copy_assign_refines:
  assumes "nothrow_movable T" "regular T" "eo_inv a" "eo_inv b"
  shows "case eo_copy_assign T (a, b) of
      Ok _ (a', b') \<Rightarrow> eo_inv a' \<and> eo_abs a' = eo_abs b \<and> b' = b
    | Raise e (a', b') \<Rightarrow> a' = a \<and> b' = b
    | Fault f \<Rightarrow> False"
  using eo_copy_assign_result [OF assms(1,3,4)] assms(2)
  by (auto split: outcome.splits prod.splits)

lemma eo_copy_assign_refines_witness:
  "case eo_copy_assign partial_copy (eo_from_error \<lparr>ec_value = 5, ec_category = 1\<rparr>, eo_default (- 1)) of
      Ok _ (a', b') \<Rightarrow> False | Raise e (a', b') \<Rightarrow> code a' = 5 \<and> e = ''negative'' | Fault f \<Rightarrow> False"
proof -
  have "nothrow_movable partial_copy" "regular partial_copy"
    by (auto simp: nothrow_movable_def regular_def partial_copy_def split: if_splits)
  from eo_copy_assign_refines [OF this, of "eo_from_error \<lparr>ec_value = 5, ec_category = 1\<rparr>" "eo_default (- 1)"]
  show ?thesis
    by (simp add: eo_from_error_def eo_default_def eo_copy_assign_def eo_op_defs partial_copy_def)
qed

text \<open>
  \<open>operator=(Value const \&)\<close> on an object that holds an error clears \<open>code\<close> before it copies the
  value.  If the copy constructor throws, the object claims to hold a value while the category pointer
  is still in the union, and its destructor destroys a value that was never constructed.
\<close>

theorem eo_assign_value_not_exception_safe:
  fixes x :: "'v error_or"
  assumes "eo_inv x" "is_error x" "copy_construct T v = Inl e"
  shows "\<exists>x'. eo_assign_value T v x = Raise e x' \<and> \<not> is_error x' \<and>
    (eo_dtor x' :: ('v error_or, 'e, unit) outcome) = Fault Wrong_Alternative"
  using assms by (cases x rule: eo_inv_cases) (auto simp: eo_op_defs)

lemma eo_assign_value_not_exception_safe_witness:
  "\<exists>x'. eo_assign_value partial_copy (- 1) (eo_from_error \<lparr>ec_value = 5, ec_category = 1\<rparr>) = Raise ''negative'' x' \<and>
     \<not> is_error x'"
  using eo_assign_value_not_exception_safe [of "eo_from_error \<lparr>ec_value = 5, ec_category = 1\<rparr>" partial_copy "- 1" "''negative''"]
  by (auto simp: eo_from_error_def partial_copy_def)

text \<open>
  An \<open>error_or\<close> made from an error code whose number is 0 claims to hold a value but has none:
  \<open>get\<close> reads, and the destructor destroys, a value that was never constructed.
\<close>

theorem eo_from_zero_error_has_no_value:
  assumes "\<not> is_set_error e"
  shows "\<not> is_error (eo_from_error e :: 'v error_or)"
    and "eo_get (eo_from_error e :: 'v error_or) = Fault Wrong_Alternative"
    and "(eo_dtor (eo_from_error e) :: ('v error_or, 'e, unit) outcome) = Fault Wrong_Alternative"
  using assms by (simp_all add: is_set_error_def eo_from_error_def eo_get_def eo_op_defs)

lemma eo_from_zero_error_has_no_value_witness:
  "eo_get (eo_from_error no_error :: int error_or) = Fault Wrong_Alternative"
  by (rule eo_from_zero_error_has_no_value(2)) (simp add: is_set_error_def no_error_def)

text \<open>
  With total orders on error codes and values, \<open>operator<\<close> and equality of \<open>error_or\<close> form a total
  order in which every error is below every value; equal objects have equal hashes.
\<close>

theorem eo_order_trichotomy:
  fixes x y :: "'v::linorder error_or"
  assumes "eo_inv x" "eo_inv y"
    and "\<forall>a b. (lt a b \<and> \<not> lt b a \<and> a \<noteq> b) \<or> (\<not> lt a b \<and> \<not> lt b a \<and> a = b) \<or> (\<not> lt a b \<and> lt b a \<and> a \<noteq> b)"
  shows "(eo_less lt (<) x y, eo_equals (=) x y, eo_less lt (<) y x) \<in>
      {(Inr True, Inr False, Inr False), (Inr False, Inr True, Inr False), (Inr False, Inr False, Inr True)}
    \<and> (eo_equals (=) x y \<noteq> Inr True \<or> eo_hash_value he hv x = eo_hash_value he hv y)"
proof (cases rule: eo_inv_cases [OF assms(1)]; cases rule: eo_inv_cases [OF assms(2)])
  fix n c n' c'
  assume x: "n \<noteq> 0" "x = \<lparr>code = n, members = Category_Member c\<rparr>"
    and y: "n' \<noteq> 0" "y = \<lparr>code = n', members = Category_Member c'\<rparr>"
  let ?a = "\<lparr>ec_value = n, ec_category = c\<rparr>" and ?b = "\<lparr>ec_value = n', ec_category = c'\<rparr>"
  from assms(3) have "(lt ?a ?b \<and> \<not> lt ?b ?a \<and> ?a \<noteq> ?b) \<or> (\<not> lt ?a ?b \<and> \<not> lt ?b ?a \<and> ?a = ?b) \<or>
    (\<not> lt ?a ?b \<and> lt ?b ?a \<and> ?a \<noteq> ?b)" by blast
  with x y show ?thesis by (auto simp: eo_less_def eo_equals_def eo_error_def eo_hash_value_def)
qed (auto simp: eo_less_def eo_equals_def eo_error_def eo_hash_value_def)

definition error_code_less :: "error_code \<Rightarrow> error_code \<Rightarrow> bool" where
  "error_code_less a b \<longleftrightarrow> ec_category a < ec_category b \<or> ec_category a = ec_category b \<and> ec_value a < ec_value b"

lemma eo_order_trichotomy_witness:
  "eo_less error_code_less (<) (eo_from_error \<lparr>ec_value = 5, ec_category = 1\<rparr>) (eo_default (3 :: int)) = Inr True"
proof -
  have total: "\<forall>a b. (error_code_less a b \<and> \<not> error_code_less b a \<and> a \<noteq> b) \<or>
    (\<not> error_code_less a b \<and> \<not> error_code_less b a \<and> a = b) \<or> (\<not> error_code_less a b \<and> error_code_less b a \<and> a \<noteq> b)"
  proof (intro allI)
    fix a b :: error_code
    show "(error_code_less a b \<and> \<not> error_code_less b a \<and> a \<noteq> b) \<or>
      (\<not> error_code_less a b \<and> \<not> error_code_less b a \<and> a = b) \<or> (\<not> error_code_less a b \<and> error_code_less b a \<and> a \<noteq> b)"
      by (cases a; cases b) (simp add: error_code_less_def, linarith)
  qed
  have "eo_inv (eo_from_error \<lparr>ec_value = 5, ec_category = 1\<rparr> :: int error_or)" "eo_inv (eo_default (3 :: int))"
    by (simp_all add: eo_from_error_def eo_default_def)
  from eo_order_trichotomy [OF this total, where he = "\<lambda>_. 0" and hv = nat] show ?thesis
    by (simp add: eo_less_def eo_equals_def eo_from_error_def eo_default_def)
qed

end
