(* ===== verification/Expected.thy ===== *)
theory Expected
  imports Optional
begin

text \<open>
  \<open>silicium/expected.hpp\<close>: a value or an exception pointer in a union, and the state that says which of
  them lives there.  Exception pointers are plain values that are copied and moved without throwing.
  \<open>operator=(T const \&)\<close> is not modelled: it assigns an enumerator to the storage member, which no
  compiler accepts when the function is instantiated.
\<close>

section \<open>Objects\<close>

datatype expected_state = Has_Value | Has_Exception

datatype ('a, 'x) ex_union = Ex_Raw | Ex_Value 'a | Ex_Exception 'x

record ('a, 'x) expected =
  m_state :: expected_state
  ex_members :: "('a, 'x) ex_union"

type_synonym ('a, 'x, 'e, 'r) ex_op = "(('a, 'x) ex_union, 'e, 'r) op"

fun value_construct :: "'e + 'a \<Rightarrow> ('a, 'x, 'e, unit) ex_op" where
  "value_construct (Inl e) Ex_Raw = Raise e Ex_Raw"
| "value_construct (Inr v) Ex_Raw = Ok () (Ex_Value v)"
| "value_construct init _ = Fault Live_Object"

fun value_destroy :: "('a, 'x, 'e, unit) ex_op" where
  "value_destroy (Ex_Value v) = Ok () Ex_Raw"
| "value_destroy Ex_Raw = Fault Dead_Object"
| "value_destroy (Ex_Exception x) = Fault Wrong_Alternative"

fun exception_construct :: "'x \<Rightarrow> ('a, 'x, 'e, unit) ex_op" where
  "exception_construct x Ex_Raw = Ok () (Ex_Exception x)"
| "exception_construct x _ = Fault Live_Object"

fun exception_destroy :: "('a, 'x, 'e, unit) ex_op" where
  "exception_destroy (Ex_Exception x) = Ok () Ex_Raw"
| "exception_destroy Ex_Raw = Fault Dead_Object"
| "exception_destroy (Ex_Value v) = Fault Wrong_Alternative"

fun value_address :: "('a, 'x) ex_union \<Rightarrow> fault + 'a" where
  "value_address (Ex_Value v) = Inr v"
| "value_address Ex_Raw = Inl Dead_Object"
| "value_address (Ex_Exception x) = Inl Wrong_Alternative"

fun exception_address :: "('a, 'x) ex_union \<Rightarrow> fault + 'x" where
  "exception_address (Ex_Exception x) = Inr x"
| "exception_address Ex_Raw = Inl Dead_Object"
| "exception_address (Ex_Value v) = Inl Wrong_Alternative"

definition on_ex :: "('a, 'x, 'e, 'r) ex_op \<Rightarrow> (('a, 'x) expected, 'e, 'r) op" where
  "on_ex m s = (case m (ex_members s) of
      Ok r u \<Rightarrow> Ok r (s\<lparr>ex_members := u\<rparr>)
    | Raise e u \<Rightarrow> Raise e (s\<lparr>ex_members := u\<rparr>)
    | Fault f \<Rightarrow> Fault f)"

definition set_state :: "expected_state \<Rightarrow> (('a, 'x) expected, 'e, unit) op" where
  "set_state st = modify (m_state_update (\<lambda>_. st))"

definition ex_raw :: "expected_state \<Rightarrow> ('a, 'x) expected" where
  "ex_raw st = \<lparr>m_state = st, ex_members = Ex_Raw\<rparr>"

section \<open>Constructors, destructor, assignment\<close>

text \<open>The constructors of a value; \<open>init\<close> is the outcome of the constructor of \<open>T\<close> that is called.\<close>

definition ex_from_value :: "'e + 'a \<Rightarrow> (('a, 'x) expected, 'e, unit) op" where
  "ex_from_value init = (\<lambda>_. on_ex (value_construct init) (ex_raw Has_Value))"

definition ex_from_exception :: "'x \<Rightarrow> (('a, 'x) expected, 'e, unit) op" where
  "ex_from_exception x = (\<lambda>_. on_ex (exception_construct x) (ex_raw Has_Exception))"

text \<open>Moving out of and copying from the union of \<open>other\<close> (second) into the one of \<open>*this\<close> (first).\<close>

definition move_value_into ::
    "('a, 'e) element_type \<Rightarrow> (('a, 'x) expected \<times> ('a, 'x) expected, 'e, unit) op" where
  "move_value_into T p = (case value_address (ex_members (snd p)) of
      Inl f \<Rightarrow> Fault f
    | Inr v \<Rightarrow> (case move_construct T v of
          Inl (e, v') \<Rightarrow> Raise e (fst p, (snd p)\<lparr>ex_members := Ex_Value v'\<rparr>)
        | Inr (w, v') \<Rightarrow> on_this (on_ex (value_construct (Inr w))) (fst p, (snd p)\<lparr>ex_members := Ex_Value v'\<rparr>)))"

definition copy_value_into ::
    "('a, 'e) element_type \<Rightarrow> (('a, 'x) expected \<times> ('a, 'x) expected, 'e, unit) op" where
  "copy_value_into T p = (case value_address (ex_members (snd p)) of
      Inl f \<Rightarrow> Fault f
    | Inr v \<Rightarrow> on_this (on_ex (value_construct (copy_construct T v))) p)"

definition take_exception_into :: "(('a, 'x) expected \<times> ('a, 'x) expected, 'e, unit) op" where
  "take_exception_into p = (case exception_address (ex_members (snd p)) of
      Inl f \<Rightarrow> Fault f
    | Inr x \<Rightarrow> on_this (on_ex (exception_construct x)) p)"

definition assign_exception :: "(('a, 'x) expected \<times> ('a, 'x) expected, 'e, unit) op" where
  "assign_exception p = (case (exception_address (ex_members (fst p)), exception_address (ex_members (snd p))) of
      (Inl f, _) \<Rightarrow> Fault f
    | (Inr _, Inl f) \<Rightarrow> Fault f
    | (Inr _, Inr x) \<Rightarrow> Ok () ((fst p)\<lparr>ex_members := Ex_Exception x\<rparr>, snd p))"

definition ex_move_ctor ::
    "('a, 'e) element_type \<Rightarrow> (('a, 'x) expected \<times> ('a, 'x) expected, 'e, unit) op" where
  "ex_move_ctor T = (\<lambda>(this, other). case m_state other of
      Has_Value \<Rightarrow> move_value_into T (ex_raw Has_Value, other)
    | Has_Exception \<Rightarrow> take_exception_into (ex_raw Has_Exception, other))"

definition ex_copy_ctor ::
    "('a, 'e) element_type \<Rightarrow> (('a, 'x) expected \<times> ('a, 'x) expected, 'e, unit) op" where
  "ex_copy_ctor T = (\<lambda>(this, other). case m_state other of
      Has_Value \<Rightarrow> copy_value_into T (ex_raw Has_Value, other)
    | Has_Exception \<Rightarrow> take_exception_into (ex_raw Has_Exception, other))"

definition ex_assign_rvalue :: "('a, 'e) element_type \<Rightarrow> 'a \<Rightarrow> (('a, 'x) expected, 'e, unit) op" where
  "ex_assign_rvalue T v = (\<lambda>s. case m_state s of
      Has_Value \<Rightarrow> (case value_address (ex_members s) of
          Inl f \<Rightarrow> Fault f
        | Inr d \<Rightarrow> (case move_assign T d v of
              Inl (e, d', _) \<Rightarrow> Raise e (s\<lparr>ex_members := Ex_Value d'\<rparr>)
            | Inr (d', _) \<Rightarrow> Ok () (s\<lparr>ex_members := Ex_Value d'\<rparr>)))
    | Has_Exception \<Rightarrow>
        then_op (on_ex exception_destroy)
          (then_op (on_ex (value_construct (case move_construct T v of Inl (e, _) \<Rightarrow> Inl e | Inr (w, _) \<Rightarrow> Inr w)))
             (set_state Has_Value)) s)"

definition ex_move_assign ::
    "('a, 'e) element_type \<Rightarrow> (('a, 'x) expected \<times> ('a, 'x) expected, 'e, unit) op" where
  "ex_move_assign T = then_op
     (\<lambda>p. case (m_state (fst p), m_state (snd p)) of
        (Has_Value, Has_Value) \<Rightarrow> (case (value_address (ex_members (fst p)), value_address (ex_members (snd p))) of
            (Inl f, _) \<Rightarrow> Fault f
          | (Inr _, Inl f) \<Rightarrow> Fault f
          | (Inr d, Inr v) \<Rightarrow> (case move_assign T d v of
                Inl (e, d', v') \<Rightarrow> Raise e ((fst p)\<lparr>ex_members := Ex_Value d'\<rparr>, (snd p)\<lparr>ex_members := Ex_Value v'\<rparr>)
              | Inr (d', v') \<Rightarrow> Ok () ((fst p)\<lparr>ex_members := Ex_Value d'\<rparr>, (snd p)\<lparr>ex_members := Ex_Value v'\<rparr>)))
      | (Has_Value, Has_Exception) \<Rightarrow> then_op (on_this (on_ex value_destroy)) take_exception_into p
      | (Has_Exception, Has_Value) \<Rightarrow> then_op (on_this (on_ex exception_destroy)) (move_value_into T) p
      | (Has_Exception, Has_Exception) \<Rightarrow> assign_exception p)
     (\<lambda>p. on_this (set_state (m_state (snd p))) p)"

definition ex_copy_assign ::
    "('a, 'e) element_type \<Rightarrow> (('a, 'x) expected \<times> ('a, 'x) expected, 'e, unit) op" where
  "ex_copy_assign T = then_op
     (\<lambda>p. case (m_state (fst p), m_state (snd p)) of
        (Has_Value, Has_Value) \<Rightarrow> (case (value_address (ex_members (fst p)), value_address (ex_members (snd p))) of
            (Inl f, _) \<Rightarrow> Fault f
          | (Inr _, Inl f) \<Rightarrow> Fault f
          | (Inr d, Inr v) \<Rightarrow> (case copy_assign T d v of
                Inl (e, d') \<Rightarrow> Raise e ((fst p)\<lparr>ex_members := Ex_Value d'\<rparr>, snd p)
              | Inr d' \<Rightarrow> Ok () ((fst p)\<lparr>ex_members := Ex_Value d'\<rparr>, snd p)))
      | (Has_Value, Has_Exception) \<Rightarrow> then_op (on_this (on_ex value_destroy)) take_exception_into p
      | (Has_Exception, Has_Value) \<Rightarrow> then_op (on_this (on_ex exception_destroy)) (copy_value_into T) p
      | (Has_Exception, Has_Exception) \<Rightarrow> assign_exception p)
     (\<lambda>p. on_this (set_state (m_state (snd p))) p)"

definition ex_dtor :: "(('a, 'x) expected, 'e, unit) op" where
  "ex_dtor s = (case m_state s of
      Has_Value \<Rightarrow> on_ex value_destroy s | Has_Exception \<Rightarrow> on_ex exception_destroy s)"

text \<open>\<open>emplace\<close>: the state is not touched.\<close>

definition ex_emplace :: "'e + 'a \<Rightarrow> (('a, 'x) expected, 'e, unit) op" where
  "ex_emplace init = then_op
     (\<lambda>s. case m_state s of
        Has_Value \<Rightarrow> on_ex value_destroy s | Has_Exception \<Rightarrow> on_ex exception_destroy s)
     (on_ex (value_construct init))"

section \<open>Access\<close>

definition ex_value :: "(('a, 'x) expected, 'x, 'a) op" where
  "ex_value s = (case m_state s of
      Has_Value \<Rightarrow> (case value_address (ex_members s) of Inl f \<Rightarrow> Fault f | Inr v \<Rightarrow> Ok v s)
    | Has_Exception \<Rightarrow> (case exception_address (ex_members s) of Inl f \<Rightarrow> Fault f | Inr x \<Rightarrow> Raise x s))"

definition ex_valid :: "('a, 'x) expected \<Rightarrow> bool" where
  "ex_valid s = (case m_state s of Has_Value \<Rightarrow> True | Has_Exception \<Rightarrow> False)"

section \<open>Invariant and abstraction\<close>

definition ex_inv :: "('a, 'x) expected \<Rightarrow> bool" where
  "ex_inv s \<longleftrightarrow> (case m_state s of
      Has_Value \<Rightarrow> \<exists>v. ex_members s = Ex_Value v | Has_Exception \<Rightarrow> \<exists>x. ex_members s = Ex_Exception x)"

definition ex_abs :: "('a, 'x) expected \<Rightarrow> ('x + 'a) option" where
  "ex_abs s = (case ex_members s of
      Ex_Value v \<Rightarrow> Some (Inr v) | Ex_Exception x \<Rightarrow> Some (Inl x) | Ex_Raw \<Rightarrow> None)"

lemma ex_inv_cases:
  assumes "ex_inv s"
  obtains (val) v where "s = \<lparr>m_state = Has_Value, ex_members = Ex_Value v\<rparr>"
        | (exc) x where "s = \<lparr>m_state = Has_Exception, ex_members = Ex_Exception x\<rparr>"
  using assms by (cases s; cases "m_state s") (auto simp: ex_inv_def)

lemma ex_inv_simps [simp]:
  "ex_inv \<lparr>m_state = Has_Value, ex_members = u\<rparr> \<longleftrightarrow> (\<exists>v. u = Ex_Value v)"
  "ex_inv \<lparr>m_state = Has_Exception, ex_members = u\<rparr> \<longleftrightarrow> (\<exists>x. u = Ex_Exception x)"
  by (simp_all add: ex_inv_def)

lemmas ex_op_defs = ex_raw_def on_ex_def set_state_def move_value_into_def copy_value_into_def
  take_exception_into_def assign_exception_def ex_move_ctor_def ex_copy_ctor_def ex_assign_rvalue_def
  ex_move_assign_def ex_copy_assign_def ex_dtor_def ex_emplace_def outcome_defs

lemma ex_value_result:
  "ex_inv s \<Longrightarrow> ex_value s = (case the (ex_abs s) of Inl x \<Rightarrow> Raise x s | Inr v \<Rightarrow> Ok v s)"
  by (cases s rule: ex_inv_cases) (auto simp: ex_value_def ex_abs_def)

lemma ex_move_assign_result:
  assumes T: "nothrow_movable T" and inv: "ex_inv a" "ex_inv b"
  shows "\<exists>a' b'. ex_move_assign T (a, b) = Ok () (a', b') \<and> ex_inv a' \<and> ex_inv b' \<and>
    (regular T \<longrightarrow> ex_abs a' = ex_abs b)"
  using inv(2)
proof (cases b rule: ex_inv_cases)
  case b: (val v)
  obtain w v' where c: "move_construct T v = Inr (w, v')" using nothrow_move_construct [OF T] by blast
  from inv(1) show ?thesis
  proof (cases a rule: ex_inv_cases)
    case (val d)
    obtain d' u where m: "move_assign T d v = Inr (d', u)" using nothrow_move_assign [OF T] by blast
    with val b regular_move_assign [OF _ m] show ?thesis by (auto simp: ex_op_defs ex_abs_def)
  next
    case (exc x)
    with b c regular_move_construct [OF _ c] show ?thesis by (auto simp: ex_op_defs ex_abs_def)
  qed
next
  case (exc x)
  with inv(1) show ?thesis by (cases a rule: ex_inv_cases) (auto simp: ex_op_defs ex_abs_def)
qed

lemma ex_assign_rvalue_result:
  assumes T: "nothrow_movable T" and inv: "ex_inv a"
  shows "\<exists>a'. ex_assign_rvalue T v a = Ok () a' \<and> ex_inv a' \<and> (regular T \<longrightarrow> ex_abs a' = Some (Inr v))"
  using inv
proof (cases a rule: ex_inv_cases)
  case (val d)
  obtain d' u where m: "move_assign T d v = Inr (d', u)" using nothrow_move_assign [OF T] by blast
  with val regular_move_assign [OF _ m] show ?thesis by (auto simp: ex_op_defs ex_abs_def)
next
  case (exc x)
  obtain w v' where c: "move_construct T v = Inr (w, v')" using nothrow_move_construct [OF T] by blast
  with exc regular_move_construct [OF _ c] show ?thesis by (auto simp: ex_op_defs ex_abs_def)
qed

lemma ex_copy_assign_result:
  assumes inv: "ex_inv a" "ex_inv b"
  shows "case ex_copy_assign T (a, b) of
      Ok _ (a', b') \<Rightarrow> ex_inv a' \<and> b' = b \<and> (regular T \<longrightarrow> ex_abs a' = ex_abs b)
    | Raise e (a', b') \<Rightarrow> (m_state a = Has_Value \<longrightarrow> ex_inv a') \<and>
        (m_state a = Has_Exception \<longrightarrow> a' = \<lparr>m_state = Has_Exception, ex_members = Ex_Raw\<rparr>)
    | Fault f \<Rightarrow> False"
  using inv(2)
proof (cases b rule: ex_inv_cases)
  case b: (val v)
  from inv(1) show ?thesis
  proof (cases a rule: ex_inv_cases)
    case (val d)
    with b show ?thesis
      by (cases "copy_assign T d v") (auto simp: ex_op_defs ex_abs_def dest: regular_copy_assign)
  next
    case (exc x)
    with b show ?thesis
      by (cases "copy_construct T v") (auto simp: ex_op_defs ex_abs_def dest: regular_copy_construct)
  qed
next
  case (exc x)
  with inv(1) show ?thesis by (cases a rule: ex_inv_cases) (auto simp: ex_op_defs ex_abs_def)
qed

section \<open>Properties\<close>

text \<open>
  Move assignment and assignment from an rvalue, for a \<open>T\<close> whose moves do not throw: they return,
  the state says what lives in the union, and \<open>value\<close> then returns the value, or rethrows the
  exception, that was assigned.
\<close>

theorem ex_move_assign_refines:
  assumes "nothrow_movable T" "regular T" "ex_inv a" "ex_inv b"
  shows "(\<exists>a' b'. ex_move_assign T (a, b) = Ok () (a', b') \<and> ex_inv a' \<and> ex_inv b' \<and>
      ex_value a' = (case the (ex_abs b) of Inl x \<Rightarrow> Raise x a' | Inr v \<Rightarrow> Ok v a')) \<and>
    (\<exists>a'. ex_assign_rvalue T v a = Ok () a' \<and> ex_inv a' \<and> ex_value a' = Ok v a')"
proof
  from ex_move_assign_result [OF assms(1,3,4)] assms(2) show
    "\<exists>a' b'. ex_move_assign T (a, b) = Ok () (a', b') \<and> ex_inv a' \<and> ex_inv b' \<and>
      ex_value a' = (case the (ex_abs b) of Inl x \<Rightarrow> Raise x a' | Inr v \<Rightarrow> Ok v a')"
    by (metis ex_value_result)
  from ex_assign_rvalue_result [OF assms(1,3), of v] assms(2) ex_value_result show
    "\<exists>a'. ex_assign_rvalue T v a = Ok () a' \<and> ex_inv a' \<and> ex_value a' = Ok v a'" by fastforce
qed

lemma ex_move_assign_refines_witness:
  "\<exists>a'. ex_assign_rvalue (trivial_type :: (int, unit) element_type) 7
     \<lparr>m_state = Has_Exception, ex_members = Ex_Exception ''failed''\<rparr> = Ok () a' \<and> ex_value a' = Ok 7 a'"
  using ex_move_assign_refines [THEN conjunct2, of "trivial_type :: (int, unit) element_type"
    "\<lparr>m_state = Has_Exception, ex_members = Ex_Exception ''failed''\<rparr>"
    "\<lparr>m_state = Has_Exception, ex_members = Ex_Exception ''failed''\<rparr>" 7] by auto

text \<open>
  \<open>emplace\<close> on an \<open>expected\<close> that holds an exception destroys the exception and constructs the
  value, but leaves the state as it was: the object is not valid, \<open>value\<close> rethrows from the storage
  of the value, and the destructor destroys an exception pointer that is no longer there.
\<close>

theorem ex_emplace_after_exception:
  assumes "ex_inv s" "m_state s = Has_Exception"
  shows "\<exists>s'. ex_emplace (Inr v) s = Ok () s' \<and> \<not> ex_valid s' \<and> ex_value s' = Fault Wrong_Alternative \<and>
    ex_dtor s' = Fault Wrong_Alternative"
  using assms by (cases s rule: ex_inv_cases) (auto simp: ex_op_defs ex_valid_def ex_value_def)

lemma ex_emplace_after_exception_witness:
  "\<exists>s'. ex_emplace (Inr 7) \<lparr>m_state = Has_Exception, ex_members = Ex_Exception ''failed''\<rparr> = Ok () s' \<and>
     ex_value s' = (Fault Wrong_Alternative :: ((int, string) expected, string, int) outcome)"
  using ex_emplace_after_exception [of "\<lparr>m_state = Has_Exception, ex_members = Ex_Exception ''failed''\<rparr>" 7]
  by auto

text \<open>
  Copy assignment of a value transports it and leaves \<open>other\<close> alone; when the copy throws, the
  object can still be used exactly if it held a value before: an exception that it held has been
  destroyed by then, and the destructor would destroy it a second time.
\<close>

theorem ex_copy_assign_guarantee:
  fixes T :: "('a, 'e) element_type" and a b :: "('a, 'x) expected"
  assumes "regular T" "ex_inv a" "ex_inv b"
  shows "case ex_copy_assign T (a, b) of
      Ok _ (a', b') \<Rightarrow> ex_inv a' \<and> ex_abs a' = ex_abs b \<and> b' = b
    | Raise e (a', b') \<Rightarrow> (m_state a = Has_Value \<longrightarrow> ex_inv a') \<and>
        (m_state a = Has_Exception \<longrightarrow> (ex_dtor a' :: (('a, 'x) expected, 'e, unit) outcome) = Fault Dead_Object)
    | Fault f \<Rightarrow> False"
  using ex_copy_assign_result [OF assms(2,3), of T] assms(1)
  by (cases "ex_copy_assign T (a, b)") (auto simp: ex_dtor_def on_ex_def)

lemma ex_copy_assign_guarantee_witness:
  "case ex_copy_assign partial_copy (\<lparr>m_state = Has_Exception, ex_members = Ex_Exception ''failed''\<rparr>,
      \<lparr>m_state = Has_Value, ex_members = Ex_Value (- 1)\<rparr>) of
      Ok _ p \<Rightarrow> False
    | Raise e (a', b') \<Rightarrow> (ex_dtor a' :: ((int, string) expected, string, unit) outcome) = Fault Dead_Object
    | Fault f \<Rightarrow> False"
proof -
  have "regular partial_copy" by (simp add: regular_def partial_copy_def split: if_splits)
  from ex_copy_assign_guarantee [OF this, of "\<lparr>m_state = Has_Exception, ex_members = Ex_Exception ''failed''\<rparr>"
      "\<lparr>m_state = Has_Value, ex_members = Ex_Value (- 1)\<rparr>"]
  show ?thesis by (simp add: ex_op_defs partial_copy_def)
qed

end
