(* ===== verification/Variant.thy ===== *)
theory Variant
  imports Silicium_Prelude
begin

text \<open>
  \<open>silicium/variant.hpp\<close>: a tagged union of any number of alternatives.  The elements of all
  alternatives are values of one type \<open>'a\<close>; alternative \<open>i\<close> has the special member functions
  \<open>alternatives vt ! i\<close>.  The code dispatches through tables of functions; an index outside the table is
  the fault \<open>Bad_Index\<close>.  Storage that is reused, or given up, without a destructor call is not a fault
  in C++ but leaks the object; \<open>leaked\<close> counts these.
\<close>

section \<open>combined_storage\<close>

text \<open>
  The index byte of the general template; the specialisation for a single alternative has either a
  flag (\<open>sometimes_invalid\<close>) or nothing (\<open>never_invalid\<close>, for a POD).
\<close>

datatype index_part = Multi nat | Single_Sometimes bool | Single_Never

definition invalid_index :: nat where
  "invalid_index = 255"

fun storage_index :: "index_part \<Rightarrow> nat" where
  "storage_index (Multi i) = i"
| "storage_index (Single_Sometimes valid) = 0"
| "storage_index Single_Never = 0"

fun storage_set_index :: "nat \<Rightarrow> (index_part, 'e, unit) op" where
  "storage_set_index i (Multi _) = Ok () (Multi i)"
| "storage_set_index i p = (if i = 0 then Ok () p else Fault Assertion_Failed)"

fun storage_set_valueless :: "(index_part, 'e, unit) op" where
  "storage_set_valueless (Multi _) = Ok () (Multi invalid_index)"
| "storage_set_valueless (Single_Sometimes _) = Ok () (Single_Sometimes False)"
| "storage_set_valueless Single_Never = Fault Unreachable_Executed"

fun storage_valueless :: "index_part \<Rightarrow> bool" where
  "storage_valueless (Multi i) = (i = invalid_index)"
| "storage_valueless (Single_Sometimes valid) = (\<not> valid)"
| "storage_valueless Single_Never = False"

section \<open>Variants\<close>

text \<open>
  The template arguments: the alternatives, whether a single alternative is a POD, and the flag
  \<open>is_noexcept_movable\<close>.  The union holds nothing or an element of one alternative.
\<close>

record ('a, 'e) variant_type =
  alternatives :: "('a, 'e) element_type list"
  single_is_pod :: bool
  is_noexcept_movable :: bool

datatype 'a union_storage = Vacant | Alive nat 'a

record 'a variant =
  index_of_storage :: index_part
  union_of :: "'a union_storage"
  leaked :: nat

definition initial_index :: "('a, 'e) variant_type \<Rightarrow> index_part" where
  "initial_index vt = (if length (alternatives vt) \<noteq> 1 then Multi 0
     else if single_is_pod vt then Single_Never else Single_Sometimes True)"

definition raw_variant :: "('a, 'e) variant_type \<Rightarrow> 'a variant" where
  "raw_variant vt = \<lparr>index_of_storage = initial_index vt, union_of = Vacant, leaked = 0\<rparr>"

definition valueless :: "'a variant \<Rightarrow> bool" where
  "valueless x = storage_valueless (index_of_storage x)"

text \<open>\<open>index()\<close> is \<open>unsigned\<close>, so that the index of a valueless variant is \<open>2 ^ 32 - 1\<close>.\<close>

definition var_index :: "'a variant \<Rightarrow> nat" where
  "var_index x = (if valueless x then 2 ^ 32 - 1 else storage_index (index_of_storage x))"

text \<open>\<open>set_index\<close> narrows to \<open>unsigned char\<close>.\<close>

definition set_index :: "nat \<Rightarrow> ('a variant, 'e, unit) op" where
  "set_index i x = (case storage_set_index (i mod 256) (index_of_storage x) of
      Ok r p \<Rightarrow> Ok r (x\<lparr>index_of_storage := p\<rparr>)
    | Raise e p \<Rightarrow> Raise e (x\<lparr>index_of_storage := p\<rparr>)
    | Fault f \<Rightarrow> Fault f)"

definition set_valueless_by_exception :: "('a variant, 'e, unit) op" where
  "set_valueless_by_exception x = (case storage_set_valueless (index_of_storage x) of
      Ok r p \<Rightarrow> Ok r (x\<lparr>index_of_storage := p\<rparr>)
    | Raise e p \<Rightarrow> Raise e (x\<lparr>index_of_storage := p\<rparr>)
    | Fault f \<Rightarrow> Fault f)"

section \<open>The tables of storage functions\<close>

definition var_read :: "nat \<Rightarrow> 'a union_storage \<Rightarrow> fault + 'a" where
  "var_read i u = (case u of
      Vacant \<Rightarrow> Inl Dead_Object
    | Alive j v \<Rightarrow> if i = j then Inr v else Inl Wrong_Alternative)"

text \<open>Placement new: an object that is alive in the storage is leaked.\<close>

definition var_construct :: "nat \<Rightarrow> 'e + 'a \<Rightarrow> ('a variant, 'e, unit) op" where
  "var_construct i init x = (case init of
      Inl e \<Rightarrow> Raise e x
    | Inr v \<Rightarrow> Ok () (x\<lparr>union_of := Alive i v,
        leaked := leaked x + (if union_of x = Vacant then 0 else 1)\<rparr>))"

definition destroy_storage :: "('a, 'e) variant_type \<Rightarrow> nat \<Rightarrow> ('a variant, 'e, unit) op" where
  "destroy_storage vt i x =
     (if length (alternatives vt) \<le> i then Fault Bad_Index
      else (case var_read i (union_of x) of
          Inl f \<Rightarrow> Fault f
        | Inr v \<Rightarrow> Ok () (x\<lparr>union_of := Vacant\<rparr>)))"

text \<open>The functions on two storages; \<open>*this\<close> is the first.\<close>

definition move_construct_storage ::
    "('a, 'e) variant_type \<Rightarrow> nat \<Rightarrow> ('a variant \<times> 'a variant, 'e, unit) op" where
  "move_construct_storage vt i p =
     (if length (alternatives vt) \<le> i then Fault Bad_Index
      else (case var_read i (union_of (snd p)) of
          Inl f \<Rightarrow> Fault f
        | Inr v \<Rightarrow> (case move_construct (alternatives vt ! i) v of
              Inl (e, v') \<Rightarrow> Raise e (fst p, (snd p)\<lparr>union_of := Alive i v'\<rparr>)
            | Inr (w, v') \<Rightarrow> on_this (var_construct i (Inr w)) (fst p, (snd p)\<lparr>union_of := Alive i v'\<rparr>))))"

definition copy_construct_storage ::
    "('a, 'e) variant_type \<Rightarrow> nat \<Rightarrow> ('a variant \<times> 'a variant, 'e, unit) op" where
  "copy_construct_storage vt i p =
     (if length (alternatives vt) \<le> i then Fault Bad_Index
      else (case var_read i (union_of (snd p)) of
          Inl f \<Rightarrow> Fault f
        | Inr v \<Rightarrow> on_this (var_construct i (copy_construct (alternatives vt ! i) v)) p))"

definition move_storage ::
    "('a, 'e) variant_type \<Rightarrow> nat \<Rightarrow> ('a variant \<times> 'a variant, 'e, unit) op" where
  "move_storage vt i = noexcept (\<lambda>p.
     if length (alternatives vt) \<le> i then Fault Bad_Index
     else (case (var_read i (union_of (fst p)), var_read i (union_of (snd p))) of
         (Inl f, _) \<Rightarrow> Fault f
       | (Inr _, Inl f) \<Rightarrow> Fault f
       | (Inr d, Inr v) \<Rightarrow> (case move_assign (alternatives vt ! i) d v of
             Inl (e, d', v') \<Rightarrow> Raise e ((fst p)\<lparr>union_of := Alive i d'\<rparr>, (snd p)\<lparr>union_of := Alive i v'\<rparr>)
           | Inr (d', v') \<Rightarrow> Ok () ((fst p)\<lparr>union_of := Alive i d'\<rparr>, (snd p)\<lparr>union_of := Alive i v'\<rparr>))))"

definition copy_storage ::
    "('a, 'e) variant_type \<Rightarrow> nat \<Rightarrow> ('a variant \<times> 'a variant, 'e, unit) op" where
  "copy_storage vt i p =
     (if length (alternatives vt) \<le> i then Fault Bad_Index
      else (case (var_read i (union_of (fst p)), var_read i (union_of (snd p))) of
         (Inl f, _) \<Rightarrow> Fault f
       | (Inr _, Inl f) \<Rightarrow> Fault f
       | (Inr d, Inr v) \<Rightarrow> (case copy_assign (alternatives vt ! i) d v of
             Inl (e, d') \<Rightarrow> Raise e ((fst p)\<lparr>union_of := Alive i d'\<rparr>, snd p)
           | Inr d' \<Rightarrow> Ok () ((fst p)\<lparr>union_of := Alive i d'\<rparr>, snd p))))"

section \<open>Constructors, destructor, assignment\<close>

text \<open>\<open>BOOST_NOEXCEPT_IF(is_noexcept_movable)\<close>\<close>

definition noexcept_if :: "bool \<Rightarrow> ('s, 'e, 'r) op \<Rightarrow> ('s, 'e, 'r) op" where
  "noexcept_if b m = (if b then noexcept m else m)"

text \<open>\<open>init\<close> is the outcome of the default constructor of the first alternative.\<close>

definition var_default :: "('a, 'e) variant_type \<Rightarrow> 'e + 'a \<Rightarrow> ('a variant, 'e, unit) op" where
  "var_default vt init = noexcept (\<lambda>_. var_construct 0 init (raw_variant vt))"

definition var_dtor :: "('a, 'e) variant_type \<Rightarrow> ('a variant, 'e, unit) op" where
  "var_dtor vt = noexcept (\<lambda>x. if valueless x then Ok () x else destroy_storage vt (var_index x) x)"

definition var_move_ctor :: "('a, 'e) variant_type \<Rightarrow> ('a variant \<times> 'a variant, 'e, unit) op" where
  "var_move_ctor vt = noexcept_if (is_noexcept_movable vt) (\<lambda>(this, other).
     then_op (on_this (set_index (var_index other)))
       (\<lambda>p. move_construct_storage vt (var_index (fst p)) p) (raw_variant vt, other))"

definition var_move_assign :: "('a, 'e) variant_type \<Rightarrow> ('a variant \<times> 'a variant, 'e, unit) op" where
  "var_move_assign vt = noexcept_if (is_noexcept_movable vt) (\<lambda>p.
     if var_index (fst p) = var_index (snd p) then move_storage vt (var_index (fst p)) p
     else then_op (on_this (destroy_storage vt (var_index (fst p))))
            (then_op (move_construct_storage vt (var_index (snd p)))
               (\<lambda>p. on_this (set_index (var_index (snd p))) p)) p)"

text \<open>
  Construction from a value of alternative \<open>i\<close> or in place, and assignment of such a value; \<open>init\<close> is
  the outcome of the constructor that is called.
\<close>

definition var_value_ctor :: "('a, 'e) variant_type \<Rightarrow> nat \<Rightarrow> 'e + 'a \<Rightarrow> ('a variant, 'e, unit) op" where
  "var_value_ctor vt i init = (\<lambda>_. then_op (set_index i) (var_construct i init) (raw_variant vt))"

definition var_assign_value :: "('a, 'e) variant_type \<Rightarrow> nat \<Rightarrow> 'e + 'a \<Rightarrow> ('a variant, 'e, unit) op" where
  "var_assign_value vt i init = (\<lambda>x. then_op (destroy_storage vt (var_index x))
     (\<lambda>x. case var_construct i init x of
        Ok r x' \<Rightarrow> set_index i x'
      | Raise e x' \<Rightarrow> (case set_valueless_by_exception x' of
            Ok _ x'' \<Rightarrow> Raise e x'' | Raise e' x'' \<Rightarrow> Raise e' x'' | Fault f \<Rightarrow> Fault f)
      | Fault f \<Rightarrow> Fault f) x)"

text \<open>
  The copy constructor lets the base class default-construct the first alternative (\<open>init\<close>) and
  copies over it; if the copy throws, the destructor of the base class runs.
\<close>

definition var_copy_ctor ::
    "('a, 'e) variant_type \<Rightarrow> 'e + 'a \<Rightarrow> ('a variant \<times> 'a variant, 'e, unit) op" where
  "var_copy_ctor vt init = (\<lambda>(this, other).
     (case then_op (on_this (var_default vt init))
             (then_op (on_this (set_index (var_index other)))
                (\<lambda>p. copy_construct_storage vt (var_index (fst p)) p)) (raw_variant vt, other) of
        Ok r p \<Rightarrow> Ok r p
      | Raise e p \<Rightarrow> (case on_this (var_dtor vt) p of
            Ok _ q \<Rightarrow> Raise e q | Raise e' q \<Rightarrow> Fault Terminated | Fault f \<Rightarrow> Fault f)
      | Fault f \<Rightarrow> Fault f))"

text \<open>
  Copy assignment to another alternative goes through the object \<open>temporary\<close>, a storage without a
  destructor for what is in it, so that the element in it is leaked.
\<close>

definition var_copy_assign :: "('a, 'e) variant_type \<Rightarrow> ('a variant \<times> 'a variant, 'e, unit) op" where
  "var_copy_assign vt = (\<lambda>p.
     if var_index (fst p) = var_index (snd p) then copy_storage vt (var_index (fst p)) p
     else (case copy_construct_storage vt (var_index (snd p)) (raw_variant vt, snd p) of
         Fault f \<Rightarrow> Fault f
       | Raise e (temporary, other) \<Rightarrow> Raise e (fst p, other)
       | Ok _ (temporary, other) \<Rightarrow>
          (case then_op (on_this (destroy_storage vt (var_index (fst p))))
                  (then_op (move_construct_storage vt (var_index other))
                     (on_this (set_index (var_index other)))) (fst p, temporary) of
             Fault f \<Rightarrow> Fault f
           | Raise e (this, temporary') \<Rightarrow> Raise e (this\<lparr>leaked := leaked this + 1\<rparr>, other)
           | Ok r (this, temporary') \<Rightarrow> Ok r (this\<lparr>leaked := leaked this + 1\<rparr>, other))))"

section \<open>Visiting\<close>

datatype variant_error = Bad_Variant_Access

text \<open>The visitor's overload for alternative \<open>i\<close> is \<open>visitor i\<close>.\<close>

definition apply_visitor ::
    "('a, 'e) variant_type \<Rightarrow> (nat \<Rightarrow> 'a \<Rightarrow> 'r) \<Rightarrow> ('a variant, variant_error, 'r) op" where
  "apply_visitor vt visitor x =
     (if valueless x then Raise Bad_Variant_Access x
      else if length (alternatives vt) \<le> var_index x then Fault Bad_Index
      else (case var_read (var_index x) (union_of x) of
          Inl f \<Rightarrow> Fault f | Inr v \<Rightarrow> Ok (visitor (var_index x) v) x))"

definition var_print :: "('a, 'e) variant_type \<Rightarrow> (nat \<Rightarrow> 'a \<Rightarrow> string) \<Rightarrow> ('a variant, variant_error, string) op" where
  "var_print vt show_element x = apply_visitor vt show_element x"

definition var_hash :: "('a, 'e) variant_type \<Rightarrow> (nat \<Rightarrow> 'a \<Rightarrow> nat) \<Rightarrow> ('a variant, variant_error, nat) op" where
  "var_hash vt hash_element x = apply_visitor vt hash_element x"

definition try_get_ptr :: "('a, 'e) variant_type \<Rightarrow> nat \<Rightarrow> ('a variant, variant_error, 'a option) op" where
  "try_get_ptr vt i = noexcept (apply_visitor vt (\<lambda>j v. if i = j then Some v else None))"

definition try_get :: "('a, 'e) variant_type \<Rightarrow> nat \<Rightarrow> ('a variant, variant_error, 'a option) op" where
  "try_get vt i x = try_get_ptr vt i x"

text \<open>\<open>visit\<close>: one function per alternative, in some order; \<open>which i\<close> is the one that takes alternative \<open>i\<close>.\<close>

definition var_visit ::
    "('a, 'e) variant_type \<Rightarrow> ('a \<Rightarrow> 'r) list \<Rightarrow> (nat \<Rightarrow> nat) \<Rightarrow> ('a variant, variant_error, 'r) op" where
  "var_visit vt visitors which x = apply_visitor vt (\<lambda>i v. (visitors ! which i) v) x"

text \<open>
  \<open>assign\<close> from a variant of other alternatives: the visitor constructs a variant of this type from
  the element (moved or copied, \<open>init\<close>), which is then moved from and destroyed; \<open>place i\<close> is the
  position of the other variant's alternative \<open>i\<close> in this one.
\<close>

definition var_assign ::
    "('a, 'e) variant_type \<Rightarrow> ('a, 'e) variant_type \<Rightarrow> (nat \<Rightarrow> nat) \<Rightarrow> (nat \<Rightarrow> 'a \<Rightarrow> 'e + 'a) \<Rightarrow>
     'a variant \<Rightarrow> ('a variant, 'e + variant_error, unit) op" where
  "var_assign vt other_vt place init other x =
     (case apply_visitor other_vt (\<lambda>i v. (place i, init i v)) other of
        Fault f \<Rightarrow> Fault f
      | Raise e _ \<Rightarrow> Raise (Inr e) x
      | Ok (i, start) _ \<Rightarrow> (case var_value_ctor vt i start (raw_variant vt) of
            Fault f \<Rightarrow> Fault f
          | Raise e _ \<Rightarrow> Raise (Inl e) x
          | Ok _ constructed \<Rightarrow> (case var_move_assign vt (x, constructed) of
                Fault f \<Rightarrow> Fault f
              | Raise e (x', t) \<Rightarrow> (case var_dtor vt t of
                    Ok _ _ \<Rightarrow> Raise (Inl e) x' | Raise _ _ \<Rightarrow> Fault Terminated | Fault f \<Rightarrow> Fault f)
              | Ok _ (x', t) \<Rightarrow> (case var_dtor vt t of
                    Ok _ _ \<Rightarrow> Ok () x' | Raise _ _ \<Rightarrow> Fault Terminated | Fault f \<Rightarrow> Fault f))))"

section \<open>Comparison\<close>

definition var_equal ::
    "('a, 'e) variant_type \<Rightarrow> (nat \<Rightarrow> 'a \<Rightarrow> 'a \<Rightarrow> bool) \<Rightarrow> 'a variant \<Rightarrow> 'a variant \<Rightarrow> fault + bool" where
  "var_equal vt eq x y =
     (if var_index x \<noteq> var_index y then Inr False
      else if length (alternatives vt) \<le> var_index x then Inl Bad_Index
      else read2 (eq (var_index x)) (var_read (var_index x) (union_of x)) (var_read (var_index x) (union_of y)))"

definition var_less ::
    "('a, 'e) variant_type \<Rightarrow> (nat \<Rightarrow> 'a \<Rightarrow> 'a \<Rightarrow> bool) \<Rightarrow> 'a variant \<Rightarrow> 'a variant \<Rightarrow> fault + bool" where
  "var_less vt lt x y =
     (if var_index y < var_index x then Inr False
      else if var_index x < var_index y then Inr True
      else if length (alternatives vt) \<le> var_index x then Inl Bad_Index
      else read2 (lt (var_index x)) (var_read (var_index x) (union_of x)) (var_read (var_index x) (union_of y)))"

definition var_not_equal ::
    "('a, 'e) variant_type \<Rightarrow> (nat \<Rightarrow> 'a \<Rightarrow> 'a \<Rightarrow> bool) \<Rightarrow> 'a variant \<Rightarrow> 'a variant \<Rightarrow> fault + bool" where
  "var_not_equal vt eq x y = read1 Not (var_equal vt eq x y)"

definition var_greater ::
    "('a, 'e) variant_type \<Rightarrow> (nat \<Rightarrow> 'a \<Rightarrow> 'a \<Rightarrow> bool) \<Rightarrow> 'a variant \<Rightarrow> 'a variant \<Rightarrow> fault + bool" where
  "var_greater vt lt x y = var_less vt lt y x"

definition var_less_equal ::
    "('a, 'e) variant_type \<Rightarrow> (nat \<Rightarrow> 'a \<Rightarrow> 'a \<Rightarrow> bool) \<Rightarrow> 'a variant \<Rightarrow> 'a variant \<Rightarrow> fault + bool" where
  "var_less_equal vt lt x y = read1 Not (var_greater vt lt x y)"

definition var_greater_equal ::
    "('a, 'e) variant_type \<Rightarrow> (nat \<Rightarrow> 'a \<Rightarrow> 'a \<Rightarrow> bool) \<Rightarrow> 'a variant \<Rightarrow> 'a variant \<Rightarrow> fault + bool" where
  "var_greater_equal vt lt x y = read1 Not (var_less vt lt x y)"

section \<open>Invariant\<close>

text \<open>\<open>holds vt x i v\<close>: the variant has a value, and it is \<open>v\<close> of alternative \<open>i\<close>.\<close>

definition holds :: "('a, 'e) variant_type \<Rightarrow> 'a variant \<Rightarrow> nat \<Rightarrow> 'a \<Rightarrow> bool" where
  "holds vt x i v \<longleftrightarrow> i < length (alternatives vt) \<and> union_of x = Alive i v \<and>
     (if length (alternatives vt) = 1 then index_of_storage x = Single_Sometimes True \<or> index_of_storage x = Single_Never
      else index_of_storage x = Multi i)"

text \<open>The number of alternatives the index byte can tell apart from \<open>invalid_index\<close>.\<close>

definition variant_type_ok :: "('a, 'e) variant_type \<Rightarrow> bool" where
  "variant_type_ok vt \<longleftrightarrow> alternatives vt \<noteq> [] \<and> length (alternatives vt) \<le> 255"

definition moves_dont_throw :: "('a, 'e) variant_type \<Rightarrow> bool" where
  "moves_dont_throw vt \<longleftrightarrow> (\<forall>T \<in> set (alternatives vt). nothrow_movable T)"

definition regular_alternatives :: "('a, 'e) variant_type \<Rightarrow> bool" where
  "regular_alternatives vt \<longleftrightarrow> (\<forall>T \<in> set (alternatives vt). regular T)"

lemma alternative_properties:
  assumes "i < length (alternatives vt)"
  shows "moves_dont_throw vt \<Longrightarrow> nothrow_movable (alternatives vt ! i)"
    and "regular_alternatives vt \<Longrightarrow> regular (alternatives vt ! i)"
  using assms by (simp_all add: moves_dont_throw_def regular_alternatives_def)

lemma holds_index:
  assumes "variant_type_ok vt" "holds vt x i v"
  shows "var_index x = i" "\<not> valueless x" "i < length (alternatives vt)" "union_of x = Alive i v"
  using assms
  by (auto simp: holds_def var_index_def valueless_def variant_type_ok_def invalid_index_def split: if_splits)

lemma holds_set_index:
  fixes vt :: "('a, 'e) variant_type"
  assumes "variant_type_ok vt" "holds vt x i v" "j < length (alternatives vt)"
  shows "\<exists>p. (set_index j (x\<lparr>union_of := u, leaked := l\<rparr>) :: ('a variant, 'e, unit) outcome) =
      Ok () (x\<lparr>union_of := u, leaked := l, index_of_storage := p\<rparr>) \<and>
    holds vt (x\<lparr>union_of := Alive j w, leaked := l', index_of_storage := p\<rparr>) j w"
  using assms by (auto simp: holds_def set_index_def variant_type_ok_def split: if_splits)

lemma raw_set_index:
  fixes vt :: "('a, 'e) variant_type"
  assumes "variant_type_ok vt" "j < length (alternatives vt)"
  shows "\<exists>p. (set_index j (raw_variant vt) :: ('a variant, 'e, unit) outcome) = Ok () ((raw_variant vt)\<lparr>index_of_storage := p\<rparr>) \<and>
    holds vt ((raw_variant vt)\<lparr>index_of_storage := p, union_of := Alive j w, leaked := l\<rparr>) j w"
  using assms by (auto simp: holds_def set_index_def variant_type_ok_def raw_variant_def initial_index_def)

lemma holds_union: "holds vt x i v \<Longrightarrow> holds vt (x\<lparr>union_of := Alive i w\<rparr>) i w"
  by (simp add: holds_def)

lemma holds_destroy:
  assumes "variant_type_ok vt" "holds vt x i v"
  shows "destroy_storage vt (var_index x) x = Ok () (x\<lparr>union_of := Vacant\<rparr>)"
  using holds_index [OF assms] by (simp add: destroy_storage_def var_read_def)

lemma var_dtor_holds:
  assumes "variant_type_ok vt" "holds vt x i v"
  shows "var_dtor vt x = Ok () (x\<lparr>union_of := Vacant\<rparr>)"
  using holds_index(2) [OF assms] holds_destroy [OF assms] by (simp add: var_dtor_def noexcept_def)

lemma move_construct_storage_eq:
  assumes "moves_dont_throw vt" "i < length (alternatives vt)" "union_of (snd p) = Alive i v"
  shows "\<exists>w v'. move_construct (alternatives vt ! i) v = Inr (w, v') \<and>
    move_construct_storage vt i p = Ok () ((fst p)\<lparr>union_of := Alive i w,
      leaked := leaked (fst p) + (if union_of (fst p) = Vacant then 0 else 1)\<rparr>, (snd p)\<lparr>union_of := Alive i v'\<rparr>)"
  using nothrow_move_construct [OF alternative_properties(1) [OF assms(2,1)], of v] assms
  by (auto simp: move_construct_storage_def var_read_def on_this_def var_construct_def)

lemma var_move_assign_result:
  fixes vt :: "('a, 'e) variant_type"
  assumes ok: "variant_type_ok vt" "moves_dont_throw vt" and h: "holds vt x i d" "holds vt y j v"
  shows "\<exists>x' y' w v'. var_move_assign vt (x, y) = Ok () (x', y') \<and> holds vt x' j w \<and> holds vt y' j v' \<and>
    leaked x' = leaked x \<and> leaked y' = leaked y \<and> (regular_alternatives vt \<longrightarrow> w = v)"
proof (cases "i = j")
  case True
  note ix = holds_index [OF ok(1) h(1)] and iy = holds_index [OF ok(1) h(2)]
  obtain w v' where m: "move_assign (alternatives vt ! j) d v = Inr (w, v')"
    using nothrow_move_assign [OF alternative_properties(1) [OF iy(3) ok(2)]] by blast
  have "var_move_assign vt (x, y) = Ok () (x\<lparr>union_of := Alive j w\<rparr>, y\<lparr>union_of := Alive j v'\<rparr>)"
    using ix iy True m
    by (simp add: var_move_assign_def noexcept_if_def noexcept_def move_storage_def var_read_def)
  moreover have "regular_alternatives vt \<longrightarrow> w = v"
    using regular_move_assign [OF alternative_properties(2) [OF iy(3)] m] by blast
  ultimately show ?thesis using holds_union [OF h(1)] holds_union [OF h(2)] True
    by (intro exI [of _ "x\<lparr>union_of := Alive j w\<rparr>"] exI [of _ "y\<lparr>union_of := Alive j v'\<rparr>"] exI) auto
next
  case False
  note ix = holds_index [OF ok(1) h(1)] and iy = holds_index [OF ok(1) h(2)]
  from move_construct_storage_eq [OF ok(2) iy(3), of "(x\<lparr>union_of := Vacant\<rparr>, y)" v] iy(4) obtain w v' where
    m: "move_construct (alternatives vt ! j) v = Inr (w, v')"
      "move_construct_storage vt j (x\<lparr>union_of := Vacant\<rparr>, y) =
       Ok () (x\<lparr>union_of := Alive j w, leaked := leaked x\<rparr>, y\<lparr>union_of := Alive j v'\<rparr>)" by auto
  from holds_set_index [OF ok(1) h(1) iy(3), where u = "Alive j w" and l = "leaked x" and w = w and l' = "leaked x"] obtain p where
    p: "(set_index j (x\<lparr>union_of := Alive j w, leaked := leaked x\<rparr>) :: ('a variant, 'e, unit) outcome) =
        Ok () (x\<lparr>union_of := Alive j w, leaked := leaked x, index_of_storage := p\<rparr>)"
      "holds vt (x\<lparr>union_of := Alive j w, leaked := leaked x, index_of_storage := p\<rparr>) j w"
    by blast
  have y': "holds vt (y\<lparr>union_of := Alive j v'\<rparr>) j v'" by (rule holds_union [OF h(2)])
  have "var_move_assign vt (x, y) = Ok ()
      (x\<lparr>union_of := Alive j w, leaked := leaked x, index_of_storage := p\<rparr>, y\<lparr>union_of := Alive j v'\<rparr>)"
    using ix(1) iy(1) False holds_destroy [OF ok(1) h(1)] m(2) p(1) holds_index(1) [OF ok(1) y']
    by (simp add: var_move_assign_def noexcept_if_def noexcept_def then_op_def on_this_def)
  moreover have "regular_alternatives vt \<longrightarrow> w = v"
    using regular_move_construct [OF alternative_properties(2) [OF iy(3)] m(1)] by blast
  ultimately show ?thesis using p(2) y' by fastforce
qed

lemma var_assign_value_result:
  fixes vt :: "('a, 'e) variant_type"
  assumes ok: "variant_type_ok vt" and h: "holds vt x i d" and j: "j < length (alternatives vt)"
  shows "case init of
      Inr w \<Rightarrow> \<exists>x'. var_assign_value vt j init x = Ok () x' \<and> holds vt x' j w \<and> leaked x' = leaked x
    | Inl e \<Rightarrow> index_of_storage x = Single_Never \<or>
        (\<exists>x'. var_assign_value vt j init x = Raise e x' \<and> valueless x' \<and> union_of x' = Vacant)"
proof (cases init)
  case (Inr w)
  from holds_set_index [OF ok h j, where u = "Alive j w" and l = "leaked x" and w = w and l' = "leaked x"] obtain p where
    "(set_index j (x\<lparr>union_of := Alive j w, leaked := leaked x\<rparr>) :: ('a variant, 'e, unit) outcome) =
        Ok () (x\<lparr>union_of := Alive j w, leaked := leaked x, index_of_storage := p\<rparr>)"
      "holds vt (x\<lparr>union_of := Alive j w, leaked := leaked x, index_of_storage := p\<rparr>) j w" by blast
  with holds_destroy [OF ok h] Inr show ?thesis
    by (simp add: var_assign_value_def then_op_def var_construct_def)
next
  case (Inl e)
  with holds_destroy [OF ok h] show ?thesis
    by (cases "index_of_storage x")
       (auto simp: var_assign_value_def then_op_def var_construct_def set_valueless_by_exception_def valueless_def)
qed

text \<open>Copy assignment to the same alternative, and to another one, which goes through a temporary.\<close>

lemma var_copy_assign_same:
  fixes vt :: "('a, 'e) variant_type"
  assumes ok: "variant_type_ok vt" and h: "holds vt x j d" "holds vt y j v"
  shows "case var_copy_assign vt (x, y) of
      Ok _ (x', y') \<Rightarrow> y' = y \<and> leaked x' = leaked x \<and> (\<exists>w. holds vt x' j w \<and> (regular_alternatives vt \<longrightarrow> w = v))
    | Raise e (x', y') \<Rightarrow> y' = y \<and> leaked x' = leaked x \<and> (\<exists>d'. holds vt x' j d')
    | Fault f \<Rightarrow> False"
proof -
  note ix = holds_index [OF ok h(1)] and iy = holds_index [OF ok h(2)]
  show ?thesis
  proof (cases "copy_assign (alternatives vt ! j) d v")
    case (Inl ed)
    then show ?thesis using ix iy holds_union [OF h(1)]
      by (cases ed) (auto simp: var_copy_assign_def copy_storage_def var_read_def)
  next
    case (Inr w)
    then show ?thesis using ix iy holds_union [OF h(1), of w]
        regular_copy_assign [OF alternative_properties(2) [OF iy(3)] Inr]
      by (auto simp: var_copy_assign_def copy_storage_def var_read_def)
  qed
qed

lemma var_copy_assign_other:
  fixes vt :: "('a, 'e) variant_type"
  assumes ok: "variant_type_ok vt" "moves_dont_throw vt" and h: "holds vt x i d" "holds vt y j v" and ij: "i \<noteq> j"
  shows "case copy_construct (alternatives vt ! j) v of
      Inl e \<Rightarrow> var_copy_assign vt (x, y) = Raise e (x, y)
    | Inr _ \<Rightarrow> \<exists>x' w. var_copy_assign vt (x, y) = Ok () (x', y) \<and> leaked x' = leaked x + 1 \<and> holds vt x' j w \<and>
        (regular_alternatives vt \<longrightarrow> w = v)"
proof -
  note ix = holds_index [OF ok(1) h(1)] and iy = holds_index [OF ok(1) h(2)]
  show ?thesis
  proof (cases "copy_construct (alternatives vt ! j) v")
    case (Inl e)
    then show ?thesis using ix iy ij
      by (auto simp: var_copy_assign_def copy_construct_storage_def var_read_def on_this_def var_construct_def)
  next
    case (Inr w)
    let ?temp = "(raw_variant vt)\<lparr>union_of := Alive j w, leaked := 0\<rparr>"
    have c: "copy_construct_storage vt j (raw_variant vt, y) = Ok () (?temp, y)"
      using Inr iy by (simp add: copy_construct_storage_def var_read_def on_this_def var_construct_def raw_variant_def)
    from move_construct_storage_eq [OF ok(2) iy(3), of "(x\<lparr>union_of := Vacant\<rparr>, ?temp)" w] obtain w' t where
      m: "move_construct (alternatives vt ! j) w = Inr (w', t)"
        "move_construct_storage vt j (x\<lparr>union_of := Vacant\<rparr>, ?temp) =
         Ok () (x\<lparr>union_of := Alive j w', leaked := leaked x\<rparr>, ?temp\<lparr>union_of := Alive j t\<rparr>)" by auto
    from holds_set_index [OF ok(1) h(1) iy(3), where u = "Alive j w'" and l = "leaked x" and w = w' and l' = "leaked x + 1"] obtain p where
      p: "(set_index j (x\<lparr>union_of := Alive j w', leaked := leaked x\<rparr>) :: ('a variant, 'e, unit) outcome) =
          Ok () (x\<lparr>union_of := Alive j w', leaked := leaked x, index_of_storage := p\<rparr>)"
        "holds vt (x\<lparr>union_of := Alive j w', leaked := leaked x + 1, index_of_storage := p\<rparr>) j w'" by blast
    have "var_copy_assign vt (x, y) =
        Ok () (x\<lparr>union_of := Alive j w', leaked := leaked x + 1, index_of_storage := p\<rparr>, y)"
      using ix iy ij c m(2) p(1) holds_destroy [OF ok(1) h(1)]
      by (simp add: var_copy_assign_def then_op_def on_this_def)
    moreover have "regular_alternatives vt \<longrightarrow> w' = v"
      using regular_copy_construct [OF alternative_properties(2) [OF iy(3)] Inr]
        regular_move_construct [OF alternative_properties(2) [OF iy(3)] m(1)] by blast
    ultimately show ?thesis using p(2) Inr by auto
  qed
qed

lemma var_copy_assign_result:
  fixes vt :: "('a, 'e) variant_type"
  assumes ok: "variant_type_ok vt" "moves_dont_throw vt" and h: "holds vt x i d" "holds vt y j v"
  shows "case var_copy_assign vt (x, y) of
      Ok _ (x', y') \<Rightarrow> y' = y \<and> leaked x' = leaked x + (if i = j then 0 else 1) \<and>
        (\<exists>w. holds vt x' j w \<and> (regular_alternatives vt \<longrightarrow> w = v))
    | Raise e (x', y') \<Rightarrow> y' = y \<and> leaked x' = leaked x \<and> (\<exists>d'. holds vt x' i d') \<and> (i \<noteq> j \<longrightarrow> x' = x)
    | Fault f \<Rightarrow> False"
proof (cases "i = j")
  case True
  with h var_copy_assign_same [OF ok(1), of x j d y v] show ?thesis by (auto split: outcome.splits prod.splits)
next
  case False
  with h var_copy_assign_other [OF ok h False] show ?thesis by (auto split: sum.splits)
qed

lemma apply_visitor_holds:
  assumes "variant_type_ok vt" "holds vt x i v"
  shows "apply_visitor vt visitor x = Ok (visitor i v) x"
  using holds_index [OF assms] by (simp add: apply_visitor_def var_read_def)

section \<open>Properties\<close>

text \<open>
  Client programs: a value of alternative \<open>j\<close> is assigned directly, or through another variant that is
  moved or copied and then destroyed.
\<close>

datatype 'a var_call = Assign_Value nat 'a | Assign_Moved nat 'a | Assign_Copied nat 'a

definition drop_other :: "('a, 'e) variant_type \<Rightarrow> ('a variant \<times> 'a variant, 'e, unit) outcome \<Rightarrow>
    ('a variant, 'e, unit) outcome" where
  "drop_other vt r = (case r of
      Fault f \<Rightarrow> Fault f
    | Ok u p \<Rightarrow> (case var_dtor vt (snd p) of Fault f \<Rightarrow> Fault f | Ok _ _ \<Rightarrow> Ok u (fst p) | Raise _ _ \<Rightarrow> Fault Terminated)
    | Raise e p \<Rightarrow> (case var_dtor vt (snd p) of Fault f \<Rightarrow> Fault f | Ok _ _ \<Rightarrow> Raise e (fst p) | Raise _ _ \<Rightarrow> Fault Terminated))"

fun var_exec :: "('a, 'e) variant_type \<Rightarrow> 'a var_call \<Rightarrow> ('a variant, 'e, unit) op" where
  "var_exec vt (Assign_Value j v) x = var_assign_value vt j (Inr v) x"
| "var_exec vt (Assign_Moved j v) x = (case var_value_ctor vt j (Inr v) (raw_variant vt) of
      Ok _ y \<Rightarrow> drop_other vt (var_move_assign vt (x, y)) | Raise e y \<Rightarrow> Raise e x | Fault f \<Rightarrow> Fault f)"
| "var_exec vt (Assign_Copied j v) x = (case var_value_ctor vt j (Inr v) (raw_variant vt) of
      Ok _ y \<Rightarrow> drop_other vt (var_copy_assign vt (x, y)) | Raise e y \<Rightarrow> Raise e x | Fault f \<Rightarrow> Fault f)"

fun var_run :: "('a, 'e) variant_type \<Rightarrow> 'a var_call list \<Rightarrow> ('a variant, 'e, unit) op" where
  "var_run vt [] x = Ok () x"
| "var_run vt (c # cs) x = then_op (var_exec vt c) (var_run vt cs) x"

text \<open>The abstract machine: the current alternative and value, and the number of leaked objects.\<close>

fun call_target :: "'a var_call \<Rightarrow> nat \<times> 'a" where
  "call_target (Assign_Value j v) = (j, v)"
| "call_target (Assign_Moved j v) = (j, v)"
| "call_target (Assign_Copied j v) = (j, v)"

fun call_leak :: "nat \<Rightarrow> 'a var_call \<Rightarrow> nat" where
  "call_leak i (Assign_Copied j v) = (if i = j then 0 else 1)"
| "call_leak i _ = 0"

fun spec_run :: "'a var_call list \<Rightarrow> nat \<times> 'a \<times> nat \<Rightarrow> nat \<times> 'a \<times> nat" where
  "spec_run [] s = s"
| "spec_run (c # cs) (i, v, l) =
     spec_run cs (fst (call_target c), snd (call_target c), l + call_leak i c)"

lemma var_value_ctor_result:
  fixes vt :: "('a, 'e) variant_type"
  assumes "variant_type_ok vt" "j < length (alternatives vt)"
  obtains y where "(var_value_ctor vt j (Inr v) z :: ('a variant, 'e, unit) outcome) = Ok () y" "holds vt y j v" "leaked y = 0"
proof -
  from raw_set_index [OF assms, where w = v and l = 0] obtain p where
    p: "(set_index j (raw_variant vt) :: ('a variant, 'e, unit) outcome) = Ok () ((raw_variant vt)\<lparr>index_of_storage := p\<rparr>)"
      "holds vt ((raw_variant vt)\<lparr>index_of_storage := p, union_of := Alive j v, leaked := 0\<rparr>) j v" by blast
  show thesis
  proof (rule that [of "(raw_variant vt)\<lparr>index_of_storage := p, union_of := Alive j v, leaked := 0\<rparr>"])
    show "(var_value_ctor vt j (Inr v) z :: ('a variant, 'e, unit) outcome) =
        Ok () ((raw_variant vt)\<lparr>index_of_storage := p, union_of := Alive j v, leaked := 0\<rparr>)"
      using p(1) by (simp add: var_value_ctor_def then_op_def var_construct_def raw_variant_def)
  qed (use p(2) in simp_all)
qed

lemma drop_other_holds:
  assumes "variant_type_ok vt" "holds vt (snd p) j v"
  shows "drop_other vt (Ok () p) = Ok () (fst p)" "drop_other vt (Raise e p) = Raise e (fst p)"
  using var_dtor_holds [OF assms] by (simp_all add: drop_other_def)

lemma var_exec_result:
  fixes vt :: "('a, 'e) variant_type"
  assumes ok: "variant_type_ok vt" "moves_dont_throw vt" "regular_alternatives vt"
    and h: "holds vt x i d" and j: "fst (call_target c) < length (alternatives vt)"
  shows "case var_exec vt c x of
      Ok _ x' \<Rightarrow> holds vt x' (fst (call_target c)) (snd (call_target c)) \<and> leaked x' = leaked x + call_leak i c
    | Raise e x' \<Rightarrow> \<exists>v. holds vt x' i v
    | Fault f \<Rightarrow> False"
proof (cases c)
  case (Assign_Value j' v)
  with var_assign_value_result [OF ok(1) h, of j' "Inr v"] j show ?thesis by auto
next
  case (Assign_Moved j' v)
  with j have j': "j' < length (alternatives vt)" by simp
  obtain y where y: "(var_value_ctor vt j' (Inr v) (raw_variant vt) :: ('a variant, 'e, unit) outcome) = Ok () y"
    "holds vt y j' v" by (rule var_value_ctor_result [OF ok(1) j'])
  from var_move_assign_result [OF ok(1,2) h y(2)] ok(3) obtain x' y' v' where
    m: "var_move_assign vt (x, y) = Ok () (x', y')" "holds vt x' j' v" "holds vt y' j' v'" "leaked x' = leaked x" by blast
  with y Assign_Moved drop_other_holds(1) [OF ok(1), of "(x', y')"] show ?thesis by simp
next
  case (Assign_Copied j' v)
  with j have j': "j' < length (alternatives vt)" by simp
  obtain y where y: "(var_value_ctor vt j' (Inr v) (raw_variant vt) :: ('a variant, 'e, unit) outcome) = Ok () y"
    "holds vt y j' v" by (rule var_value_ctor_result [OF ok(1) j'])
  note r = var_copy_assign_result [OF ok(1,2) h y(2)]
  show ?thesis
  proof (cases "var_copy_assign vt (x, y)")
    case (Ok u p)
    then obtain x' where p: "p = (x', y)" "holds vt x' j' v" "leaked x' = leaked x + (if i = j' then 0 else 1)"
      using r ok(3) by (cases p) auto
    with y Ok Assign_Copied drop_other_holds(1) [OF ok(1), of "(x', y)"] show ?thesis by simp
  next
    case (Raise e p)
    then obtain x' v' where p: "p = (x', y)" "holds vt x' i v'" using r by (cases p) auto
    with y Raise Assign_Copied drop_other_holds(2) [OF ok(1), of "(x', y)"] show ?thesis by auto
  next
    case (Fault f)
    with r show ?thesis by simp
  qed
qed

text \<open>
  C14: for at most 255 alternatives with regular copies and with moves that do not throw, a variant that holds a
  value keeps value semantics through any sequence of assignments of values that have been constructed
  without an exception, of moved variants and of copied variants: if no copy throws, it holds the last value of
  the sequence at that alternative and the number of leaked objects grows by one for each copy assignment
  that changed the alternative; if the copy of a copy assignment throws, it still holds a value; in both cases
  its destructor runs without a lifetime error.
\<close>

theorem variant_run_values:
  fixes vt :: "('a, 'e) variant_type"
  assumes "variant_type_ok vt" "moves_dont_throw vt" "regular_alternatives vt"
    and "holds vt x i d" and "\<forall>c \<in> set calls. fst (call_target c) < length (alternatives vt)"
  shows "case var_run vt calls x of
      Ok _ x' \<Rightarrow> (case spec_run calls (i, d, leaked x) of (j, v, l) \<Rightarrow> holds vt x' j v \<and> leaked x' = l) \<and>
        (var_dtor vt x' :: ('a variant, 'e, unit) outcome) = Ok () (x'\<lparr>union_of := Vacant\<rparr>)
    | Raise e x' \<Rightarrow> (\<exists>j v. holds vt x' j v) \<and>
        (var_dtor vt x' :: ('a variant, 'e, unit) outcome) = Ok () (x'\<lparr>union_of := Vacant\<rparr>)
    | Fault f \<Rightarrow> False"
  using assms(4,5)
proof (induction calls arbitrary: x i d)
  case Nil
  then show ?case using var_dtor_holds [OF assms(1)] by auto
next
  case (Cons c cs)
  note r = var_exec_result [OF assms(1-3) Cons.prems(1), of c]
  show ?case
  proof (cases "var_exec vt c x")
    case (Ok u x')
    then have x': "holds vt x' (fst (call_target c)) (snd (call_target c))" "leaked x' = leaked x + call_leak i c"
      using r Cons.prems(2) by auto
    from Cons.IH [OF x'(1)] Cons.prems(2) show ?thesis using Ok x'(2)
      by (simp add: then_op_def cong: outcome.case_cong)
  next
    case (Raise e x')
    then obtain v where "holds vt x' i v" using r Cons.prems(2) by auto
    then show ?thesis using Raise var_dtor_holds [OF assms(1)] by (auto simp: then_op_def)
  next
    case (Fault f)
    with r Cons.prems(2) show ?thesis by simp
  qed
qed

text \<open>Two alternatives over \<open>int\<close> with plain copies.\<close>

definition two_ints :: "(int, string) variant_type" where
  "two_ints = \<lparr>alternatives = [trivial_type, trivial_type], single_is_pod = False, is_noexcept_movable = True\<rparr>"

lemma two_ints_ok: "variant_type_ok two_ints" "moves_dont_throw two_ints" "regular_alternatives two_ints"
    "length (alternatives two_ints) = 2"
  by (simp_all add: two_ints_def variant_type_ok_def moves_dont_throw_def regular_alternatives_def)

lemma variant_run_values_witness:
  "case var_run two_ints [Assign_Copied 1 7, Assign_Moved 0 8, Assign_Copied 1 9]
       \<lparr>index_of_storage = Multi 0, union_of = Alive 0 5, leaked = 0\<rparr> of
      Ok _ x' \<Rightarrow> holds two_ints x' 1 9 \<and> leaked x' = 2
    | Raise e x' \<Rightarrow> \<exists>j v. holds two_ints x' j v
    | Fault f \<Rightarrow> False"
proof -
  have "holds two_ints \<lparr>index_of_storage = Multi 0, union_of = Alive 0 5, leaked = 0\<rparr> 0 5"
    by (simp add: holds_def two_ints_def)
  from variant_run_values [OF two_ints_ok(1-3) this, of "[Assign_Copied 1 7, Assign_Moved 0 8, Assign_Copied 1 9]"]
  show ?thesis by (auto simp: two_ints_ok split: outcome.splits)
qed

lemma valueless_not_alternative:
  assumes "variant_type_ok vt" "valueless x"
  shows "var_index x = 4294967295" "length (alternatives vt) \<le> var_index x"
  using assms by (auto simp: var_index_def variant_type_ok_def)

lemma destroy_valueless:
  "variant_type_ok vt \<Longrightarrow> valueless x \<Longrightarrow> destroy_storage vt (var_index x) y = Fault Bad_Index"
  by (simp add: destroy_storage_def valueless_not_alternative(2))

text \<open>
  When the constructor of the assigned value throws, the exception reaches the caller and the
  variant has no value: its index is the largest \<open>unsigned\<close>, a visitor gets \<open>bad_variant_access\<close>,
  the destructor does nothing, but \<open>try_get_ptr\<close>, which is \<open>noexcept\<close> over the visitor, terminates the
  program.  (A single POD alternative cannot be valueless and is excluded.)
\<close>

theorem variant_throwing_assignment:
  fixes vt :: "('a, 'e) variant_type"
  assumes "variant_type_ok vt" "holds vt x i d" "index_of_storage x \<noteq> Single_Never" "j < length (alternatives vt)"
  shows "\<exists>x'. var_assign_value vt j (Inl e) x = Raise e x' \<and> valueless x' \<and> var_index x' = 2 ^ 32 - 1 \<and>
    apply_visitor vt visitor x' = Raise Bad_Variant_Access x' \<and>
    (var_dtor vt x' :: ('a variant, 'e, unit) outcome) = Ok () x' \<and> union_of x' = Vacant \<and>
    try_get_ptr vt k x' = Fault Terminated"
proof -
  from var_assign_value_result [OF assms(1,2,4), of "Inl e"] assms(3) obtain x' where
    x': "var_assign_value vt j (Inl e) x = Raise e x'" "valueless x'" "union_of x' = Vacant" by auto
  then show ?thesis using valueless_not_alternative(1) [OF assms(1) x'(2)]
    by (auto simp: apply_visitor_def var_dtor_def noexcept_def try_get_ptr_def)
qed

lemma variant_throwing_assignment_witness:
  "\<exists>x'. var_assign_value two_ints 1 (Inl ''bad'') \<lparr>index_of_storage = Multi 0, union_of = Alive 0 5, leaked = 0\<rparr>
     = Raise ''bad'' x' \<and> valueless x' \<and> var_index x' = 2 ^ 32 - 1"
proof -
  have h: "holds two_ints \<lparr>index_of_storage = Multi 0, union_of = Alive 0 5, leaked = 0\<rparr> 0 5"
    by (simp add: holds_def two_ints_def)
  show ?thesis
    using variant_throwing_assignment [OF two_ints_ok(1) h, of 1 "''bad''" "\<lambda>_ v. v" 0] two_ints_ok(4) by auto
qed

text \<open>
  A valueless variant cannot be given a value again: assigning a value, a moved variant or a
  copied variant to it, comparing it with itself, or moving or copying from it, indexes a table of
  functions with an index outside it (or, with a single alternative, fails an assertion).
\<close>

theorem variant_valueless_stuck:
  fixes vt :: "('a, 'e) variant_type"
  assumes "variant_type_ok vt" "valueless x" "holds vt y j v"
  shows "var_assign_value vt i init x = Fault Bad_Index \<and>
    (var_move_assign vt (x, y) :: ('a variant \<times> 'a variant, 'e, unit) outcome) = Fault Bad_Index \<and>
    (var_copy_assign vt (x, y) = Fault Bad_Index \<or>
      (\<exists>e. copy_construct (alternatives vt ! j) v = Inl e \<and> var_copy_assign vt (x, y) = Raise e (x, y))) \<and>
    (var_move_assign vt (y, x) :: ('a variant \<times> 'a variant, 'e, unit) outcome) = Fault Bad_Index \<and>
    (var_copy_assign vt (y, x) :: ('a variant \<times> 'a variant, 'e, unit) outcome) = Fault Bad_Index \<and>
    var_equal vt eq x x = Inl Bad_Index \<and> var_less vt lt x x = Inl Bad_Index \<and>
    (var_move_ctor vt (y, x) :: ('a variant \<times> 'a variant, 'e, unit) outcome) \<in> {Fault Bad_Index, Fault Assertion_Failed}"
proof -
  note ix = valueless_not_alternative [OF assms(1,2)] and iy = holds_index [OF assms(1,3)]
  have neq: "var_index x \<noteq> var_index y" using ix(2) iy(1,3) by auto
  have "var_copy_assign vt (x, y) = Fault Bad_Index \<or>
      (\<exists>e. copy_construct (alternatives vt ! j) v = Inl e \<and> var_copy_assign vt (x, y) = Raise e (x, y))"
    using iy neq destroy_valueless [OF assms(1,2)]
    by (cases "copy_construct (alternatives vt ! j) v")
       (auto simp: var_copy_assign_def copy_construct_storage_def var_read_def on_this_def then_op_def var_construct_def)
  moreover have "(var_move_ctor vt (y, x) :: ('a variant \<times> 'a variant, 'e, unit) outcome) \<in> {Fault Bad_Index, Fault Assertion_Failed}"
    using ix
    by (auto simp: var_move_ctor_def noexcept_if_def noexcept_def then_op_def on_this_def set_index_def raw_variant_def
        initial_index_def var_index_def valueless_def invalid_index_def move_construct_storage_def)
  moreover have "(var_move_assign vt (y, x) :: ('a variant \<times> 'a variant, 'e, unit) outcome) = Fault Bad_Index"
    using ix neq holds_destroy [OF assms(1,3)] iy(1)
    by (auto simp: var_move_assign_def noexcept_if_def noexcept_def then_op_def on_this_def move_construct_storage_def)
  ultimately show ?thesis
    using ix neq neq [symmetric] destroy_valueless [OF assms(1,2)]
    by (simp add: var_assign_value_def var_move_assign_def noexcept_if_def noexcept_def then_op_def on_this_def
        var_copy_assign_def copy_construct_storage_def var_equal_def var_less_def)
qed

lemma variant_valueless_stuck_witness:
  "var_assign_value two_ints 0 (Inr 5) \<lparr>index_of_storage = Multi 255, union_of = Vacant, leaked = 0\<rparr> = Fault Bad_Index"
proof -
  have "valueless \<lparr>index_of_storage = Multi 255, union_of = (Vacant :: int union_storage), leaked = 0\<rparr>"
    "holds two_ints \<lparr>index_of_storage = Multi 0, union_of = Alive 0 5, leaked = 0\<rparr> 0 5"
    by (simp_all add: holds_def two_ints_def valueless_def invalid_index_def)
  from variant_valueless_stuck [OF two_ints_ok(1) this, of 0 "Inr 5"] show ?thesis by simp
qed

text \<open>
  Copy construction gives a variant with the value of \<open>other\<close>, and leaks exactly one object, the
  first alternative that the base class constructed by default; when the default constructor throws
  the program terminates, because the base constructor is \<open>noexcept\<close>; when the copy throws, the
  destructor of the base class runs with the index of \<open>other\<close>: it destroys the default-constructed
  first alternative, as an object of another type unless \<open>other\<close> holds the first alternative.
\<close>

theorem variant_copy_construct:
  fixes vt :: "('a, 'e) variant_type"
  assumes "variant_type_ok vt" "holds vt y j v"
  shows "case (init, copy_construct (alternatives vt ! j) v) of
      (Inl e, _) \<Rightarrow> var_copy_ctor vt init (x, y) = Fault Terminated
    | (Inr a, Inl e) \<Rightarrow> (if j = 0 then \<exists>x'. var_copy_ctor vt init (x, y) = Raise e (x', y) \<and> union_of x' = Vacant
        else var_copy_ctor vt init (x, y) = Fault Wrong_Alternative)
    | (Inr a, Inr w) \<Rightarrow> \<exists>x'. var_copy_ctor vt init (x, y) = Ok () (x', y) \<and> holds vt x' j w \<and> leaked x' = 1 \<and>
        (regular_alternatives vt \<longrightarrow> w = v)"
proof (cases init)
  case (Inl e)
  then show ?thesis
    by (cases "copy_construct (alternatives vt ! j) v")
       (simp_all add: var_copy_ctor_def then_op_def on_this_def var_default_def noexcept_def var_construct_def)
next
  case (Inr a)
  note iy = holds_index [OF assms]
  let ?d = "(raw_variant vt)\<lparr>union_of := Alive 0 a\<rparr>"
  have pos: "0 < length (alternatives vt)" using iy(3) by linarith
  have d: "var_default vt init (raw_variant vt) = Ok () ?d"
    using Inr by (simp add: var_default_def noexcept_def var_construct_def raw_variant_def)
  have hd0: "holds vt ?d 0 a"
    using assms(1) pos by (auto simp: holds_def raw_variant_def initial_index_def variant_type_ok_def)
  from holds_set_index [OF assms(1) hd0 iy(3), where u = "Alive 0 a" and l = 0 and w = a and l' = 1] obtain p where
    p: "(set_index j (?d\<lparr>union_of := Alive 0 a, leaked := 0\<rparr>) :: ('a variant, 'e, unit) outcome) =
         Ok () (?d\<lparr>union_of := Alive 0 a, leaked := 0, index_of_storage := p\<rparr>)"
      "holds vt (?d\<lparr>union_of := Alive j a, leaked := 1, index_of_storage := p\<rparr>) j a"
    by blast
  have hp: "holds vt (?d\<lparr>union_of := Alive j w, leaked := 1, index_of_storage := p\<rparr>) j w" for w
    using p(2) by (simp add: holds_def split: if_splits)
  have s: "(set_index j ?d :: ('a variant, 'e, unit) outcome) = Ok () (?d\<lparr>index_of_storage := p\<rparr>)"
    using p(1) by (simp add: raw_variant_def)
  have ip: "var_index (?d\<lparr>index_of_storage := p\<rparr>) = j" "\<not> valueless (?d\<lparr>index_of_storage := p\<rparr>)"
    using holds_index(1,2) [OF assms(1) hp] by (auto simp: var_index_def valueless_def)
  show ?thesis
  proof (cases "copy_construct (alternatives vt ! j) v")
    case (Inr w)
    then have "var_copy_ctor vt init (x, y) = Ok () (?d\<lparr>union_of := Alive j w, leaked := 1, index_of_storage := p\<rparr>, y)"
      using d s ip iy
      by (simp add: var_copy_ctor_def then_op_def on_this_def copy_construct_storage_def var_read_def var_construct_def raw_variant_def)
    then show ?thesis using Inr \<open>init = Inr a\<close> hp [of w]
        regular_copy_construct [OF alternative_properties(2) [OF iy(3)] Inr] by auto
  next
    case (Inl e)
    then show ?thesis using d s ip iy \<open>init = Inr a\<close>
      by (auto simp: var_copy_ctor_def then_op_def on_this_def copy_construct_storage_def var_read_def var_construct_def
          var_dtor_def noexcept_def destroy_storage_def raw_variant_def)
  qed
qed

text \<open>An alternative whose copy constructor throws.\<close>

definition int_or_throwing_copy :: "(int, string) variant_type" where
  "int_or_throwing_copy = \<lparr>alternatives = [trivial_type, trivial_type\<lparr>copy_construct := \<lambda>_. Inl ''copy''\<rparr>],
     single_is_pod = False, is_noexcept_movable = True\<rparr>"

lemma variant_copy_construct_witness:
  "var_copy_ctor int_or_throwing_copy (Inr 0)
     (raw_variant int_or_throwing_copy, \<lparr>index_of_storage = Multi 1, union_of = Alive 1 5, leaked = 0\<rparr>) = Fault Wrong_Alternative"
proof -
  have "variant_type_ok int_or_throwing_copy"
    "holds int_or_throwing_copy \<lparr>index_of_storage = Multi 1, union_of = Alive 1 5, leaked = 0\<rparr> 1 5"
    by (simp_all add: holds_def int_or_throwing_copy_def variant_type_ok_def)
  from variant_copy_construct [OF this, of "Inr 0" "raw_variant int_or_throwing_copy"] show ?thesis
    by (simp add: int_or_throwing_copy_def)
qed

lemma var_compare_result:
  assumes "variant_type_ok vt" "holds vt x i v" "holds vt y j w"
  shows "var_less vt lt x y = Inr (i < j \<or> i = j \<and> lt i v w)"
    and "var_equal vt eq x y = Inr (i = j \<and> eq i v w)"
  using holds_index [OF assms(1,2)] holds_index [OF assms(1,3)]
  by (auto simp: var_less_def var_equal_def var_read_def)

text \<open>
  For variants that hold values, with a totally ordered type per alternative, exactly one of
  \<open>l < r\<close>, \<open>l == r\<close> and \<open>r < l\<close> is true, none of the three faults, the derived operators agree with
  them, and \<open><\<close> is transitive.
\<close>

theorem variant_order_trichotomy:
  fixes vt :: "('a::linorder, 'e) variant_type"
  assumes ok: "variant_type_ok vt" and h: "holds vt x i u" "holds vt y j v" "holds vt z k w"
  defines "below \<equiv> var_less vt (\<lambda>_. (<))" and "same \<equiv> var_equal vt (\<lambda>_. (=))"
  shows "(below x y, same x y, below y x) \<in>
      {(Inr True, Inr False, Inr False), (Inr False, Inr True, Inr False), (Inr False, Inr False, Inr True)} \<and>
    var_less_equal vt (\<lambda>_. (<)) x y = Inr (below x y = Inr True \<or> same x y = Inr True) \<and>
    var_greater_equal vt (\<lambda>_. (<)) x y = Inr (below y x = Inr True \<or> same x y = Inr True) \<and>
    var_not_equal vt (\<lambda>_. (=)) x y = Inr (same x y \<noteq> Inr True) \<and>
    (below x y = Inr True \<and> below y z = Inr True \<longrightarrow> below x z = Inr True)"
  unfolding below_def same_def var_less_equal_def var_greater_equal_def var_not_equal_def var_greater_def
    var_compare_result [OF ok h(1,2)] var_compare_result [OF ok h(2,1)]
    var_compare_result [OF ok h(1,3)] var_compare_result [OF ok h(2,3)]
  by auto

lemma variant_order_trichotomy_witness:
  "var_less two_ints (\<lambda>_. (<)) \<lparr>index_of_storage = Multi 0, union_of = Alive 0 9, leaked = 0\<rparr>
     \<lparr>index_of_storage = Multi 1, union_of = Alive 1 5, leaked = 0\<rparr> = Inr True"
proof -
  have h: "holds two_ints \<lparr>index_of_storage = Multi 0, union_of = Alive 0 9, leaked = 0\<rparr> 0 9"
    "holds two_ints \<lparr>index_of_storage = Multi 1, union_of = Alive 1 5, leaked = 0\<rparr> 1 5"
    by (simp_all add: holds_def two_ints_def)
  from variant_order_trichotomy [OF two_ints_ok(1) h h(2)] show ?thesis
    by (auto simp: var_less_def var_equal_def var_index_def valueless_def invalid_index_def)
qed

text \<open>
  The index is one byte, and 255 of it means "no value".  With more than 255 alternatives,
  constructing alternative 255 gives a valueless variant whose object is never destroyed, and with
  more than 256, constructing alternative \<open>256 + k\<close> (\<open>k < 255\<close>) gives a variant that claims to hold alternative
  \<open>k\<close>, so that the destructor destroys an object of the wrong type.
\<close>

theorem variant_index_byte:
  fixes vt :: "('a, 'e) variant_type"
  assumes "255 < length (alternatives vt)"
  shows "(\<exists>y. (var_value_ctor vt 255 (Inr v) z :: ('a variant, 'e, unit) outcome) = Ok () y \<and> valueless y \<and>
      (var_dtor vt y :: ('a variant, 'e, unit) outcome) = Ok () y \<and> union_of y = Alive 255 v) \<and>
    (k < 255 \<longrightarrow> (\<exists>y. (var_value_ctor vt (256 + k) (Inr v) z :: ('a variant, 'e, unit) outcome) = Ok () y \<and>
      var_index y = k \<and> (var_dtor vt y :: ('a variant, 'e, unit) outcome) = Fault Wrong_Alternative))"
proof -
  have "\<not> length (alternatives vt) \<le> k" if "k < 255" using that assms by linarith
  then show ?thesis using assms
    by (auto simp: var_value_ctor_def then_op_def set_index_def raw_variant_def initial_index_def var_construct_def
        valueless_def invalid_index_def var_dtor_def noexcept_def var_index_def destroy_storage_def var_read_def)
qed

lemma variant_index_byte_witness:
  "\<exists>y. (var_value_ctor \<lparr>alternatives = replicate 300 trivial_type, single_is_pod = False, is_noexcept_movable = True\<rparr>
      255 (Inr (7::int)) \<lparr>index_of_storage = Multi 0, union_of = Vacant, leaked = 0\<rparr> :: (int variant, unit, unit) outcome) = Ok () y \<and> valueless y"
  using variant_index_byte
    [of "\<lparr>alternatives = replicate 300 trivial_type, single_is_pod = False, is_noexcept_movable = True\<rparr> :: (int, unit) variant_type"
        7 "\<lparr>index_of_storage = Multi 0, union_of = Vacant, leaked = 0\<rparr>" 0]
  by auto

end
