(* ===== verification/Source_Contract.thy ===== *)
theory Source_Contract
  imports Silicium_Prelude
begin

text \<open>
  \<open>silicium/source/source.hpp\<close>: the interface \<open>Source<Element>\<close> and its clients.  \<open>copy_next\<close> fills a
  destination range and returns the end of what it has written; here \<open>copy_next s n\<close> is called for a
  destination of \<open>n\<close> elements and returns the list of the elements written and the new state.

  The locale \<open>element_source\<close> is the contract every client relies on: the source hands out the
  elements of \<open>pending s\<close> in order, not more than the destination holds, and at least one if there is
  one.  \<open>exact_source\<close> fills the destination as far as it can.
\<close>

type_synonym ('s, 'e) copy_function = "'s \<Rightarrow> nat \<Rightarrow> 'e list \<times> 's"

section \<open>Clients of a source\<close>

text \<open>\<open>get\<close>: one element is requested through a destination of size 1.\<close>

definition get :: "('s, 'e) copy_function \<Rightarrow> 's \<Rightarrow> 'e option \<times> 's" where
  "get cn s = (case cn s 1 of ([], s') \<Rightarrow> (None, s') | (x # _, s') \<Rightarrow> (Some x, s'))"

text \<open>\<open>take\<close>: the destination has \<open>count\<close> elements and is then shrunk to what was written.\<close>

definition take_from :: "('s, 'e) copy_function \<Rightarrow> 's \<Rightarrow> nat \<Rightarrow> 'e list \<times> 's" where
  "take_from cn s count = (case cn s count of (taken, s') \<Rightarrow> (take (length taken) taken, s'))"

section \<open>The contract\<close>

locale element_source =
  fixes copy_next :: "('s, 'e) copy_function"
    and pending :: "'s \<Rightarrow> 'e list"
    and invar :: "'s \<Rightarrow> bool"
  assumes copy_next_pending: "invar s \<Longrightarrow> copy_next s n = (ys, s') \<Longrightarrow> pending s = ys @ pending s'"
    and copy_next_inv: "invar s \<Longrightarrow> copy_next s n = (ys, s') \<Longrightarrow> invar s'"
    and copy_next_bound: "invar s \<Longrightarrow> copy_next s n = (ys, s') \<Longrightarrow> length ys \<le> n"
    and copy_next_progress:
      "invar s \<Longrightarrow> copy_next s n = (ys, s') \<Longrightarrow> 0 < n \<Longrightarrow> pending s \<noteq> [] \<Longrightarrow> ys \<noteq> []"
begin

lemma get_Nil:
  assumes "invar s" "pending s = []"
  shows "\<exists>s'. get copy_next s = (None, s') \<and> invar s' \<and> pending s' = []"
proof -
  obtain ys s' where c: "copy_next s 1 = (ys, s')" by fastforce
  from copy_next_pending [OF assms(1) c] copy_next_inv [OF assms(1) c] assms(2) c show ?thesis
    by (simp add: get_def)
qed

lemma get_Cons:
  assumes "invar s" "pending s = x # xs"
  shows "\<exists>s'. get copy_next s = (Some x, s') \<and> invar s' \<and> pending s' = xs"
proof -
  obtain ys s' where c: "copy_next s 1 = (ys, s')" by fastforce
  from copy_next_progress [OF assms(1) c] assms(2) have "ys \<noteq> []" by simp
  with copy_next_bound [OF assms(1) c] obtain y where "ys = [y]"
    by (cases ys) auto
  with copy_next_pending [OF assms(1) c] copy_next_inv [OF assms(1) c] assms(2) c show ?thesis
    by (simp add: get_def)
qed

lemma get_cases:
  assumes "invar s"
  obtains (end_of_source) s' where "get copy_next s = (None, s')" "invar s'" "pending s = []" "pending s' = []"
        | (next_element) x s' where "get copy_next s = (Some x, s')" "invar s'" "pending s = x # pending s'"
proof (cases "pending s")
  case Nil
  with get_Nil [OF assms] end_of_source show ?thesis by blast
next
  case (Cons x xs)
  with get_Cons [OF assms Cons] next_element show ?thesis by fastforce
qed

lemma take_from_pending:
  assumes "invar s" "take_from copy_next s n = (ys, s')"
  shows "pending s = ys @ pending s' \<and> length ys \<le> n \<and> invar s'"
proof -
  obtain zs t where c: "copy_next s n = (zs, t)" by fastforce
  with assms(2) have "ys = zs" "s' = t" by (auto simp: take_from_def)
  with copy_next_pending [OF assms(1) c] copy_next_bound [OF assms(1) c] copy_next_inv [OF assms(1) c]
  show ?thesis by simp
qed

end

locale exact_source = element_source +
  assumes copy_next_full:
    "invar s \<Longrightarrow> copy_next s n = (ys, s') \<Longrightarrow> length ys = min n (length (pending s))"
begin

lemma copy_next_take:
  assumes "invar s"
  shows "fst (copy_next s n) = take n (pending s) \<and> pending (snd (copy_next s n)) = drop n (pending s)"
proof -
  obtain ys s' where c: "copy_next s n = (ys, s')" by fastforce
  from copy_next_pending [OF assms c] have p: "pending s = ys @ pending s'" .
  from copy_next_full [OF assms c] p have "length ys = n \<or> length ys \<le> n \<and> pending s' = []"
    by (auto simp: min_def split: if_splits)
  with p c show ?thesis by auto
qed

end

text \<open>How the contract is shown for a source: what it delivers is a prefix of the right length.\<close>

lemma exact_sourceI:
  assumes "\<And>s n. invar s \<Longrightarrow> fst (cn s n) = take n (pending s)"
    and "\<And>s n. invar s \<Longrightarrow> pending (snd (cn s n)) = drop n (pending s)"
    and "\<And>s n. invar s \<Longrightarrow> invar (snd (cn s n))"
  shows "exact_source cn pending invar"
proof
  fix s n ys s' assume s: "invar s" "cn s n = (ys, s')"
  from assms [OF s(1), of n] s(2)
  have h: "ys = take n (pending s)" "pending s' = drop n (pending s)" "invar s'" by simp_all
  show "pending s = ys @ pending s'" using h by simp
  show "invar s'" using h by simp
  show "length ys \<le> n" using h by simp
  show "length ys = min n (length (pending s))" using h by simp
  assume "0 < n" "pending s \<noteq> []" then show "ys \<noteq> []" using h by simp
qed

lemma exact_source_eqI:
  assumes "\<And>s n. invar s \<Longrightarrow> \<exists>s'. cn s n = (take n (pending s), s') \<and> invar s' \<and>
    pending s' = drop n (pending s)"
  shows "exact_source cn pending invar"
proof (rule exact_sourceI)
  fix s n assume "invar s"
  from assms [OF this, of n]
  show "fst (cn s n) = take n (pending s)" and "pending (snd (cn s n)) = drop n (pending s)"
    and "invar (snd (cn s n))" by auto
qed

end
