(* ===== verification/Sources.thy ===== *)
theory Sources
  imports Source_Contract
begin

text \<open>
  \<open>silicium/source/*.hpp\<close>: the sources of the library.  Each is a state and its \<open>map_next\<close> and
  \<open>copy_next\<close> (\<open>Source_Contract\<close> says how a destination range is modelled); the template parameter
  \<open>Input\<close> of a source that wraps another one is the \<open>copy_next\<close> function of the inner source.  The
  second half proves which contract each source keeps and what it delivers.
\<close>

section \<open>Sources over memory\<close>

text \<open>\<open>memory_source\<close> and \<open>mutable_memory_source\<close>: the state is the range of remaining elements.\<close>

fun memory_copy_next :: "('e list, 'e) copy_function" where
  "memory_copy_next [] n = ([], [])"
| "memory_copy_next (x # xs) 0 = ([], x # xs)"
| "memory_copy_next (x # xs) (Suc n) = (case memory_copy_next xs n of (ys, r) \<Rightarrow> (x # ys, r))"

definition memory_map_next :: "'e list \<Rightarrow> nat \<Rightarrow> 'e list \<times> 'e list" where
  "memory_map_next elements size_wanted = (elements, elements)"

fun mutable_memory_copy_next :: "('e list, 'e) copy_function" where
  "mutable_memory_copy_next [] n = ([], [])"
| "mutable_memory_copy_next (x # xs) 0 = ([], x # xs)"
| "mutable_memory_copy_next (x # xs) (Suc n) =
     (case mutable_memory_copy_next xs n of (ys, r) \<Rightarrow> (x # ys, r))"

definition mutable_memory_map_next :: "'e list \<Rightarrow> nat \<Rightarrow> 'e list \<times> 'e list" where
  "mutable_memory_map_next elements size_wanted = ([], elements)"

definition make_container_source :: "'e list \<Rightarrow> 'e list" where
  "make_container_source container = container"

text \<open>A C string ends before its first NUL; \<open>chars\<close> is the memory that starts at the pointer.\<close>

definition make_c_str_source :: "char list \<Rightarrow> char list" where
  "make_c_str_source chars = before_first (CHR 0x00) chars"

text \<open>\<open>range_source\<close>; \<open>pointers\<close> says whether the iterators of the range are pointers.\<close>

fun range_copy_next :: "('e list, 'e) copy_function" where
  "range_copy_next rng 0 = ([], rng)"
| "range_copy_next [] (Suc n) = ([], [])"
| "range_copy_next (x # xs) (Suc n) = (case range_copy_next xs n of (ys, r) \<Rightarrow> (x # ys, r))"

definition range_map_next :: "bool \<Rightarrow> 'e list \<Rightarrow> nat \<Rightarrow> 'e list \<times> 'e list" where
  "range_map_next pointers rng size_wanted =
     (if pointers then (if rng = [] then [] else rng) else [], rng)"

text \<open>\<open>owning_source\<close>: an owned container and a position (iterator or index) in it.\<close>

record 'e owning =
  owned :: "'e list"
  next_pos :: nat

definition owning_init :: "'e list \<Rightarrow> 'e owning" where
  "owning_init c = \<lparr>owned = c, next_pos = 0\<rparr>"

fun owning_indirect_copy_next :: "('e owning, 'e) copy_function" where
  "owning_indirect_copy_next s 0 = ([], s)"
| "owning_indirect_copy_next s (Suc n) =
     (if next_pos s \<noteq> length (owned s)
      then (case owning_indirect_copy_next (s\<lparr>next_pos := next_pos s + 1\<rparr>) n of
              (ys, s') \<Rightarrow> (owned s ! next_pos s # ys, s'))
      else ([], s))"

definition owning_indirect_map_next :: "'e owning \<Rightarrow> nat \<Rightarrow> 'e list \<times> 'e owning" where
  "owning_indirect_map_next s size_wanted = ([], s)"

fun owning_direct_copy_next :: "('e owning, 'e) copy_function" where
  "owning_direct_copy_next s 0 = ([], s)"
| "owning_direct_copy_next s (Suc n) =
     (if next_pos s < length (owned s)
      then (case owning_direct_copy_next (s\<lparr>next_pos := next_pos s + 1\<rparr>) n of
              (ys, s') \<Rightarrow> (owned s ! next_pos s # ys, s'))
      else ([], s))"

text \<open>Unlike the other sources, \<open>map_next\<close> of this one consumes what it maps.\<close>

definition owning_direct_map_next :: "'e owning \<Rightarrow> nat \<Rightarrow> 'e list \<times> 'e owning" where
  "owning_direct_map_next s size_wanted =
     (let mapped = min (length (owned s) - next_pos s) size_wanted;
          s' = s\<lparr>next_pos := next_pos s + mapped\<rparr>
      in (take mapped (drop (next_pos s' - mapped) (owned s')), s'))"

text \<open>\<open>single_source\<close>; \<open>map_next\<close> consumes the element as well.\<close>

record 'e single =
  element :: 'e
  used :: bool

definition single_init :: "'e \<Rightarrow> 'e single" where
  "single_init x = \<lparr>element = x, used = False\<rparr>"

definition single_map_next :: "'e single \<Rightarrow> nat \<Rightarrow> 'e list \<times> 'e single" where
  "single_map_next s size_wanted =
     (if used s then ([], s) else ([element s], s\<lparr>used := True\<rparr>))"

definition single_copy_next :: "('e single, 'e) copy_function" where
  "single_copy_next s n =
     (if used s \<or> n = 0 then ([], s) else ([element s], s\<lparr>used := True\<rparr>))"

text \<open>\<open>empty_source\<close>.\<close>

definition empty_map_next :: "unit \<Rightarrow> nat \<Rightarrow> 'e list \<times> unit" where
  "empty_map_next s size_wanted = ([], ())"

definition empty_copy_next :: "(unit, 'e) copy_function" where
  "empty_copy_next s n = ([], ())"

section \<open>Generators\<close>

text \<open>\<open>generator_source\<close>: the generator is a function object with state \<open>'g\<close>.\<close>

fun generator_copy_next :: "('g \<Rightarrow> 'e option \<times> 'g) \<Rightarrow> ('g, 'e) copy_function" where
  "generator_copy_next gen g 0 = ([], g)"
| "generator_copy_next gen g (Suc n) = (case gen g of
      (None, g') \<Rightarrow> ([], g')
    | (Some x, g') \<Rightarrow> (case generator_copy_next gen g' n of (ys, g'') \<Rightarrow> (x # ys, g'')))"

definition generator_map_next :: "'g \<Rightarrow> nat \<Rightarrow> 'e list \<times> 'g" where
  "generator_map_next g size_wanted = ([], g)"

definition generator_minimum_size :: "'g \<Rightarrow> nat" where
  "generator_minimum_size g = 0"

definition generator_maximum_size :: "'g \<Rightarrow> nat option" where
  "generator_maximum_size g = None"

fun generator_skip :: "('g \<Rightarrow> 'e option \<times> 'g) \<Rightarrow> 'g \<Rightarrow> nat \<Rightarrow> nat \<times> 'g" where
  "generator_skip gen g 0 = (0, g)"
| "generator_skip gen g (Suc count) = (case gen g of
      (None, g') \<Rightarrow> (0, g')
    | (Some x, g') \<Rightarrow> (case generator_skip gen g' count of (i, g'') \<Rightarrow> (Suc i, g'')))"

text \<open>\<open>make_oneshot_generator_source\<close>: the closure holds \<open>has_generated\<close> and the generator.\<close>

definition oneshot_generate ::
    "('g \<Rightarrow> 'e option \<times> 'g) \<Rightarrow> bool \<times> 'g \<Rightarrow> 'e option \<times> (bool \<times> 'g)" where
  "oneshot_generate generate_one c =
     (if fst c then (None, c)
      else (case generate_one (snd c) of (r, g') \<Rightarrow> (r, (True, g'))))"

section \<open>Sources that wrap another source\<close>

text \<open>\<open>virtualized_source\<close> and \<open>ptr_source\<close> forward both operations.\<close>

definition virtualized_copy_next :: "('s, 'e) copy_function \<Rightarrow> ('s, 'e) copy_function" where
  "virtualized_copy_next cn original n = cn original n"

definition virtualized_map_next ::
    "('s \<Rightarrow> nat \<Rightarrow> 'e list \<times> 's) \<Rightarrow> 's \<Rightarrow> nat \<Rightarrow> 'e list \<times> 's" where
  "virtualized_map_next mn original size_wanted = mn original size_wanted"

definition ptr_copy_next :: "('s, 'e) copy_function \<Rightarrow> 's option \<Rightarrow> nat \<Rightarrow> fault + 'e list \<times> 's" where
  "ptr_copy_next cn p n = (case p of None \<Rightarrow> Inl Null_Pointer | Some s \<Rightarrow> Inr (cn s n))"

definition ptr_map_next ::
    "('s \<Rightarrow> nat \<Rightarrow> 'e list \<times> 's) \<Rightarrow> 's option \<Rightarrow> nat \<Rightarrow> fault + 'e list \<times> 's" where
  "ptr_map_next mn p n = (case p of None \<Rightarrow> Inl Null_Pointer | Some s \<Rightarrow> Inr (mn s n))"

text \<open>\<open>transforming_source\<close>\<close>

fun transforming_copy_next ::
    "('s, 'a) copy_function \<Rightarrow> ('a \<Rightarrow> 'b) \<Rightarrow> ('s, 'b) copy_function" where
  "transforming_copy_next cn f s 0 = ([], s)"
| "transforming_copy_next cn f s (Suc n) = (case get cn s of
      (None, s') \<Rightarrow> ([], s')
    | (Some x, s') \<Rightarrow> (case transforming_copy_next cn f s' n of (ys, s'') \<Rightarrow> (f x # ys, s'')))"

definition transforming_map_next :: "'s \<Rightarrow> nat \<Rightarrow> 'b list \<times> 's" where
  "transforming_map_next s size_wanted = ([], s)"

text \<open>
  \<open>throwing_source\<close>: the transformation is \<open>error_or::get\<close>, which throws on an error; the elements
  copied before the throw are lost with it.
\<close>

fun throwing_copy_next ::
    "('s, 'x + 'v) copy_function \<Rightarrow> nat \<Rightarrow> ('s, 'x, 'v list) op" where
  "throwing_copy_next cn 0 s = Ok [] s"
| "throwing_copy_next cn (Suc n) s = (case get cn s of
      (None, s') \<Rightarrow> Ok [] s'
    | (Some (Inl e), s') \<Rightarrow> Raise e s'
    | (Some (Inr v), s') \<Rightarrow> (case throwing_copy_next cn n s' of
          Ok vs s'' \<Rightarrow> Ok (v # vs) s'' | Raise e s'' \<Rightarrow> Raise e s'' | Fault f \<Rightarrow> Fault f))"

text \<open>
  \<open>filter_source\<close>: the loop asks the input until the destination is full or the input is at its end;
  on an input without end it may not return (\<open>None\<close>).
\<close>

partial_function (option) filter_copy_next ::
    "('s, 'e) copy_function \<Rightarrow> ('e \<Rightarrow> bool) \<Rightarrow> 's \<Rightarrow> nat \<Rightarrow> ('e list \<times> 's) option" where
  "filter_copy_next cn p s n =
     (if n = 0 then Some ([], s)
      else (case get cn s of
          (None, s') \<Rightarrow> Some ([], s')
        | (Some x, s') \<Rightarrow>
            (if p x
             then Option.bind (filter_copy_next cn p s' (n - 1)) (\<lambda>(ys, s''). Some (x # ys, s''))
             else filter_copy_next cn p s' n)))"

text \<open>\<open>filter_source::map_next\<close> throws \<open>std::logic_error("todo")\<close>.\<close>

definition filter_map_next :: "nat \<Rightarrow> ('s, string, 'e list) op" where
  "filter_map_next size_wanted s = Raise ''todo'' s"

text \<open>\<open>enumerating_source\<close>: the input yields ranges, the source their elements.\<close>

record ('s, 'e) enumerating =
  m_input :: 's
  m_rest :: "'e list"

definition enumerating_map_next ::
    "('s, 'e list) copy_function \<Rightarrow> ('s, 'e) enumerating \<Rightarrow> nat \<Rightarrow> 'e list \<times> ('s, 'e) enumerating" where
  "enumerating_map_next cn s size_wanted =
     (if m_rest s \<noteq> [] then (m_rest s, s\<lparr>m_rest := []\<rparr>)
      else (case get cn (m_input s) of
          (None, i) \<Rightarrow> ([], s\<lparr>m_input := i\<rparr>)
        | (Some r, i) \<Rightarrow> (r, s\<lparr>m_input := i\<rparr>)))"

text \<open>One turn of the loop of \<open>copy_next\<close>: \<open>m_rest\<close> is refilled when it is empty.\<close>

definition enumerating_refill ::
    "('s, 'e list) copy_function \<Rightarrow> ('s, 'e) enumerating \<Rightarrow> ('s, 'e) enumerating" where
  "enumerating_refill cn s =
     (if m_rest s = []
      then (case get cn (m_input s) of
          (None, i) \<Rightarrow> s\<lparr>m_input := i\<rparr>
        | (Some r, i) \<Rightarrow> s\<lparr>m_input := i, m_rest := r\<rparr>)
      else s)"

function enumerating_copy_next ::
    "('s, 'e list) copy_function \<Rightarrow> (('s, 'e) enumerating, 'e) copy_function" where
  "enumerating_copy_next cn s requested =
     (if requested = 0 then ([], s)
      else (let s1 = enumerating_refill cn s; provided = length (m_rest s1) in
        if provided = 0 then ([], s1)
        else (let copyable = min requested provided in
          (case enumerating_copy_next cn (s1\<lparr>m_rest := drop copyable (m_rest s1)\<rparr>)
                  (requested - copyable) of
             (ys, s2) \<Rightarrow> (take copyable (m_rest s1) @ ys, s2)))))"
  by pat_completeness auto
termination
  by (relation "measure (\<lambda>(cn, s, n). n)") auto

declare enumerating_copy_next.simps [simp del]

text \<open>\<open>error_extracting_source\<close>: elements are \<open>error_or\<close>s, \<open>m_last_error\<close> keeps the first error.\<close>

record ('s, 'x) extracting =
  x_input :: 's
  m_last_error :: "'x option"

definition extracting_map_next ::
    "('s \<Rightarrow> nat \<Rightarrow> ('x + 'v) list \<times> 's) \<Rightarrow> ('s, 'x) extracting \<Rightarrow> nat \<Rightarrow>
     'v list \<times> ('s, 'x) extracting" where
  "extracting_map_next mn s size_wanted =
     (if m_last_error s \<noteq> None then ([], s)
      else (case mn (x_input s) 1 of
          ([], i) \<Rightarrow> ([], s\<lparr>x_input := i\<rparr>)
        | (Inl e # _, i) \<Rightarrow> ([], s\<lparr>x_input := i, m_last_error := Some e\<rparr>)
        | (Inr v # _, i) \<Rightarrow> ([v], s\<lparr>x_input := i\<rparr>)))"

fun extracting_loop ::
    "('s, 'x + 'v) copy_function \<Rightarrow> (('s, 'x) extracting, 'v) copy_function" where
  "extracting_loop cn s 0 = ([], s)"
| "extracting_loop cn s (Suc n) = (case get cn (x_input s) of
      (None, i) \<Rightarrow> ([], s\<lparr>x_input := i\<rparr>)
    | (Some (Inl e), i) \<Rightarrow> ([], s\<lparr>x_input := i, m_last_error := Some e\<rparr>)
    | (Some (Inr v), i) \<Rightarrow>
        (case extracting_loop cn (s\<lparr>x_input := i\<rparr>) n of (vs, s') \<Rightarrow> (v # vs, s')))"

definition extracting_copy_next ::
    "('s, 'x + 'v) copy_function \<Rightarrow> (('s, 'x) extracting, 'v) copy_function" where
  "extracting_copy_next cn s n =
     (if m_last_error s \<noteq> None then ([], s) else extracting_loop cn s n)"

definition get_last_error :: "('s, 'x) extracting \<Rightarrow> 'x option" where
  "get_last_error s = m_last_error s"

text \<open>
  \<open>received_from_socket_source\<close>: \<open>rest\<close> is the unread part of the last received piece; a received
  error ends the stream silently (\<open>strip_error\<close>).
\<close>

record 's receiving =
  original :: 's
  rest :: string

definition strip_error :: "'x + string \<Rightarrow> string option" where
  "strip_error received = (case received of Inl e \<Rightarrow> None | Inr bytes \<Rightarrow> Some bytes)"

definition receiving_buffered :: "'s receiving \<Rightarrow> string" where
  "receiving_buffered s = rest s"

definition receiving_map_next ::
    "('s, 'x + string) copy_function \<Rightarrow> 's receiving \<Rightarrow> nat \<Rightarrow> string \<times> 's receiving" where
  "receiving_map_next cn s size_wanted =
     (if rest s = []
      then (case get cn (original s) of
          (None, i) \<Rightarrow> ([], s\<lparr>original := i\<rparr>)
        | (Some received, i) \<Rightarrow> (case strip_error received of
              None \<Rightarrow> ([], s\<lparr>original := i\<rparr>)
            | Some bytes \<Rightarrow> (bytes, s\<lparr>original := i, rest := bytes\<rparr>)))
      else (rest s, s))"

definition receiving_skip :: "nat \<Rightarrow> ('s receiving, unit, nat) op" where
  "receiving_skip count s =
     (let rest_skipped = min count (length (rest s))
      in if count - rest_skipped > 0 then Fault Unreachable_Executed
         else Ok rest_skipped (s\<lparr>rest := drop rest_skipped (rest s)\<rparr>))"

definition receiving_copy_next ::
    "('s, 'x + string) copy_function \<Rightarrow> nat \<Rightarrow> ('s receiving, unit, string) op" where
  "receiving_copy_next cn n s = (case receiving_map_next cn s n of (mapped, s1) \<Rightarrow>
     (let copy_size = min n (length mapped) in
      (case receiving_skip copy_size s1 of
         Ok _ s2 \<Rightarrow> Ok (take copy_size mapped) s2 | Raise e s2 \<Rightarrow> Raise e s2 | Fault f \<Rightarrow> Fault f)))"

section \<open>What the sources deliver\<close>

lemma memory_copy_next_eq: "memory_copy_next xs n = (take n xs, drop n xs)"
  by (induction xs n rule: memory_copy_next.induct) auto

lemma mutable_memory_copy_next_eq: "mutable_memory_copy_next xs n = memory_copy_next xs n"
  by (induction xs n rule: mutable_memory_copy_next.induct) auto

lemma range_copy_next_eq: "range_copy_next xs n = memory_copy_next xs n"
  by (induction xs n rule: range_copy_next.induct) (auto simp: memory_copy_next_eq)

interpretation memory: exact_source memory_copy_next "\<lambda>xs. xs" "\<lambda>_. True"
  by (rule exact_sourceI) (auto simp: memory_copy_next_eq)

interpretation mutable_memory: exact_source mutable_memory_copy_next "\<lambda>xs. xs" "\<lambda>_. True"
  by (rule exact_sourceI) (auto simp: memory_copy_next_eq mutable_memory_copy_next_eq)

interpretation range_src: exact_source range_copy_next "\<lambda>xs. xs" "\<lambda>_. True"
  by (rule exact_sourceI) (auto simp: memory_copy_next_eq range_copy_next_eq)

interpretation empty_src: exact_source empty_copy_next "\<lambda>_. []" "\<lambda>_. True"
  by (rule exact_sourceI) (auto simp: empty_copy_next_def)

definition single_pending :: "'e single \<Rightarrow> 'e list" where
  "single_pending s = (if used s then [] else [element s])"

interpretation single_src: exact_source single_copy_next single_pending "\<lambda>_. True"
  by (rule exact_sourceI)
     (auto simp: single_copy_next_def single_pending_def take_Cons' drop_Cons')

definition owning_pending :: "'e owning \<Rightarrow> 'e list" where
  "owning_pending s = drop (next_pos s) (owned s)"

definition owning_inv :: "'e owning \<Rightarrow> bool" where
  "owning_inv s \<longleftrightarrow> next_pos s \<le> length (owned s)"

lemma owning_direct_copy_next_eq:
  "owning_inv s \<Longrightarrow> owning_direct_copy_next s n =
     (take n (owning_pending s), s\<lparr>next_pos := next_pos s + min n (length (owning_pending s))\<rparr>)"
proof (induction s n rule: owning_direct_copy_next.induct)
  case (1 s)
  then show ?case by simp
next
  case (2 s n)
  show ?case
  proof (cases "next_pos s < length (owned s)")
    case True
    let ?t = "s\<lparr>next_pos := next_pos s + 1\<rparr>"
    from True have "owning_inv ?t" by (simp add: owning_inv_def)
    moreover from True have "owning_pending s = owned s ! next_pos s # owning_pending ?t"
      by (simp add: owning_pending_def Cons_nth_drop_Suc)
    ultimately show ?thesis using "2.IH" [OF True] True by simp
  next
    case False
    with "2.prems" show ?thesis by (simp add: owning_inv_def owning_pending_def)
  qed
qed

lemma owning_indirect_copy_next_eq:
  "owning_inv s \<Longrightarrow> owning_indirect_copy_next s n = owning_direct_copy_next s n"
proof (induction s n rule: owning_indirect_copy_next.induct)
  case (1 s)
  then show ?case by simp
next
  case (2 s n)
  show ?case
  proof (cases "next_pos s \<noteq> length (owned s)")
    case True
    with "2.prems" have "next_pos s < length (owned s)" by (simp add: owning_inv_def)
    moreover from this have "owning_inv (s\<lparr>next_pos := next_pos s + 1\<rparr>)" by (simp add: owning_inv_def)
    ultimately show ?thesis using "2.IH" [OF True] True by simp
  qed simp
qed

lemma owning_contract:
  assumes "\<And>s n. owning_inv s \<Longrightarrow> cn s n = owning_direct_copy_next s n"
  shows "exact_source cn owning_pending owning_inv"
  by (rule exact_sourceI)
     (auto simp: assms owning_direct_copy_next_eq, auto simp: owning_inv_def owning_pending_def min_def add.commute)

interpretation owning_direct: exact_source owning_direct_copy_next owning_pending owning_inv
  by (rule owning_contract) simp

interpretation owning_indirect: exact_source owning_indirect_copy_next owning_pending owning_inv
  by (rule owning_contract) (rule owning_indirect_copy_next_eq)

text \<open>\<open>map_next\<close> of \<open>owning_source_direct\<close> keeps the contract as well: it is a short read.\<close>

lemma owning_direct_map_next_eq:
  "owning_inv s \<Longrightarrow> owning_direct_map_next s n = owning_direct_copy_next s n"
  by (simp add: owning_direct_map_next_def owning_direct_copy_next_eq owning_pending_def
      min.commute Let_def) (simp add: min_def)

context element_source
begin

text \<open>Sources that ask their input element by element fill the destination exactly.\<close>

lemma transforming_eq:
  "invar s \<Longrightarrow> \<exists>s'. transforming_copy_next copy_next f s n = (map f (take n (pending s)), s') \<and>
     invar s' \<and> pending s' = drop n (pending s)"
proof (induction n arbitrary: s)
  case 0
  then show ?case by simp
next
  case (Suc n)
  from Suc.prems show ?case
  proof (cases rule: get_cases)
    case (end_of_source s')
    then show ?thesis by simp
  next
    case (next_element x s')
    with Suc.IH [of s'] show ?thesis by auto
  qed
qed

lemma transforming_contract:
  "exact_source (transforming_copy_next copy_next f) (\<lambda>s. map f (pending s)) invar"
proof (rule exact_sourceI)
  fix s n assume "invar s"
  from transforming_eq [OF this, of f n]
  show "fst (transforming_copy_next copy_next f s n) = take n (map f (pending s))"
    and "map f (pending (snd (transforming_copy_next copy_next f s n))) = drop n (map f (pending s))"
    and "invar (snd (transforming_copy_next copy_next f s n))"
    by (auto simp: take_map drop_map)
qed

lemma virtualized_contract: "element_source (virtualized_copy_next copy_next) pending invar"
proof -
  have "virtualized_copy_next copy_next = copy_next" by (intro ext) (simp add: virtualized_copy_next_def)
  then show ?thesis by (simp add: element_source_axioms)
qed

text \<open>The filter returns: it needs at most one call of \<open>get\<close> per pending element and one more.\<close>

lemma filter_eq:
  "invar s \<Longrightarrow> \<exists>s'. filter_copy_next copy_next p s n = Some (take n (filter p (pending s)), s') \<and>
     invar s' \<and> filter p (pending s') = drop n (filter p (pending s))"
proof (induction "pending s" arbitrary: s n)
  case Nil
  then show ?case
    using get_Nil [OF Nil.prems] by (cases n) (auto simp: filter_copy_next.simps [of _ _ s])
next
  case (Cons x xs)
  from get_Cons [OF Cons.prems Cons.hyps(2) [symmetric]]
  obtain t where t: "get copy_next s = (Some x, t)" "invar t" "pending t = xs" by blast
  show ?case
  proof (cases n)
    case 0
    then show ?thesis using Cons.prems by (simp add: filter_copy_next.simps [of _ _ s])
  next
    case (Suc m)
    from Cons.hyps(1) [OF t(3) [symmetric] t(2), of m] Cons.hyps(1) [OF t(3) [symmetric] t(2), of n]
    show ?thesis using Suc t Cons.hyps(2) [symmetric]
      by (auto simp: filter_copy_next.simps [of _ _ s])
  qed
qed

end

interpretation transformed_memory:
  exact_source "transforming_copy_next memory_copy_next f" "map f" "\<lambda>_. True" for f
  by (rule memory.transforming_contract)

text \<open>The values before the first error.\<close>

fun values_before_error :: "('x + 'v) list \<Rightarrow> 'v list" where
  "values_before_error [] = []"
| "values_before_error (Inl e # xs) = []"
| "values_before_error (Inr v # xs) = v # values_before_error xs"

fun first_error :: "('x + 'v) list \<Rightarrow> 'x option" where
  "first_error [] = None"
| "first_error (Inl e # xs) = Some e"
| "first_error (Inr v # xs) = first_error xs"

definition extracting_pending :: "('s \<Rightarrow> ('x + 'v) list) \<Rightarrow> ('s, 'x) extracting \<Rightarrow> 'v list" where
  "extracting_pending pend s =
     (if m_last_error s \<noteq> None then [] else values_before_error (pend (x_input s)))"

definition enumerating_pending :: "('s \<Rightarrow> 'e list list) \<Rightarrow> ('s, 'e) enumerating \<Rightarrow> 'e list" where
  "enumerating_pending pend s = m_rest s @ concat (pend (m_input s))"

definition enumerating_inv ::
    "('s \<Rightarrow> 'e list list) \<Rightarrow> ('s \<Rightarrow> bool) \<Rightarrow> ('s, 'e) enumerating \<Rightarrow> bool" where
  "enumerating_inv pend invar s \<longleftrightarrow> invar (m_input s) \<and> [] \<notin> set (pend (m_input s))"

definition receiving_pending :: "('s \<Rightarrow> ('x + string) list) \<Rightarrow> 's receiving \<Rightarrow> string" where
  "receiving_pending pend s = rest s @ concat (values_before_error (pend (original s)))"

definition receiving_inv ::
    "('s \<Rightarrow> ('x + string) list) \<Rightarrow> ('s \<Rightarrow> bool) \<Rightarrow> 's receiving \<Rightarrow> bool" where
  "receiving_inv pend invar s \<longleftrightarrow> invar (original s) \<and> first_error (pend (original s)) = None \<and>
     [] \<notin> set (values_before_error (pend (original s)))"

context element_source
begin

lemma generator_get: "generator_copy_next (get copy_next) s n = transforming_copy_next copy_next (\<lambda>x. x) s n"
  by (induction n arbitrary: s) (auto split: prod.splits option.splits)

lemma generator_contract: "exact_source (generator_copy_next (get copy_next)) pending invar"
proof -
  have "generator_copy_next (get copy_next) = transforming_copy_next copy_next (\<lambda>x. x)"
    by (intro ext) (rule generator_get)
  with transforming_contract [of "\<lambda>x. x"] show ?thesis by simp
qed

lemma generator_skip_eq:
  "invar s \<Longrightarrow> \<exists>s'. generator_skip (get copy_next) s n = (min n (length (pending s)), s') \<and>
     invar s' \<and> pending s' = drop n (pending s)"
proof (induction n arbitrary: s)
  case 0
  then show ?case by simp
next
  case (Suc n)
  from Suc.prems show ?case
  proof (cases rule: get_cases)
    case (end_of_source s')
    then show ?thesis by simp
  next
    case (next_element x s')
    with Suc.IH [of s'] show ?thesis by auto
  qed
qed

end

locale error_or_source = element_source copy_next pending invar
  for copy_next :: "('s, 'x + 'v) copy_function" and pending invar
begin

lemma extracting_loop_eq:
  "invar (x_input s) \<Longrightarrow> m_last_error s = None \<Longrightarrow>
   \<exists>s'. extracting_loop copy_next s n = (take n (values_before_error (pending (x_input s))), s') \<and>
     invar (x_input s') \<and> extracting_pending pending s' = drop n (values_before_error (pending (x_input s))) \<and>
     (length (values_before_error (pending (x_input s))) < n \<longrightarrow>
        m_last_error s' = first_error (pending (x_input s)))"
proof (induction n arbitrary: s)
  case 0
  then show ?case by (simp add: extracting_pending_def)
next
  case (Suc n)
  from Suc.prems(1) show ?case
  proof (cases rule: get_cases)
    case (end_of_source i)
    then show ?thesis using Suc.prems by (simp add: extracting_pending_def)
  next
    case (next_element x i)
    show ?thesis
    proof (cases x)
      case (Inl e)
      with next_element Suc.prems show ?thesis by (simp add: extracting_pending_def)
    next
      case (Inr v)
      with next_element Suc.prems Suc.IH [of "s\<lparr>x_input := i\<rparr>"] show ?thesis by auto
    qed
  qed
qed

lemma extracting_copy_eq:
  "invar (x_input s) \<Longrightarrow>
   \<exists>s'. extracting_copy_next copy_next s n = (take n (extracting_pending pending s), s') \<and>
     invar (x_input s') \<and> extracting_pending pending s' = drop n (extracting_pending pending s)"
  using extracting_loop_eq [of s n]
  by (cases "m_last_error s") (auto simp: extracting_copy_next_def, auto simp: extracting_pending_def)

lemma extracting_contract:
  "exact_source (extracting_copy_next copy_next) (extracting_pending pending) (\<lambda>s. invar (x_input s))"
  by (rule exact_source_eqI) (rule extracting_copy_eq)

lemma throwing_eq:
  "invar s \<Longrightarrow>
   (if length (values_before_error (pending s)) < n \<and> first_error (pending s) \<noteq> None
    then \<exists>s'. throwing_copy_next copy_next n s = Raise (the (first_error (pending s))) s' \<and> invar s' \<and>
           pending s' = drop (Suc (length (values_before_error (pending s)))) (pending s)
    else \<exists>s'. throwing_copy_next copy_next n s = Ok (take n (values_before_error (pending s))) s' \<and>
           invar s' \<and> pending s' = drop n (pending s))"
proof (induction n arbitrary: s)
  case 0
  then show ?case by simp
next
  case (Suc n)
  from Suc.prems show ?case
  proof (cases rule: get_cases)
    case (end_of_source i)
    then show ?thesis by simp
  next
    case (next_element x i)
    show ?thesis
    proof (cases x)
      case (Inl e)
      with next_element show ?thesis by simp
    next
      case (Inr v)
      with next_element Suc.IH [of i] show ?thesis by (auto split: if_splits)
    qed
  qed
qed

end

locale range_element_source = element_source copy_next pending invar
  for copy_next :: "('s, 'e list) copy_function" and pending invar
begin

lemma enumerating_refill_eq:
  assumes "enumerating_inv pending invar s"
  shows "enumerating_inv pending invar (enumerating_refill copy_next s)"
    and "enumerating_pending pending (enumerating_refill copy_next s) = enumerating_pending pending s"
    and "m_rest (enumerating_refill copy_next s) = [] \<longleftrightarrow> enumerating_pending pending s = []"
proof -
  from assms have i: "invar (m_input s)" and ne: "[] \<notin> set (pending (m_input s))"
    by (simp_all add: enumerating_inv_def)
  have "enumerating_inv pending invar (enumerating_refill copy_next s) \<and>
    enumerating_pending pending (enumerating_refill copy_next s) = enumerating_pending pending s \<and>
    (m_rest (enumerating_refill copy_next s) = [] \<longleftrightarrow> enumerating_pending pending s = [])"
  proof (cases "m_rest s")
    case Nil
    from i show ?thesis
    proof (cases rule: get_cases)
      case (end_of_source t)
      with Nil show ?thesis by (simp add: enumerating_refill_def enumerating_inv_def enumerating_pending_def)
    next
      case (next_element r t)
      with Nil ne show ?thesis
        by (auto simp: enumerating_refill_def enumerating_inv_def enumerating_pending_def)
    qed
  next
    case (Cons y ys)
    with assms show ?thesis by (simp add: enumerating_refill_def enumerating_pending_def)
  qed
  then show "enumerating_inv pending invar (enumerating_refill copy_next s)"
    and "enumerating_pending pending (enumerating_refill copy_next s) = enumerating_pending pending s"
    and "m_rest (enumerating_refill copy_next s) = [] \<longleftrightarrow> enumerating_pending pending s = []"
    by simp_all
qed

lemma enumerating_eq:
  "enumerating_inv pending invar s \<Longrightarrow>
   \<exists>s'. enumerating_copy_next copy_next s n = (take n (enumerating_pending pending s), s') \<and>
     enumerating_inv pending invar s' \<and>
     enumerating_pending pending s' = drop n (enumerating_pending pending s)"
proof (induction n arbitrary: s rule: less_induct)
  case (less n)
  let ?s1 = "enumerating_refill copy_next s"
  note r = enumerating_refill_eq [OF less.prems]
  show ?case
  proof (cases "n = 0 \<or> m_rest ?s1 = []")
    case True
    with r less.prems show ?thesis by (auto simp: enumerating_copy_next.simps [of _ s] Let_def)
  next
    case False
    let ?k = "min n (length (m_rest ?s1))" and ?t = "?s1\<lparr>m_rest := drop (min n (length (m_rest ?s1))) (m_rest ?s1)\<rparr>"
    from False have "n - ?k < n" by auto
    moreover have "enumerating_inv pending invar ?t" using r(1) by (simp add: enumerating_inv_def)
    ultimately obtain s' where s': "enumerating_copy_next copy_next ?t (n - ?k) =
        (take (n - ?k) (enumerating_pending pending ?t), s')"
      "enumerating_inv pending invar s'"
      "enumerating_pending pending s' = drop (n - ?k) (enumerating_pending pending ?t)"
      using less.IH by blast
    have p: "enumerating_pending pending s = take ?k (m_rest ?s1) @ enumerating_pending pending ?t"
      using r(2) by (simp add: enumerating_pending_def del: take_append drop_append)
        (metis append.assoc append_take_drop_id)
    have "length (take ?k (m_rest ?s1)) = ?k" by simp
    with p s' False show ?thesis
      by (simp add: enumerating_copy_next.simps [of _ s] Let_def)
  qed
qed

lemma enumerating_contract:
  "exact_source (enumerating_copy_next copy_next) (enumerating_pending pending)
     (enumerating_inv pending invar)"
  by (rule exact_source_eqI) (rule enumerating_eq)

end

locale received_bytes_source = error_or_source copy_next pending invar
  for copy_next :: "('s, 'x + string) copy_function" and pending invar
begin

lemma receiving_map_next_eq:
  assumes "receiving_inv pending invar s"
  shows "\<exists>s'. receiving_map_next copy_next s n = (rest s', s') \<and> receiving_inv pending invar s' \<and>
           receiving_pending pending s' = receiving_pending pending s \<and>
           (rest s' = [] \<longleftrightarrow> receiving_pending pending s = [])"
proof (cases "rest s")
  case Nil
  from assms have "invar (original s)" by (simp add: receiving_inv_def)
  then show ?thesis
  proof (cases rule: get_cases)
    case (end_of_source t)
    with Nil assms show ?thesis
      by (simp add: receiving_map_next_def receiving_inv_def receiving_pending_def)
  next
    case (next_element x t)
    with Nil assms show ?thesis
      by (cases x) (auto simp: receiving_map_next_def receiving_inv_def receiving_pending_def strip_error_def)
  qed
next
  case (Cons c cs)
  with assms show ?thesis by (simp add: receiving_map_next_def receiving_pending_def)
qed

lemma receiving_copy_next_eq:
  assumes "receiving_inv pending invar s"
  shows "\<exists>ys s'. receiving_copy_next copy_next n s = Ok ys s' \<and> receiving_inv pending invar s' \<and>
           receiving_pending pending s = ys @ receiving_pending pending s' \<and> length ys \<le> n \<and>
           (0 < n \<longrightarrow> receiving_pending pending s \<noteq> [] \<longrightarrow> ys \<noteq> [])"
proof -
  from receiving_map_next_eq [OF assms, of n] obtain t where
    t: "receiving_map_next copy_next s n = (rest t, t)" "receiving_inv pending invar t"
      "receiving_pending pending t = receiving_pending pending s"
      "rest t = [] \<longleftrightarrow> receiving_pending pending s = []" by blast
  let ?k = "min n (length (rest t))"
  have "receiving_copy_next copy_next n s = Ok (take ?k (rest t)) (t\<lparr>rest := drop ?k (rest t)\<rparr>)"
    by (simp add: receiving_copy_next_def receiving_skip_def t(1) Let_def)
  moreover have "receiving_pending pending t =
      take ?k (rest t) @ receiving_pending pending (t\<lparr>rest := drop ?k (rest t)\<rparr>)"
    by (simp add: receiving_pending_def flip: append_assoc)
  moreover have "receiving_inv pending invar (t\<lparr>rest := drop ?k (rest t)\<rparr>)"
    using t(2) by (simp add: receiving_inv_def)
  moreover have "0 < n \<longrightarrow> receiving_pending pending s \<noteq> [] \<longrightarrow> take ?k (rest t) \<noteq> []"
    using t(4) by auto
  ultimately show ?thesis unfolding t(3) by auto
qed

end

interpretation memory_error_or: error_or_source memory_copy_next "\<lambda>xs. xs" "\<lambda>_. True"
  by unfold_locales

interpretation memory_ranges: range_element_source memory_copy_next "\<lambda>xs. xs" "\<lambda>_. True"
  by unfold_locales

interpretation memory_bytes: received_bytes_source memory_copy_next "\<lambda>xs. xs" "\<lambda>_. True"
  by unfold_locales

interpretation extracting_memory: exact_source "extracting_copy_next memory_copy_next"
    "extracting_pending (\<lambda>xs. xs)" "\<lambda>s. True"
  using memory_error_or.extracting_contract by simp

interpretation enumerating_memory: exact_source "enumerating_copy_next memory_copy_next"
    "enumerating_pending (\<lambda>xs. xs)" "enumerating_inv (\<lambda>xs. xs) (\<lambda>_. True)"
  by (rule memory_ranges.enumerating_contract)

text \<open>A one-shot generator is called at most once.\<close>

lemma oneshot_used: "generator_copy_next (oneshot_generate g) (True, s) n = ([], (True, s))"
  by (cases n) (simp_all add: oneshot_generate_def)

lemma oneshot_once:
  assumes "g s = (Some x, s')"
  shows "generator_copy_next (oneshot_generate g) (False, s) (Suc n) = ([x], (True, s'))"
  by (simp add: oneshot_generate_def [of _ "(False, s)"] assms oneshot_used)

section \<open>Properties\<close>

text \<open>
  \<open>filter_source::copy_next\<close> on an input that keeps the source contract returns, with the first \<open>n\<close>
  of the remaining elements that satisfy the predicate (all of them if there are fewer), and what it
  delivers later are the satisfying elements that follow.
\<close>

theorem filter_source_delivers:
  assumes "element_source cn pending invar" "invar s"
  shows "\<exists>s'. filter_copy_next cn p s n = Some (take n (filter p (pending s)), s') \<and>
    invar s' \<and> filter p (pending s') = drop n (filter p (pending s))"
  by (rule element_source.filter_eq [OF assms])

lemma filter_source_delivers_witness:
  "\<exists>s'. filter_copy_next memory_copy_next even [1, 2, 3, 4, 5, 6 :: int] 2 = Some ([2, 4], s')"
  using filter_source_delivers [OF memory.element_source_axioms, where s = "[1, 2, 3, 4, 5, 6 :: int]" and p = even and n = 2]
  by auto

text \<open>
  \<open>error_extracting_source\<close> that is asked for more than there is before the first error: it
  delivers exactly the values before that error, \<open>get_last_error\<close> then returns that error, and every
  later call delivers nothing and leaves the source alone, whatever the input still holds.
\<close>

theorem extracting_source_stops_at_error:
  assumes "element_source cn pending invar" "invar (x_input s)" "m_last_error s = None"
    and "length (values_before_error (pending (x_input s))) < n"
  shows "\<exists>s'. extracting_copy_next cn s n = (values_before_error (pending (x_input s)), s') \<and>
    get_last_error s' = first_error (pending (x_input s)) \<and>
    (first_error (pending (x_input s)) \<noteq> None \<longrightarrow> extracting_copy_next cn s' m = ([], s'))"
proof -
  from assms(1) have "error_or_source cn pending invar" by (simp add: error_or_source_def)
  from error_or_source.extracting_loop_eq [OF this assms(2,3), of n] assms(3,4) show ?thesis
    by (auto simp: extracting_copy_next_def get_last_error_def)
qed

lemma extracting_source_stops_at_error_witness:
  "\<exists>s'. extracting_copy_next memory_copy_next
      \<lparr>x_input = [Inr 1, Inr 2, Inl ''eof'', Inr (3 :: int)], m_last_error = None\<rparr> 9 = ([1, 2], s') \<and>
    get_last_error s' = Some ''eof''"
  using extracting_source_stops_at_error [OF memory.element_source_axioms,
    of "\<lparr>x_input = [Inr 1, Inr 2, Inl ''eof'', Inr (3 :: int)], m_last_error = None\<rparr>" 9 1] by auto

text \<open>
  A throwing source returns the requested values, or all there are, as long as no error comes
  before them; otherwise it throws that error, and the input stands behind it (the values read in the
  same call are lost).
\<close>

theorem throwing_source_delivers:
  assumes "element_source cn pending invar" "invar s"
  shows "case throwing_copy_next cn n s of
      Ok vs s' \<Rightarrow> vs = take n (values_before_error (pending s)) \<and> invar s' \<and> pending s' = drop n (pending s)
    | Raise e s' \<Rightarrow> first_error (pending s) = Some e \<and> invar s' \<and>
        length (values_before_error (pending s)) < n \<and>
        pending s' = drop (Suc (length (values_before_error (pending s)))) (pending s)
    | Fault f \<Rightarrow> False"
proof -
  from assms(1) have "error_or_source cn pending invar" by (simp add: error_or_source_def)
  from error_or_source.throwing_eq [OF this assms(2), of n] show ?thesis
    by (auto split: if_splits)
qed

lemma throwing_source_delivers_witness:
  "case throwing_copy_next memory_copy_next 9 [Inr 1, Inl ''eof'', Inr (3 :: int)] of
      Ok vs s' \<Rightarrow> False | Raise e s' \<Rightarrow> e = ''eof'' \<and> s' = [Inr 3] | Fault f \<Rightarrow> False"
  using throwing_source_delivers [OF memory.element_source_axioms,
    where s = "[Inr 1, Inl ''eof'', Inr (3 :: int)]" and n = 9]
  by (simp add: get_def numeral_eq_Suc)

text \<open>
  \<open>enumerating_source\<close> delivers the concatenation of the ranges its input yields, for destinations
  of any size, if none of the ranges is empty.
\<close>

theorem enumerating_source_delivers:
  assumes "element_source cn pending invar" "enumerating_inv pending invar s"
  shows "\<exists>s'. enumerating_copy_next cn s n = (take n (m_rest s @ concat (pending (m_input s))), s') \<and>
    enumerating_inv pending invar s' \<and>
    m_rest s' @ concat (pending (m_input s')) = drop n (m_rest s @ concat (pending (m_input s)))"
proof -
  from assms(1) have "range_element_source cn pending invar" by (simp add: range_element_source_def)
  from range_element_source.enumerating_eq [OF this assms(2), of n] show ?thesis
    unfolding enumerating_pending_def .
qed

lemma enumerating_source_delivers_witness:
  "\<exists>s'. enumerating_copy_next memory_copy_next \<lparr>m_input = [[1, 2], [3 :: int]], m_rest = []\<rparr> 3 = ([1, 2, 3], s')"
  using enumerating_source_delivers [OF memory.element_source_axioms,
    of "\<lparr>m_input = [[1, 2], [3 :: int]], m_rest = []\<rparr>" 3]
  by (auto simp: enumerating_inv_def)

text \<open>
  An empty range in the input of \<open>enumerating_source\<close> looks like the end of the stream: a call that
  reads it delivers nothing, whatever ranges follow.
\<close>

theorem enumerating_source_stops_at_empty_range:
  assumes "element_source cn pending invar" "invar (m_input s)" "m_rest s = []"
    and "pending (m_input s) = [] # rs"
  shows "\<exists>s'. enumerating_copy_next cn s n = ([], s') \<and> (0 < n \<longrightarrow> pending (m_input s') = rs)"
proof -
  from element_source.get_Cons [OF assms(1,2,4)] obtain t where
    "get cn (m_input s) = (Some [], t)" "pending t = rs" by blast
  with assms(3) show ?thesis
    by (auto simp: enumerating_copy_next.simps [of _ s] enumerating_refill_def Let_def)
qed

lemma enumerating_source_stops_at_empty_range_witness:
  "fst (enumerating_copy_next memory_copy_next \<lparr>m_input = [[], [3 :: int]], m_rest = []\<rparr> 3) = []"
  using enumerating_source_stops_at_empty_range [OF memory.element_source_axioms,
    of "\<lparr>m_input = [[], [3 :: int]], m_rest = []\<rparr>" "[[3]]" 3] by auto

text \<open>
  \<open>received_from_socket_source::copy_next\<close> on received pieces that are neither errors nor empty: it
  reaches no \<open>SILICIUM_UNREACHABLE\<close>, and hands out the received bytes in order, at least one as long
  as there are any.
\<close>

theorem received_bytes_delivered:
  assumes "element_source cn pending invar" "receiving_inv pending invar s"
  shows "\<exists>ys s'. receiving_copy_next cn n s = Ok ys s' \<and> receiving_inv pending invar s' \<and>
    receiving_pending pending s = ys @ receiving_pending pending s' \<and> length ys \<le> n \<and>
    (0 < n \<longrightarrow> receiving_pending pending s \<noteq> [] \<longrightarrow> ys \<noteq> [])"
proof -
  from assms(1) have "received_bytes_source cn pending invar"
    by (simp add: received_bytes_source_def error_or_source_def)
  from received_bytes_source.receiving_copy_next_eq [OF this assms(2)] show ?thesis .
qed

lemma received_bytes_delivered_witness:
  "\<exists>ys s'. receiving_copy_next memory_copy_next 2
      (\<lparr>original = [Inr ''abc'', Inr ''d''], rest = []\<rparr> :: (unit + string) list receiving) = Ok ys s' \<and>
    ys \<noteq> [] \<and> length ys \<le> 2"
  using received_bytes_delivered [OF memory.element_source_axioms,
    of "\<lparr>original = [Inr ''abc'', Inr ''d''], rest = []\<rparr> :: (unit + string) list receiving" 2]
  by (auto simp: receiving_inv_def receiving_pending_def)

end
