(* ===== verification/Buffering_Source.thy ===== *)
theory Buffering_Source
  imports Sources
begin

text \<open>
  \<open>silicium/source/buffering_source.hpp\<close>: a source that reads ahead into a ring buffer, and the
  iterator that walks over it.  The ring buffer is \<open>boost::circular_buffer\<close>: the model keeps its
  logical contents and its capacity; where the contents are split into the two contiguous parts
  \<open>array_one\<close> and \<open>array_two\<close> depends on the ring's hidden start offset and is the parameter
  \<open>split_at\<close>, which gives the length of \<open>array_one\<close> from the number of changes made to the ring so far
  (\<open>ring_changes\<close>) and the logical size.  The documentation of the ring guarantees that \<open>array_one\<close> is
  a prefix of the contents and is empty only if the ring is (\<open>valid_split\<close>).  \<open>fill\<close> is the
  default-constructed element that \<open>resize\<close> appends.
\<close>

section \<open>The source\<close>

record ('s, 'e) buffering =
  b_next :: 's
  b_buffer :: "'e list"
  b_capacity :: nat
  ring_changes :: nat

definition buffering_init :: "'s \<Rightarrow> nat \<Rightarrow> ('s, 'e) buffering" where
  "buffering_init next_source cap =
     \<lparr>b_next = next_source, b_buffer = [], b_capacity = cap, ring_changes = 0\<rparr>"

definition valid_split :: "(nat \<Rightarrow> nat \<Rightarrow> nat) \<Rightarrow> bool" where
  "valid_split split_at \<longleftrightarrow> (\<forall>t n. split_at t n \<le> n \<and> (0 < n \<longrightarrow> 0 < split_at t n))"

text \<open>\<open>circular_buffer::resize\<close> and writing \<open>ys\<close> through a pointer into the buffer at offset \<open>p\<close>.\<close>

definition ring_resize :: "'e \<Rightarrow> nat \<Rightarrow> 'e list \<Rightarrow> 'e list" where
  "ring_resize fill n xs = (if n \<le> length xs then take n xs else xs @ replicate (n - length xs) fill)"

definition overwrite :: "nat \<Rightarrow> 'e list \<Rightarrow> 'e list \<Rightarrow> 'e list" where
  "overwrite p ys xs = take p xs @ ys @ drop (p + length ys) xs"

definition pull ::
    "('s, 'e) copy_function \<Rightarrow> (nat \<Rightarrow> nat \<Rightarrow> nat) \<Rightarrow> 'e \<Rightarrow> ('s, 'e) buffering \<Rightarrow> ('s, 'e) buffering" where
  "pull cn split_at fill s =
     (let buf = ring_resize fill (b_capacity s) (b_buffer s);
          one = split_at (ring_changes s) (length buf);
          (copied1, next1) = cn (b_next s) one;
          buf1 = overwrite 0 copied1 buf
      in if length copied1 = one
         then (let two = length buf - one;
                   (copied2, next2) = cn next1 two;
                   buf2 = overwrite one copied2 buf1
               in s\<lparr>b_next := next2,
                    b_buffer := ring_resize fill (length copied1 + length copied2) buf2,
                    ring_changes := Suc (ring_changes s)\<rparr>)
         else s\<lparr>b_next := next1,
                b_buffer := ring_resize fill (length copied1) buf1,
                ring_changes := Suc (ring_changes s)\<rparr>)"

text \<open>The part of \<open>array_one\<close> that \<open>map_next\<close> and \<open>map_next_mutable\<close> return.\<close>

definition buffering_map_next ::
    "('s, 'e) copy_function \<Rightarrow> (nat \<Rightarrow> nat \<Rightarrow> nat) \<Rightarrow> 'e \<Rightarrow>
     ('s, 'e) buffering \<Rightarrow> nat \<Rightarrow> 'e list \<times> ('s, 'e) buffering" where
  "buffering_map_next cn split_at fill s n =
     (let s1 = (if b_buffer s = [] then pull cn split_at fill s else s);
          one = split_at (ring_changes s1) (length (b_buffer s1))
      in (take (min n one) (b_buffer s1), s1))"

definition buffering_map_next_mutable ::
    "('s, 'e) copy_function \<Rightarrow> (nat \<Rightarrow> nat \<Rightarrow> nat) \<Rightarrow> 'e \<Rightarrow>
     ('s, 'e) buffering \<Rightarrow> nat \<Rightarrow> 'e list \<times> ('s, 'e) buffering" where
  "buffering_map_next_mutable cn split_at fill s n =
     (let s1 = (if b_buffer s = [] then pull cn split_at fill s else s);
          one = split_at (ring_changes s1) (length (b_buffer s1))
      in (take (min n one) (b_buffer s1), s1))"

definition buffering_copy_next ::
    "('s, 'e) copy_function \<Rightarrow> (nat \<Rightarrow> nat \<Rightarrow> nat) \<Rightarrow> 'e \<Rightarrow> (('s, 'e) buffering, 'e) copy_function" where
  "buffering_copy_next cn split_at fill s n =
     (let s1 = (if b_buffer s = [] \<and> n < b_capacity s then pull cn split_at fill s else s);
          taken_from_buffer = min n (length (b_buffer s1));
          (direct, next1) = cn (b_next s1) (n - taken_from_buffer)
      in (take taken_from_buffer (b_buffer s1) @ direct,
          s1\<lparr>b_next := next1, b_buffer := drop taken_from_buffer (b_buffer s1),
             ring_changes := Suc (ring_changes s1)\<rparr>))"

definition buffering_skip :: "('s, 'e) buffering \<Rightarrow> nat \<Rightarrow> nat \<times> ('s, 'e) buffering" where
  "buffering_skip s count =
     (let skipped_buffer = min count (length (b_buffer s))
      in (skipped_buffer,
          s\<lparr>b_buffer := drop skipped_buffer (b_buffer s), ring_changes := Suc (ring_changes s)\<rparr>))"

section \<open>The iterator\<close>

text \<open>
  \<open>mutable_source_iterator\<close>: \<open>at_source\<close> says whether \<open>m_source\<close> still points to the source; the end
  iterator is the one whose pointer is null.  The source itself is passed as the state.
\<close>

definition check_end ::
    "('s, 'e) copy_function \<Rightarrow> (nat \<Rightarrow> nat \<Rightarrow> nat) \<Rightarrow> 'e \<Rightarrow> ('s, 'e) buffering \<Rightarrow> bool \<times> ('s, 'e) buffering" where
  "check_end cn split_at fill s =
     (case buffering_map_next_mutable cn split_at fill s 1 of (mapped, s') \<Rightarrow> (mapped \<noteq> [], s'))"

definition iterator_dereference ::
    "('s, 'e) copy_function \<Rightarrow> (nat \<Rightarrow> nat \<Rightarrow> nat) \<Rightarrow> 'e \<Rightarrow> bool \<Rightarrow> (('s, 'e) buffering, unit, 'e) op" where
  "iterator_dereference cn split_at fill at_source s =
     (if \<not> at_source then Fault Assertion_Failed
      else (case buffering_map_next_mutable cn split_at fill s 1 of
          ([], s') \<Rightarrow> Fault Assertion_Failed
        | (x # _, s') \<Rightarrow> Ok x s'))"

definition iterator_increment ::
    "('s, 'e) copy_function \<Rightarrow> (nat \<Rightarrow> nat \<Rightarrow> nat) \<Rightarrow> 'e \<Rightarrow> bool \<Rightarrow> (('s, 'e) buffering, unit, bool) op" where
  "iterator_increment cn split_at fill at_source s =
     (if \<not> at_source then Fault Assertion_Failed
      else (case buffering_skip s 1 of (skipped, s1) \<Rightarrow>
        (if skipped \<noteq> 1 then Fault Assertion_Failed
         else (case check_end cn split_at fill s1 of (again, s2) \<Rightarrow> Ok again s2))))"

text \<open>\<open>begin(source)\<close> is \<open>check_end\<close>; a range-based \<open>for\<close> over the source collects its elements.\<close>

partial_function (option) iterate ::
    "('s, 'e) copy_function \<Rightarrow> (nat \<Rightarrow> nat \<Rightarrow> nat) \<Rightarrow> 'e \<Rightarrow> bool \<Rightarrow> ('s, 'e) buffering \<Rightarrow>
     ('e list, unit, ('s, 'e) buffering) outcome option" where
  "iterate cn split_at fill at_source s =
     (if \<not> at_source then Some (Ok s [])
      else (case iterator_dereference cn split_at fill at_source s of
          Fault f \<Rightarrow> Some (Fault f)
        | Raise e s1 \<Rightarrow> Some (Fault Terminated)
        | Ok x s1 \<Rightarrow> (case iterator_increment cn split_at fill at_source s1 of
              Fault f \<Rightarrow> Some (Fault f)
            | Raise e s2 \<Rightarrow> Some (Fault Terminated)
            | Ok again s2 \<Rightarrow> Option.bind (iterate cn split_at fill again s2) (\<lambda>r. Some (case r of
                  Ok s3 xs \<Rightarrow> Ok s3 (x # xs) | Raise e xs \<Rightarrow> Raise e xs | Fault f \<Rightarrow> Fault f)))))"

definition iterate_all ::
    "('s, 'e) copy_function \<Rightarrow> (nat \<Rightarrow> nat \<Rightarrow> nat) \<Rightarrow> 'e \<Rightarrow> ('s, 'e) buffering \<Rightarrow>
     ('e list, unit, ('s, 'e) buffering) outcome option" where
  "iterate_all cn split_at fill s =
     (case check_end cn split_at fill s of (at_source, s1) \<Rightarrow> iterate cn split_at fill at_source s1)"

section \<open>Buffering is transparent\<close>

definition buffering_pending :: "('s \<Rightarrow> 'e list) \<Rightarrow> ('s, 'e) buffering \<Rightarrow> 'e list" where
  "buffering_pending pend s = b_buffer s @ pend (b_next s)"

definition buffering_inv :: "('s \<Rightarrow> bool) \<Rightarrow> ('s, 'e) buffering \<Rightarrow> bool" where
  "buffering_inv invar s \<longleftrightarrow> invar (b_next s) \<and> length (b_buffer s) \<le> b_capacity s"

lemma overwrite_prefix [simp]: "length ys \<le> length xs \<Longrightarrow> take (length ys) (overwrite 0 ys xs) = ys"
  by (simp add: overwrite_def)

lemma length_overwrite [simp]: "p + length ys \<le> length xs \<Longrightarrow> length (overwrite p ys xs) = length xs"
  by (simp add: overwrite_def)

lemma ring_resize_overwrite:
  "length ys \<le> length xs \<Longrightarrow> ring_resize fill (length ys) (overwrite 0 ys xs) = ys"
  by (simp add: ring_resize_def)

lemma ring_resize_overwrite2:
  "length ys + length zs \<le> length xs \<Longrightarrow>
   ring_resize fill (length ys + length zs) (overwrite (length ys) zs (overwrite 0 ys xs)) = ys @ zs"
  by (simp add: ring_resize_def overwrite_def)

lemma ring_resize_Nil [simp]: "ring_resize fill n [] = replicate n fill"
  by (simp add: ring_resize_def)

lemma valid_splitD: "valid_split sp \<Longrightarrow> sp t n \<le> n" "valid_split sp \<Longrightarrow> 0 < n \<Longrightarrow> 0 < sp t n"
  by (auto simp: valid_split_def)

locale buffered_source = element_source copy_next pending invar
  for copy_next :: "('s, 'e) copy_function" and pending invar +
  fixes split_at :: "nat \<Rightarrow> nat \<Rightarrow> nat" and fill :: 'e
  assumes split_at_valid: "valid_split split_at"
begin

lemma pull_eq:
  assumes i: "buffering_inv invar s" and empty: "b_buffer s = []"
  shows "buffering_inv invar (pull copy_next split_at fill s)"
    and "buffering_pending pending (pull copy_next split_at fill s) = pending (b_next s)"
    and "0 < b_capacity s \<Longrightarrow> pending (b_next s) \<noteq> [] \<Longrightarrow> b_buffer (pull copy_next split_at fill s) \<noteq> []"
    and "b_capacity (pull copy_next split_at fill s) = b_capacity s"
proof -
  let ?c = "b_capacity s" and ?one = "split_at (ring_changes s) (b_capacity s)"
  obtain ys t where c1: "copy_next (b_next s) ?one = (ys, t)" by fastforce
  obtain zs u where c2: "copy_next t (?c - ?one) = (zs, u)" by fastforce
  from i have inv0: "invar (b_next s)" by (simp add: buffering_inv_def)
  note inv1 = copy_next_inv [OF inv0 c1]
  note p1 = copy_next_pending [OF inv0 c1] and p2 = copy_next_pending [OF inv1 c2]
  note l1 = copy_next_bound [OF inv0 c1] and l2 = copy_next_bound [OF inv1 c2]
  have one: "?one \<le> ?c" by (rule valid_splitD [OF split_at_valid])
  have r: "pull copy_next split_at fill s =
     (if length ys = ?one
      then s\<lparr>b_next := u, b_buffer := ys @ zs, ring_changes := Suc (ring_changes s)\<rparr>
      else s\<lparr>b_next := t, b_buffer := ys, ring_changes := Suc (ring_changes s)\<rparr>)"
  proof (cases "length ys = ?one")
    case True
    with l2 one have "length ys + length zs \<le> length (replicate ?c fill)" by simp
    from ring_resize_overwrite2 [OF this, of fill] True c1 c2 empty show ?thesis
      by (simp add: pull_def Let_def)
  next
    case False
    from l1 one have "length ys \<le> length (replicate ?c fill)" by simp
    from ring_resize_overwrite [OF this, of fill] False c1 empty show ?thesis
      by (simp add: pull_def Let_def)
  qed
  show "buffering_inv invar (pull copy_next split_at fill s)"
  proof -
    have "length ys = ?one \<Longrightarrow> length ys + length zs \<le> ?c" using l2 one by linarith
    then show ?thesis
      using r inv1 copy_next_inv [OF inv1 c2] l1 one by (auto simp: buffering_inv_def)
  qed
  show "buffering_pending pending (pull copy_next split_at fill s) = pending (b_next s)"
    unfolding r using p1 p2 by (simp add: buffering_pending_def)
  show "b_capacity (pull copy_next split_at fill s) = ?c" unfolding r by simp
  assume "0 < ?c" "pending (b_next s) \<noteq> []"
  then have "ys \<noteq> []"
    by (intro copy_next_progress [OF inv0 c1] valid_splitD(2) [OF split_at_valid])
  then show "b_buffer (pull copy_next split_at fill s) \<noteq> []" unfolding r by simp
qed

lemma buffering_contract:
  "element_source (buffering_copy_next copy_next split_at fill) (buffering_pending pending)
     (buffering_inv invar)"
proof
  fix s n ys s'
  assume i: "buffering_inv invar s" and c: "buffering_copy_next copy_next split_at fill s n = (ys, s')"
  define s1 where "s1 = (if b_buffer s = [] \<and> n < b_capacity s then pull copy_next split_at fill s else s)"
  define k where "k = min n (length (b_buffer s1))"
  obtain ds t where d: "copy_next (b_next s1) (n - k) = (ds, t)" by fastforce
  have i1: "buffering_inv invar s1" and p1: "buffering_pending pending s1 = buffering_pending pending s"
    using i pull_eq [OF i] by (auto simp: s1_def buffering_pending_def)
  then have inv1: "invar (b_next s1)" by (simp add: buffering_inv_def)
  from c d have ys: "ys = take k (b_buffer s1) @ ds"
    and s': "s' = s1\<lparr>b_next := t, b_buffer := drop k (b_buffer s1), ring_changes := Suc (ring_changes s1)\<rparr>"
    by (auto simp: buffering_copy_next_def s1_def [symmetric] k_def [symmetric] Let_def)
  note pd = copy_next_pending [OF inv1 d]
  have short: "k < n \<Longrightarrow> drop k (b_buffer s1) = []" by (simp add: k_def)
  have len: "n = k \<Longrightarrow> ds = []" using copy_next_bound [OF inv1 d] by simp
  show "buffering_pending pending s = ys @ buffering_pending pending s'"
  proof (cases "k < n")
    case True
    with short pd p1 ys s' show ?thesis by (simp add: buffering_pending_def)
  next
    case False
    then have "k = n" by (simp add: k_def)
    with len pd p1 ys s' show ?thesis
      by (simp add: buffering_pending_def flip: append_assoc)
  qed
  show "buffering_inv invar s'"
    using i1 s' copy_next_inv [OF inv1 d] by (auto simp: buffering_inv_def)
  show "length ys \<le> n"
    using ys copy_next_bound [OF inv1 d] by (simp add: k_def)
  assume n: "0 < n" and ne: "buffering_pending pending s \<noteq> []"
  show "ys \<noteq> []"
  proof (cases "b_buffer s1 = []")
    case False
    with n have "take k (b_buffer s1) \<noteq> []" by (simp add: k_def)
    then show ?thesis by (simp add: ys)
  next
    case True
    then have "k = 0" by (simp add: k_def)
    from True p1 ne have "pending (b_next s1) \<noteq> []" by (simp add: buffering_pending_def)
    with copy_next_progress [OF inv1 d] n \<open>k = 0\<close> show ?thesis by (simp add: ys)
  qed
qed

lemma buffering_map_next_mutable_eq:
  assumes "buffering_inv invar s" "0 < b_capacity s" "buffering_map_next_mutable copy_next split_at fill s n = (ys, s')"
  shows "buffering_inv invar s' \<and> buffering_pending pending s' = buffering_pending pending s \<and>
    b_capacity s' = b_capacity s \<and> (\<exists>k. ys = take k (b_buffer s')) \<and> length ys \<le> n \<and>
    (0 < n \<longrightarrow> (ys = [] \<longleftrightarrow> buffering_pending pending s = []))"
proof -
  let ?s1 = "if b_buffer s = [] then pull copy_next split_at fill s else s"
  have s': "s' = ?s1" and ys: "ys = take (min n (split_at (ring_changes ?s1) (length (b_buffer ?s1)))) (b_buffer ?s1)"
    using assms(3) by (auto simp: buffering_map_next_mutable_def Let_def)
  have i1: "buffering_inv invar ?s1" "buffering_pending pending ?s1 = buffering_pending pending s"
      "b_capacity ?s1 = b_capacity s"
    using assms(1) pull_eq [OF assms(1)] by (auto simp: buffering_pending_def)
  have ne: "b_buffer ?s1 = [] \<longleftrightarrow> buffering_pending pending s = []"
    using pull_eq(2,3) [OF assms(1)] assms(2) by (auto simp: buffering_pending_def)
  define sp where "sp = split_at (ring_changes ?s1) (length (b_buffer ?s1))"
  have "b_buffer ?s1 \<noteq> [] \<Longrightarrow> 0 < sp"
    using valid_splitD(2) [OF split_at_valid] by (simp add: sp_def)
  moreover have "ys = [] \<longleftrightarrow> n = 0 \<or> sp = 0 \<or> b_buffer ?s1 = []"
    unfolding ys sp_def [symmetric] take_eq_Nil by linarith
  ultimately have "0 < n \<Longrightarrow> ys = [] \<longleftrightarrow> b_buffer ?s1 = []" by blast
  then have "0 < n \<longrightarrow> (ys = [] \<longleftrightarrow> buffering_pending pending s = [])"
    using ne by blast
  moreover have "length ys \<le> n" by (simp add: ys)
  ultimately show ?thesis using i1 ys s' by blast
qed

lemma check_end_eq:
  assumes "buffering_inv invar s" "0 < b_capacity s"
  shows "\<exists>s'. check_end copy_next split_at fill s = (buffering_pending pending s \<noteq> [], s') \<and>
    buffering_inv invar s' \<and> b_capacity s' = b_capacity s \<and>
    buffering_pending pending s' = buffering_pending pending s \<and>
    (buffering_pending pending s \<noteq> [] \<longrightarrow> b_buffer s' \<noteq> [])"
proof -
  obtain ys s' where m: "buffering_map_next_mutable copy_next split_at fill s 1 = (ys, s')" by fastforce
  from buffering_map_next_mutable_eq [OF assms m] show ?thesis
    by (auto simp: check_end_def m simp del: One_nat_def)
qed

lemma iterate_eq:
  "buffering_inv invar s \<Longrightarrow> 0 < b_capacity s \<Longrightarrow> b_buffer s \<noteq> [] \<or> buffering_pending pending s = [] \<Longrightarrow>
   \<exists>s'. iterate copy_next split_at fill (buffering_pending pending s \<noteq> []) s =
     Some (Ok s' (buffering_pending pending s)) \<and> buffering_pending pending s' = []"
proof (induction "buffering_pending pending s" arbitrary: s)
  case Nil
  then show ?case by (simp add: iterate.simps [of _ _ _ _ s])
next
  case (Cons x xs)
  from Cons.hyps(2) have ne: "buffering_pending pending s \<noteq> []" by (metis list.distinct(1))
  with Cons.prems(3) obtain bs where b: "b_buffer s = x # bs"
    using Cons.hyps(2) by (cases "b_buffer s") (auto simp: buffering_pending_def)
  obtain m t where m: "buffering_map_next_mutable copy_next split_at fill s 1 = (m, t)" by fastforce
  from b m have t: "t = s" by (auto simp: buffering_map_next_mutable_def Let_def)
  from buffering_map_next_mutable_eq [OF Cons.prems(1,2) m] ne b t
  obtain k where mk: "m = take k (x # bs)" and len: "length m \<le> 1" and ne': "m \<noteq> []" by auto
  from mk ne' have "hd m = x" by (cases k) auto
  with len ne' have "m = [x]" by (cases m) auto
  then have deref: "iterator_dereference copy_next split_at fill True s = Ok x s"
    using m t by (simp add: iterator_dereference_def)
  let ?u = "s\<lparr>b_buffer := bs, ring_changes := Suc (ring_changes s)\<rparr>"
  have u: "buffering_inv invar ?u" "0 < b_capacity ?u" "buffering_pending pending ?u = xs"
    using Cons.prems(1,2) b Cons.hyps(2) by (auto simp: buffering_inv_def buffering_pending_def)
  have skip: "buffering_skip s 1 = (1, ?u)" using b by (simp add: buffering_skip_def)
  from check_end_eq [OF u(1,2)] obtain v where
    v: "check_end copy_next split_at fill ?u = (xs \<noteq> [], v)" "buffering_inv invar v" "0 < b_capacity v"
      "buffering_pending pending v = xs" "xs \<noteq> [] \<longrightarrow> b_buffer v \<noteq> []"
    using u by auto
  then have inc: "iterator_increment copy_next split_at fill True s = Ok (xs \<noteq> []) v"
    using skip by (simp add: iterator_increment_def)
  from Cons.hyps(1) [of v] v obtain s' where
    "iterate copy_next split_at fill (xs \<noteq> []) v = Some (Ok s' xs)" "buffering_pending pending s' = []"
    by auto
  with deref inc ne Cons.hyps(2) [symmetric] show ?case
    by (auto simp: iterate.simps [of _ _ _ _ s])
qed

lemma iterate_all_eq:
  assumes "buffering_inv invar s" "0 < b_capacity s"
  shows "\<exists>s'. iterate_all copy_next split_at fill s = Some (Ok s' (buffering_pending pending s)) \<and>
    buffering_pending pending s' = []"
proof -
  from check_end_eq [OF assms] obtain t where
    t: "check_end copy_next split_at fill s = (buffering_pending pending s \<noteq> [], t)"
      "buffering_inv invar t" "b_capacity t = b_capacity s"
      "buffering_pending pending t = buffering_pending pending s"
      "buffering_pending pending s \<noteq> [] \<longrightarrow> b_buffer t \<noteq> []" by blast
  then show ?thesis using iterate_eq [of t] assms(2) by (auto simp: iterate_all_def)
qed

end

text \<open>A ring that never wraps around: everything is in \<open>array_one\<close>.\<close>

definition no_wrap :: "nat \<Rightarrow> nat \<Rightarrow> nat" where
  "no_wrap t n = n"

lemma valid_split_no_wrap [simp]: "valid_split no_wrap"
  by (simp add: valid_split_def no_wrap_def)

interpretation buffered_memory: buffered_source memory_copy_next "\<lambda>xs. xs" "\<lambda>_. True" no_wrap fill
  for fill
  by unfold_locales simp

interpretation buffering_memory: element_source "buffering_copy_next memory_copy_next no_wrap fill"
    "buffering_pending (\<lambda>xs. xs)" "buffering_inv (\<lambda>_. True)" for fill
  by (rule buffered_memory.buffering_contract)

section \<open>Properties\<close>

text \<open>
  C15: \<open>buffering_source\<close> is transparent: in front of any source that keeps the contract, with any
  capacity and wherever the ring happens to wrap around, it keeps the contract itself, and what it
  delivers is what it has buffered followed by what the inner source still holds.
\<close>

theorem buffering_source_transparent:
  assumes "element_source cn pending invar" "valid_split split_at"
  shows "element_source (buffering_copy_next cn split_at fill)
    (\<lambda>s. b_buffer s @ pending (b_next s)) (buffering_inv invar)"
proof -
  from assms have "buffered_source cn pending invar split_at"
    by (simp add: buffered_source_def buffered_source_axioms_def)
  from buffered_source.buffering_contract [OF this] show ?thesis
    unfolding buffering_pending_def .
qed

lemma buffering_source_transparent_witness:
  "length (fst (buffering_copy_next memory_copy_next no_wrap 0 (buffering_init [1, 2, 3 :: int] 2) 1)) \<le> 1"
proof -
  let ?c = "buffering_copy_next memory_copy_next no_wrap 0" and ?s = "buffering_init [1, 2, 3 :: int] 2"
  have "buffering_inv (\<lambda>_. True) ?s" by (simp add: buffering_inv_def buffering_init_def)
  from element_source.copy_next_bound
    [OF buffering_source_transparent [OF memory.element_source_axioms valid_split_no_wrap] this, of 0 1]
  show ?thesis by (metis prod.collapse)
qed

text \<open>
  Iterating over a \<open>buffering_source\<close> with a buffer that can hold at least one element visits
  every element once and in order, ends, and violates none of the iterator's assertions.
\<close>

theorem buffering_iteration_complete:
  assumes "element_source cn pending invar" "valid_split split_at"
    and "buffering_inv invar s" "0 < b_capacity s"
  shows "\<exists>s'. iterate_all cn split_at fill s = Some (Ok s' (b_buffer s @ pending (b_next s)))"
proof -
  from assms have "buffered_source cn pending invar split_at"
    by (simp add: buffered_source_def buffered_source_axioms_def)
  from buffered_source.iterate_all_eq [OF this assms(3,4)] show ?thesis
    by (auto simp: buffering_pending_def)
qed

lemma buffering_iteration_complete_witness:
  "\<exists>s'. iterate_all memory_copy_next no_wrap 0 (buffering_init [1, 2, 3 :: int] 2) = Some (Ok s' [1, 2, 3])"
  using buffering_iteration_complete [OF memory.element_source_axioms valid_split_no_wrap,
    of "buffering_init [1, 2, 3 :: int] 2" 0]
  by (simp add: buffering_inv_def buffering_init_def)

end
