(* ===== verification/Sinks.thy ===== *)
theory Sinks
  imports Sources
begin

text \<open>
  \<open>silicium/sink/*.hpp\<close> and \<open>silicium/detail/then.hpp\<close>: sinks of elements.  \<open>append s xs\<close> hands the
  range \<open>xs\<close> to the sink and returns its error (\<open>None\<close> for a default-constructed error, which converts
  to false) with the new state.  The locale \<open>element_sink\<close> is the contract a client relies on, with
  \<open>written s\<close> the elements that have arrived; \<open>reliable_sink\<close> adds that no append fails, as for the
  sinks whose error type is \<open>success\<close>.
\<close>

type_synonym ('s, 'e, 'x) append_function = "'s \<Rightarrow> 'e list \<Rightarrow> 'x option \<times> 's"

section \<open>Sequencing fallible actions\<close>

text \<open>\<open>detail::then\<close>: actions run in order up to the first error.\<close>

fun then_all :: "('s \<Rightarrow> 'x option \<times> 's) list \<Rightarrow> 's \<Rightarrow> 'x option \<times> 's" where
  "then_all [] s = (None, s)"
| "then_all (first # tail) s = (case first s of
      (Some e, s') \<Rightarrow> (Some e, s')
    | (None, s') \<Rightarrow> then_all tail s')"

text \<open>The variant for actions that return nothing.\<close>

fun then_all_void :: "('s \<Rightarrow> 's) list \<Rightarrow> 's \<Rightarrow> 's" where
  "then_all_void [] s = s"
| "then_all_void (first # tail) s = then_all_void tail (first s)"

section \<open>The free functions append\<close>

text \<open>
  The overloads of \<open>Si::append\<close> differ in what they accept: a string object, a C string (here the
  memory at the pointer, which ends at its first NUL), one element, or a range.
\<close>

definition append_string :: "('s, 'e, 'x) append_function \<Rightarrow> 's \<Rightarrow> 'e list \<Rightarrow> 'x option \<times> 's" where
  "append_string app out str = app out str"

definition append_c_str ::
    "('s, char, 'x) append_function \<Rightarrow> 's \<Rightarrow> char list \<Rightarrow> 'x option \<times> 's" where
  "append_c_str app out chars = app out (before_first (CHR 0x00) chars)"

definition append_single :: "('s, 'e, 'x) append_function \<Rightarrow> 's \<Rightarrow> 'e \<Rightarrow> 'x option \<times> 's" where
  "append_single app out x = app out [x]"

definition append_range :: "('s, 'e, 'x) append_function \<Rightarrow> 's \<Rightarrow> 'e list \<Rightarrow> 'x option \<times> 's" where
  "append_range app out elements = app out elements"

section \<open>Simple sinks\<close>

definition null_append :: "(unit, 'e, 'x) append_function" where
  "null_append s data = (None, s)"

text \<open>\<open>container_sink\<close>; \<open>None\<close> is a default-constructed sink with a null \<open>m_destination\<close>.\<close>

definition container_append :: "('e list, 'e, unit) append_function" where
  "container_append destination data = (None, destination @ data)"

definition container_sink_append :: "'e list \<Rightarrow> ('e list option, 'x, unit option) op" where
  "container_sink_append data s = (case s of
      None \<Rightarrow> Fault Assertion_Failed
    | Some destination \<Rightarrow> (case container_append destination data of (r, d) \<Rightarrow> Ok r (Some d)))"

text \<open>
  \<open>iterator_sink\<close>: the output iterator \<open>m_out\<close> is a position in some memory; \<open>boost::range::copy\<close>
  writes from there and returns the advanced iterator.
\<close>

record 'e iterator_sink =
  target :: "'e list"
  m_out :: nat

definition iterator_append :: "'e list \<Rightarrow> ('e iterator_sink, 'x, unit) op" where
  "iterator_append data s =
     (if m_out s + length data \<le> length (target s)
      then Ok () (s\<lparr>target := take (m_out s) (target s) @ data @ drop (m_out s + length data) (target s),
                    m_out := m_out s + length data\<rparr>)
      else Fault Out_Of_Range)"

text \<open>
  \<open>ostream_ref_sink\<close> and \<open>ostream_sink\<close>: \<open>write\<close> is \<open>std::ostream::write\<close>, which reports a failure
  (\<open>Some\<close>) as an exception if the stream's exception mask says so, as \<open>ostream_sink\<close> sets it.
\<close>

definition ostream_ref_append ::
    "('o \<Rightarrow> string \<Rightarrow> 'x option \<times> 'o) \<Rightarrow> string \<Rightarrow> ('o option, 'y, unit) op" where
  "ostream_ref_append write data s = (case s of
      None \<Rightarrow> Fault Assertion_Failed
    | Some file \<Rightarrow> Ok () (Some (snd (write file data))))"

definition ostream_append ::
    "('o \<Rightarrow> string \<Rightarrow> 'x option \<times> 'o) \<Rightarrow> string \<Rightarrow> ('o, 'x, unit option) op" where
  "ostream_append write data s = (case write s data of
      (None, s') \<Rightarrow> Ok None s'
    | (Some e, s') \<Rightarrow> Raise e s')"

text \<open>
  \<open>make_file_sink\<close>: \<open>open_stream\<close> is the constructor of \<open>std::ofstream\<close>, with whether the stream is
  good; the exception carries the message.
\<close>

definition make_file_sink :: "(string \<Rightarrow> 'w \<Rightarrow> bool \<times> 'o \<times> 'w) \<Rightarrow> string \<Rightarrow> ('w, string, 'o) op" where
  "make_file_sink open_stream name w = (case open_stream name w of
      (good, file, w') \<Rightarrow>
        if \<not> good then Raise (''Cannot open file for writing: '' @ name) w' else Ok file w')"

definition function_append :: "('f \<Rightarrow> 'e list \<Rightarrow> 'x option \<times> 'f) \<Rightarrow> ('f, 'e, 'x) append_function" where
  "function_append m_function f data = m_function f data"

definition virtualized_append :: "('s, 'e, 'x) append_function \<Rightarrow> ('s, 'e, 'x) append_function" where
  "virtualized_append app next data = app next data"

definition ptr_append ::
    "('s, 'e, 'x) append_function \<Rightarrow> 'e list \<Rightarrow> ('s option, 'y, 'x option) op" where
  "ptr_append app data p = (case p of
      None \<Rightarrow> Fault Null_Pointer
    | Some s \<Rightarrow> (case app s data of (r, s') \<Rightarrow> Ok r (Some s')))"

text \<open>\<open>throwing_sink\<close> turns the error of the next sink into an exception.\<close>

definition throwing_append :: "('s, 'e, 'x) append_function \<Rightarrow> 'e list \<Rightarrow> ('s, 'x, unit) op" where
  "throwing_append app data s = (case app s data of
      (Some e, s') \<Rightarrow> Raise e s'
    | (None, s') \<Rightarrow> Ok () s')"

text \<open>
  \<open>multi_sink\<close>: the children are the states \<open>cs\<close> behind the pointers that \<open>m_get_children\<close> returns;
  the first error ends the loop.
\<close>

fun multi_append :: "('s, 'e, 'x) append_function \<Rightarrow> ('s list, 'e, 'x) append_function" where
  "multi_append app [] data = (None, [])"
| "multi_append app (child # children) data = (case app child data of
      (Some e, child') \<Rightarrow> (Some e, child' # children)
    | (None, child') \<Rightarrow> (case multi_append app children data of
          (r, children') \<Rightarrow> (r, child' # children')))"

section \<open>buffering_sink\<close>

record ('s, 'e) buffering_sink =
  m_destination :: 's
  m_fallback_buffer :: "'e list"
  m_buffer_used :: nat

definition buffering_sink_init :: "'s \<Rightarrow> 'e list \<Rightarrow> ('s, 'e) buffering_sink" where
  "buffering_sink_init destination buffer =
     \<lparr>m_destination = destination, m_fallback_buffer = buffer, m_buffer_used = 0\<rparr>"

text \<open>
  \<open>make_append_space\<close> returns the writable range at the begin of the buffer (its length here), and
  \<open>fill_append_space\<close> is the caller writing \<open>ys\<close> into that range.
\<close>

definition buffering_make_append_space ::
    "('s, 'e) buffering_sink \<Rightarrow> nat \<Rightarrow> nat \<times> ('s, 'e) buffering_sink" where
  "buffering_make_append_space s wanted =
     (let n = min wanted (length (m_fallback_buffer s)) in (n, s\<lparr>m_buffer_used := n\<rparr>))"

definition fill_append_space :: "'e list \<Rightarrow> ('s, 'e) buffering_sink \<Rightarrow> ('s, 'e) buffering_sink" where
  "fill_append_space ys s =
     s\<lparr>m_fallback_buffer := ys @ drop (length ys) (m_fallback_buffer s)\<rparr>"

definition buffering_flush ::
    "('s, 'e, 'x) append_function \<Rightarrow> ('s, 'e) buffering_sink \<Rightarrow> 'x option \<times> ('s, 'e) buffering_sink" where
  "buffering_flush app = then_all
     [\<lambda>s. case app (m_destination s) (take (m_buffer_used s) (m_fallback_buffer s)) of
            (r, d) \<Rightarrow> (r, s\<lparr>m_destination := d\<rparr>),
      \<lambda>s. (None, s\<lparr>m_buffer_used := 0\<rparr>)]"

definition buffering_flush_append_space ::
    "('s, 'e, 'x) append_function \<Rightarrow> ('s, 'e) buffering_sink \<Rightarrow> 'x option \<times> ('s, 'e) buffering_sink" where
  "buffering_flush_append_space app s =
     (if m_buffer_used s \<noteq> 0 then buffering_flush app s else (None, s))"

definition buffering_append ::
    "('s, 'e, 'x) append_function \<Rightarrow> (('s, 'e) buffering_sink, 'e, 'x) append_function" where
  "buffering_append app s data =
     (if length data \<le> length (m_fallback_buffer s) - m_buffer_used s
      then (None, s\<lparr>m_fallback_buffer := take (m_buffer_used s) (m_fallback_buffer s) @ data @
                       drop (m_buffer_used s + length data) (m_fallback_buffer s),
                    m_buffer_used := m_buffer_used s + length data\<rparr>)
      else then_all
        [buffering_flush app,
         \<lambda>t. case app (m_destination t) data of (r, d) \<Rightarrow> (r, t\<lparr>m_destination := d\<rparr>)] s)"

section \<open>container_buffer\<close>

text \<open>
  \<open>container_buffer\<close>: space is handed out at the end of a container and becomes part of it when it is
  committed.  \<open>cap\<close> is \<open>max_size()\<close> of the container and \<open>fill\<close> its default element.
\<close>

record 'e container_buffer =
  c_destination :: "'e list"
  m_committed :: nat

definition container_buffer_init :: "'e list \<Rightarrow> 'e container_buffer" where
  "container_buffer_init destination =
     \<lparr>c_destination = destination, m_committed = length destination\<rparr>"

definition resize_list :: "'e \<Rightarrow> nat \<Rightarrow> 'e list \<Rightarrow> 'e list" where
  "resize_list fill n xs = take n xs @ replicate (n - length xs) fill"

definition container_make_append_space ::
    "nat \<Rightarrow> 'e \<Rightarrow> 'e container_buffer \<Rightarrow> nat \<Rightarrow> nat \<times> 'e container_buffer" where
  "container_make_append_space cap fill s wanted =
     (let remaining_capacity = cap - m_committed s;
          growth = min wanted remaining_capacity
      in (growth, s\<lparr>c_destination := resize_list fill (m_committed s + growth) (c_destination s)\<rparr>))"

definition container_fill_space :: "'e list \<Rightarrow> 'e container_buffer \<Rightarrow> 'e container_buffer" where
  "container_fill_space ys s = s\<lparr>c_destination :=
     take (m_committed s) (c_destination s) @ ys @ drop (m_committed s + length ys) (c_destination s)\<rparr>"

definition container_flush_append_space :: "'e container_buffer \<Rightarrow> unit option \<times> 'e container_buffer" where
  "container_flush_append_space s = (None, s\<lparr>m_committed := length (c_destination s)\<rparr>)"

section \<open>Copying a source into a sink\<close>

text \<open>\<open>copy\<close>: the error of \<open>append\<close> is dropped, as the source does.\<close>

partial_function (option) copy_all ::
    "('s, 'e) copy_function \<Rightarrow> ('t, 'e, 'x) append_function \<Rightarrow> 's \<Rightarrow> 't \<Rightarrow> ('s \<times> 't) option" where
  "copy_all cn app from to = (case get cn from of
      (None, from') \<Rightarrow> Some (from', to)
    | (Some x, from') \<Rightarrow> copy_all cn app from' (snd (append_single app to x)))"

section \<open>The contract\<close>

text \<open>A client that appends piece by piece and stops at the first error.\<close>

fun append_until_error :: "('s, 'e, 'x) append_function \<Rightarrow> 's \<Rightarrow> 'e list list \<Rightarrow> 'x option \<times> 's" where
  "append_until_error app s [] = (None, s)"
| "append_until_error app s (xs # xss) = (case app s xs of
      (Some e, s') \<Rightarrow> (Some e, s') | (None, s') \<Rightarrow> append_until_error app s' xss)"

locale element_sink =
  fixes append :: "('s, 'e, 'x) append_function"
    and written :: "'s \<Rightarrow> 'e list"
    and invar :: "'s \<Rightarrow> bool"
  assumes append_prefix:
      "invar s \<Longrightarrow> append s xs = (r, s') \<Longrightarrow> \<exists>k. written s' = written s @ take k xs"
    and append_success: "invar s \<Longrightarrow> append s xs = (None, s') \<Longrightarrow> written s' = written s @ xs"
    and append_inv: "invar s \<Longrightarrow> append s xs = (r, s') \<Longrightarrow> invar s'"
begin

text \<open>Such a client loses only a suffix.\<close>

lemma append_pieces_prefix:
  "invar s \<Longrightarrow> append_until_error append s xss = (r, s') \<Longrightarrow>
   invar s' \<and> (\<exists>k. written s' = written s @ take k (concat xss)) \<and>
   (r = None \<longrightarrow> written s' = written s @ concat xss)"
proof (induction xss arbitrary: s)
  case Nil
  then show ?case by simp
next
  case (Cons xs xss)
  obtain e t where t: "append s xs = (e, t)" by fastforce
  note inv = append_inv [OF Cons.prems(1) t]
  show ?case
  proof (cases e)
    case None
    from append_success [OF Cons.prems(1)] t None have w: "written t = written s @ xs" by simp
    from Cons.prems(2) t None have "append_until_error append t xss = (r, s')" by simp
    from Cons.IH [OF inv this] obtain k where
      "invar s'" "written s' = written t @ take k (concat xss)"
      "r = None \<longrightarrow> written s' = written t @ concat xss" by blast
    moreover have "xs @ take k (concat xss) = take (length xs + k) (xs @ concat xss)" by simp
    ultimately show ?thesis using w by (metis append.assoc concat.simps(2))
  next
    case (Some x)
    with Cons.prems(2) t have r: "r = Some x" "s' = t" by auto
    from append_prefix [OF Cons.prems(1) t] obtain k where k: "written t = written s @ take k xs" by blast
    have "take k xs = take (min k (length xs)) (concat (xs # xss))" by (simp add: min_def)
    with k r inv show ?thesis by (metis option.distinct(1))
  qed
qed

end

locale reliable_sink = element_sink +
  assumes append_never_fails: "invar s \<Longrightarrow> fst (append s xs) = None"
begin

lemma append_written: "invar s \<Longrightarrow> written (snd (append s xs)) = written s @ xs"
  using append_success [of s xs "snd (append s xs)"] append_never_fails [of s xs]
  by (cases "append s xs") auto

lemma append_invar: "invar s \<Longrightarrow> invar (snd (append s xs))"
  using append_inv by (cases "append s xs") auto

lemma multi_append_reliable:
  "\<forall>c \<in> set cs. invar c \<Longrightarrow> fst (multi_append append cs xs) = None \<and>
   map written (snd (multi_append append cs xs)) = map (\<lambda>c. written c @ xs) cs \<and>
   (\<forall>c \<in> set (snd (multi_append append cs xs)). invar c)"
proof (induction cs)
  case Nil
  then show ?case by simp
next
  case (Cons c cs)
  with append_never_fails [of c xs] append_written [of c xs] append_invar [of c xs] show ?case
    by (auto split: prod.splits option.splits)
qed

lemma throwing_append_reliable:
  "invar s \<Longrightarrow> \<exists>s'. throwing_append append xs s = Ok () s' \<and> written s' = written s @ xs \<and> invar s'"
  using append_never_fails [of s xs] append_written [of s xs] append_invar [of s xs]
  by (auto simp: throwing_append_def split: prod.splits option.splits)

end

interpretation container: reliable_sink container_append "\<lambda>xs. xs" "\<lambda>_. True"
proof
  show "\<exists>k. s' = s @ take k xs" if "container_append s xs = (r, s')" for s xs :: "'a list" and r s'
    using that by (intro exI [of _ "length xs"]) (auto simp: container_append_def)
qed (auto simp: container_append_def)

section \<open>Buffering neither loses, duplicates nor reorders elements\<close>

definition buffering_sink_inv :: "('s \<Rightarrow> bool) \<Rightarrow> ('s, 'e) buffering_sink \<Rightarrow> bool" where
  "buffering_sink_inv invar s \<longleftrightarrow>
     invar (m_destination s) \<and> m_buffer_used s \<le> length (m_fallback_buffer s)"

definition buffered_elements :: "('s, 'e) buffering_sink \<Rightarrow> 'e list" where
  "buffered_elements s = take (m_buffer_used s) (m_fallback_buffer s)"

definition buffering_written :: "('s \<Rightarrow> 'e list) \<Rightarrow> ('s, 'e) buffering_sink \<Rightarrow> 'e list" where
  "buffering_written written s = written (m_destination s) @ buffered_elements s"

context element_sink
begin

text \<open>A failed flush keeps everything in the buffer.\<close>

lemma buffering_flush_cases:
  assumes "buffering_sink_inv invar s" "buffering_flush append s = (r, s')"
  shows "buffering_sink_inv invar s' \<and> m_fallback_buffer s' = m_fallback_buffer s \<and>
    (case r of
       None \<Rightarrow> m_buffer_used s' = 0 \<and> written (m_destination s') = buffering_written written s
     | Some e \<Rightarrow> buffered_elements s' = buffered_elements s \<and>
         (\<exists>k. written (m_destination s') = written (m_destination s) @ take k (buffered_elements s)))"
proof -
  obtain e d where d: "append (m_destination s) (buffered_elements s) = (e, d)" by fastforce
  from assms(1) have i: "invar (m_destination s)" by (simp add: buffering_sink_inv_def)
  from append_prefix [OF i d] append_inv [OF i d] append_success [OF i, of "buffered_elements s" d] d assms
  show ?thesis
    by (cases e) (auto simp: buffering_flush_def buffering_sink_inv_def buffering_written_def
        buffered_elements_def)
qed

lemma buffering_append_success:
  assumes "buffering_sink_inv invar s" "buffering_append append s xs = (None, s')"
  shows "buffering_sink_inv invar s' \<and> buffering_written written s' = buffering_written written s @ xs \<and>
    length (m_fallback_buffer s') = length (m_fallback_buffer s)"
proof (cases "length xs \<le> length (m_fallback_buffer s) - m_buffer_used s")
  case True
  with assms show ?thesis
    by (auto simp: buffering_append_def buffering_sink_inv_def buffering_written_def buffered_elements_def)
next
  case False
  obtain r t where f: "buffering_flush append s = (r, t)" by fastforce
  obtain r2 d where d: "append (m_destination t) xs = (r2, d)" by fastforce
  from False assms(2) f d have n: "r = None" "r2 = None" "s' = t\<lparr>m_destination := d\<rparr>"
    by (auto simp: buffering_append_def split: option.splits)
  from buffering_flush_cases [OF assms(1) f] n(1) have
    t: "buffering_sink_inv invar t" "m_buffer_used t = 0"
      "written (m_destination t) = buffering_written written s"
      "m_fallback_buffer t = m_fallback_buffer s" by simp_all
  from t(1) have it: "invar (m_destination t)" by (simp add: buffering_sink_inv_def)
  from append_success [OF it] append_inv [OF it d] d n t show ?thesis
    by (simp add: buffering_sink_inv_def buffering_written_def buffered_elements_def)
qed

text \<open>A failed append: the destination has received a prefix of what was buffered and then appended.\<close>

lemma buffering_append_failure:
  assumes "buffering_sink_inv invar s" "buffering_append append s xs = (Some e, s')"
  shows "\<exists>k. written (m_destination s') = written (m_destination s) @ take k (buffered_elements s @ xs)"
proof -
  obtain r t where f: "buffering_flush append s = (r, t)" by fastforce
  note flush = buffering_flush_cases [OF assms(1) f]
  show ?thesis
  proof (cases r)
    case (Some e')
    with assms(2) f have "s' = t" by (auto simp: buffering_append_def split: if_splits)
    with flush Some obtain k where "written (m_destination s') = written (m_destination s) @ take k (buffered_elements s)"
      by auto
    then show ?thesis by (intro exI [of _ "min k (length (buffered_elements s))"]) (simp add: min_def)
  next
    case None
    obtain r2 d where d: "append (m_destination t) xs = (r2, d)" by fastforce
    with None assms(2) f have s': "s' = t\<lparr>m_destination := d\<rparr>"
      by (auto simp: buffering_append_def split: if_splits option.splits)
    from flush None have t: "invar (m_destination t)" "written (m_destination t) = buffering_written written s"
      by (simp_all add: buffering_sink_inv_def)
    from append_prefix [OF t(1) d] obtain k where "written d = written (m_destination t) @ take k xs" by blast
    with t(2) s' show ?thesis
      by (intro exI [of _ "length (buffered_elements s) + k"]) (simp add: buffering_written_def)
  qed
qed

lemma buffering_append_grows:
  assumes "buffering_sink_inv invar s" "buffering_append append s xs = (None, s')"
  shows "\<exists>P. written (m_destination s') = written (m_destination s) @ P"
proof (cases "length xs \<le> length (m_fallback_buffer s) - m_buffer_used s")
  case True
  with assms(2) show ?thesis by (auto simp: buffering_append_def)
next
  case False
  obtain r t where f: "buffering_flush append s = (r, t)" by fastforce
  obtain r2 d where d: "append (m_destination t) xs = (r2, d)" by fastforce
  from False assms(2) f d have n: "r = None" "r2 = None" "s' = t\<lparr>m_destination := d\<rparr>"
    by (auto simp: buffering_append_def split: option.splits)
  from buffering_flush_cases [OF assms(1) f] n(1) have
    t: "invar (m_destination t)" "written (m_destination t) = buffering_written written s"
    by (simp_all add: buffering_sink_inv_def)
  from append_success [OF t(1)] d n t(2) show ?thesis by (simp add: buffering_written_def)
qed

text \<open>Pieces appended one after the other, up to the first error.\<close>

lemma buffering_pieces:
  "buffering_sink_inv invar s \<Longrightarrow> append_until_error (buffering_append append) s xss = (r, s') \<Longrightarrow>
   (r = None \<longrightarrow> buffering_sink_inv invar s' \<and> buffering_written written s' = buffering_written written s @ concat xss \<and>
      (\<exists>P. written (m_destination s') = written (m_destination s) @ P)) \<and>
   (r \<noteq> None \<longrightarrow> (\<exists>k. written (m_destination s') =
      written (m_destination s) @ take k (buffered_elements s @ concat xss)))"
proof (induction xss arbitrary: s)
  case (Cons xs xss)
  obtain e t where t: "buffering_append append s xs = (e, t)" by fastforce
  show ?case
  proof (cases e)
    case (Some x)
    with Cons.prems t have r: "r = Some x" "s' = t" by auto
    from buffering_append_failure [OF Cons.prems(1)] t Some obtain k where
      "written (m_destination t) = written (m_destination s) @ take k (buffered_elements s @ xs)" by blast
    then have "written (m_destination t) = written (m_destination s) @
        take (min k (length (buffered_elements s @ xs))) (buffered_elements s @ concat (xs # xss))"
      by (simp add: min_def)
    with r show ?thesis by blast
  next
    case None
    with t buffering_append_success [OF Cons.prems(1), of xs t] have
      i: "buffering_sink_inv invar t" "buffering_written written t = buffering_written written s @ xs" by simp_all
    from None Cons.prems(2) t have rest: "append_until_error (buffering_append append) t xss = (r, s')" by simp
    from buffering_append_grows [OF Cons.prems(1)] t None obtain P where
      P: "written (m_destination t) = written (m_destination s) @ P" by blast
    with i(2) have B: "P @ buffered_elements t = buffered_elements s @ xs" by (simp add: buffering_written_def)
    from Cons.IH [OF i(1) rest] i(2) show ?thesis
    proof (intro conjI impI; elim conjE)
      assume "r \<noteq> None" "r \<noteq> None \<longrightarrow> (\<exists>k. written (m_destination s') =
        written (m_destination t) @ take k (buffered_elements t @ concat xss))"
      then obtain k where "written (m_destination s') = written (m_destination t) @ take k (buffered_elements t @ concat xss)"
        by blast
      also have "\<dots> = written (m_destination s) @ take (length P + k) ((P @ buffered_elements t) @ concat xss)"
        using P by simp
      finally show "\<exists>k. written (m_destination s') =
          written (m_destination s) @ take k (buffered_elements s @ concat (xs # xss))"
        unfolding B by (intro exI [of _ "length P + k"]) simp
    next
      assume "r = None" "r = None \<longrightarrow> buffering_sink_inv invar s' \<and>
          buffering_written written s' = buffering_written written t @ concat xss \<and>
          (\<exists>P. written (m_destination s') = written (m_destination t) @ P)"
      with P show "\<exists>P. written (m_destination s') = written (m_destination s) @ P" by auto
    qed simp_all
  qed
qed simp

end

context reliable_sink
begin

lemma buffering_flush_reliable:
  assumes "buffering_sink_inv invar s"
  shows "fst (buffering_flush append s) = None"
proof -
  from assms append_never_fails have
    "fst (append (m_destination s) (take (m_buffer_used s) (m_fallback_buffer s))) = None"
    by (simp add: buffering_sink_inv_def)
  then show ?thesis by (auto simp: buffering_flush_def split: prod.splits option.splits)
qed

lemma buffering_append_reliable:
  assumes "buffering_sink_inv invar s"
  shows "fst (buffering_append append s xs) = None"
proof (cases "length xs \<le> length (m_fallback_buffer s) - m_buffer_used s")
  case False
  obtain r t where f: "buffering_flush append s = (r, t)" by fastforce
  with buffering_flush_reliable [OF assms] have "r = None" by simp
  with buffering_flush_cases [OF assms f] have "invar (m_destination t)"
    by (simp add: buffering_sink_inv_def)
  with append_never_fails [of "m_destination t" xs] False f \<open>r = None\<close> show ?thesis
    by (auto simp: buffering_append_def split: prod.splits option.splits)
qed (simp add: buffering_append_def)

lemma buffering_contract:
  "reliable_sink (buffering_append append) (buffering_written written) (buffering_sink_inv invar)"
proof
  fix s s' :: "('a, 'b) buffering_sink" and xs r
  assume i: "buffering_sink_inv invar s"
  show "fst (buffering_append append s xs) = None" by (rule buffering_append_reliable [OF i])
  then have ok: "buffering_append append s xs = (r, s') \<Longrightarrow> buffering_append append s xs = (None, s')" by simp
  show "buffering_append append s xs = (None, s') \<Longrightarrow>
      buffering_written written s' = buffering_written written s @ xs"
    using buffering_append_success [OF i] by blast
  show "buffering_append append s xs = (r, s') \<Longrightarrow> buffering_sink_inv invar s'"
    using buffering_append_success [OF i] ok by blast
  show "buffering_append append s xs = (r, s') \<Longrightarrow>
      \<exists>k. buffering_written written s' = buffering_written written s @ take k xs"
    using buffering_append_success [OF i] ok by (intro exI [of _ "length xs"]) simp
qed

end

interpretation buffering_container: reliable_sink "buffering_append container_append"
    "buffering_written (\<lambda>xs. xs)" "buffering_sink_inv (\<lambda>_. True)"
  by (rule container.buffering_contract)

context reliable_sink
begin

lemma buffering_flush_delivers:
  assumes "buffering_sink_inv invar s"
  shows "\<exists>s'. buffering_flush append s = (None, s') \<and> m_buffer_used s' = 0 \<and>
    written (m_destination s') = buffering_written written s \<and> buffering_sink_inv invar s'"
proof -
  obtain r s' where f: "buffering_flush append s = (r, s')" by fastforce
  with buffering_flush_reliable [OF assms] have "r = None" by simp
  with buffering_flush_cases [OF assms f] f show ?thesis by simp
qed

lemma buffering_appends_written:
  assumes "buffering_sink_inv invar s"
  shows "buffering_sink_inv invar (fold (\<lambda>xs s. snd (buffering_append append s xs)) xss s) \<and>
    buffering_written written (fold (\<lambda>xs s. snd (buffering_append append s xs)) xss s) =
    buffering_written written s @ concat xss"
  using assms
proof (induction xss arbitrary: s)
  case Nil
  then show ?case by simp
next
  case (Cons xs xss)
  obtain r s' where a: "buffering_append append s xs = (r, s')" by fastforce
  with buffering_append_reliable [OF Cons.prems, of xs] have "r = None" by simp
  with buffering_append_success [OF Cons.prems, of xs s'] a have
    "buffering_sink_inv invar s'" "buffering_written written s' = buffering_written written s @ xs" by simp_all
  with Cons.IH [of s'] a show ?case by simp
qed

lemma append_space_delivers:
  assumes "buffering_sink_inv invar s" "buffering_make_append_space s wanted = (length ys, t)"
  shows "\<exists>s'. buffering_flush_append_space append (fill_append_space ys t) = (None, s') \<and>
    m_buffer_used s' = 0 \<and> written (m_destination s') = written (m_destination s) @ ys"
proof -
  let ?u = "fill_append_space ys t"
  from assms have u: "buffering_sink_inv invar ?u" "m_buffer_used ?u = length ys"
      "buffered_elements ?u = ys" "m_destination ?u = m_destination s"
    by (auto simp: buffering_make_append_space_def fill_append_space_def buffering_sink_inv_def
        buffered_elements_def Let_def min_def split: if_splits)
  show ?thesis
  proof (cases "ys = []")
    case True
    with u show ?thesis by (simp add: buffering_flush_append_space_def)
  next
    case False
    with u buffering_flush_delivers [OF u(1)] show ?thesis
      by (auto simp: buffering_flush_append_space_def buffering_written_def)
  qed
qed

end

section \<open>Copying delivers every element\<close>

context element_source
begin

text \<open>Whatever the sink does with them, \<open>copy\<close> hands it every element, one at a time.\<close>

lemma copy_all_fold:
  "invar s \<Longrightarrow> \<exists>s'. copy_all copy_next app s t = Some (s', fold (\<lambda>x t. snd (append_single app t x)) (pending s) t) \<and>
     pending s' = []"
proof (induction "pending s" arbitrary: s t)
  case Nil
  with get_Nil [OF Nil.prems] show ?case by (auto simp: copy_all.simps [of _ _ s])
next
  case (Cons x xs)
  from get_Cons [OF Cons.prems Cons.hyps(2) [symmetric]] obtain u where
    u: "get copy_next s = (Some x, u)" "invar u" "pending u = xs" by blast
  from Cons.hyps(1) [OF u(3) [symmetric] u(2)] u Cons.hyps(2) [symmetric] show ?case
    by (auto simp: copy_all.simps [of _ _ s])
qed

end

locale source_to_sink =
  element_source copy_next pending source_inv + reliable_sink append written sink_inv
  for copy_next :: "('s, 'e) copy_function" and pending source_inv
    and append :: "('t, 'e, 'x) append_function" and written sink_inv
begin

lemma copy_all_eq:
  "source_inv s \<Longrightarrow> sink_inv t \<Longrightarrow> \<exists>s' t'. copy_all copy_next append s t = Some (s', t') \<and>
     pending s' = [] \<and> written t' = written t @ pending s \<and> sink_inv t'"
proof (induction "pending s" arbitrary: s t)
  case Nil
  with get_Nil [OF Nil.prems(1)] show ?case by (auto simp: copy_all.simps [of _ _ s])
next
  case (Cons x xs)
  from get_Cons [OF Cons.prems(1) Cons.hyps(2) [symmetric]] obtain u where
    u: "get copy_next s = (Some x, u)" "source_inv u" "pending u = xs" by blast
  let ?t = "snd (append_single append t x)"
  have t: "sink_inv ?t" "written ?t = written t @ [x]"
    using append_invar [OF Cons.prems(2)] append_written [OF Cons.prems(2)]
    by (simp_all add: append_single_def)
  from Cons.hyps(1) [OF u(3) [symmetric] u(2) t(1)] u t(2) Cons.hyps(2) [symmetric] show ?case
    by (auto simp: copy_all.simps [of _ _ s])
qed

end

interpretation memory_to_container:
  source_to_sink memory_copy_next "\<lambda>xs. xs" "\<lambda>_. True" container_append "\<lambda>xs. xs" "\<lambda>_. True"
  by unfold_locales

section \<open>Sinks whose failures last\<close>

text \<open>
  A sink that may fail, but then takes nothing any more, such as a connection that was lost.  A client
  that ignores the errors of a \<open>buffering_sink\<close> in front of it (as the generators of \<open>http/\<close> do) cannot
  tear a hole into what arrives: \<open>arrives base sent s\<close> says that a prefix of \<open>sent\<close> has arrived behind
  \<open>base\<close>, and all of it but what is still buffered if the destination has not failed.
\<close>

locale sticky_sink = element_sink append written invar
  for append :: "('s, 'e, 'x) append_function" and written invar +
  fixes failed :: "'s \<Rightarrow> bool"
  assumes failure_sticks: "invar s \<Longrightarrow> append s xs = (Some e, s') \<Longrightarrow> failed s'"
    and failed_takes_nothing: "invar s \<Longrightarrow> failed s \<Longrightarrow> append s xs = (r, s') \<Longrightarrow> failed s' \<and> written s' = written s"

lemma reliable_is_sticky: "reliable_sink app written invar \<Longrightarrow> sticky_sink app written invar (\<lambda>_. False)"
proof -
  assume r: "reliable_sink app written invar"
  from reliable_sink.append_never_fails [OF r] have "sticky_sink_axioms app written invar (\<lambda>_. False)"
    by (auto simp: sticky_sink_axioms_def) (metis fst_conv option.distinct(1))
  with r show ?thesis by (simp add: sticky_sink_def reliable_sink_def)
qed

interpretation container_sticky: sticky_sink container_append "\<lambda>xs. xs" "\<lambda>_. True" "\<lambda>_. False"
  by (rule reliable_is_sticky [OF container.reliable_sink_axioms])

definition arrives :: "('s \<Rightarrow> 'e list) \<Rightarrow> ('s \<Rightarrow> bool) \<Rightarrow> 'e list \<Rightarrow> 'e list \<Rightarrow> ('s, 'e) buffering_sink \<Rightarrow> bool" where
  "arrives written failed base sent s \<longleftrightarrow>
     (\<exists>k. written (m_destination s) = base @ take k sent) \<and>
     (failed (m_destination s) \<or> buffering_written written s = base @ sent)"

text \<open>A sink together with everything that was appended to it, whatever became of it; it never fails.\<close>

definition ghost_append :: "('s, 'e, 'x) append_function \<Rightarrow> ('s \<times> 'e list, 'e, 'x) append_function" where
  "ghost_append app s xs = (None, (snd (app (fst s) xs), snd s @ xs))"

context sticky_sink
begin

lemma buffering_flush_arrives:
  assumes i: "buffering_sink_inv invar s" and a: "arrives written failed base sent s"
    and f: "buffering_flush append s = (r, s')"
  shows "buffering_sink_inv invar s' \<and> arrives written failed base sent s' \<and>
    (\<not> failed (m_destination s') \<longrightarrow> written (m_destination s') = base @ sent \<and> r = None) \<and>
    (failed (m_destination s) \<longrightarrow> failed (m_destination s') \<and> written (m_destination s') = written (m_destination s))"
proof -
  obtain e d where d: "append (m_destination s) (buffered_elements s) = (e, d)" by fastforce
  have di: "invar (m_destination s)" using i by (simp add: buffering_sink_inv_def)
  have m: "m_destination s' = d" "e = r" using f d by (auto simp: buffering_flush_def buffered_elements_def split: option.splits)
  from m failure_sticks [OF di, of "buffered_elements s"] d have e: "r \<noteq> None \<Longrightarrow> failed d" by auto
  note cases = buffering_flush_cases [OF i f]
  from failed_takes_nothing [OF di _ d] m have stays: "failed (m_destination s) \<Longrightarrow>
      failed (m_destination s') \<and> written (m_destination s') = written (m_destination s)" by simp
  have now: "\<not> failed (m_destination s) \<Longrightarrow> buffering_written written s = base @ sent" using a by (simp add: arrives_def)
  obtain k0 where k0: "written (m_destination s) = base @ take k0 sent" using a by (auto simp: arrives_def)
  have "arrives written failed base sent s'"
  proof (cases "failed (m_destination s)")
    case True
    with stays k0 show ?thesis by (auto simp: arrives_def)
  next
    case False
    from now [OF False] k0 have sent: "sent = take k0 sent @ buffered_elements s" by (simp add: buffering_written_def)
    show ?thesis
    proof (cases r)
      case None
      with cases have "written (m_destination s') = base @ sent" "m_buffer_used s' = 0" using now [OF False] by simp_all
      then show ?thesis by (auto simp: arrives_def buffering_written_def buffered_elements_def intro: exI [of _ "length sent"])
    next
      case (Some x)
      with cases obtain k where "written (m_destination s') = base @ take k0 sent @ take k (buffered_elements s)" using k0 by auto
      moreover have "take k0 sent @ take k (buffered_elements s) = take (length (take k0 sent) + k) sent"
        using sent by (metis take_add append_eq_conv_conj)
      ultimately show ?thesis using e m Some by (auto simp: arrives_def)
    qed
  qed
  moreover have "written (m_destination s') = base @ sent \<and> r = None" if "\<not> failed (m_destination s')"
    using that e m cases now stays by (cases r) auto
  ultimately show ?thesis using cases stays by blast
qed

text \<open>A piece that does not fit goes past the buffer, once that has been emptied.\<close>

lemma append_after_flush_arrives:
  assumes t: "buffering_sink_inv invar t" "arrives written failed base sent t" "m_buffer_used t = 0"
    and all: "failed (m_destination t) \<or> written (m_destination t) = base @ sent"
    and d: "append (m_destination t) xs = (e, d)"
  shows "arrives written failed base (sent @ xs) (t\<lparr>m_destination := d\<rparr>)"
proof -
  have it: "invar (m_destination t)" using t(1) by (simp add: buffering_sink_inv_def)
  obtain k where k: "written (m_destination t) = base @ take k sent" using t(2) by (auto simp: arrives_def)
  show ?thesis
  proof (cases "failed (m_destination t)")
    case True
    with failed_takes_nothing [OF it True d] k have "failed d" "written d = base @ take (length (take k sent)) (sent @ xs)"
      by (simp_all add: min_def)
    then have "failed (m_destination (t\<lparr>m_destination := d\<rparr>))"
      "written (m_destination (t\<lparr>m_destination := d\<rparr>)) = base @ take (length (take k sent)) (sent @ xs)" by simp_all
    then show ?thesis unfolding arrives_def by blast
  next
    case False
    with all have w: "written (m_destination t) = base @ sent" by blast
    from append_prefix [OF it d] obtain j where "written d = written (m_destination t) @ take j xs" by blast
    with w have "written d = base @ take (length sent + j) (sent @ xs)" by simp
    moreover have "failed d \<or> written d = base @ sent @ xs"
      using failure_sticks [OF it] append_success [OF it] d w by (cases e) auto
    ultimately have "failed (m_destination (t\<lparr>m_destination := d\<rparr>)) \<or> buffering_written written (t\<lparr>m_destination := d\<rparr>) = base @ sent @ xs"
      "written (m_destination (t\<lparr>m_destination := d\<rparr>)) = base @ take (length sent + j) (sent @ xs)"
      using t(3) by (simp_all add: buffering_written_def buffered_elements_def)
    then show ?thesis unfolding arrives_def by blast
  qed
qed

lemma buffering_append_arrives:
  assumes i: "buffering_sink_inv invar s" and a: "arrives written failed base sent s"
    and f: "buffering_append append s xs = (r, s')"
  shows "buffering_sink_inv invar s' \<and> arrives written failed base (sent @ xs) s'"
proof (cases "length xs \<le> length (m_fallback_buffer s) - m_buffer_used s")
  case True
  with f have r: "r = None" "m_destination s' = m_destination s" by (auto simp: buffering_append_def)
  obtain k where "written (m_destination s) = base @ take k sent" using a by (auto simp: arrives_def)
  then have "written (m_destination s') = base @ take (length (take k sent)) (sent @ xs)" using r(2) by (simp add: min_def)
  moreover have "failed (m_destination s') \<or> buffering_written written s' = base @ sent @ xs"
    using r a buffering_append_success [OF i, of xs s'] f by (auto simp: arrives_def)
  ultimately show ?thesis using buffering_append_success [OF i, of xs s'] f r(1) unfolding arrives_def by blast
next
  case False
  obtain e t where t: "buffering_flush append s = (e, t)" by fastforce
  note flushed = buffering_flush_arrives [OF i a t]
  then have it: "invar (m_destination t)" by (simp add: buffering_sink_inv_def)
  show ?thesis
  proof (cases e)
    case (Some x)
    with False f t have s': "s' = t" by (simp add: buffering_append_def)
    obtain k where "written (m_destination t) = base @ take k sent" using flushed by (auto simp: arrives_def)
    then have "written (m_destination t) = base @ take (length (take k sent)) (sent @ xs)" by (simp add: min_def)
    moreover have "failed (m_destination t)" using flushed Some by auto
    ultimately show ?thesis using s' flushed unfolding arrives_def by blast
  next
    case None
    obtain e2 d where d: "append (m_destination t) xs = (e2, d)" by fastforce
    with None False f t have s': "s' = t\<lparr>m_destination := d\<rparr>" by (simp add: buffering_append_def split: option.splits)
    have "m_buffer_used t = 0" using None buffering_flush_cases [OF i t] by simp
    from append_after_flush_arrives [OF _ _ this _ d] flushed have "arrives written failed base (sent @ xs) s'" using s' by blast
    moreover have "buffering_sink_inv invar s'" using flushed append_inv [OF it d] s' by (simp add: buffering_sink_inv_def)
    ultimately show ?thesis by blast
  qed
qed

lemma ghost_reliable:
  "reliable_sink (ghost_append (buffering_append append)) snd
     (\<lambda>(s, sent). buffering_sink_inv invar s \<and> arrives written failed base sent s)"
proof
  fix p xs r p' assume "case p of (s, sent) \<Rightarrow> buffering_sink_inv invar s \<and> arrives written failed base sent s"
    "ghost_append (buffering_append append) p xs = (r, p')"
  then show "case p' of (s, sent) \<Rightarrow> buffering_sink_inv invar s \<and> arrives written failed base sent s"
    by (cases p) (auto simp: ghost_append_def dest: buffering_append_arrives [OF _ _ prod.collapse [symmetric]])
next
  fix p xs r p' assume "ghost_append (buffering_append append) p xs = (r, p')"
  then show "\<exists>k. snd p' = snd p @ take k xs" by (intro exI [of _ "length xs"]) (auto simp: ghost_append_def)
qed (auto simp: ghost_append_def)

lemma buffering_init_arrives: "arrives written failed (written t) [] (buffering_sink_init t buffer)"
  by (simp add: arrives_def buffering_sink_init_def buffering_written_def buffered_elements_def)

end

section \<open>Properties\<close>

text \<open>
  C6: any number of \<open>append\<close>s on a \<open>buffering_sink\<close>, of any sizes and with a buffer of any size, in front of a
  destination whose \<open>append\<close> never fails, and one \<open>flush\<close> at the end: the destination then has received
  what was buffered and all the appended elements, in order and once, and the buffer is empty.
\<close>

theorem buffering_sink_delivers_all:
  assumes "reliable_sink app written invar" "buffering_sink_inv invar s"
  shows "\<exists>s'. buffering_flush app (fold (\<lambda>xs s. snd (buffering_append app s xs)) xss s) = (None, s') \<and>
    m_buffer_used s' = 0 \<and>
    written (m_destination s') = written (m_destination s) @ buffered_elements s @ concat xss"
proof -
  note w = reliable_sink.buffering_appends_written [OF assms, of xss]
  from reliable_sink.buffering_flush_delivers [OF assms(1) w [THEN conjunct1]] w show ?thesis
    by (auto simp: buffering_written_def)
qed

lemma buffering_sink_delivers_all_witness:
  "\<exists>s'. buffering_flush container_append (fold (\<lambda>xs s. snd (buffering_append container_append s xs))
      [[1], [2, 3], [4, 5, 6 :: int]] (buffering_sink_init [] [0, 0])) = (None, s') \<and>
    m_destination s' = [1, 2, 3, 4, 5, 6]"
  using buffering_sink_delivers_all [OF container.reliable_sink_axioms,
    of "buffering_sink_init [] [0, 0]" "[[1], [2, 3], [4, 5, 6 :: int]]"]
  by (auto simp: buffering_sink_init_def buffering_sink_inv_def buffered_elements_def)

text \<open>
  An \<open>append\<close> or \<open>flush\<close> of a \<open>buffering_sink\<close> whose destination fails: the destination has
  received a prefix of the buffered elements, and all of them are still in the buffer.
\<close>

theorem buffering_sink_failed_flush:
  assumes "element_sink app written invar" "buffering_sink_inv invar s"
    and "buffering_flush app s = (Some e, s')"
  shows "buffered_elements s' = buffered_elements s \<and>
    (\<exists>k. written (m_destination s') = written (m_destination s) @ take k (buffered_elements s))"
  using element_sink.buffering_flush_cases [OF assms] by simp

text \<open>A destination that takes at most two more elements and then fails.\<close>

definition limited_append :: "(int list, int, string) append_function" where
  "limited_append s xs = (if length s + length xs \<le> 2 then None else Some ''full'', take 2 (s @ xs))"

lemma limited_element_sink: "element_sink limited_append (\<lambda>xs. xs) (\<lambda>xs. length xs \<le> 2)"
proof
  fix s s' xs r assume "length s \<le> 2" "limited_append s xs = (r, s')"
  then show "\<exists>k. s' = s @ take k xs" by (auto simp: limited_append_def)
qed (auto simp: limited_append_def split: if_splits)

lemma buffering_sink_failed_flush_witness:
  "buffered_elements (snd (buffering_flush limited_append
     \<lparr>m_destination = [1], m_fallback_buffer = [2, 3, 4], m_buffer_used = 2\<rparr>)) = [2, 3]"
  using buffering_sink_failed_flush [OF limited_element_sink,
    of "\<lparr>m_destination = [1], m_fallback_buffer = [2, 3, 4], m_buffer_used = 2\<rparr>" "''full''"
       "\<lparr>m_destination = [1, 2], m_fallback_buffer = [2, 3, 4], m_buffer_used = 2\<rparr>"]
  by (simp add: buffering_sink_inv_def buffering_flush_def limited_append_def buffered_elements_def
      numeral_2_eq_2)

text \<open>
  \<open>make_append_space\<close> of a \<open>buffering_sink\<close> hands out the begin of the buffer, so that after the
  client has filled the space with \<open>ys\<close> and flushed it, the destination has received \<open>ys\<close> and nothing
  of what had been appended and not yet flushed.
\<close>

theorem make_append_space_discards_buffer:
  assumes "reliable_sink app written invar" "buffering_sink_inv invar s"
    and "buffering_append app s xs = (None, s1)" "m_destination s1 = m_destination s"
    and "buffering_make_append_space s1 wanted = (length ys, s2)"
  shows "\<exists>s3. buffering_flush_append_space app (fill_append_space ys s2) = (None, s3) \<and>
    m_buffer_used s3 = 0 \<and> written (m_destination s3) = written (m_destination s) @ ys"
proof -
  from assms(1) have "element_sink app written invar" by (simp add: reliable_sink_def)
  from element_sink.buffering_append_success [OF this assms(2,3)] have "buffering_sink_inv invar s1" by simp
  from reliable_sink.append_space_delivers [OF assms(1) this assms(5)] assms(4) show ?thesis by simp
qed

lemma make_append_space_discards_buffer_witness:
  "\<exists>s3. buffering_flush_append_space container_append (fill_append_space [7]
      (snd (buffering_make_append_space
        (snd (buffering_append container_append (buffering_sink_init [] [0, 0, 0]) [1, 2 :: int])) 1))) =
    (None, s3) \<and> m_destination s3 = [7]"
proof -
  let ?s = "buffering_sink_init [] [0, 0, 0 :: int]"
  let ?s1 = "\<lparr>m_destination = [], m_fallback_buffer = [1, 2, 0 :: int], m_buffer_used = 2\<rparr>"
  have 1: "buffering_append container_append ?s [1, 2] = (None, ?s1)"
    by (simp add: buffering_append_def buffering_sink_init_def)
  have 2: "buffering_make_append_space ?s1 1 = (length [7 :: int], ?s1\<lparr>m_buffer_used := 1\<rparr>)"
    by (simp add: buffering_make_append_space_def)
  have "buffering_sink_inv (\<lambda>_. True) ?s" "m_destination ?s1 = m_destination ?s"
    by (simp_all add: buffering_sink_inv_def buffering_sink_init_def)
  from make_append_space_discards_buffer [OF container.reliable_sink_axioms this(1) 1 this(2) 2] show ?thesis
    unfolding 1 snd_conv 2 by (auto simp: buffering_sink_init_def)
qed

definition container_buffer_inv :: "nat \<Rightarrow> 'e container_buffer \<Rightarrow> bool" where
  "container_buffer_inv cap s \<longleftrightarrow>
     m_committed s \<le> length (c_destination s) \<and> length (c_destination s) \<le> cap"

text \<open>
  Space of a \<open>container_buffer\<close> that is requested, filled and flushed becomes the new end of the
  container: the committed elements stay as they are, space of an earlier request that was never
  flushed disappears, and the container never grows beyond its \<open>max_size()\<close>.
\<close>

theorem container_buffer_appends:
  assumes "container_buffer_inv cap s"
    and "container_make_append_space cap fill s wanted = (n, t)" "length ys = n"
    and "container_flush_append_space (container_fill_space ys t) = (r, u)"
  shows "c_destination u = take (m_committed s) (c_destination s) @ ys \<and>
    m_committed u = length (c_destination u) \<and> container_buffer_inv cap u \<and> r = None \<and>
    n = min wanted (cap - m_committed s)"
proof -
  let ?c = "m_committed s" and ?d = "c_destination s"
  from assms(2) have n: "n = min wanted (cap - ?c)" and
      t: "c_destination t = resize_list fill (?c + n) ?d" "m_committed t = ?c"
    by (auto simp: container_make_append_space_def Let_def)
  from assms(1) have c: "?c \<le> length ?d" "?c \<le> cap" by (simp_all add: container_buffer_inv_def)
  have len: "length (resize_list fill (?c + n) ?d) = ?c + n" by (simp add: resize_list_def)
  have "take ?c (resize_list fill (?c + n) ?d) = take ?c ?d" using c by (simp add: resize_list_def)
  with assms(3,4) t len have "c_destination u = take ?c ?d @ ys" "m_committed u = length (c_destination u)"
      "r = None"
    by (auto simp: container_flush_append_space_def container_fill_space_def)
  then show ?thesis using n c assms(3) by (simp add: container_buffer_inv_def)
qed

lemma container_buffer_appends_witness:
  "c_destination (snd (container_flush_append_space (container_fill_space [7, 8]
     (snd (container_make_append_space 10 0 (container_buffer_init [1, 2 :: int]) 2))))) = [1, 2, 7, 8]"
  using container_buffer_appends [of 10 "container_buffer_init [1, 2]" 0 2 2
      "\<lparr>c_destination = [1, 2, 0, 0], m_committed = 2\<rparr>" "[7, 8 :: int]" None
      "\<lparr>c_destination = [1, 2, 7, 8], m_committed = 4\<rparr>"]
  by (simp add: container_buffer_inv_def container_buffer_init_def container_make_append_space_def
      container_flush_append_space_def container_fill_space_def resize_list_def numeral_eq_Suc)

text \<open>
  \<open>multi_sink\<close> hands the data to its children in order.  Without an error each child has received
  all of it; with an error there is one child that failed after a prefix, every child before it has
  received everything and no child after it was touched.
\<close>

theorem multi_sink_delivers:
  assumes "element_sink app written invar" "\<forall>c \<in> set cs. invar c" "multi_append app cs xs = (r, cs')"
  shows "case r of
      None \<Rightarrow> map written cs' = map (\<lambda>c. written c @ xs) cs
    | Some e \<Rightarrow> \<exists>before c after before' c' k.
        cs = before @ c # after \<and> cs' = before' @ c' # after \<and>
        map written before' = map (\<lambda>c. written c @ xs) before \<and> written c' = written c @ take k xs"
  using assms(2,3)
proof (induction cs arbitrary: r cs')
  case Nil
  then show ?case by simp
next
  case (Cons c cs)
  obtain e t where a: "app c xs = (e, t)" by fastforce
  from Cons.prems(1) have i: "invar c" by simp
  show ?case
  proof (cases e)
    case (Some x)
    with Cons.prems(2) a have "r = Some x" "cs' = t # cs" by auto
    with element_sink.append_prefix [OF assms(1) i a] show ?thesis
      by simp (metis append_Nil list.simps(8))
  next
    case None
    obtain r2 ds where m: "multi_append app cs xs = (r2, ds)" by fastforce
    from None Cons.prems(2) a m have r: "r = r2" "cs' = t # ds" by auto
    from element_sink.append_success [OF assms(1) i] a None have w: "written t = written c @ xs" by simp
    note IH = Cons.IH [OF _ m]
    show ?thesis
    proof (cases r2)
      case None
      with IH r w Cons.prems(1) show ?thesis by simp
    next
      case (Some x)
      with IH Cons.prems(1) obtain b d a' b' d' k where
        "cs = b @ d # a'" "ds = b' @ d' # a'" "map written b' = map (\<lambda>c. written c @ xs) b"
        "written d' = written d @ take k xs" by auto
      then show ?thesis unfolding r Some option.case
        by (intro exI [of _ "c # b"] exI [of _ d] exI [of _ a'] exI [of _ "t # b'"] exI [of _ d']
            exI [of _ k]) (simp add: w)
    qed
  qed
qed

lemma multi_sink_delivers_witness:
  "map (\<lambda>xs. xs) (snd (multi_append limited_append [[], [9]] [1 :: int])) = [[1], [9, 1]]"
proof -
  have m: "multi_append limited_append [[], [9]] [1] = (None, [[1], [9, 1]])"
    by (simp add: limited_append_def numeral_2_eq_2)
  from multi_sink_delivers [OF limited_element_sink _ m] show ?thesis unfolding m by simp
qed

text \<open>
  \<open>copy\<close> from a source that keeps the contract into a sink that keeps it and does not fail returns,
  and the sink has then received every element the source had left, in order and once.
\<close>

theorem copy_delivers_all:
  assumes "source_to_sink cn pending source_inv app written sink_inv" "source_inv s" "sink_inv t"
  shows "\<exists>s' t'. copy_all cn app s t = Some (s', t') \<and> pending s' = [] \<and>
    written t' = written t @ pending s"
  using source_to_sink.copy_all_eq [OF assms] by blast

lemma copy_delivers_all_witness:
  "\<exists>s' t'. copy_all memory_copy_next container_append [1, 2 :: int] [0] = Some (s', t') \<and>
    t' = [0, 1, 2]"
  using copy_delivers_all [OF memory_to_container.source_to_sink_axioms, of "[1, 2]" "[0 :: int]"] by auto

end
