(* ===== verification/Lines.thy ===== *)
theory Lines
  imports Sources
begin

text \<open>
  \<open>silicium/detail/line_source.hpp\<close>: lines of text out of a source of characters, and the splitting of
  a header line into key and value.  \<open>split_line\<close> is the specification of one line over the text that
  is still to come.
\<close>

abbreviation CR :: char where "CR \<equiv> CHR 0x0D"
abbreviation LF :: char where "LF \<equiv> CHR 0x0A"

text \<open>
  The inner loop of \<open>line_source::copy_next\<close>: \<open>line\<close> is the vector it appends to.  It may not return
  on a source without end, hence the option; the inner result is \<open>None\<close> where the function returns
  \<open>\&line\<close> because the input has ended.
\<close>

partial_function (option) read_line ::
    "('s, char) copy_function \<Rightarrow> 's \<Rightarrow> string \<Rightarrow> (string option \<times> 's) option" where
  "read_line cn s line = (case get cn s of
      (None, s1) \<Rightarrow> Some (None, s1)
    | (Some c, s1) \<Rightarrow>
        (if c = CR
         then (case get cn s1 of
             (None, s2) \<Rightarrow> Some (None, s2)
           | (Some lf, s2) \<Rightarrow> (if lf = LF then Some (Some line, s2) else read_line cn s2 (line @ [c])))
         else if c = LF then Some (Some line, s1)
         else read_line cn s1 (line @ [c])))"

text \<open>The outer loop over a destination of \<open>n\<close> empty vectors.\<close>

fun line_copy_next :: "('s, char) copy_function \<Rightarrow> 's \<Rightarrow> nat \<Rightarrow> (string list \<times> 's) option" where
  "line_copy_next cn s 0 = Some ([], s)"
| "line_copy_next cn s (Suc n) = (case read_line cn s [] of
      None \<Rightarrow> None
    | Some (None, s1) \<Rightarrow> Some ([], s1)
    | Some (Some line, s1) \<Rightarrow> (case line_copy_next cn s1 n of
          None \<Rightarrow> None
        | Some (ls, s2) \<Rightarrow> Some (line # ls, s2)))"

definition line_map_next :: "'s \<Rightarrow> nat \<Rightarrow> string list \<times> 's" where
  "line_map_next s size_wanted = ([], s)"

text \<open>\<open>get\<close> applied to a line source.\<close>

definition get_line :: "('s, char) copy_function \<Rightarrow> 's \<Rightarrow> (string option \<times> 's) option" where
  "get_line cn s = (case line_copy_next cn s 1 of
      None \<Rightarrow> None
    | Some ([], s1) \<Rightarrow> Some (None, s1)
    | Some (l # _, s1) \<Rightarrow> Some (Some l, s1))"

text \<open>
  \<open>split_value_line\<close>.  The iterator behind the colon is dereferenced without a check, so a line
  without a colon, or one that ends with its first colon, is a fault.
\<close>

definition split_value_line :: "string \<Rightarrow> fault + string \<times> string" where
  "split_value_line line = (case from_first (CHR '':'') line of
      [] \<Rightarrow> Inl Out_Of_Range
    | colon # second \<Rightarrow> (case second of
          [] \<Rightarrow> Inl Out_Of_Range
        | c # cs \<Rightarrow> Inr (before_first (CHR '':'') line, if c = CHR '' '' then cs else second)))"

section \<open>Specification\<close>

fun split_line :: "string \<Rightarrow> (string \<times> string) option" where
  "split_line [] = None"
| "split_line [c] = (if c = LF then Some ([], []) else None)"
| "split_line (c # d # cs) =
     (if c = LF then Some ([], d # cs)
      else if c = CR
      then (if d = LF then Some ([], cs) else map_option (\<lambda>(l, r). (c # l, r)) (split_line cs))
      else map_option (\<lambda>(l, r). (c # l, r)) (split_line (d # cs)))"

lemma split_line_shorter: "split_line xs = Some (l, r) \<Longrightarrow> length r < length xs"
  by (induction xs arbitrary: l r rule: split_line.induct) (fastforce split: if_splits)+

lemma split_line_plain:
  "CR \<notin> set l \<Longrightarrow> LF \<notin> set l \<Longrightarrow> split_line (l @ CR # LF # r) = Some (l, r)"
proof (induction l)
  case (Cons c l)
  then show ?case by (cases l) auto
qed simp

lemma split_line_plain_lf:
  "CR \<notin> set l \<Longrightarrow> LF \<notin> set l \<Longrightarrow> split_line (l @ LF # r) = Some (l, r)"
proof (induction l)
  case Nil
  then show ?case by (cases r) auto
next
  case (Cons c l)
  then show ?case by (cases l) auto
qed

text \<open>A line ending that the reader accepts.\<close>

definition line_end :: "string \<Rightarrow> bool" where
  "line_end e \<longleftrightarrow> e = [CR, LF] \<or> e = [LF]"

lemma split_line_end:
  "CR \<notin> set l \<Longrightarrow> LF \<notin> set l \<Longrightarrow> line_end e \<Longrightarrow> split_line (l @ e @ r) = Some (l, r)"
  using split_line_plain [of l r] split_line_plain_lf [of l r] by (auto simp: line_end_def)

context element_source
begin

lemma get_split:
  assumes "invar s"
  shows "\<exists>s'. get copy_next s = (case pending s of [] \<Rightarrow> None | c # _ \<Rightarrow> Some c, s') \<and> invar s' \<and>
    pending s' = tl (pending s)"
  using get_Nil [OF assms] get_Cons [OF assms] by (cases "pending s") auto

end

locale char_source = element_source copy_next pending invar
  for copy_next :: "('s, char) copy_function" and pending invar
begin

lemma read_line_eq:
  "invar s \<Longrightarrow> \<exists>s'. invar s' \<and> (case split_line (pending s) of
      None \<Rightarrow> read_line copy_next s acc = Some (None, s') \<and> pending s' = []
    | Some (l, r) \<Rightarrow> read_line copy_next s acc = Some (Some (acc @ l), s') \<and> pending s' = r)"
proof (induction "pending s" arbitrary: s acc rule: split_line.induct)
  case 1
  then show ?case using get_split [OF 1(2)] by (auto simp: read_line.simps [of _ s])
next
  case (2 c)
  from get_split [OF 2(2)] 2(1) [symmetric] obtain s1 where
    s1: "get copy_next s = (Some c, s1)" "invar s1" "pending s1 = []" by auto
  from get_split [OF s1(2)] s1(3) obtain s2 where
    s2: "get copy_next s1 = (None, s2)" "invar s2" "pending s2 = []" by auto
  show ?case
  proof (cases "c = LF")
    case True
    with s1 2(1) [symmetric] show ?thesis by (auto simp: read_line.simps [of _ s])
  next
    case False
    with s1 s2 2(1) [symmetric] show ?thesis
      by (auto simp: read_line.simps [of _ s] read_line.simps [of _ s1])
  qed
next
  case (3 c d cs)
  from get_split [OF 3(4)] 3(3) [symmetric] obtain s1 where
    s1: "get copy_next s = (Some c, s1)" "invar s1" "pending s1 = d # cs" by auto
  from get_split [OF s1(2)] s1(3) obtain s2 where
    s2: "get copy_next s1 = (Some d, s2)" "invar s2" "pending s2 = cs" by auto
  consider "c = LF" | "c \<noteq> LF" "c = CR" "d = LF" | "c \<noteq> LF" "c = CR" "d \<noteq> LF" | "c \<noteq> LF" "c \<noteq> CR" by blast
  then show ?case
  proof cases
    case 1
    with s1 3(3) [symmetric] show ?thesis by (auto simp: read_line.simps [of _ s])
  next
    case 2
    with s1 s2 3(3) [symmetric] show ?thesis by (auto simp: read_line.simps [of _ s])
  next
    case case3: 3
    from 3(1) [OF case3 s2(3) [symmetric] s2(2), of "acc @ [c]"] s1 s2 3(3) [symmetric] case3 show ?thesis
      by (auto simp: read_line.simps [of _ s] split: option.splits)
  next
    case 4
    from 3(2) [OF 4 s1(3) [symmetric] s1(2), of "acc @ [c]"] s1 3(3) [symmetric] 4 show ?thesis
      by (auto simp: read_line.simps [of _ s] split: option.splits)
  qed
qed

lemma get_line_eq:
  assumes "invar s"
  shows "\<exists>s'. invar s' \<and> (case split_line (pending s) of
      None \<Rightarrow> get_line copy_next s = Some (None, s') \<and> pending s' = []
    | Some (l, r) \<Rightarrow> get_line copy_next s = Some (Some l, s') \<and> pending s' = r)"
  using read_line_eq [OF assms, of "[]"] by (auto simp: get_line_def split: option.splits)

lemma line_copy_next_eq:
  "invar s \<Longrightarrow> \<forall>(l, e) \<in> set ls. CR \<notin> set l \<and> LF \<notin> set l \<and> line_end e \<Longrightarrow>
   pending s = concat (map (\<lambda>(l, e). l @ e) ls) @ tail_text \<Longrightarrow>
   \<exists>s'. line_copy_next copy_next s (length ls) = Some (map fst ls, s') \<and> invar s' \<and> pending s' = tail_text"
proof (induction ls arbitrary: s)
  case Nil
  then show ?case by simp
next
  case (Cons le ls)
  obtain l e where le: "le = (l, e)" by fastforce
  with Cons.prems have "split_line (pending s) = Some (l, concat (map (\<lambda>(l, e). l @ e) ls) @ tail_text)"
    by (simp add: split_line_end)
  with read_line_eq [OF Cons.prems(1), of "[]"] obtain t where
    t: "invar t" "read_line copy_next s [] = Some (Some l, t)"
      "pending t = concat (map (\<lambda>(l, e). l @ e) ls) @ tail_text" by auto
  from Cons.IH [OF t(1) _ t(3)] Cons.prems(2) t(2) le show ?case by auto
qed

end

interpretation memory_chars: char_source memory_copy_next "\<lambda>xs. xs" "\<lambda>_. True"
  by unfold_locales

section \<open>Splitting a header line\<close>

lemma split_value_line_generated:
  assumes "CHR '':'' \<notin> set key"
  shows "split_value_line (key @ '': '' @ value) = Inr (key, value)"
  using assms by (simp add: split_value_line_def)

text \<open>
  Over any source of characters that keeps the contract, \<open>line_source::copy_next\<close> reads lines that
  are free of carriage returns and line feeds, each ended by CR LF or by LF alone, exactly as they are,
  and stops behind the last one that was requested.
\<close>

theorem line_source_reads_lines:
  assumes "element_source cn pending invar" "invar s"
    and "\<forall>(l, e) \<in> set ls. CR \<notin> set l \<and> LF \<notin> set l \<and> line_end e"
    and "pending s = concat (map (\<lambda>(l, e). l @ e) ls) @ tail_text"
  shows "\<exists>s'. line_copy_next cn s (length ls) = Some (map fst ls, s') \<and> invar s' \<and> pending s' = tail_text"
proof -
  from assms(1) have "char_source cn pending invar" by (simp add: char_source_def)
  from char_source.line_copy_next_eq [OF this assms(2-4)] show ?thesis .
qed

lemma line_source_reads_lines_witness:
  "\<exists>s'. line_copy_next memory_copy_next (''ab'' @ [CR, LF] @ ''c'' @ [LF] @ ''rest'') 2 = Some ([''ab'', ''c''], s')"
  using line_source_reads_lines [OF memory.element_source_axioms,
      where s = "''ab'' @ [CR, LF] @ ''c'' @ [LF] @ ''rest''"
        and ls = "[(''ab'', [CR, LF]), (''c'', [LF])]" and tail_text = "''rest''"]
  by (auto simp: line_end_def numeral_2_eq_2)

text \<open>
  C31: on arbitrary text \<open>line_source\<close> always returns, and does what \<open>split_line\<close> says: a carriage
  return that is not followed by a line feed stays in the line and the character behind it is
  dropped, and text after the last line ending is consumed and never delivered.
\<close>

theorem line_source_refines_split_line:
  assumes "element_source cn pending invar" "invar s"
  shows "\<exists>s'. invar s' \<and> (case split_line (pending s) of
      None \<Rightarrow> get_line cn s = Some (None, s') \<and> pending s' = []
    | Some (l, r) \<Rightarrow> get_line cn s = Some (Some l, s') \<and> pending s' = r)"
proof -
  from assms(1) have "char_source cn pending invar" by (simp add: char_source_def)
  from char_source.get_line_eq [OF this assms(2)] show ?thesis .
qed

lemma line_source_refines_split_line_witness:
  "\<exists>s'. get_line memory_copy_next (''a'' @ [CR] @ ''bc'' @ [LF] @ ''d'') = Some (Some (''a'' @ [CR] @ ''c''), s')"
  using line_source_refines_split_line [OF memory.element_source_axioms,
      where s = "''a'' @ [CR] @ ''bc'' @ [LF] @ ''d''"]
  by auto

end
