(* ===== verification/Std_Map.thy ===== *)
theory Std_Map
  imports Silicium_Prelude
begin

text \<open>
  \<open>std::map\<close> as the code uses it: an association list in ascending order of its keys, which is also the
  order of iteration.  \<open>map_set\<close> is \<open>m[k] = v\<close>, \<open>map_insert\<close> is \<open>m.insert(\{k, v\})\<close>, which leaves an
  entry that exists as it is.
\<close>

fun map_set :: "'k::linorder \<Rightarrow> 'v \<Rightarrow> ('k \<times> 'v) list \<Rightarrow> ('k \<times> 'v) list" where
  "map_set k v [] = [(k, v)]"
| "map_set k v ((a, b) # m) =
     (if k < a then (k, v) # (a, b) # m else if k = a then (k, v) # m else (a, b) # map_set k v m)"

fun map_insert :: "'k::linorder \<Rightarrow> 'v \<Rightarrow> ('k \<times> 'v) list \<Rightarrow> ('k \<times> 'v) list" where
  "map_insert k v [] = [(k, v)]"
| "map_insert k v ((a, b) # m) =
     (if k < a then (k, v) # (a, b) # m else if k = a then (a, b) # m else (a, b) # map_insert k v m)"

definition ordered_map :: "('k::linorder \<times> 'v) list \<Rightarrow> bool" where
  "ordered_map m \<longleftrightarrow> sorted_wrt (\<lambda>x y. fst x < fst y) m"

lemma ordered_map_simps [simp]:
  "ordered_map []"
  "ordered_map (x # m) \<longleftrightarrow> (\<forall>y \<in> set m. fst x < fst y) \<and> ordered_map m"
  by (simp_all add: ordered_map_def)

lemma keys_map_set: "fst ` set (map_set k v m) = insert k (fst ` set m)"
  by (induction k v m rule: map_set.induct) auto

lemma keys_map_insert: "fst ` set (map_insert k v m) = insert k (fst ` set m)"
  by (induction k v m rule: map_insert.induct) auto

lemma all_keys: "(\<forall>y \<in> set m. P (fst y)) \<longleftrightarrow> (\<forall>k \<in> fst ` set m. P k)"
  by auto

lemma ordered_map_set [intro]: "ordered_map m \<Longrightarrow> ordered_map (map_set k v m)"
proof (induction k v m rule: map_set.induct)
  case (2 k v a b m)
  have "\<forall>y \<in> set (map_set k v m). a < fst y" if "a < k"
    using that 2(2) by (simp add: all_keys keys_map_set del: ball_simps(9))
  with 2 show ?case by force
qed simp

lemma ordered_map_insert [intro]: "ordered_map m \<Longrightarrow> ordered_map (map_insert k v m)"
proof (induction k v m rule: map_insert.induct)
  case (2 k v a b m)
  have "\<forall>y \<in> set (map_insert k v m). a < fst y" if "a < k"
    using that 2(2) by (simp add: all_keys keys_map_insert del: ball_simps(9))
  with 2 show ?case by force
qed simp

lemma lookup_map_set: "ordered_map m \<Longrightarrow> map_of (map_set k v m) = (map_of m)(k \<mapsto> v)"
  by (induction k v m rule: map_set.induct) (auto simp: fun_eq_iff)

lemma ordered_map_absent: "ordered_map ((a, b) # m) \<Longrightarrow> k < a \<Longrightarrow> map_of m k = None"
  by (force simp: map_of_eq_None_iff)

lemma lookup_map_insert:
  "ordered_map m \<Longrightarrow> map_of (map_insert k v m) = (if map_of m k = None then (map_of m)(k \<mapsto> v) else map_of m)"
proof (induction k v m rule: map_insert.induct)
  case (2 k v a b m)
  then show ?case using ordered_map_absent [of a b m k] by (auto simp: fun_eq_iff)
qed simp

text \<open>A key above all others goes to the end, whichever operation adds it.\<close>

lemma map_set_last: "\<forall>y \<in> set m. fst y < k \<Longrightarrow> map_set k v m = m @ [(k, v)]"
  by (induction k v m rule: map_set.induct) auto

lemma map_insert_last: "\<forall>y \<in> set m. fst y < k \<Longrightarrow> map_insert k v m = m @ [(k, v)]"
  by (induction k v m rule: map_insert.induct) auto

lemma ordered_map_append:
  "ordered_map (xs @ ys) \<longleftrightarrow> ordered_map xs \<and> ordered_map ys \<and> (\<forall>x \<in> set xs. \<forall>y \<in> set ys. fst x < fst y)"
  by (auto simp: ordered_map_def sorted_wrt_append)

lemma fold_map_set_ordered:
  "ordered_map (m @ kvs) \<Longrightarrow> fold (\<lambda>(k, v). map_set k v) kvs m = m @ kvs"
proof (induction kvs arbitrary: m)
  case (Cons kv kvs)
  obtain k v where kv: "kv = (k, v)" by fastforce
  from Cons.prems kv have "map_set k v m = m @ [(k, v)]"
    by (intro map_set_last) (simp add: ordered_map_append)
  with Cons.IH [of "m @ [(k, v)]"] Cons.prems kv show ?case by simp
qed simp

lemma fold_map_insert_ordered:
  "ordered_map (m @ kvs) \<Longrightarrow> fold (\<lambda>(k, v). map_insert k v) kvs m = m @ kvs"
proof (induction kvs arbitrary: m)
  case (Cons kv kvs)
  obtain k v where kv: "kv = (k, v)" by fastforce
  from Cons.prems kv have "map_insert k v m = m @ [(k, v)]"
    by (intro map_insert_last) (simp add: ordered_map_append)
  with Cons.IH [of "m @ [(k, v)]"] Cons.prems kv show ?case by simp
qed simp

end
