(* ===== verification/Http.thy ===== *)
theory Http
  imports Lines Sinks Std_Map "HOL-Library.Char_ord" "HOL-Library.List_Lexorder"
begin

text \<open>
  \<open>silicium/http/parse_request.hpp\<close>, \<open>parse_response.hpp\<close> and \<open>generate_*.hpp\<close>: HTTP headers.  The
  parsers read lines from a source of characters, the generators append pieces to a sink and drop its
  errors.  \<open>request_text\<close> and \<open>response_text\<close> are the specification of the generated text, and the
  round-trip theorems connect the two directions.  Header arguments are a \<open>std::map\<close>
  (\<open>Std_Map\<close>; keys are ordered as byte strings).  \<open>boost::lexical_cast\<close> is a parameter.
\<close>

type_synonym arguments = "(string \<times> string) list"

section \<open>Requests\<close>

record request =
  req_method :: string
  req_path :: string
  req_version :: string
  req_arguments :: arguments

text \<open>The loop over the header lines, shared by both parsers; the last result is \<open>none\<close> at the end of input.\<close>

partial_function (option) read_arguments ::
    "('s, char) copy_function \<Rightarrow> 's \<Rightarrow> arguments \<Rightarrow> ('s, unit, arguments option) outcome option" where
  "read_arguments cn s args = (case get_line cn s of
      None \<Rightarrow> None
    | Some (None, s1) \<Rightarrow> Some (Ok None s1)
    | Some (Some value_line, s1) \<Rightarrow>
        (if value_line = [] then Some (Ok (Some args) s1)
         else (case split_value_line value_line of
             Inl f \<Rightarrow> Some (Fault f)
           | Inr (k, v) \<Rightarrow> read_arguments cn s1 (map_set k v args))))"

definition parse_request_line :: "string \<Rightarrow> (string \<times> string \<times> string) option" where
  "parse_request_line first_line = (case from_first (CHR '' '') first_line of
      [] \<Rightarrow> None
    | _ # path_begin \<Rightarrow> (case from_first (CHR '' '') path_begin of
          [] \<Rightarrow> None
        | _ # version \<Rightarrow> Some (before_first (CHR '' '') first_line, before_first (CHR '' '') path_begin, version)))"

definition parse_request ::
    "('s, char) copy_function \<Rightarrow> 's \<Rightarrow> ('s, unit, request option) outcome option" where
  "parse_request cn s = (case get_line cn s of
      None \<Rightarrow> None
    | Some (None, s1) \<Rightarrow> Some (Ok None s1)
    | Some (Some first_line, s1) \<Rightarrow> (case parse_request_line first_line of
          None \<Rightarrow> Some (Ok None s1)
        | Some (method, path, version) \<Rightarrow> (case read_arguments cn s1 [] of
              None \<Rightarrow> None
            | Some (Fault f) \<Rightarrow> Some (Fault f)
            | Some (Raise e s2) \<Rightarrow> Some (Raise e s2)
            | Some (Ok None s2) \<Rightarrow> Some (Ok None s2)
            | Some (Ok (Some args) s2) \<Rightarrow> Some (Ok (Some
                \<lparr>req_method = method, req_path = path, req_version = version, req_arguments = args\<rparr>) s2))))"

section \<open>Responses\<close>

text \<open>\<open>arguments\<close> is a \<open>unique_ptr\<close>; \<open>None\<close> is null.\<close>

record response =
  resp_version :: string
  resp_status :: int
  resp_status_text :: string
  resp_arguments :: "arguments option"

definition response_init :: response where
  "response_init = \<lparr>resp_version = [], resp_status = 0, resp_status_text = [], resp_arguments = None\<rparr>"

text \<open>
  Copying clones the table.  Moving leaves a null pointer and strings in the state \<open>moved_from\<close> that
  the string class leaves behind.  Each returns the new \<open>*this\<close> (and \<open>other\<close>).
\<close>

definition response_copy_ctor :: "response \<Rightarrow> response" where
  "response_copy_ctor other = \<lparr>resp_version = resp_version other, resp_status = resp_status other,
     resp_status_text = resp_status_text other,
     resp_arguments = (case resp_arguments other of Some table \<Rightarrow> Some table | None \<Rightarrow> None)\<rparr>"

definition response_copy_assign :: "response \<Rightarrow> response \<Rightarrow> response" where
  "response_copy_assign this other = this\<lparr>resp_version := resp_version other,
     resp_status := resp_status other, resp_status_text := resp_status_text other,
     resp_arguments := (case resp_arguments other of Some table \<Rightarrow> Some table | None \<Rightarrow> None)\<rparr>"

definition response_move_ctor :: "(string \<Rightarrow> string) \<Rightarrow> response \<Rightarrow> response \<times> response" where
  "response_move_ctor moved_from other =
     (\<lparr>resp_version = resp_version other, resp_status = resp_status other,
       resp_status_text = resp_status_text other, resp_arguments = resp_arguments other\<rparr>,
      other\<lparr>resp_version := moved_from (resp_version other),
        resp_status_text := moved_from (resp_status_text other), resp_arguments := None\<rparr>)"

definition response_move_assign ::
    "(string \<Rightarrow> string) \<Rightarrow> response \<Rightarrow> response \<Rightarrow> response \<times> response" where
  "response_move_assign moved_from this other =
     (this\<lparr>resp_version := resp_version other, resp_status := resp_status other,
        resp_status_text := resp_status_text other, resp_arguments := resp_arguments other\<rparr>,
      other\<lparr>resp_version := moved_from (resp_version other),
        resp_status_text := moved_from (resp_status_text other), resp_arguments := None\<rparr>)"

text \<open>
  \<open>cast_unsigned\<close> is \<open>lexical_cast<unsigned>\<close> (\<open>None\<close> for \<open>bad_lexical_cast\<close>); assigning the 32-bit
  unsigned result to the \<open>int\<close> member keeps its bits.
\<close>

definition unsigned_to_int :: "nat \<Rightarrow> int" where
  "unsigned_to_int n = (if n < 2 ^ 31 then int n else int n - 2 ^ 32)"

definition parse_status_line ::
    "(string \<Rightarrow> nat option) \<Rightarrow> string \<Rightarrow> (string \<times> int \<times> string) option" where
  "parse_status_line cast_unsigned first_line = (case from_first (CHR '' '') first_line of
      [] \<Rightarrow> None
    | _ # status_begin \<Rightarrow> (case from_first (CHR '' '') status_begin of
          [] \<Rightarrow> None
        | _ # status_text \<Rightarrow> (case cast_unsigned (before_first (CHR '' '') status_begin) of
              None \<Rightarrow> None
            | Some n \<Rightarrow> Some (before_first (CHR '' '') first_line, unsigned_to_int n, status_text))))"

definition parse_response ::
    "(string \<Rightarrow> nat option) \<Rightarrow> ('s, char) copy_function \<Rightarrow> 's \<Rightarrow> ('s, unit, response option) outcome option" where
  "parse_response cast_unsigned cn s = (case get_line cn s of
      None \<Rightarrow> None
    | Some (None, s1) \<Rightarrow> Some (Ok None s1)
    | Some (Some first_line, s1) \<Rightarrow> (case parse_status_line cast_unsigned first_line of
          None \<Rightarrow> Some (Ok None s1)
        | Some (version, status, status_text) \<Rightarrow> (case read_arguments cn s1 [] of
              None \<Rightarrow> None
            | Some (Fault f) \<Rightarrow> Some (Fault f)
            | Some (Raise e s2) \<Rightarrow> Some (Raise e s2)
            | Some (Ok None s2) \<Rightarrow> Some (Ok None s2)
            | Some (Ok (Some args) s2) \<Rightarrow> Some (Ok (Some
                \<lparr>resp_version = version, resp_status = status, resp_status_text = status_text,
                 resp_arguments = Some args\<rparr>) s2))))"

section \<open>Specification of the parsers\<close>

text \<open>
  The parsers as functions of the whole text: a fault, or the result and the text that is left.  What
  they do on a source depends on nothing but the text it has to deliver.
\<close>

function read_arguments_string :: "string \<Rightarrow> arguments \<Rightarrow> fault + arguments option \<times> string" where
  "read_arguments_string str args = (case split_line str of
      None \<Rightarrow> Inr (None, [])
    | Some (l, r) \<Rightarrow> (if l = [] then Inr (Some args, r)
        else (case split_value_line l of Inl f \<Rightarrow> Inl f | Inr (k, v) \<Rightarrow> read_arguments_string r (map_set k v args))))"
  by pat_completeness auto
termination
  by (relation "measure (\<lambda>(str, _). length str)") (auto dest: split_line_shorter)

declare read_arguments_string.simps [simp del]

definition parse_request_string :: "string \<Rightarrow> fault + request option \<times> string" where
  "parse_request_string str = (case split_line str of
      None \<Rightarrow> Inr (None, [])
    | Some (l, r) \<Rightarrow> (case parse_request_line l of
          None \<Rightarrow> Inr (None, r)
        | Some (method, path, version) \<Rightarrow> (case read_arguments_string r [] of
              Inl f \<Rightarrow> Inl f
            | Inr (None, r') \<Rightarrow> Inr (None, r')
            | Inr (Some args, r') \<Rightarrow> Inr (Some
                \<lparr>req_method = method, req_path = path, req_version = version, req_arguments = args\<rparr>, r'))))"

definition parse_response_string :: "(string \<Rightarrow> nat option) \<Rightarrow> string \<Rightarrow> fault + response option \<times> string" where
  "parse_response_string cast_unsigned str = (case split_line str of
      None \<Rightarrow> Inr (None, [])
    | Some (l, r) \<Rightarrow> (case parse_status_line cast_unsigned l of
          None \<Rightarrow> Inr (None, r)
        | Some (version, status, status_text) \<Rightarrow> (case read_arguments_string r [] of
              Inl f \<Rightarrow> Inl f
            | Inr (None, r') \<Rightarrow> Inr (None, r')
            | Inr (Some args, r') \<Rightarrow> Inr (Some
                \<lparr>resp_version = version, resp_status = status, resp_status_text = status_text, resp_arguments = Some args\<rparr>, r'))))"

text \<open>An outcome over a source agrees with the outcome on the text.\<close>

definition agrees :: "('s \<Rightarrow> bool) \<Rightarrow> ('s \<Rightarrow> string) \<Rightarrow> fault + 'r \<times> string \<Rightarrow> ('s, 'x, 'r) outcome option \<Rightarrow> bool" where
  "agrees invar pending expected_result result = (case expected_result of
      Inl f \<Rightarrow> result = Some (Fault f)
    | Inr (r, remaining) \<Rightarrow> \<exists>s'. result = Some (Ok r s') \<and> pending s' = remaining \<and> invar s')"

lemma agrees_simps [simp]:
  "agrees invar pending (Inl f) result \<longleftrightarrow> result = Some (Fault f)"
  "agrees invar pending (Inr (r, remaining)) result \<longleftrightarrow> (\<exists>s'. result = Some (Ok r s') \<and> pending s' = remaining \<and> invar s')"
  by (simp_all add: agrees_def)

section \<open>Generators\<close>

text \<open>A call of \<open>append\<close> whose result is ignored.\<close>

abbreviation emit :: "('t, char, 'x) append_function \<Rightarrow> string \<Rightarrow> 't \<Rightarrow> 't" where
  "emit app str out \<equiv> snd (append_string app out str)"

abbreviation emit_c_str :: "('t, char, 'x) append_function \<Rightarrow> string \<Rightarrow> 't \<Rightarrow> 't" where
  "emit_c_str app str out \<equiv> snd (append_c_str app out str)"

definition finish_line :: "('t, char, 'x) append_function \<Rightarrow> 't \<Rightarrow> 't" where
  "finish_line app out = emit_c_str app [CR, LF] out"

definition generate_header :: "('t, char, 'x) append_function \<Rightarrow> 't \<Rightarrow> string \<Rightarrow> string \<Rightarrow> 't" where
  "generate_header app out key value =
     finish_line app (emit app value (emit_c_str app '': '' (emit app key out)))"

fun generate_header_map :: "('t, char, 'x) append_function \<Rightarrow> 't \<Rightarrow> arguments \<Rightarrow> 't" where
  "generate_header_map app out [] = out"
| "generate_header_map app out ((k, v) # arguments) =
     generate_header_map app (generate_header app out k v) arguments"

definition finish_headers :: "('t, char, 'x) append_function \<Rightarrow> 't \<Rightarrow> 't" where
  "finish_headers app out = finish_line app out"

definition generate_request_line ::
    "('t, char, 'x) append_function \<Rightarrow> 't \<Rightarrow> string \<Rightarrow> string \<Rightarrow> string \<Rightarrow> 't" where
  "generate_request_line app out method path version =
     emit_c_str app [CR, LF] (emit app version (emit_c_str app '' ''
       (emit app path (emit_c_str app '' '' (emit app method out)))))"

definition generate_request :: "('t, char, 'x) append_function \<Rightarrow> 't \<Rightarrow> request \<Rightarrow> 't" where
  "generate_request app out header =
     emit_c_str app [CR, LF] (generate_header_map app
       (generate_request_line app out (req_method header) (req_path header) (req_version header))
       (req_arguments header))"

definition generate_status_line ::
    "('t, char, 'x) append_function \<Rightarrow> 't \<Rightarrow> string \<Rightarrow> string \<Rightarrow> string \<Rightarrow> 't" where
  "generate_status_line app out version status status_text =
     emit_c_str app [CR, LF] (emit app status_text (emit_c_str app '' ''
       (emit app status (emit_c_str app '' '' (emit app version out)))))"

text \<open>\<open>show_int\<close> is \<open>lexical_cast<std::string>\<close>; \<open>*header.arguments\<close> is not checked for null.\<close>

definition generate_response ::
    "(int \<Rightarrow> string) \<Rightarrow> ('t, char, 'x) append_function \<Rightarrow> response \<Rightarrow> ('t, unit, unit) op" where
  "generate_response show_int app header out =
     (let out1 = generate_status_line app out (resp_version header) (show_int (resp_status header))
                   (resp_status_text header)
      in (case resp_arguments header of
          None \<Rightarrow> Fault Null_Pointer
        | Some table \<Rightarrow> Ok () (emit_c_str app [CR, LF] (generate_header_map app out1 table))))"

section \<open>Specification of the generated text\<close>

definition header_text :: "arguments \<Rightarrow> string" where
  "header_text args = concat (map (\<lambda>(k, v). k @ '': '' @ v @ [CR, LF]) args)"

definition request_text :: "request \<Rightarrow> string" where
  "request_text r = req_method r @ '' '' @ req_path r @ '' '' @ req_version r @ [CR, LF] @
     header_text (req_arguments r) @ [CR, LF]"

definition response_text :: "(int \<Rightarrow> string) \<Rightarrow> response \<Rightarrow> arguments \<Rightarrow> string" where
  "response_text show_int r args = resp_version r @ '' '' @ show_int (resp_status r) @ '' '' @
     resp_status_text r @ [CR, LF] @ header_text args @ [CR, LF]"

text \<open>What a header has to avoid to be read back: the separators of the place where it stands.\<close>

definition free_of :: "string \<Rightarrow> string \<Rightarrow> bool" where
  "free_of seps str \<longleftrightarrow> set seps \<inter> set str = {}"

definition valid_arguments :: "arguments \<Rightarrow> bool" where
  "valid_arguments args \<longleftrightarrow> ordered_map args \<and>
     (\<forall>(k, v) \<in> set args. free_of [CHR '':'', CR, LF] k \<and> free_of [CR, LF] v)"

text \<open>\<open>valid_lines\<close> allows the arguments in any order and a key more than once.\<close>

definition valid_lines :: "request \<Rightarrow> bool" where
  "valid_lines r \<longleftrightarrow> free_of [CHR '' '', CR, LF] (req_method r) \<and>
     free_of [CHR '' '', CR, LF] (req_path r) \<and> free_of [CR, LF] (req_version r) \<and>
     (\<forall>(k, v) \<in> set (req_arguments r). free_of [CHR '':'', CR, LF] k \<and> free_of [CR, LF] v)"

definition valid_request :: "request \<Rightarrow> bool" where
  "valid_request r \<longleftrightarrow> valid_lines r \<and> ordered_map (req_arguments r)"

definition valid_response :: "response \<Rightarrow> bool" where
  "valid_response r \<longleftrightarrow> free_of [CHR '' '', CR, LF] (resp_version r) \<and>
     free_of [CR, LF] (resp_status_text r) \<and> - (2 ^ 31) \<le> resp_status r \<and> resp_status r < 2 ^ 31"

lemma free_of_simps [simp]:
  "free_of [] str" "free_of (c # cs) str \<longleftrightarrow> c \<notin> set str \<and> free_of cs str"
  by (auto simp: free_of_def)

context reliable_sink
begin

lemma emit_written: "invar s \<Longrightarrow> written (snd (append s xs)) = written s @ xs \<and> invar (snd (append s xs))"
  using append_written append_invar by blast

end

locale char_sink = reliable_sink append written invar
  for append :: "('t, char, 'x) append_function" and written invar
begin

lemma finish_line_written:
  "invar t \<Longrightarrow> written (finish_line append t) = written t @ [CR, LF] \<and> invar (finish_line append t)"
  by (simp add: finish_line_def append_c_str_def emit_written)

lemma generate_header_written:
  "invar t \<Longrightarrow> written (generate_header append t k v) = written t @ k @ '': '' @ v @ [CR, LF] \<and>
     invar (generate_header append t k v)"
  by (simp add: generate_header_def finish_line_written append_c_str_def append_string_def emit_written)

lemma generate_header_map_written:
  "invar t \<Longrightarrow> written (generate_header_map append t args) = written t @ header_text args \<and>
     invar (generate_header_map append t args)"
proof (induction args arbitrary: t)
  case (Cons a args)
  obtain k v where "a = (k, v)" by fastforce
  with Cons.IH [of "generate_header append t k v"] generate_header_written [OF Cons.prems, of k v]
  show ?case by (simp add: header_text_def)
qed (simp add: header_text_def)

lemma generate_request_written:
  assumes "invar t"
  shows "written (generate_request append t r) = written t @ request_text r \<and>
    invar (generate_request append t r)"
proof -
  let ?l = "generate_request_line append t (req_method r) (req_path r) (req_version r)"
  have "written ?l = written t @ req_method r @ '' '' @ req_path r @ '' '' @ req_version r @ [CR, LF] \<and> invar ?l"
    using assms by (simp add: generate_request_line_def append_c_str_def append_string_def emit_written)
  with generate_header_map_written [of ?l] show ?thesis
    by (simp add: generate_request_def append_c_str_def emit_written request_text_def)
qed

lemma generate_requests_written:
  "invar t \<Longrightarrow> written (fold (\<lambda>r t. generate_request append t r) rs t) = written t @ concat (map request_text rs) \<and>
     invar (fold (\<lambda>r t. generate_request append t r) rs t)"
  by (induction rs arbitrary: t) (simp_all add: generate_request_written)

lemma generate_response_written:
  assumes "invar t" "resp_arguments r = Some args"
  shows "\<exists>t'. generate_response show_int append r t = Ok () t' \<and>
    written t' = written t @ response_text show_int r args \<and> invar t'"
proof -
  let ?l = "generate_status_line append t (resp_version r) (show_int (resp_status r)) (resp_status_text r)"
  have "written ?l = written t @ resp_version r @ '' '' @ show_int (resp_status r) @ '' '' @
      resp_status_text r @ [CR, LF] \<and> invar ?l"
    using assms by (simp add: generate_status_line_def append_c_str_def append_string_def emit_written)
  with generate_header_map_written [of ?l] assms(2) show ?thesis
    by (simp add: generate_response_def append_c_str_def emit_written response_text_def Let_def)
qed

end

text \<open>The generators ignore errors, so that they do the same whether or not the text is recorded.\<close>

lemma ghost_append_fst [simp]: "fst (snd (ghost_append app p xs)) = snd (app (fst p) xs)"
  by (simp add: ghost_append_def)

lemma ghost_emit [simp]:
  "fst (emit (ghost_append app) str p) = emit app str (fst p)"
  "fst (emit_c_str (ghost_append app) str p) = emit_c_str app str (fst p)"
  by (simp_all add: append_string_def append_c_str_def)

lemma ghost_header_map: "fst (generate_header_map (ghost_append app) p args) = generate_header_map app (fst p) args"
proof (induction args arbitrary: p)
  case (Cons a args)
  then show ?case by (cases a) (simp add: generate_header_def finish_line_def)
qed simp

lemma ghost_generate_response:
  assumes "resp_arguments r = Some args"
  shows "\<exists>q. generate_response show_int (ghost_append app) r p = Ok () q \<and> generate_response show_int app r (fst p) = Ok () (fst q)"
  using assms by (simp add: generate_response_def Let_def ghost_header_map generate_status_line_def)

text \<open>A response written into a \<open>buffering_sink\<close> in front of a destination whose failures last.\<close>

lemma sticky_generate_response:
  assumes sink: "sticky_sink app written invar failed" "invar t" and args: "resp_arguments r = Some args"
  shows "\<exists>t1. generate_response show_int (buffering_append app) r (buffering_sink_init t buffer) = Ok () t1 \<and>
    buffering_sink_inv invar t1 \<and> arrives written failed (written t) (response_text show_int r args) t1"
proof -
  let ?inv = "\<lambda>(s, sent). buffering_sink_inv invar s \<and> arrives written failed (written t) sent s"
  note ghost = sticky_sink.ghost_reliable [OF sink(1), of "written t"]
  then have c: "char_sink (ghost_append (buffering_append app)) snd ?inv" by (simp add: char_sink_def)
  have "?inv (buffering_sink_init t buffer, [])"
    using sink(2) sticky_sink.buffering_init_arrives [OF sink(1), of t buffer]
    by (simp add: buffering_sink_inv_def buffering_sink_init_def)
  from char_sink.generate_response_written [OF c this args, of show_int]
    ghost_generate_response [OF args, of show_int "buffering_append app" "(buffering_sink_init t buffer, [])"]
  obtain q where "generate_response show_int (buffering_append app) r (buffering_sink_init t buffer) = Ok () (fst q)"
    "snd q = response_text show_int r args" "?inv q" by auto
  then show ?thesis by (cases q) auto
qed

text \<open>A \<open>buffering_sink\<close> in front of a sink of characters is one, and delivers what was generated when it is flushed.\<close>

lemma buffering_char_sink:
  "reliable_sink app written invar \<Longrightarrow>
   char_sink (buffering_append app) (buffering_written written) (buffering_sink_inv invar)"
  using reliable_sink.buffering_contract by (simp add: char_sink_def)

lemma buffering_init_written:
  "invar t \<Longrightarrow> buffering_sink_inv invar (buffering_sink_init t buffer) \<and>
   buffering_written written (buffering_sink_init t buffer) = written t"
  by (simp add: buffering_sink_inv_def buffering_sink_init_def buffering_written_def buffered_elements_def)

lemma buffered_requests_written:
  assumes "reliable_sink app written invar" "invar t"
  shows "\<exists>t'. buffering_flush app (fold (\<lambda>r t. generate_request (buffering_append app) t r) rs (buffering_sink_init t buffer)) = (None, t') \<and>
    written (m_destination t') = written t @ concat (map request_text rs)"
proof -
  note init = buffering_init_written [of invar t buffer written, OF assms(2)]
  note all = char_sink.generate_requests_written [OF buffering_char_sink [OF assms(1)] init [THEN conjunct1], of rs]
  from reliable_sink.buffering_flush_delivers [OF assms(1) all [THEN conjunct2]] all init show ?thesis by auto
qed

interpretation container_chars: char_sink container_append "\<lambda>xs. xs" "\<lambda>_. True"
  by unfold_locales

interpretation buffered_chars: char_sink "buffering_append container_append" "buffering_written (\<lambda>xs. xs)" "buffering_sink_inv (\<lambda>_. True)"
  by (rule buffering_char_sink [OF container.reliable_sink_axioms])

section \<open>Reading back\<close>

context char_source
begin

lemma get_plain_line:
  assumes "invar s" "pending s = l @ CR # LF # r" "CR \<notin> set l" "LF \<notin> set l"
  shows "\<exists>s'. get_line copy_next s = Some (Some l, s') \<and> pending s' = r \<and> invar s'"
  using get_line_eq [OF assms(1)] split_line_plain [OF assms(3,4), of r] assms(2) by auto

lemma read_arguments_generated:
  "invar s \<Longrightarrow> pending s = header_text args @ [CR, LF] @ r \<Longrightarrow>
   \<forall>(k, v) \<in> set args. free_of [CHR '':'', CR, LF] k \<and> free_of [CR, LF] v \<Longrightarrow>
   \<exists>s'. read_arguments copy_next s m = Some (Ok (Some (fold (\<lambda>(k, v). map_set k v) args m)) s') \<and>
     pending s' = r \<and> invar s'"
proof (induction args arbitrary: s m)
  case Nil
  with get_plain_line [of s "[]" r] show ?case
    by (auto simp: header_text_def read_arguments.simps [of _ s])
next
  case (Cons a args)
  obtain k v where a: "a = (k, v)" by fastforce
  with Cons.prems have k: "CHR '':'' \<notin> set k" "CR \<notin> set (k @ '': '' @ v)" "LF \<notin> set (k @ '': '' @ v)"
    by auto
  from Cons.prems(2) a have "pending s = (k @ '': '' @ v) @ CR # LF # (header_text args @ [CR, LF] @ r)"
    by (simp add: header_text_def)
  from get_plain_line [OF Cons.prems(1) this k(2,3)] obtain t where
    t: "get_line copy_next s = Some (Some (k @ '': '' @ v), t)"
      "pending t = header_text args @ [CR, LF] @ r" "invar t" by blast
  from Cons.IH [OF t(3,2), of "map_set k v m"] Cons.prems(3) obtain s' where
    "read_arguments copy_next t (map_set k v m) = Some (Ok (Some (fold (\<lambda>(k, v). map_set k v) args (map_set k v m))) s')"
    "pending s' = r" "invar s'" by auto
  with t(1) split_value_line_generated [OF k(1), of v] a show ?case
    by (auto simp: read_arguments.simps [of _ s])
qed

lemma parse_request_lines:
  assumes "invar s" "valid_lines r" "pending s = request_text r @ tail_text"
  shows "\<exists>s'. parse_request copy_next s =
      Some (Ok (Some (r\<lparr>req_arguments := fold (\<lambda>(k, v). map_set k v) (req_arguments r) []\<rparr>)) s') \<and>
    pending s' = tail_text \<and> invar s'"
proof -
  let ?line = "req_method r @ '' '' @ req_path r @ '' '' @ req_version r"
  from assms(3) have p: "pending s = ?line @ CR # LF # header_text (req_arguments r) @ [CR, LF] @ tail_text"
    by (simp add: request_text_def)
  from assms(2) have v: "CR \<notin> set ?line" "LF \<notin> set ?line" "CHR '' '' \<notin> set (req_method r)"
      "CHR '' '' \<notin> set (req_path r)" "\<forall>(k, v) \<in> set (req_arguments r). free_of [CHR '':'', CR, LF] k \<and> free_of [CR, LF] v"
    by (auto simp: valid_lines_def)
  from get_plain_line [OF assms(1) p v(1,2)] obtain t where
    t: "get_line copy_next s = Some (Some ?line, t)" "invar t"
      "pending t = header_text (req_arguments r) @ [CR, LF] @ tail_text" by blast
  have line: "parse_request_line ?line = Some (req_method r, req_path r, req_version r)"
    using v(3,4) by (simp add: parse_request_line_def)
  from read_arguments_generated [OF t(2,3) v(5), of "[]"]
  obtain s' where "read_arguments copy_next t [] =
        Some (Ok (Some (fold (\<lambda>(k, v). map_set k v) (req_arguments r) [])) s')"
      "pending s' = tail_text" "invar s'" by blast
  with t(1) line show ?thesis by (cases r) (simp add: parse_request_def)
qed

lemma parse_request_generated:
  assumes "invar s" "valid_request r" "pending s = request_text r @ tail_text"
  shows "\<exists>s'. parse_request copy_next s = Some (Ok (Some r) s') \<and> pending s' = tail_text \<and> invar s'"
  using parse_request_lines [OF assms(1) _ assms(3)] assms(2) fold_map_set_ordered [of "[]" "req_arguments r"]
  by (simp add: valid_request_def)

lemma parse_response_generated:
  assumes "invar s" "valid_response r" "valid_arguments args"
    and "free_of [CHR '' '', CR, LF] (show_int (resp_status r))"
    and "cast_unsigned (show_int (resp_status r)) = Some (nat (resp_status r mod 2 ^ 32))"
    and "pending s = response_text show_int r args @ tail_text"
  shows "\<exists>s'. parse_response cast_unsigned copy_next s = Some (Ok (Some (r\<lparr>resp_arguments := Some args\<rparr>)) s') \<and>
    pending s' = tail_text \<and> invar s'"
proof -
  let ?st = "show_int (resp_status r)"
  let ?line = "resp_version r @ '' '' @ ?st @ '' '' @ resp_status_text r"
  from assms(6) have p: "pending s = ?line @ CR # LF # header_text args @ [CR, LF] @ tail_text"
    by (simp add: response_text_def)
  from assms(2,4) have v: "CR \<notin> set ?line" "LF \<notin> set ?line" "CHR '' '' \<notin> set (resp_version r)"
      "CHR '' '' \<notin> set ?st"
    by (auto simp: valid_response_def)
  from get_plain_line [OF assms(1) p v(1,2)] obtain t where
    t: "get_line copy_next s = Some (Some ?line, t)" "invar t"
      "pending t = header_text args @ [CR, LF] @ tail_text" by blast
  have "unsigned_to_int (nat (resp_status r mod 2 ^ 32)) = resp_status r"
  proof (cases "resp_status r < 0")
    case True
    with assms(2) have "resp_status r mod 2 ^ 32 = resp_status r + 2 ^ 32"
      by (intro mod_pos_pos_trivial [of "resp_status r + 2 ^ 32" "2 ^ 32", simplified mod_add_self2])
        (auto simp: valid_response_def)
    with True assms(2) show ?thesis by (auto simp: unsigned_to_int_def valid_response_def)
  next
    case False
    with assms(2) show ?thesis by (auto simp: unsigned_to_int_def valid_response_def)
  qed
  then have line: "parse_status_line cast_unsigned ?line = Some (resp_version r, resp_status r, resp_status_text r)"
    using v(3,4) assms(5) by (simp add: parse_status_line_def)
  from read_arguments_generated [OF t(2,3), of "[]"] assms(3) fold_map_set_ordered [of "[]" args]
  obtain s' where "read_arguments copy_next t [] = Some (Ok (Some args) s')"
      "pending s' = tail_text" "invar s'" by (auto simp: valid_arguments_def)
  with t(1) line show ?thesis by (simp add: parse_response_def)
qed

text \<open>On every text the parsers over a source agree with the specification.\<close>

lemma read_arguments_agrees:
  "invar s \<Longrightarrow> agrees invar pending (read_arguments_string (pending s) args) (read_arguments copy_next s args)"
proof (induction "pending s" args arbitrary: s rule: read_arguments_string.induct)
  case (1 args s)
  from get_line_eq [OF 1(2)] obtain t where
    t: "invar t" and l: "case split_line (pending s) of
        None \<Rightarrow> get_line copy_next s = Some (None, t) \<and> pending t = []
      | Some (l, r) \<Rightarrow> get_line copy_next s = Some (Some l, t) \<and> pending t = r" by blast
  show ?case
  proof (cases "split_line (pending s)")
    case None
    with l t show ?thesis by (simp add: read_arguments.simps [of _ s] read_arguments_string.simps [of "pending s"])
  next
    case (Some lr)
    obtain l' r' where lr: "lr = (l', r')" by fastforce
    with Some l have s: "get_line copy_next s = Some (Some l', t)" "pending t = r'" by simp_all
    show ?thesis
    proof (cases "l' = []")
      case True
      with Some lr s t show ?thesis by (simp add: read_arguments.simps [of _ s] read_arguments_string.simps [of "pending s"])
    next
      case False
      have "agrees invar pending (read_arguments_string r' (map_set k v args)) (read_arguments copy_next t (map_set k v args))"
        if "split_value_line l' = Inr (k, v)" for k v
        using 1(1) [OF Some _ False that refl t] lr s(2) by simp
      with False Some lr s t show ?thesis
        by (cases "split_value_line l'")
           (auto simp: read_arguments.simps [of _ s] read_arguments_string.simps [of "pending s"])
    qed
  qed
qed

lemma parse_request_agrees:
  assumes "invar s"
  shows "agrees invar pending (parse_request_string (pending s)) (parse_request copy_next s)"
proof -
  from get_line_eq [OF assms] obtain t where
    t: "invar t" and l: "case split_line (pending s) of
        None \<Rightarrow> get_line copy_next s = Some (None, t) \<and> pending t = []
      | Some (l, r) \<Rightarrow> get_line copy_next s = Some (Some l, t) \<and> pending t = r" by blast
  from read_arguments_agrees [OF t, of "[]"] l t show ?thesis
    by (cases "read_arguments_string (pending t) []")
       (auto simp: parse_request_def parse_request_string_def split: option.splits)
qed

lemma parse_response_agrees:
  assumes "invar s"
  shows "agrees invar pending (parse_response_string cast_unsigned (pending s)) (parse_response cast_unsigned copy_next s)"
proof -
  from get_line_eq [OF assms] obtain t where
    t: "invar t" and l: "case split_line (pending s) of
        None \<Rightarrow> get_line copy_next s = Some (None, t) \<and> pending t = []
      | Some (l, r) \<Rightarrow> get_line copy_next s = Some (Some l, t) \<and> pending t = r" by blast
  from read_arguments_agrees [OF t, of "[]"] l t show ?thesis
    by (cases "read_arguments_string (pending t) []")
       (auto simp: parse_response_def parse_response_string_def split: option.splits)
qed

end

section \<open>Properties\<close>

definition example_request :: request where
  "example_request = \<lparr>req_method = ''GET'', req_path = ''/'', req_version = ''HTTP/1.0'',
     req_arguments = [(''Host'', ''a:80''), (''X'', [])]\<rparr>"

lemma valid_example_request: "valid_request example_request"
  by (simp add: valid_request_def valid_lines_def example_request_def less_list_code)

text \<open>
  C11: a request generated into any sink that does not fail is read back by \<open>parse_request\<close> from any
  source that delivers what the sink received, field by field and argument by argument, and the parser
  stops exactly behind the header, if the fields avoid the separators of the format and the arguments
  are a \<open>std::map\<close>.
\<close>

theorem request_round_trip:
  assumes "char_sink app written sink_inv" "element_source cn pending source_inv"
    and "sink_inv t" "written t = []" "source_inv s"
    and "valid_request r" "pending s = written (generate_request app t r) @ body"
  shows "\<exists>s'. parse_request cn s = Some (Ok (Some r) s') \<and> pending s' = body"
proof -
  from assms(2) have c: "char_source cn pending source_inv" by (simp add: char_source_def)
  from char_sink.generate_request_written [OF assms(1,3), of r] assms(4,7)
  have "pending s = request_text r @ body" by simp
  from char_source.parse_request_generated [OF c assms(5,6) this] show ?thesis by blast
qed

lemma request_round_trip_witness:
  "\<exists>s'. parse_request memory_copy_next (generate_request container_append [] example_request @ ''body'') =
     Some (Ok (Some example_request) s')"
  using request_round_trip [OF container_chars.char_sink_axioms memory.element_source_axioms _ _ _
      valid_example_request, where body = "''body''" and t = "[]"]
  by auto

text \<open>
  The same for responses.  About \<open>lexical_cast\<close> it is assumed that the decimal text of the status
  code contains no separator and that casting it to \<open>unsigned\<close> gives its value modulo \<open>2 ^ 32\<close>; every
  value of the \<open>int\<close> member survives, negative ones included.
\<close>

theorem response_round_trip:
  assumes "char_sink app written sink_inv" "element_source cn pending source_inv"
    and "sink_inv t" "written t = []" "source_inv s"
    and "valid_response r" "resp_arguments r = Some args" "valid_arguments args"
    and "free_of [CHR '' '', CR, LF] (show_int (resp_status r))"
    and "cast_unsigned (show_int (resp_status r)) = Some (nat (resp_status r mod 2 ^ 32))"
    and "generate_response show_int app r t = Ok () t'" "pending s = written t' @ body"
  shows "\<exists>s'. parse_response cast_unsigned cn s = Some (Ok (Some r) s') \<and> pending s' = body"
proof -
  from assms(2) have c: "char_source cn pending source_inv" by (simp add: char_source_def)
  from char_sink.generate_response_written [OF assms(1,3,7), of show_int] assms(4,11,12)
  have "pending s = response_text show_int r args @ body" by simp
  from char_source.parse_response_generated [where show_int = show_int and cast_unsigned = cast_unsigned,
      OF c assms(5,6,8,9,10) this] assms(7) show ?thesis by auto
qed

text \<open>Decimal texts, as far as the example needs them.\<close>

definition show_small :: "int \<Rightarrow> string" where
  "show_small n = (if n = 200 then ''200'' else ''0'')"

definition cast_small :: "string \<Rightarrow> nat option" where
  "cast_small str = (if str = ''200'' then Some 200 else if str = ''0'' then Some 0 else None)"

definition example_response :: response where
  "example_response = \<lparr>resp_version = ''HTTP/1.0'', resp_status = 200, resp_status_text = ''OK'',
     resp_arguments = Some [(''Connection'', ''close'')]\<rparr>"

lemma response_round_trip_witness:
  "\<exists>s'. parse_response cast_small memory_copy_next (response_text show_small example_response
      [(''Connection'', ''close'')] @ ''body'') = Some (Ok (Some example_response) s')"
proof -
  have v: "valid_response example_response" "resp_arguments example_response = Some [(''Connection'', ''close'')]"
      "valid_arguments [(''Connection'', ''close'')]"
      "free_of [CHR '' '', CR, LF] (show_small (resp_status example_response))"
      "cast_small (show_small (resp_status example_response)) = Some (nat (resp_status example_response mod 2 ^ 32))"
    by (simp_all add: valid_response_def example_response_def valid_arguments_def show_small_def cast_small_def)
  from container_chars.generate_response_written [OF _ v(2), where t = "[]" and show_int = show_small]
  have "generate_response show_small container_append example_response [] =
      Ok () (response_text show_small example_response [(''Connection'', ''close'')])" by simp
  from response_round_trip [where show_int = show_small and cast_unsigned = cast_small and body = "''body''",
      OF container_chars.char_sink_axioms memory.element_source_axioms _ _ _ v this]
  show ?thesis by auto
qed

text \<open>
  \<open>parse_request\<close> and its loop over the header lines return on every input, with a request, with
  \<open>none\<close> or, at a line without a colon or with nothing behind it, with the fault of
  \<open>split_value_line\<close>; they never throw.
\<close>

theorem parse_request_total:
  assumes "element_source cn pending invar" "invar s"
  shows "\<exists>r. parse_request cn s = Some r \<and> (\<forall>e s'. r \<noteq> Raise e s')"
proof -
  from assms(1) have "char_source cn pending invar" by (simp add: char_source_def)
  from char_source.parse_request_agrees [OF this assms(2)] show ?thesis
    by (cases "parse_request_string (pending s)") auto
qed

lemma parse_request_total_witness: "\<exists>r. parse_request memory_copy_next ''GET'' = Some r"
  using parse_request_total [OF memory.element_source_axioms, of "''GET''"] by auto

text \<open>
  A header line without a colon makes \<open>parse_request\<close> dereference an iterator outside the line,
  whatever follows.
\<close>

theorem parse_request_no_colon_fault:
  assumes "element_source cn pending invar" "invar s"
    and "pending s = ''GET / HTTP/1.0'' @ [CR, LF] @ line @ [CR, LF] @ body"
    and "line \<noteq> []" "free_of [CHR '':'', CR, LF] line"
  shows "parse_request cn s = Some (Fault Out_Of_Range)"
proof -
  from assms(1) have c: "char_source cn pending invar" by (simp add: char_source_def)
  from char_source.get_plain_line [OF c assms(2), of "''GET / HTTP/1.0''" "line @ [CR, LF] @ body"] assms(3)
  obtain t where t: "get_line cn s = Some (Some ''GET / HTTP/1.0'', t)"
      "pending t = line @ CR # LF # body" "invar t" by auto
  from char_source.get_plain_line [OF c t(3,2)] assms(5) obtain u where
    "get_line cn t = Some (Some line, u)" by auto
  with assms(4,5) have "read_arguments cn t [] = Some (Fault Out_Of_Range)"
    by (simp add: read_arguments.simps [of _ t] split_value_line_def)
  with t(1) show ?thesis by (simp add: parse_request_def parse_request_line_def)
qed

lemma parse_request_no_colon_fault_witness:
  "parse_request memory_copy_next (''GET / HTTP/1.0'' @ [CR, LF] @ ''Host'' @ [CR, LF]) =
     (Some (Fault Out_Of_Range) :: (string, unit, request option) outcome option)"
  using parse_request_no_colon_fault [OF memory.element_source_axioms, where line = "''Host''" and body = "[]"]
  by simp

text \<open>
  C32: both parsers depend on nothing but the text that the source has to deliver, however it cuts it
  into pieces: on every text they return, without an exception, with the result of the parser on
  strings, and leave exactly the text that this leaves.
\<close>

theorem parsers_refine_strings:
  assumes "element_source cn pending invar" "invar s"
  shows "(case parse_request_string (pending s) of
      Inl f \<Rightarrow> parse_request cn s = Some (Fault f)
    | Inr (r, remaining) \<Rightarrow> \<exists>s'. parse_request cn s = Some (Ok r s') \<and> pending s' = remaining \<and> invar s') \<and>
    (case parse_response_string cast_unsigned (pending s) of
      Inl f \<Rightarrow> parse_response cast_unsigned cn s = Some (Fault f)
    | Inr (r, remaining) \<Rightarrow> \<exists>s'. parse_response cast_unsigned cn s = Some (Ok r s') \<and> pending s' = remaining \<and> invar s')"
proof -
  from assms(1) have c: "char_source cn pending invar" by (simp add: char_source_def)
  from char_source.parse_request_agrees [OF c assms(2)] char_source.parse_response_agrees [OF c assms(2)]
  show ?thesis by (simp add: agrees_def)
qed

lemma parsers_refine_strings_witness:
  "\<exists>s'. parse_request memory_copy_next (''GET / 1'' @ [LF, LF] @ ''x'') =
     Some (Ok (Some \<lparr>req_method = ''GET'', req_path = ''/'', req_version = ''1'', req_arguments = []\<rparr>) s') \<and> s' = ''x''"
  using parsers_refine_strings [OF memory.element_source_axioms, where s = "''GET / 1'' @ [LF, LF] @ ''x''" and cast_unsigned = cast_small]
  by (simp add: parse_request_string_def read_arguments_string.simps parse_request_line_def)

end
