(* ===== verification/Request_Parser.thy ===== *)
theory Request_Parser
  imports Http
begin

text \<open>
  \<open>silicium/http/request_parser_sink.hpp\<close>: the incremental parser, a sink of characters that hands each
  complete request to its output sink.  The state machine is modelled transition by transition;
  \<open>parser_append\<close> is its loop over one chunk.  The proofs compare a chunk of any size with feeding its
  characters one at a time, and so one way of cutting a text into chunks with another.
\<close>

section \<open>The state machine\<close>

datatype parser_state = Method | Path | Version | Version_Lf | Key | Value_Space | Value | Value_Lf
  | End_Of_Headers_Lf

record 't parser =
  m_output :: 't
  m_result :: request
  m_state :: parser_state
  m_key :: string
  m_value :: string

definition empty_request :: request where
  "empty_request = \<lparr>req_method = [], req_path = [], req_version = [], req_arguments = []\<rparr>"

definition parser_init :: "'t \<Rightarrow> 't parser" where
  "parser_init output =
     \<lparr>m_output = output, m_result = empty_request, m_state = Method, m_key = [], m_value = []\<rparr>"

text \<open>
  One turn of the loop on a chunk that is not empty: the error the turn returns, if any, the new
  state and the rest of the chunk.
\<close>

fun parser_step :: "('t, request, 'x) append_function \<Rightarrow> 't parser \<Rightarrow> string \<Rightarrow>
    'x option \<times> 't parser \<times> string" where
  "parser_step app s data = (case m_state s of
      Method \<Rightarrow>
        (let s1 = s\<lparr>m_result := (m_result s)\<lparr>req_method :=
                     req_method (m_result s) @ before_first (CHR '' '') data\<rparr>\<rparr>
         in (case from_first (CHR '' '') data of
               [] \<Rightarrow> (None, s1, [])
             | _ # data1 \<Rightarrow> (None, s1\<lparr>m_state := Path\<rparr>, data1)))
    | Path \<Rightarrow>
        (let s1 = s\<lparr>m_result := (m_result s)\<lparr>req_path :=
                     req_path (m_result s) @ before_first (CHR '' '') data\<rparr>\<rparr>
         in (case from_first (CHR '' '') data of
               [] \<Rightarrow> (None, s1, [])
             | _ # data1 \<Rightarrow> (None, s1\<lparr>m_state := Version\<rparr>, data1)))
    | Version \<Rightarrow>
        (let s1 = s\<lparr>m_result := (m_result s)\<lparr>req_version :=
                     req_version (m_result s) @ before_first CR data\<rparr>\<rparr>
         in (case from_first CR data of
               [] \<Rightarrow> (None, s1, [])
             | _ # data1 \<Rightarrow> (None, s1\<lparr>m_state := Version_Lf\<rparr>, data1)))
    | Version_Lf \<Rightarrow> (None, s\<lparr>m_state := Key\<rparr>, if hd data = LF then tl data else data)
    | Key \<Rightarrow>
        (if hd data = CR
         then (case app (m_output s) [m_result s] of (error, out) \<Rightarrow>
           (error, s\<lparr>m_state := End_Of_Headers_Lf, m_output := out, m_result := empty_request\<rparr>, tl data))
         else (let s1 = s\<lparr>m_key := m_key s @ before_first (CHR '':'') data\<rparr>
               in (case from_first (CHR '':'') data of
                     [] \<Rightarrow> (None, s1, [])
                   | _ # data1 \<Rightarrow> (None, s1\<lparr>m_state := Value_Space\<rparr>, data1))))
    | Value_Space \<Rightarrow> (None, s\<lparr>m_state := Value\<rparr>, if hd data = CHR '' '' then tl data else data)
    | Value \<Rightarrow>
        (let s1 = s\<lparr>m_value := m_value s @ before_first CR data\<rparr>
         in (case from_first CR data of
               [] \<Rightarrow> (None, s1, [])
             | _ # data1 \<Rightarrow>
                 (None, s1\<lparr>m_result := (m_result s1)\<lparr>req_arguments :=
                            map_insert (m_key s1) (m_value s1) (req_arguments (m_result s1))\<rparr>,
                          m_key := [], m_value := [], m_state := Value_Lf\<rparr>, data1)))
    | Value_Lf \<Rightarrow> (None, s\<lparr>m_state := Key\<rparr>, if hd data = LF then tl data else data)
    | End_Of_Headers_Lf \<Rightarrow> (None, s\<lparr>m_state := Method\<rparr>, if hd data = LF then tl data else data))"

declare parser_step.simps [simp del]

text \<open>Each turn shortens the chunk or leaves one of the four optional-character states.\<close>

definition optional_state :: "parser_state \<Rightarrow> bool" where
  "optional_state st \<longleftrightarrow> st = Version_Lf \<or> st = Value_Space \<or> st = Value_Lf \<or> st = End_Of_Headers_Lf"

lemma from_first_Cons_length: "from_first c xs = y # ys \<Longrightarrow> Suc (length ys) \<le> length xs"
  by (metis length_Cons length_from_first)

lemma parser_step_decreases:
  assumes "parser_step app s data = (e, s', data')" "data \<noteq> []"
  shows "2 * length data' + (if optional_state (m_state s') then 1 else 0)
    < 2 * length data + (if optional_state (m_state s) then 1 else (0::nat))"
  using assms
  by (cases data; cases "m_state s")
     (auto simp: parser_step.simps optional_state_def Let_def
       split: list.splits prod.splits if_splits dest!: from_first_Cons_length)

function parser_append :: "('t, request, 'x) append_function \<Rightarrow> ('t parser, char, 'x) append_function" where
  "parser_append app s data =
     (if data = [] then (None, s)
      else (case parser_step app s data of
          (Some e, s1, data1) \<Rightarrow> (Some e, s1)
        | (None, s1, data1) \<Rightarrow> parser_append app s1 data1))"
  by pat_completeness auto
termination
  by (relation "measure (\<lambda>(app, s, data). 2 * length data + (if optional_state (m_state s) then 1 else 0))")
     (auto dest!: parser_step_decreases [OF sym] simp del: mult_Suc_right)

declare parser_append.simps [simp del]

lemma parser_append_Nil [simp]: "parser_append app s [] = (None, s)"
  by (simp add: parser_append.simps)

section \<open>Feeding one character at a time\<close>

definition feed :: "('t, request, 'x) append_function \<Rightarrow> char \<Rightarrow> 't parser \<Rightarrow> 't parser" where
  "feed app c s = snd (parser_append app s [c])"

text \<open>In a text that follows, a carriage return inside a header key.\<close>

fun cr_free_keys :: "('t, request, 'x) append_function \<Rightarrow> 't parser \<Rightarrow> string \<Rightarrow> bool" where
  "cr_free_keys app s [] = True"
| "cr_free_keys app s (c # cs) =
     (\<not> (m_state (feed app c s) = Key \<and> m_key (feed app c s) \<noteq> [] \<and> cs \<noteq> [] \<and> hd cs = CR) \<and>
      cr_free_keys app (feed app c s) cs)"

lemma cr_free_keys_append:
  "cr_free_keys app s (xs @ ys) \<Longrightarrow> cr_free_keys app s xs \<and> cr_free_keys app (fold (feed app) xs s) ys"
proof (induction xs arbitrary: s)
  case (Cons c xs)
  then show ?case by (cases xs) auto
qed simp

locale request_sink = reliable_sink append written invar
  for append :: "('t, request, 'x) append_function" and written invar
begin

lemma parser_step_no_error:
  assumes "invar (m_output s)"
  shows "fst (parser_step append s data) = None \<and> invar (m_output (fst (snd (parser_step append s data))))"
  using assms append_never_fails [of "m_output s" "[m_result s]"] append_invar [of "m_output s" "[m_result s]"]
  by (cases "m_state s")
     (auto simp: parser_step.simps Let_def split: list.splits prod.splits)

lemma parser_append_no_error:
  "invar (m_output s) \<Longrightarrow> fst (parser_append append s data) = None \<and> invar (m_output (snd (parser_append append s data)))"
proof (induction "2 * length data + (if optional_state (m_state s) then 1 else 0)"
    arbitrary: s data rule: less_induct)
  case less
  show ?case
  proof (cases "data = []")
    case True
    with less.prems show ?thesis by simp
  next
    case False
    obtain e s1 data1 where st: "parser_step append s data = (e, s1, data1)" by (metis prod_cases3)
    with parser_step_no_error [OF less.prems, of data] have "e = None" "invar (m_output s1)" by simp_all
    with less.hyps [OF parser_step_decreases [OF st False]] st False show ?thesis
      by (simp add: parser_append.simps [of _ s data])
  qed
qed

lemma feed_inv: "invar (m_output s) \<Longrightarrow> invar (m_output (feed append c s))"
  using parser_append_no_error by (simp add: feed_def)

lemma fold_feed_inv: "invar (m_output s) \<Longrightarrow> invar (m_output (fold (feed append) cs s))"
  by (induction cs arbitrary: s) (simp_all add: feed_inv)

lemma parser_append_step:
  assumes "invar (m_output s)" "parser_step append s data = (e, s1, data1)" "data \<noteq> []"
  shows "parser_append append s data = parser_append append s1 data1"
proof -
  from parser_step_no_error [OF assms(1), of data] assms(2) have "e = None" by simp
  with assms(2,3) show ?thesis by (simp add: parser_append.simps [of _ s data])
qed

text \<open>A turn in one of the five other states takes the first character alone or with what follows.\<close>

lemma parser_step_Cons:
  assumes "\<not> optional_state (m_state s)"
    and "\<not> (m_state s = Key \<and> c \<noteq> CR \<and> c \<noteq> CHR '':'' \<and> hd cs = CR)" "cs \<noteq> []"
  shows "\<exists>s1. parser_step append s [c] = (fst (parser_step append s [c]), s1, []) \<and>
    (parser_step append s (c # cs) = (fst (parser_step append s [c]), s1, cs) \<or>
     fst (parser_step append s [c]) = None \<and> parser_step append s (c # cs) = parser_step append s1 cs)"
  using assms
  by (cases "m_state s") (auto simp: parser_step.simps optional_state_def Let_def split: list.splits prod.splits)

lemma parser_append_Cons_plain:
  assumes "invar (m_output s)" "\<not> optional_state (m_state s)"
    and "\<not> (m_state s = Key \<and> c \<noteq> CR \<and> c \<noteq> CHR '':'' \<and> cs \<noteq> [] \<and> hd cs = CR)"
  shows "parser_append append s (c # cs) = parser_append append (feed append c s) cs"
proof (cases "cs = []")
  case True
  with parser_append_no_error [OF assms(1), of "[c]"] show ?thesis
    by (simp add: feed_def prod_eq_iff)
next
  case False
  from parser_step_Cons [OF assms(2) _ False, of c] assms(3) False obtain s1 where
    s1: "parser_step append s [c] = (fst (parser_step append s [c]), s1, [])"
      "parser_step append s (c # cs) = (fst (parser_step append s [c]), s1, cs) \<or>
       parser_step append s (c # cs) = parser_step append s1 cs" by blast
  from parser_append_step [OF assms(1) s1(1)] have f: "feed append c s = s1" by (simp add: feed_def)
  from s1(2) show ?thesis
  proof
    assume "parser_step append s (c # cs) = (fst (parser_step append s [c]), s1, cs)"
    from parser_append_step [OF assms(1) this] f show ?thesis by simp
  next
    assume a: "parser_step append s (c # cs) = parser_step append s1 cs"
    with False show ?thesis
      unfolding f by (simp add: parser_append.simps [of _ s "c # cs"] parser_append.simps [of _ s1 cs])
  qed
qed

end

context request_sink
begin

lemma feed_key:
  "invar (m_output s) \<Longrightarrow> m_state s = Key \<Longrightarrow> c \<noteq> CR \<Longrightarrow> c \<noteq> CHR '':'' \<Longrightarrow>
   feed append c s = s\<lparr>m_key := m_key s @ [c]\<rparr>"
  by (simp add: feed_def parser_append.simps [of _ s] parser_step.simps Let_def)

text \<open>In the four states where a character is optional, it is taken or left to the next state.\<close>

lemma parser_step_optional:
  assumes "optional_state (m_state s)"
  shows "\<exists>s1. \<not> optional_state (m_state s1) \<and> m_output s1 = m_output s \<and>
    ((\<forall>ds. parser_step append s (c # ds) = (None, s1, ds)) \<or>
     (\<forall>ds. parser_step append s (c # ds) = (None, s1, c # ds)))"
  using assms
  by (intro exI [of _ "s\<lparr>m_state := (case m_state s of Value_Space \<Rightarrow> Value | End_Of_Headers_Lf \<Rightarrow> Method | _ \<Rightarrow> Key)\<rparr>"];
      cases "m_state s") (auto simp: parser_step.simps optional_state_def)

lemma parser_append_Cons:
  assumes "invar (m_output s)"
    and "\<not> (m_state (feed append c s) = Key \<and> m_key (feed append c s) \<noteq> [] \<and> cs \<noteq> [] \<and> hd cs = CR)"
  shows "parser_append append s (c # cs) = parser_append append (feed append c s) cs"
proof (cases "optional_state (m_state s)")
  case False
  show ?thesis
  proof (rule parser_append_Cons_plain [OF assms(1) False])
    show "\<not> (m_state s = Key \<and> c \<noteq> CR \<and> c \<noteq> CHR '':'' \<and> cs \<noteq> [] \<and> hd cs = CR)"
    proof
      assume k: "m_state s = Key \<and> c \<noteq> CR \<and> c \<noteq> CHR '':'' \<and> cs \<noteq> [] \<and> hd cs = CR"
      then have "feed append c s = s\<lparr>m_key := m_key s @ [c]\<rparr>" by (intro feed_key assms(1)) auto
      with assms(2) k show False by simp
    qed
  qed
next
  case True
  from parser_step_optional [OF True, of c] obtain s1 where
    s1: "\<not> optional_state (m_state s1)" "m_output s1 = m_output s"
    and st: "(\<forall>ds. parser_step append s (c # ds) = (None, s1, ds)) \<or>
     (\<forall>ds. parser_step append s (c # ds) = (None, s1, c # ds))" by blast
  from st show ?thesis
  proof
    assume a: "\<forall>ds. parser_step append s (c # ds) = (None, s1, ds)"
    with parser_append_step [OF assms(1), of "c # cs" None s1 cs]
      parser_append_step [OF assms(1), of "[c]" None s1 "[]"]
    show ?thesis by (simp add: feed_def)
  next
    assume "\<forall>ds. parser_step append s (c # ds) = (None, s1, c # ds)"
    then have a: "parser_append append s (c # ds) = parser_append append s1 (c # ds)" for ds
      using parser_append_step [OF assms(1), of "c # ds" None s1 "c # ds"] by simp
    then have f: "feed append c s = feed append c s1" by (simp add: feed_def)
    from assms(1) s1(2) have i: "invar (m_output s1)" by simp
    have "\<not> (m_state s1 = Key \<and> c \<noteq> CR \<and> c \<noteq> CHR '':'' \<and> cs \<noteq> [] \<and> hd cs = CR)"
    proof
      assume k: "m_state s1 = Key \<and> c \<noteq> CR \<and> c \<noteq> CHR '':'' \<and> cs \<noteq> [] \<and> hd cs = CR"
      then have "feed append c s1 = s1\<lparr>m_key := m_key s1 @ [c]\<rparr>" by (intro feed_key i) auto
      with assms(2) k f show False by simp
    qed
    from parser_append_Cons_plain [OF i s1(1) this] show ?thesis unfolding a f .
  qed
qed

lemma parser_append_feed:
  "invar (m_output s) \<Longrightarrow> cr_free_keys append s data \<Longrightarrow>
   parser_append append s data = (None, fold (feed append) data s)"
proof (induction data arbitrary: s)
  case Nil
  then show ?case by simp
next
  case (Cons c cs)
  with parser_append_Cons [OF Cons.prems(1), of c cs] feed_inv [OF Cons.prems(1)] show ?case by simp
qed

lemma parser_chunks_feed:
  "invar (m_output s) \<Longrightarrow> cr_free_keys append s (concat xss) \<Longrightarrow>
   fold (\<lambda>xs s. snd (parser_append append s xs)) xss s = fold (feed append) (concat xss) s"
proof (induction xss arbitrary: s)
  case Nil
  then show ?case by simp
next
  case (Cons xs xss)
  from Cons.prems(2) have "cr_free_keys append s xs" "cr_free_keys append (fold (feed append) xs s) (concat xss)"
    using cr_free_keys_append [of append s xs "concat xss"] by simp_all
  with parser_append_feed [OF Cons.prems(1)] Cons.IH [OF fold_feed_inv [OF Cons.prems(1)]] show ?case by simp
qed

text \<open>Feeding the parts of a request.\<close>

lemma feed_simps:
  assumes "invar (m_output s)"
  shows "m_state s = Method \<Longrightarrow> feed append c s =
      (if c = CHR '' '' then s\<lparr>m_state := Path\<rparr>
       else s\<lparr>m_result := (m_result s)\<lparr>req_method := req_method (m_result s) @ [c]\<rparr>\<rparr>)"
    and "m_state s = Path \<Longrightarrow> feed append c s =
      (if c = CHR '' '' then s\<lparr>m_state := Version\<rparr>
       else s\<lparr>m_result := (m_result s)\<lparr>req_path := req_path (m_result s) @ [c]\<rparr>\<rparr>)"
    and "m_state s = Version \<Longrightarrow> feed append c s =
      (if c = CR then s\<lparr>m_state := Version_Lf\<rparr>
       else s\<lparr>m_result := (m_result s)\<lparr>req_version := req_version (m_result s) @ [c]\<rparr>\<rparr>)"
    and "m_state s = Version_Lf \<Longrightarrow> feed append LF s = s\<lparr>m_state := Key\<rparr>"
    and "m_state s = Key \<Longrightarrow> feed append (CHR '':'') s = s\<lparr>m_state := Value_Space\<rparr>"
    and "m_state s = Key \<Longrightarrow> feed append CR s =
      s\<lparr>m_state := End_Of_Headers_Lf, m_output := snd (append (m_output s) [m_result s]), m_result := empty_request\<rparr>"
    and "m_state s = Value_Space \<Longrightarrow> feed append (CHR '' '') s = s\<lparr>m_state := Value\<rparr>"
    and "m_state s = Value \<Longrightarrow> c \<noteq> CR \<Longrightarrow> feed append c s = s\<lparr>m_value := m_value s @ [c]\<rparr>"
    and "m_state s = Value \<Longrightarrow> feed append CR s =
      s\<lparr>m_result := (m_result s)\<lparr>req_arguments := map_insert (m_key s) (m_value s) (req_arguments (m_result s))\<rparr>,
        m_key := [], m_value := [], m_state := Value_Lf\<rparr>"
    and "m_state s = Value_Lf \<Longrightarrow> feed append LF s = s\<lparr>m_state := Key\<rparr>"
    and "m_state s = End_Of_Headers_Lf \<Longrightarrow> feed append LF s = s\<lparr>m_state := Method\<rparr>"
  using append_never_fails [OF assms, of "[m_result s]"]
  by (auto simp: feed_def parser_append.simps [of _ s] parser_step.simps Let_def split: prod.splits)

end

section \<open>A complete request\<close>

text \<open>The characters \<open>xs\<close> lead from \<open>s\<close> to \<open>t\<close>, with no carriage return inside a key.\<close>

definition runs_to ::
    "('t, request, 'x) append_function \<Rightarrow> 't parser \<Rightarrow> string \<Rightarrow> 't parser \<Rightarrow> bool" where
  "runs_to app s xs t \<longleftrightarrow> fold (feed app) xs s = t \<and> cr_free_keys app s xs"

lemma runs_to_Nil: "runs_to app s [] s"
  by (simp add: runs_to_def)

lemma runs_to_append:
  assumes "runs_to app s xs t" "runs_to app t ys u"
    and "m_state t = Key \<and> m_key t \<noteq> [] \<longrightarrow> ys \<noteq> [] \<longrightarrow> hd ys \<noteq> CR"
  shows "runs_to app s (xs @ ys) u"
  using assms
proof (induction xs arbitrary: s)
  case Nil
  then show ?case by (simp add: runs_to_def)
next
  case (Cons c xs)
  from Cons.prems(1) have "runs_to app (feed app c s) xs t" by (simp add: runs_to_def)
  with Cons.IH Cons.prems have IH: "runs_to app (feed app c s) (xs @ ys) u" by blast
  from Cons.prems IH show ?case by (cases xs) (auto simp: runs_to_def)
qed

lemma runs_to_single: "feed app c s = t \<Longrightarrow> runs_to app s [c] t"
  by (simp add: runs_to_def)

lemma runs_to_Cons:
  "feed app c s = s1 \<Longrightarrow> runs_to app s1 xs t \<Longrightarrow>
   (m_state s1 = Key \<and> m_key s1 \<noteq> [] \<longrightarrow> xs \<noteq> [] \<longrightarrow> hd xs \<noteq> CR) \<Longrightarrow> runs_to app s (c # xs) t"
  using runs_to_append [of app s "[c]" s1 xs t] by (simp add: runs_to_single)

context request_sink
begin

lemma runs_method:
  "invar (m_output s) \<Longrightarrow> m_state s = Method \<Longrightarrow> CHR '' '' \<notin> set xs \<Longrightarrow>
   runs_to append s xs (s\<lparr>m_result := (m_result s)\<lparr>req_method := req_method (m_result s) @ xs\<rparr>\<rparr>)"
proof (induction xs arbitrary: s)
  case (Cons c xs)
  let ?t = "s\<lparr>m_result := (m_result s)\<lparr>req_method := req_method (m_result s) @ [c]\<rparr>\<rparr>"
  from Cons.prems feed_simps(1) [OF Cons.prems(1,2), of c] have f: "feed append c s = ?t" by auto
  from Cons.IH [of ?t] Cons.prems have "runs_to append ?t xs (s\<lparr>m_result := (m_result s)\<lparr>req_method := req_method (m_result s) @ (c # xs)\<rparr>\<rparr>)" by simp
  from runs_to_Cons [OF f this] Cons.prems show ?case by (cases xs) auto
qed (simp add: runs_to_Nil)

lemma runs_path:
  "invar (m_output s) \<Longrightarrow> m_state s = Path \<Longrightarrow> CHR '' '' \<notin> set xs \<Longrightarrow>
   runs_to append s xs (s\<lparr>m_result := (m_result s)\<lparr>req_path := req_path (m_result s) @ xs\<rparr>\<rparr>)"
proof (induction xs arbitrary: s)
  case (Cons c xs)
  let ?t = "s\<lparr>m_result := (m_result s)\<lparr>req_path := req_path (m_result s) @ [c]\<rparr>\<rparr>"
  from Cons.prems feed_simps(2) [OF Cons.prems(1,2), of c] have f: "feed append c s = ?t" by auto
  from Cons.IH [of ?t] Cons.prems have "runs_to append ?t xs (s\<lparr>m_result := (m_result s)\<lparr>req_path := req_path (m_result s) @ (c # xs)\<rparr>\<rparr>)" by simp
  from runs_to_Cons [OF f this] Cons.prems show ?case by (cases xs) auto
qed (simp add: runs_to_Nil)

lemma runs_version:
  "invar (m_output s) \<Longrightarrow> m_state s = Version \<Longrightarrow> CR \<notin> set xs \<Longrightarrow>
   runs_to append s xs (s\<lparr>m_result := (m_result s)\<lparr>req_version := req_version (m_result s) @ xs\<rparr>\<rparr>)"
proof (induction xs arbitrary: s)
  case (Cons c xs)
  let ?t = "s\<lparr>m_result := (m_result s)\<lparr>req_version := req_version (m_result s) @ [c]\<rparr>\<rparr>"
  from Cons.prems feed_simps(3) [OF Cons.prems(1,2), of c] have f: "feed append c s = ?t" by auto
  from Cons.IH [of ?t] Cons.prems have "runs_to append ?t xs (s\<lparr>m_result := (m_result s)\<lparr>req_version := req_version (m_result s) @ (c # xs)\<rparr>\<rparr>)" by simp
  from runs_to_Cons [OF f this] Cons.prems show ?case by (cases xs) auto
qed (simp add: runs_to_Nil)

lemma runs_key:
  "invar (m_output s) \<Longrightarrow> m_state s = Key \<Longrightarrow> CR \<notin> set xs \<Longrightarrow> CHR '':'' \<notin> set xs \<Longrightarrow>
   runs_to append s xs (s\<lparr>m_key := m_key s @ xs\<rparr>)"
proof (induction xs arbitrary: s)
  case (Cons c xs)
  let ?t = "s\<lparr>m_key := m_key s @ [c]\<rparr>"
  from Cons.prems feed_key [OF Cons.prems(1,2), of c] have f: "feed append c s = ?t" by auto
  from Cons.IH [of ?t] Cons.prems have "runs_to append ?t xs (s\<lparr>m_key := m_key s @ (c # xs)\<rparr>)" by simp
  from runs_to_Cons [OF f this] Cons.prems show ?case by (cases xs) auto
qed (simp add: runs_to_Nil)

lemma runs_value:
  "invar (m_output s) \<Longrightarrow> m_state s = Value \<Longrightarrow> CR \<notin> set xs \<Longrightarrow>
   runs_to append s xs (s\<lparr>m_value := m_value s @ xs\<rparr>)"
proof (induction xs arbitrary: s)
  case (Cons c xs)
  let ?t = "s\<lparr>m_value := m_value s @ [c]\<rparr>"
  from Cons.prems feed_simps(8) [OF Cons.prems(1,2), of c] have f: "feed append c s = ?t" by auto
  from Cons.IH [of ?t] Cons.prems have "runs_to append ?t xs (s\<lparr>m_value := m_value s @ (c # xs)\<rparr>)" by simp
  from runs_to_Cons [OF f this] Cons.prems show ?case by (cases xs) auto
qed (simp add: runs_to_Nil)

end

context request_sink
begin

lemma runs_header:
  assumes "invar (m_output s)" "m_state s = Key" "m_key s = []" "m_value s = []"
    and "free_of [CHR '':'', CR, LF] k" "free_of [CR, LF] v"
  shows "runs_to append s (k @ '': '' @ v @ [CR, LF])
    (s\<lparr>m_result := (m_result s)\<lparr>req_arguments := map_insert k v (req_arguments (m_result s))\<rparr>\<rparr>)"
proof -
  let ?s1 = "s\<lparr>m_key := k\<rparr>"
  let ?s2 = "?s1\<lparr>m_state := Value\<rparr>" and ?s3 = "?s1\<lparr>m_state := Value, m_value := v\<rparr>"
  let ?s4 = "s\<lparr>m_result := (m_result s)\<lparr>req_arguments := map_insert k v (req_arguments (m_result s))\<rparr>\<rparr>"
  have 1: "runs_to append s k ?s1" using runs_key [of s k] assms by simp
  have 2: "runs_to append ?s1 '': '' ?s2"
    using feed_simps(5) [of ?s1] feed_simps(7) [of "?s1\<lparr>m_state := Value_Space\<rparr>"] assms
    by (intro runs_to_Cons [where ?s1.0 = "?s1\<lparr>m_state := Value_Space\<rparr>"] runs_to_single) simp_all
  have 3: "runs_to append ?s2 v ?s3" using runs_value [of ?s2 v] assms by simp
  have 4: "runs_to append ?s3 [CR, LF] ?s4"
  proof (rule runs_to_Cons)
    show "feed append CR ?s3 = ?s4\<lparr>m_state := Value_Lf\<rparr>"
      by (subst feed_simps(9); (intro parser.equality)?; simp add: assms)
    show "runs_to append (?s4\<lparr>m_state := Value_Lf\<rparr>) [LF] ?s4"
    proof (rule runs_to_single)
      have "feed append LF (?s4\<lparr>m_state := Value_Lf\<rparr>) = ?s4\<lparr>m_state := Key\<rparr>"
        using feed_simps(10) [of "?s4\<lparr>m_state := Value_Lf\<rparr>"] assms(1) by simp
      also have "\<dots> = ?s4" using assms(2) by (intro parser.equality) simp_all
      finally show "feed append LF (?s4\<lparr>m_state := Value_Lf\<rparr>) = ?s4" .
    qed
  qed simp
  from runs_to_append [OF 3 4] have "runs_to append ?s2 (v @ [CR, LF]) ?s4" by simp
  from runs_to_append [OF 2 this] have "runs_to append ?s1 ('': '' @ v @ [CR, LF]) ?s4" by simp
  from runs_to_append [OF 1 this] show ?thesis by simp
qed

lemma runs_header_text:
  "invar (m_output s) \<Longrightarrow> m_state s = Key \<Longrightarrow> m_key s = [] \<Longrightarrow> m_value s = [] \<Longrightarrow>
   \<forall>(k, v) \<in> set args. free_of [CHR '':'', CR, LF] k \<and> free_of [CR, LF] v \<Longrightarrow>
   runs_to append s (header_text args)
     (s\<lparr>m_result := (m_result s)\<lparr>req_arguments :=
          fold (\<lambda>(k, v). map_insert k v) args (req_arguments (m_result s))\<rparr>\<rparr>)"
proof (induction args arbitrary: s)
  case Nil
  then show ?case by (simp add: header_text_def runs_to_Nil)
next
  case (Cons a args)
  obtain k v where a: "a = (k, v)" by fastforce
  let ?t = "s\<lparr>m_result := (m_result s)\<lparr>req_arguments := map_insert k v (req_arguments (m_result s))\<rparr>\<rparr>"
  from Cons.prems a have h: "runs_to append s (k @ '': '' @ v @ [CR, LF]) ?t" by (intro runs_header) auto
  from Cons.IH [of ?t] Cons.prems have "runs_to append ?t (header_text args)
      (?t\<lparr>m_result := (m_result ?t)\<lparr>req_arguments :=
          fold (\<lambda>(k, v). map_insert k v) args (req_arguments (m_result ?t))\<rparr>\<rparr>)" by simp
  from runs_to_append [OF h this] Cons.prems a show ?case by (simp add: header_text_def)
qed

text \<open>The three fields of the first line, each followed by what ends it.\<close>

lemma runs_request_line:
  assumes "invar (m_output s)" "m_state s = Method" "m_key s = []" "m_value s = []" "m_result s = empty_request"
    and v: "CHR '' '' \<notin> set verb" "CHR '' '' \<notin> set path" "CR \<notin> set version"
  shows "runs_to append s ((verb @ '' '') @ (path @ '' '') @ version @ [CR, LF])
    (s\<lparr>m_result := \<lparr>req_method = verb, req_path = path, req_version = version, req_arguments = []\<rparr>, m_state := Key\<rparr>)"
proof -
  let ?r1 = "\<lparr>req_method = verb, req_path = [], req_version = [], req_arguments = []\<rparr>"
  let ?r2 = "?r1\<lparr>req_path := path\<rparr>" and ?r3 = "?r1\<lparr>req_path := path, req_version := version\<rparr>"
  let ?s1 = "s\<lparr>m_result := ?r1, m_state := Path\<rparr>" and ?s2 = "s\<lparr>m_result := ?r2, m_state := Version\<rparr>"
  let ?s3 = "s\<lparr>m_result := ?r3, m_state := Key\<rparr>"
  have "runs_to append s verb (s\<lparr>m_result := ?r1\<rparr>)"
    using runs_method [of s verb] assms by (simp add: empty_request_def)
  moreover have "runs_to append (s\<lparr>m_result := ?r1\<rparr>) '' '' ?s1"
    using feed_simps(1) [of "s\<lparr>m_result := ?r1\<rparr>" "CHR '' ''"] assms by (intro runs_to_single) simp
  ultimately have 1: "runs_to append s (verb @ '' '') ?s1"
    by (rule runs_to_append) simp
  have "runs_to append ?s1 path (?s1\<lparr>m_result := ?r2\<rparr>)"
    using runs_path [of ?s1 path] assms v by simp
  moreover have "runs_to append (?s1\<lparr>m_result := ?r2\<rparr>) '' '' ?s2"
    using feed_simps(2) [of "?s1\<lparr>m_result := ?r2\<rparr>" "CHR '' ''"] assms by (intro runs_to_single) simp
  ultimately have 2: "runs_to append ?s1 (path @ '' '') ?s2"
    by (rule runs_to_append) simp
  have "runs_to append ?s2 version (?s2\<lparr>m_result := ?r3\<rparr>)"
    using runs_version [of ?s2 version] assms v by simp
  moreover have "runs_to append (?s2\<lparr>m_result := ?r3\<rparr>) [CR, LF] ?s3"
    using feed_simps(3) [of "?s2\<lparr>m_result := ?r3\<rparr>" CR]
      feed_simps(4) [of "?s3\<lparr>m_state := Version_Lf\<rparr>"] assms
    by (intro runs_to_Cons [where ?s1.0 = "?s3\<lparr>m_state := Version_Lf\<rparr>"] runs_to_single) simp_all
  ultimately have 3: "runs_to append ?s2 (version @ [CR, LF]) ?s3"
    by (rule runs_to_append) simp
  from 2 3 have "runs_to append ?s1 ((path @ '' '') @ version @ [CR, LF]) ?s3" by (rule runs_to_append) simp
  from runs_to_append [OF 1 this] show ?thesis by simp
qed

text \<open>The empty line hands the request to the output.\<close>

lemma runs_end_of_headers:
  assumes "invar (m_output s)" "m_state s = Key" "m_key s = []" "m_value s = []"
  shows "runs_to append s [CR, LF] (s\<lparr>m_output := snd (append (m_output s) [m_result s]), m_result := empty_request, m_state := Method\<rparr>)"
proof (rule runs_to_Cons)
  let ?s = "s\<lparr>m_output := snd (append (m_output s) [m_result s]), m_result := empty_request, m_state := Method\<rparr>"
  show "feed append CR s = ?s\<lparr>m_state := End_Of_Headers_Lf\<rparr>"
    by (subst feed_simps(6); (intro parser.equality)?; simp add: assms)
  have "feed append LF (?s\<lparr>m_state := End_Of_Headers_Lf\<rparr>) = ?s"
    using feed_simps(11) [of "?s\<lparr>m_state := End_Of_Headers_Lf\<rparr>"] append_invar [OF assms(1), of "[m_result s]"] by simp
  then show "runs_to append (?s\<lparr>m_state := End_Of_Headers_Lf\<rparr>) [LF] ?s" by (rule runs_to_single)
qed simp

lemma runs_request:
  assumes "invar (m_output s)" "m_state s = Method" "m_key s = []" "m_value s = []"
    and "m_result s = empty_request" "valid_lines r"
  shows "runs_to append s (request_text r) (s\<lparr>m_output := snd (append (m_output s)
    [r\<lparr>req_arguments := fold (\<lambda>(k, v). map_insert k v) (req_arguments r) []\<rparr>])\<rparr>)"
proof -
  let ?r = "r\<lparr>req_arguments := fold (\<lambda>(k, v). map_insert k v) (req_arguments r) []\<rparr>"
  let ?r3 = "\<lparr>req_method = req_method r, req_path = req_path r, req_version = req_version r, req_arguments = []\<rparr>"
  let ?s3 = "s\<lparr>m_result := ?r3, m_state := Key\<rparr>" and ?s4 = "s\<lparr>m_result := ?r, m_state := Key\<rparr>"
  let ?s5 = "s\<lparr>m_output := snd (append (m_output s) [?r])\<rparr>"
  from assms(6) have v: "CHR '' '' \<notin> set (req_method r)" "CHR '' '' \<notin> set (req_path r)"
      "CR \<notin> set (req_version r)"
      "\<forall>(k, v) \<in> set (req_arguments r). free_of [CHR '':'', CR, LF] k \<and> free_of [CR, LF] v"
    by (auto simp: valid_lines_def)
  note line = runs_request_line [OF assms(1-5) v(1-3)]
  have s4: "?s3\<lparr>m_result := (m_result ?s3)\<lparr>req_arguments :=
      fold (\<lambda>(k, v). map_insert k v) (req_arguments r) (req_arguments (m_result ?s3))\<rparr>\<rparr> = ?s4"
    by (cases r) simp
  have headers: "runs_to append ?s3 (header_text (req_arguments r)) ?s4"
    using runs_header_text [OF _ _ _ _ v(4), of ?s3] assms(1,3,4) unfolding s4 by simp
  have s5: "?s4\<lparr>m_output := snd (append (m_output ?s4) [m_result ?s4]), m_result := empty_request, m_state := Method\<rparr> = ?s5"
    using assms by (intro parser.equality) simp_all
  have "runs_to append ?s4 [CR, LF] ?s5"
    using runs_end_of_headers [of ?s4] assms unfolding s5 by simp
  with headers have "runs_to append ?s3 (header_text (req_arguments r) @ [CR, LF]) ?s5"
    by (rule runs_to_append) (simp add: assms(3))
  with line have "runs_to append s (((req_method r @ '' '') @ (req_path r @ '' '') @ req_version r @ [CR, LF]) @
      header_text (req_arguments r) @ [CR, LF]) ?s5" by (rule runs_to_append) (simp add: assms(3))
  then show ?thesis by (simp add: request_text_def)
qed

end

definition feed_chunks :: "('t, request, 'x) append_function \<Rightarrow> string list \<Rightarrow> 't parser \<Rightarrow> 't parser" where
  "feed_chunks app chunks s = fold (\<lambda>xs s. snd (parser_append app s xs)) chunks s"

context request_sink
begin

lemma runs_requests:
  "invar (m_output s) \<Longrightarrow> m_state s = Method \<Longrightarrow> m_key s = [] \<Longrightarrow> m_value s = [] \<Longrightarrow>
   m_result s = empty_request \<Longrightarrow> \<forall>r \<in> set rs. valid_lines r \<Longrightarrow>
   \<exists>out. runs_to append s (concat (map request_text rs)) (s\<lparr>m_output := out\<rparr>) \<and> invar out \<and>
     written out = written (m_output s) @
       map (\<lambda>r. r\<lparr>req_arguments := fold (\<lambda>(k, v). map_insert k v) (req_arguments r) []\<rparr>) rs"
proof (induction rs arbitrary: s)
  case Nil
  then show ?case by (intro exI [of _ "m_output s"]) (simp add: runs_to_Nil)
next
  case (Cons r rs)
  let ?r = "r\<lparr>req_arguments := fold (\<lambda>(k, v). map_insert k v) (req_arguments r) []\<rparr>"
  let ?t = "s\<lparr>m_output := snd (append (m_output s) [?r])\<rparr>"
  from Cons.prems have r: "runs_to append s (request_text r) ?t" by (intro runs_request) auto
  from append_invar [OF Cons.prems(1)] append_written [OF Cons.prems(1), of "[?r]"] have
    t: "invar (m_output ?t)" "written (m_output ?t) = written (m_output s) @ [?r]" by simp_all
  from Cons.IH [OF t(1)] Cons.prems obtain out where
    o: "runs_to append ?t (concat (map request_text rs)) (?t\<lparr>m_output := out\<rparr>)" "invar out"
      "written out = written (m_output ?t) @
        map (\<lambda>r. r\<lparr>req_arguments := fold (\<lambda>(k, v). map_insert k v) (req_arguments r) []\<rparr>) rs" by auto
  from runs_to_append [OF r o(1)] Cons.prems(3) o(2,3) t(2) show ?case
    by (intro exI [of _ out]) simp
qed

lemma feed_chunks_requests:
  assumes "invar out" "\<forall>r \<in> set rs. valid_lines r" "concat chunks = concat (map request_text rs)"
  shows "\<exists>out'. feed_chunks append chunks (parser_init out) = parser_init out' \<and> invar out' \<and>
    written out' = written out @
      map (\<lambda>r. r\<lparr>req_arguments := fold (\<lambda>(k, v). map_insert k v) (req_arguments r) []\<rparr>) rs"
proof -
  from runs_requests [of "parser_init out" rs] assms obtain out' where
    o: "runs_to append (parser_init out) (concat chunks) ((parser_init out)\<lparr>m_output := out'\<rparr>)" "invar out'"
      "written out' = written out @
        map (\<lambda>r. r\<lparr>req_arguments := fold (\<lambda>(k, v). map_insert k v) (req_arguments r) []\<rparr>) rs"
    by (auto simp: parser_init_def)
  with parser_chunks_feed [of "parser_init out" chunks] assms(1) show ?thesis
    by (intro exI [of _ out']) (simp add: runs_to_def feed_chunks_def parser_init_def)
qed

end

interpretation request_container: request_sink container_append "\<lambda>xs. xs" "\<lambda>_. True"
  by unfold_locales

lemma ordered_arguments_kept:
  "ordered_map (req_arguments r) \<Longrightarrow>
   r\<lparr>req_arguments := fold (\<lambda>(k, v). map_insert k v) (req_arguments r) []\<rparr> = r"
  using fold_map_insert_ordered [of "[]" "req_arguments r"] by (cases r) simp

context request_sink
begin

lemma feed_valid_requests:
  assumes "invar out" "\<forall>r \<in> set rs. valid_request r" "concat chunks = concat (map request_text rs)"
  shows "\<exists>out'. feed_chunks append chunks (parser_init out) = parser_init out' \<and> written out' = written out @ rs"
proof -
  from assms(2) have "\<forall>r \<in> set rs. valid_lines r" by (simp add: valid_request_def)
  moreover have "map (\<lambda>r. r\<lparr>req_arguments := fold (\<lambda>(k, v). map_insert k v) (req_arguments r) []\<rparr>) rs = rs"
    using assms(2) by (intro map_idI ordered_arguments_kept) (simp add: valid_request_def)
  ultimately show ?thesis using feed_chunks_requests [OF assms(1) _ assms(3)] by metis
qed

end

section \<open>Properties\<close>

text \<open>
  C7: any sequence of valid requests that \<open>generate_request\<close> writes one after the other into a sink that
  does not fail, and what was written cut into chunks at any places whatever: the output of
  \<open>request_parser_sink\<close>, whose \<open>append\<close> does not fail either, receives exactly these requests, in order,
  and the parser is back in its initial state.
\<close>

theorem parser_sink_round_trip:
  assumes writer: "reliable_sink write_app text_of text_inv" "text_inv t" "text_of t = []"
    and parser: "request_sink app written invar" "invar out"
    and rs: "\<forall>r \<in> set rs. valid_request r"
    and chunks: "concat chunks = text_of (fold (\<lambda>r t. generate_request write_app t r) rs t)"
  shows "\<exists>out'. feed_chunks app chunks (parser_init out) = parser_init out' \<and>
    written out' = written out @ rs"
proof (rule request_sink.feed_valid_requests [OF parser rs])
  have "char_sink write_app text_of text_inv" using writer(1) by (simp add: char_sink_def)
  from char_sink.generate_requests_written [OF this writer(2)] writer(3) chunks
  show "concat chunks = concat (map request_text rs)" by simp
qed

lemma parser_sink_round_trip_witness:
  "\<exists>out'. feed_chunks container_append [''GET / HTTP/1.0'' @ [CR], [LF] @ ''Host: a'', '':80'' @ [CR, LF, CHR ''X''],
      '':'', '' '' @ [CR, LF, CR, LF]] (parser_init []) = parser_init out' \<and> out' = [example_request]"
proof -
  have "fold (\<lambda>r t. generate_request container_append t r) [example_request] [] = request_text example_request"
    using char_sink.generate_request_written [of container_append "\<lambda>xs. xs" "\<lambda>_. True" "[]" example_request]
      container.reliable_sink_axioms by (simp add: char_sink_def)
  with parser_sink_round_trip [OF container.reliable_sink_axioms _ _ request_container.request_sink_axioms,
    where rs = "[example_request]" and out = "[]" and t = "[]" and chunks = "[''GET / HTTP/1.0'' @ [CR],
      [LF] @ ''Host: a'', '':80'' @ [CR, LF, CHR ''X''], '':'', '' '' @ [CR, LF, CR, LF]]"]
    valid_example_request
  show ?thesis by (simp add: request_text_def header_text_def example_request_def)
qed

text \<open>
  C18: for any text in which no carriage return stands inside a header key, and an output whose \<open>append\<close> never
  fails, \<open>request_parser_sink\<close> does not depend on how the text is cut into chunks: all the chunks together
  have the same effect, on the parser and on its output, as one call with the whole text, from any state.
\<close>

theorem parser_sink_chunk_independent:
  assumes "request_sink app written invar" "invar (m_output s)" "cr_free_keys app s (concat chunks)"
  shows "feed_chunks app chunks s = snd (parser_append app s (concat chunks))"
  using request_sink.parser_chunks_feed [OF assms] request_sink.parser_append_feed [OF assms]
  by (simp add: feed_chunks_def)

lemma parser_sink_chunk_independent_witness:
  "feed_chunks container_append [''G'', '''', ''ET'', '' ''] (parser_init ([] :: request list)) =
     snd (parser_append container_append (parser_init []) ''GET '')"
proof -
  have "cr_free_keys container_append (parser_init ([] :: request list)) ''GET ''"
    by (simp add: feed_def parser_append.simps parser_step.simps parser_init_def empty_request_def)
  with parser_sink_chunk_independent [OF request_container.request_sink_axioms,
    where s = "parser_init []" and chunks = "[''G'', [], ''ET'', '' '']"]
  show ?thesis by simp
qed

text \<open>
  A carriage return inside a key is where the cutting does matter: in one chunk it becomes part of
  the key; when it is the first character of a chunk it ends the headers, and the request is handed
  out without that line.
\<close>

theorem parser_sink_chunk_dependent:
  "m_output (feed_chunks container_append [''G / V'' @ [CR, LF] @ ''a'' @ [CR] @ ''b'']
      (parser_init ([] :: request list))) = [] \<and>
   length (m_output (feed_chunks container_append [''G / V'' @ [CR, LF] @ ''a'', [CR] @ ''b'']
      (parser_init ([] :: request list)))) = 1"
  by (intro conjI)
     (simp_all add: feed_chunks_def parser_append.simps parser_step.simps parser_init_def
        empty_request_def container_append_def)

lemma lookup_fold_map_set:
  "ordered_map m \<Longrightarrow> ordered_map (fold (\<lambda>(k, v). map_set k v) kvs m) \<and>
   map_of (fold (\<lambda>(k, v). map_set k v) kvs m) = map_of m ++ map_of (rev kvs)"
proof (induction kvs arbitrary: m)
  case (Cons kv kvs)
  obtain k v where "kv = (k, v)" by fastforce
  with Cons.IH [of "map_set k v m"] Cons.prems show ?case
    by (simp add: ordered_map_set lookup_map_set map_add_def fun_eq_iff split: option.splits)
qed simp

lemma lookup_fold_map_insert:
  "ordered_map m \<Longrightarrow> ordered_map (fold (\<lambda>(k, v). map_insert k v) kvs m) \<and>
   map_of (fold (\<lambda>(k, v). map_insert k v) kvs m) = map_of kvs ++ map_of m"
proof (induction kvs arbitrary: m)
  case (Cons kv kvs)
  obtain k v where "kv = (k, v)" by fastforce
  with Cons.IH [of "map_insert k v m"] Cons.prems show ?case
    by (simp add: ordered_map_insert lookup_map_insert map_add_def fun_eq_iff split: option.splits)
qed simp

text \<open>
  C36: on the text of a request as \<open>generate_request\<close> would write it (\<open>request_text r\<close>, with valid header lines,
  \<open>valid_lines r\<close>: no control characters or colons where they end a part), but with header lines in any order
  and keys that may repeat, the two parsers agree in everything but the value of a repeated key:
  \<open>parse_request\<close> takes the last line of a key and \<open>request_parser_sink\<close> the first.  The output of the
  sink never fails.
\<close>

theorem parsers_on_duplicate_keys:
  assumes "element_source cn pending invar" "invar s" "valid_lines r" "pending s = request_text r"
    and "concat chunks = request_text r"
  shows "\<exists>args args' s'. parse_request cn s = Some (Ok (Some (r\<lparr>req_arguments := args\<rparr>)) s') \<and>
    feed_chunks container_append chunks (parser_init []) = parser_init [r\<lparr>req_arguments := args'\<rparr>] \<and>
    map_of args = map_of (rev (req_arguments r)) \<and> map_of args' = map_of (req_arguments r)"
proof -
  let ?a = "fold (\<lambda>(k, v). map_set k v) (req_arguments r) []"
    and ?b = "fold (\<lambda>(k, v). map_insert k v) (req_arguments r) []"
  from assms(1) have "char_source cn pending invar" by (simp add: char_source_def)
  from char_source.parse_request_lines [OF this assms(2,3), of "[]"] assms(4) obtain s' where
    "parse_request cn s = Some (Ok (Some (r\<lparr>req_arguments := ?a\<rparr>)) s')" by auto
  moreover from request_container.feed_chunks_requests [where out = "[]" and rs = "[r]" and chunks = chunks] assms(3,5) have
    "feed_chunks container_append chunks (parser_init []) = parser_init [r\<lparr>req_arguments := ?b\<rparr>]" by auto
  ultimately show ?thesis
    using lookup_fold_map_set [of "[]" "req_arguments r"] lookup_fold_map_insert [of "[]" "req_arguments r"]
    by (intro exI [of _ ?a] exI [of _ ?b] exI [of _ s']) simp
qed

lemma parsers_on_duplicate_keys_witness:
  "\<exists>args s'. parse_request memory_copy_next
      (request_text (example_request\<lparr>req_arguments := [(''A'', ''1''), (''A'', ''2'')]\<rparr>)) =
      Some (Ok (Some (example_request\<lparr>req_arguments := args\<rparr>)) s') \<and> map_of args ''A'' = Some ''2''"
proof -
  let ?r = "example_request\<lparr>req_arguments := [(''A'', ''1''), (''A'', ''2'')]\<rparr>"
  have "valid_lines ?r" by (simp add: valid_lines_def example_request_def)
  from parsers_on_duplicate_keys [OF memory.element_source_axioms _ this, where chunks = "[request_text ?r]"]
  show ?thesis by auto
qed

end
