(* ===== verification/Html.thy ===== *)
theory Html
  imports Http
begin

text \<open>
  \<open>silicium/html/generator.hpp\<close> and \<open>silicium/html/tree.hpp\<close>: HTML written to a sink of characters,
  either by calls on a generator or as a tree of elements that carry their length in their type.  The
  errors of the sink are dropped, as the code does.
\<close>

section \<open>Strings as arguments\<close>

text \<open>
  A string object or range, or a C string, which the code reads up to its first NUL
  (\<open>make_range_from_string_like\<close> and the overloads of \<open>append\<close>).
\<close>

datatype string_like = Str string | C_Str string

fun make_range_from_string_like :: "string_like \<Rightarrow> string" where
  "make_range_from_string_like (Str s) = s"
| "make_range_from_string_like (C_Str s) = before_first (CHR 0x00) s"

fun append_string_like :: "('t, char, 'x) append_function \<Rightarrow> string_like \<Rightarrow> 't \<Rightarrow> 't" where
  "append_string_like app (Str s) t = emit app s t"
| "append_string_like app (C_Str s) t = emit_c_str app s t"

abbreviation emit_char :: "('t, char, 'x) append_function \<Rightarrow> char \<Rightarrow> 't \<Rightarrow> 't" where
  "emit_char app c out \<equiv> snd (append_single app out c)"

section \<open>Generator functions\<close>

definition write_char :: "('t, char, 'x) append_function \<Rightarrow> char \<Rightarrow> 't \<Rightarrow> 't" where
  "write_char app c t =
     (if c = CHR ''&'' then emit_c_str app ''&amp;'' t
      else if c = CHR ''<'' then emit_c_str app ''&lt;'' t
      else if c = CHR ''>'' then emit_c_str app ''&gt;'' t
      else if c = CHR 0x27 then emit_c_str app ''&apos;'' t
      else if c = CHR 0x22 then emit_c_str app ''&quot;'' t
      else emit_char app c t)"

definition write_string :: "('t, char, 'x) append_function \<Rightarrow> string_like \<Rightarrow> 't \<Rightarrow> 't" where
  "write_string app str t = fold (write_char app) (make_range_from_string_like str) t"

definition open_attributed_element :: "('t, char, 'x) append_function \<Rightarrow> string_like \<Rightarrow> 't \<Rightarrow> 't" where
  "open_attributed_element app name t = write_string app name (emit_char app (CHR ''<'') t)"

definition finish_attributes :: "('t, char, 'x) append_function \<Rightarrow> 't \<Rightarrow> 't" where
  "finish_attributes app t = emit_char app (CHR ''>'') t"

definition finish_attributes_of_unpaired_tag :: "('t, char, 'x) append_function \<Rightarrow> 't \<Rightarrow> 't" where
  "finish_attributes_of_unpaired_tag app t = emit_c_str app ''/>'' t"

definition add_attribute :: "('t, char, 'x) append_function \<Rightarrow> string_like \<Rightarrow> string_like \<Rightarrow> 't \<Rightarrow> 't" where
  "add_attribute app key val t = emit_char app (CHR 0x22) (write_string app val
     (emit_c_str app [CHR ''='', CHR 0x22] (append_string_like app key (emit_c_str app '' '' t))))"

definition add_attribute_key :: "('t, char, 'x) append_function \<Rightarrow> string_like \<Rightarrow> 't \<Rightarrow> 't" where
  "add_attribute_key app key t = append_string_like app key (emit_c_str app '' '' t)"

definition open_element :: "('t, char, 'x) append_function \<Rightarrow> string_like \<Rightarrow> 't \<Rightarrow> 't" where
  "open_element app name t = finish_attributes app (open_attributed_element app name t)"

definition close_element :: "('t, char, 'x) append_function \<Rightarrow> string_like \<Rightarrow> 't \<Rightarrow> 't" where
  "close_element app name t = emit_char app (CHR ''>'') (append_string_like app name
     (emit_char app (CHR ''/'') (emit_char app (CHR ''<'') t)))"

definition unpaired_element :: "('t, char, 'x) append_function \<Rightarrow> string_like \<Rightarrow> 't \<Rightarrow> 't" where
  "unpaired_element app name t = emit_char app (CHR ''>'') (emit_char app (CHR ''/'')
     (append_string_like app name (emit_char app (CHR ''<'') t)))"

section \<open>The generator object\<close>

text \<open>
  The overloads of \<open>generator::element\<close>: with content, empty, with attributes and content, with
  attributes only.  The callbacks write to the generator's sink.
\<close>

definition gen_element ::
    "('t, char, 'x) append_function \<Rightarrow> string_like \<Rightarrow> ('t \<Rightarrow> 't) \<Rightarrow> 't \<Rightarrow> 't" where
  "gen_element app name make_content t =
     close_element app name (make_content (open_element app name t))"

definition gen_element_empty :: "('t, char, 'x) append_function \<Rightarrow> string_like \<Rightarrow> 't \<Rightarrow> 't" where
  "gen_element_empty app name t = unpaired_element app name t"

definition gen_attributed_element ::
    "('t, char, 'x) append_function \<Rightarrow> string_like \<Rightarrow> ('t \<Rightarrow> 't) \<Rightarrow> ('t \<Rightarrow> 't) \<Rightarrow> 't \<Rightarrow> 't" where
  "gen_attributed_element app name make_attributes make_content t =
     close_element app name (make_content (finish_attributes app
       (make_attributes (open_attributed_element app name t))))"

definition gen_attributed_empty ::
    "('t, char, 'x) append_function \<Rightarrow> string_like \<Rightarrow> ('t \<Rightarrow> 't) \<Rightarrow> 't \<Rightarrow> 't" where
  "gen_attributed_empty app name make_attributes t =
     emit_c_str app ''/>'' (make_attributes (open_attributed_element app name t))"

definition gen_attribute ::
    "('t, char, 'x) append_function \<Rightarrow> string_like \<Rightarrow> string_like \<Rightarrow> 't \<Rightarrow> 't" where
  "gen_attribute app key val t = add_attribute app key val t"

definition gen_write :: "('t, char, 'x) append_function \<Rightarrow> string_like \<Rightarrow> 't \<Rightarrow> 't" where
  "gen_write app str t = write_string app str t"

definition gen_element_with_text ::
    "('t, char, 'x) append_function \<Rightarrow> string_like \<Rightarrow> string_like \<Rightarrow> 't \<Rightarrow> 't" where
  "gen_element_with_text app name str t =
     close_element app name (gen_write app str (open_element app name t))"

definition gen_raw :: "('t, char, 'x) append_function \<Rightarrow> string_like \<Rightarrow> 't \<Rightarrow> 't" where
  "gen_raw app str t = append_string_like app str t"

section \<open>Trees\<close>

text \<open>The two kinds of length an element's type can carry, and \<open>detail::concatenate\<close>.\<close>

datatype length_type = Exact_Length nat | Min_Length nat

fun concatenate :: "length_type \<Rightarrow> length_type \<Rightarrow> length_type" where
  "concatenate (Exact_Length m) (Exact_Length n) = Exact_Length (m + n)"
| "concatenate (Min_Length m) (Exact_Length n) = Min_Length (m + n)"
| "concatenate (Exact_Length m) (Min_Length n) = Min_Length (m + n)"
| "concatenate (Min_Length m) (Min_Length n) = Min_Length (m + n)"

record 't html_element =
  length_of :: length_type
  generate :: "'t \<Rightarrow> 't"

definition make_element :: "length_type \<Rightarrow> ('t \<Rightarrow> 't) \<Rightarrow> 't html_element" where
  "make_element len content_generator = \<lparr>length_of = len, generate = content_generator\<rparr>"

definition dynamic_element :: "('t \<Rightarrow> 't) \<Rightarrow> 't html_element" where
  "dynamic_element content_generator = make_element (Min_Length 0) content_generator"

definition fixed_length :: "nat \<Rightarrow> ('t \<Rightarrow> 't) \<Rightarrow> 't html_element" where
  "fixed_length len content_generator = make_element (Exact_Length len) content_generator"

text \<open>
  Where the code takes a \<open>char const(\&)[N]\<close>, the model has the \<open>N - 1\<close> characters of the literal
  without its terminating NUL; the literal decays to a C string where it is written.
\<close>

definition raw_element :: "('t, char, 'x) append_function \<Rightarrow> string \<Rightarrow> 't html_element" where
  "raw_element app content = fixed_length (length content) (emit_c_str app content)"

definition tag ::
    "('t, char, 'x) append_function \<Rightarrow> string \<Rightarrow> 't html_element \<Rightarrow> 't html_element \<Rightarrow> 't html_element" where
  "tag app name attributes content =
     make_element
       (concatenate (length_of content) (concatenate (length_of attributes)
         (Exact_Length (1 + length name + 1 + 2 + length name + 1))))
       (\<lambda>t. close_element app (C_Str name) (generate content (finish_attributes app
         (generate attributes (open_attributed_element app (C_Str name) t)))))"

definition tag_empty ::
    "('t, char, 'x) append_function \<Rightarrow> string \<Rightarrow> 't html_element \<Rightarrow> 't html_element" where
  "tag_empty app name attributes =
     make_element (concatenate (Min_Length (1 + length name + 2)) (length_of attributes))
       (\<lambda>t. finish_attributes_of_unpaired_tag app
         (generate attributes (open_attributed_element app (C_Str name) t)))"

definition no_attributes :: "'t html_element" where
  "no_attributes = make_element (Exact_Length 0) (\<lambda>t. t)"

definition tag_without_attributes ::
    "('t, char, 'x) append_function \<Rightarrow> string \<Rightarrow> 't html_element \<Rightarrow> 't html_element" where
  "tag_without_attributes app name content = tag app name no_attributes content"

definition attribute_literal ::
    "('t, char, 'x) append_function \<Rightarrow> string \<Rightarrow> string \<Rightarrow> 't html_element" where
  "attribute_literal app key val =
     make_element (Min_Length (1 + length key + 1 + 1 + length val + 1))
       (add_attribute app (C_Str key) (C_Str val))"

definition attribute_string ::
    "('t, char, 'x) append_function \<Rightarrow> string \<Rightarrow> string \<Rightarrow> 't html_element" where
  "attribute_string app key val =
     make_element (Min_Length (1 + length key + 1 + 1 + 1)) (add_attribute app (C_Str key) (Str val))"

definition attribute_key :: "('t, char, 'x) append_function \<Rightarrow> string \<Rightarrow> 't html_element" where
  "attribute_key app key = make_element (Min_Length (1 + length key)) (add_attribute_key app (C_Str key))"

definition text_literal :: "('t, char, 'x) append_function \<Rightarrow> string \<Rightarrow> 't html_element" where
  "text_literal app content = make_element (Min_Length (length content)) (write_string app (C_Str content))"

definition text_string :: "('t, char, 'x) append_function \<Rightarrow> string \<Rightarrow> 't html_element" where
  "text_string app content = make_element (Min_Length 0) (write_string app (Str content))"

fun sequence_elements :: "'t html_element list \<Rightarrow> 't html_element" where
  "sequence_elements [] = make_element (Exact_Length 0) (\<lambda>t. t)"
| "sequence_elements (head # tail) =
     (let tail_elements = sequence_elements tail
      in make_element (concatenate (length_of head) (length_of tail_elements))
           (\<lambda>t. generate tail_elements (generate head t)))"

definition plus_element :: "'t html_element \<Rightarrow> 't html_element \<Rightarrow> 't html_element" where
  "plus_element left right = sequence_elements [left, right]"

text \<open>\<open>html::generate\<close>: the tree is written to a sink over a new container.\<close>

definition generate_container :: "string html_element \<Rightarrow> string" where
  "generate_container tree = generate tree []"

section \<open>Specification\<close>

fun escape_char :: "char \<Rightarrow> string" where
  "escape_char c =
     (if c = CHR ''&'' then ''&amp;'' else if c = CHR ''<'' then ''&lt;'' else if c = CHR ''>'' then ''&gt;''
      else if c = CHR 0x27 then ''&apos;'' else if c = CHR 0x22 then ''&quot;'' else [c])"

declare escape_char.simps [simp del]

definition escape :: "string \<Rightarrow> string" where
  "escape str = concat (map escape_char str)"

text \<open>What a browser makes of the five entities.\<close>

fun unescape :: "string \<Rightarrow> string" where
  "unescape [] = []"
| "unescape (c # cs) =
     (if c \<noteq> CHR ''&'' then c # unescape cs
      else if take 4 cs = ''amp;'' then CHR ''&'' # unescape (drop 4 cs)
      else if take 3 cs = ''lt;'' then CHR ''<'' # unescape (drop 3 cs)
      else if take 3 cs = ''gt;'' then CHR ''>'' # unescape (drop 3 cs)
      else if take 5 cs = ''apos;'' then CHR 0x27 # unescape (drop 5 cs)
      else if take 5 cs = ''quot;'' then CHR 0x22 # unescape (drop 5 cs)
      else c # unescape cs)"

lemma escape_simps [simp]:
  "escape [] = []" "escape (c # cs) = escape_char c @ escape cs" "escape (xs @ ys) = escape xs @ escape ys"
  by (simp_all add: escape_def)

lemma unescape_escape_char: "unescape (escape_char c @ xs) = c # unescape xs"
  by (simp add: escape_char.simps)

lemma unescape_escape: "unescape (escape str) = str"
  by (induction str) (simp_all add: unescape_escape_char del: unescape.simps(2))

definition markup :: "char set" where
  "markup = {CHR ''<'', CHR ''>'', CHR 0x27, CHR 0x22}"

lemma escape_no_markup: "set (escape str) \<inter> markup = {}"
  by (induction str) (auto simp: escape_char.simps markup_def)

lemma length_escape: "length str \<le> length (escape str)"
proof (induction str)
  case (Cons c str)
  have "1 \<le> length (escape_char c)" by (simp add: escape_char.simps)
  with Cons show ?case by simp
qed simp

text \<open>A name that is written as it is.\<close>

definition plain_name :: "string \<Rightarrow> bool" where
  "plain_name name \<longleftrightarrow> free_of [CHR 0x00, CHR ''&'', CHR ''<'', CHR ''>'', CHR 0x27, CHR 0x22] name"

lemma escape_plain: "plain_name name \<Longrightarrow> escape name = name"
  by (induction name) (auto simp: plain_name_def escape_char.simps)

lemma plain_name_no_nul: "plain_name name \<Longrightarrow> CHR 0x00 \<notin> set name"
  by (simp add: plain_name_def)

section \<open>What the functions write\<close>

definition writes_text :: "('t \<Rightarrow> string) \<Rightarrow> ('t \<Rightarrow> bool) \<Rightarrow> ('t \<Rightarrow> 't) \<Rightarrow> string \<Rightarrow> bool" where
  "writes_text written invar f str \<longleftrightarrow> (\<forall>t. invar t \<longrightarrow> invar (f t) \<and> written (f t) = written t @ str)"

lemma writes_text_comp:
  "writes_text w i f a \<Longrightarrow> writes_text w i g b \<Longrightarrow> writes_text w i (\<lambda>t. g (f t)) (a @ b)"
  by (simp add: writes_text_def)

lemma writes_text_id: "writes_text w i (\<lambda>t. t) []"
  by (simp add: writes_text_def)

fun fits :: "length_type \<Rightarrow> nat \<Rightarrow> bool" where
  "fits (Exact_Length n) m = (m = n)"
| "fits (Min_Length n) m = (n \<le> m)"

lemma fits_concatenate: "fits a m \<Longrightarrow> fits b n \<Longrightarrow> fits (concatenate a b) (m + n)"
  by (cases a; cases b) auto

context char_sink
begin

lemma emit_char_written: "invar t \<Longrightarrow> invar (emit_char append c t) \<and> written (emit_char append c t) = written t @ [c]"
  by (simp add: append_single_def emit_written)

lemma emit_like_written:
  "invar t \<Longrightarrow> invar (append_string_like append str t) \<and>
     written (append_string_like append str t) = written t @ make_range_from_string_like str"
  by (cases str) (simp_all add: append_string_def append_c_str_def emit_written)

lemma write_char_written:
  "invar t \<Longrightarrow> invar (write_char append c t) \<and> written (write_char append c t) = written t @ escape_char c"
  by (simp add: write_char_def escape_char.simps append_c_str_def append_single_def emit_written)

lemma write_string_written:
  "invar t \<Longrightarrow> invar (write_string append str t) \<and>
     written (write_string append str t) = written t @ escape (make_range_from_string_like str)"
proof -
  have "invar t \<Longrightarrow> invar (fold (write_char append) cs t) \<and>
      written (fold (write_char append) cs t) = written t @ escape cs" for cs
    by (induction cs arbitrary: t) (simp_all add: write_char_written)
  then show "invar t \<Longrightarrow> ?thesis" by (simp add: write_string_def)
qed

lemmas html_written = emit_char_written emit_like_written write_string_written append_c_str_def
  emit_written open_attributed_element_def finish_attributes_def finish_attributes_of_unpaired_tag_def
  add_attribute_def add_attribute_key_def open_element_def close_element_def unpaired_element_def

lemma writes_string: "writes_text written invar (write_string append str) (escape (make_range_from_string_like str))"
  by (simp add: writes_text_def write_string_written)

lemma writes_open:
  "writes_text written invar (open_attributed_element append name)
     (''<'' @ escape (make_range_from_string_like name))"
  by (simp add: writes_text_def html_written)

lemma writes_finish: "writes_text written invar (finish_attributes append) ''>''"
  by (simp add: writes_text_def html_written)

lemma writes_close:
  "writes_text written invar (close_element append name) (''</'' @ make_range_from_string_like name @ ''>'')"
  by (simp add: writes_text_def html_written)

lemma writes_attribute:
  "writes_text written invar (add_attribute append key val)
     ('' '' @ make_range_from_string_like key @ [CHR ''='', CHR 0x22] @
       escape (make_range_from_string_like val) @ [CHR 0x22])"
  by (simp add: writes_text_def html_written)

lemma gen_element_writes:
  assumes "writes_text written invar make_content body"
  shows "writes_text written invar (gen_element append name make_content)
    (''<'' @ escape (make_range_from_string_like name) @ ''>'' @ body @
     ''</'' @ make_range_from_string_like name @ ''>'')"
proof -
  from writes_text_comp [OF writes_text_comp [OF writes_text_comp
      [OF writes_open [of name] writes_finish] assms] writes_close [of name]]
  show ?thesis unfolding gen_element_def [abs_def] open_element_def by simp
qed

end

section \<open>Trees as syntax\<close>

text \<open>The trees a program can build with the functions of \<open>tree.hpp\<close>, and the elements they denote.\<close>

datatype html_tree =
    Raw_Html string
  | Text_Literal string
  | Text_String string
  | Tag string html_tree html_tree
  | Tag_Empty string html_tree
  | Tag_Plain string html_tree
  | Attribute_Literal string string
  | Attribute_String string string
  | Attribute_Key string
  | Sequence "html_tree list"

fun build :: "('t, char, 'x) append_function \<Rightarrow> html_tree \<Rightarrow> 't html_element" where
  "build app (Raw_Html s) = raw_element app s"
| "build app (Text_Literal s) = text_literal app s"
| "build app (Text_String s) = text_string app s"
| "build app (Tag n a c) = tag app n (build app a) (build app c)"
| "build app (Tag_Empty n a) = tag_empty app n (build app a)"
| "build app (Tag_Plain n c) = tag_without_attributes app n (build app c)"
| "build app (Attribute_Literal k v) = attribute_literal app k v"
| "build app (Attribute_String k v) = attribute_string app k v"
| "build app (Attribute_Key k) = attribute_key app k"
| "build app (Sequence es) = sequence_elements (map (build app) es)"

fun html_text :: "html_tree \<Rightarrow> string" where
  "html_text (Raw_Html s) = s"
| "html_text (Text_Literal s) = escape s"
| "html_text (Text_String s) = escape s"
| "html_text (Tag n a c) = ''<'' @ n @ html_text a @ ''>'' @ html_text c @ ''</'' @ n @ ''>''"
| "html_text (Tag_Empty n a) = ''<'' @ n @ html_text a @ ''/>''"
| "html_text (Tag_Plain n c) = ''<'' @ n @ ''>'' @ html_text c @ ''</'' @ n @ ''>''"
| "html_text (Attribute_Literal k v) = '' '' @ k @ [CHR ''='', CHR 0x22] @ escape v @ [CHR 0x22]"
| "html_text (Attribute_String k v) = '' '' @ k @ [CHR ''='', CHR 0x22] @ escape v @ [CHR 0x22]"
| "html_text (Attribute_Key k) = '' '' @ k"
| "html_text (Sequence es) = concat (map html_text es)"

text \<open>Literals without embedded NULs and tag names that need no escaping.\<close>

fun plain_tree :: "html_tree \<Rightarrow> bool" where
  "plain_tree (Raw_Html s) \<longleftrightarrow> CHR 0x00 \<notin> set s"
| "plain_tree (Text_Literal s) \<longleftrightarrow> CHR 0x00 \<notin> set s"
| "plain_tree (Text_String s) \<longleftrightarrow> True"
| "plain_tree (Tag n a c) \<longleftrightarrow> plain_name n \<and> plain_tree a \<and> plain_tree c"
| "plain_tree (Tag_Empty n a) \<longleftrightarrow> plain_name n \<and> plain_tree a"
| "plain_tree (Tag_Plain n c) \<longleftrightarrow> plain_name n \<and> plain_tree c"
| "plain_tree (Attribute_Literal k v) \<longleftrightarrow> CHR 0x00 \<notin> set k \<and> CHR 0x00 \<notin> set v"
| "plain_tree (Attribute_String k v) \<longleftrightarrow> CHR 0x00 \<notin> set k"
| "plain_tree (Attribute_Key k) \<longleftrightarrow> CHR 0x00 \<notin> set k"
| "plain_tree (Sequence es) \<longleftrightarrow> (\<forall>e \<in> set es. plain_tree e)"

context char_sink
begin

definition honest :: "'t html_element \<Rightarrow> string \<Rightarrow> bool" where
  "honest e str \<longleftrightarrow> writes_text written invar (generate e) str \<and> fits (length_of e) (length str)"

lemma honest_make:
  "writes_text written invar f str \<Longrightarrow> fits len (length str) \<Longrightarrow> honest (make_element len f) str"
  by (simp add: honest_def make_element_def)

lemma honest_tag:
  assumes "honest a as" "honest c cs" "plain_name n"
  shows "honest (tag append n a c) (''<'' @ n @ as @ ''>'' @ cs @ ''</'' @ n @ ''>'')"
  unfolding tag_def
proof (rule honest_make)
  from assms(1,2) have a: "writes_text written invar (generate a) as" "fits (length_of a) (length as)"
      and c: "writes_text written invar (generate c) cs" "fits (length_of c) (length cs)"
    by (simp_all add: honest_def)
  have n: "escape n = n" "CHR 0x00 \<notin> set n" using assms(3) by (simp_all add: escape_plain plain_name_no_nul)
  from writes_text_comp [OF writes_text_comp [OF writes_text_comp [OF writes_text_comp
      [OF writes_open [of "C_Str n"] a(1)] writes_finish] c(1)] writes_close [of "C_Str n"]] n
  show "writes_text written invar (\<lambda>t. close_element append (C_Str n) (generate c (finish_attributes append
      (generate a (open_attributed_element append (C_Str n) t))))) (''<'' @ n @ as @ ''>'' @ cs @ ''</'' @ n @ ''>'')"
    by simp
  have "length (''<'' @ n @ as @ ''>'' @ cs @ ''</'' @ n @ ''>'') =
      length cs + (length as + (1 + length n + 1 + 2 + length n + 1))" by simp
  then show "fits (concatenate (length_of c) (concatenate (length_of a)
      (Exact_Length (1 + length n + 1 + 2 + length n + 1)))) (length (''<'' @ n @ as @ ''>'' @ cs @ ''</'' @ n @ ''>''))"
    by (simp only: fits_concatenate [OF c(2) fits_concatenate [OF a(2)]] fits.simps)
qed

lemma honest_tag_empty:
  assumes "honest a as" "plain_name n"
  shows "honest (tag_empty append n a) (''<'' @ n @ as @ ''/>'')"
  unfolding tag_empty_def
proof (rule honest_make)
  from assms(1) have a: "writes_text written invar (generate a) as" "fits (length_of a) (length as)"
    by (simp_all add: honest_def)
  have n: "escape n = n" "CHR 0x00 \<notin> set n" using assms(2) by (simp_all add: escape_plain plain_name_no_nul)
  have f: "writes_text written invar (finish_attributes_of_unpaired_tag append) ''/>''"
    by (simp add: writes_text_def html_written)
  from writes_text_comp [OF writes_text_comp [OF writes_open [of "C_Str n"] a(1)] f] n
  show "writes_text written invar (\<lambda>t. finish_attributes_of_unpaired_tag append
      (generate a (open_attributed_element append (C_Str n) t))) (''<'' @ n @ as @ ''/>'')"
    by simp
  have "length (''<'' @ n @ as @ ''/>'') = (1 + length n + 2) + length as" by simp
  then show "fits (concatenate (Min_Length (1 + length n + 2)) (length_of a)) (length (''<'' @ n @ as @ ''/>''))"
    by (simp only: fits_concatenate [OF _ a(2)] fits.simps order_refl)
qed

lemma honest_sequence:
  "list_all2 honest es strs \<Longrightarrow> honest (sequence_elements es) (concat strs)"
proof (induction es strs rule: list_all2_induct)
  case Nil
  show ?case unfolding sequence_elements.simps by (rule honest_make) (simp_all add: writes_text_id)
next
  case (Cons e es str strs)
  then show ?case
    unfolding sequence_elements.simps Let_def
    by (intro honest_make) (auto simp: honest_def intro: writes_text_comp fits_concatenate)
qed

lemma honest_build: "plain_tree tree \<Longrightarrow> honest (build append tree) (html_text tree)"
proof (induction tree)
  case (Tag_Plain n c)
  have "honest no_attributes []" unfolding no_attributes_def by (rule honest_make) (simp_all add: writes_text_id)
  from honest_tag [OF this, of "build append c" "html_text c" n] Tag_Plain show ?case
    by (simp add: tag_without_attributes_def)
next
  case (Sequence es)
  then have "list_all2 honest (map (build append) es) (map html_text es)"
    by (simp add: list_all2_conv_all_nth)
  from honest_sequence [OF this] show ?case by simp
next
  case (Attribute_Literal k v)
  with writes_attribute [of "C_Str k" "C_Str v"] length_escape [of v] show ?case
    by (simp add: attribute_literal_def honest_make)
next
  case (Attribute_String k v)
  with writes_attribute [of "C_Str k" "Str v"] show ?case
    by (simp add: attribute_string_def honest_make)
next
  case (Tag n a c)
  with honest_tag [of "build append a" "html_text a" "build append c" "html_text c" n] show ?case by simp
next
  case (Tag_Empty n a)
  with honest_tag_empty [of "build append a" "html_text a" n] show ?case by simp
qed (simp_all add: raw_element_def fixed_length_def text_literal_def
    text_string_def attribute_key_def honest_make writes_text_def length_escape html_written)

end

section \<open>Properties\<close>

text \<open>
  C23: \<open>write_string\<close> writes its text so that none of the four markup characters occurs in what it
  writes, and decoding the entities gives the text back, so that different texts are never confused.
\<close>

theorem write_string_escapes:
  assumes "char_sink app written invar" "invar t"
  shows "\<exists>str. written (write_string app s t) = written t @ str \<and> set str \<inter> markup = {} \<and>
    unescape str = make_range_from_string_like s"
  using char_sink.write_string_written [OF assms, of s] escape_no_markup unescape_escape by blast

lemma write_string_escapes_witness:
  "unescape (write_string container_append (Str ''<a & b>'') []) = ''<a & b>''"
  using write_string_escapes [OF container_chars.char_sink_axioms, where t = "[]" and s = "Str ''<a & b>''"]
  by auto

text \<open>
  C22: every tree of tags, texts, attributes and raw literals built with the functions of \<open>tree.hpp\<close>, with literals
  without embedded NULs and names without special characters (\<open>plain_tree\<close>; no \<open>fixed_length\<close> and no
  \<open>dynamic\<close> elements), writes to a sink that does not fail exactly the text of the tree, and the length in its
  type is true: the exact length of what it writes, or a lower bound of it.
\<close>

theorem html_tree_text_and_length:
  assumes "char_sink app written invar" "invar t" "plain_tree tree"
  shows "written (generate (build app tree) t) = written t @ html_text tree \<and>
    fits (length_of (build app tree)) (length (html_text tree))"
  using char_sink.honest_build [OF assms(1,3)] assms(2)
  by (simp add: char_sink.honest_def [OF assms(1)] writes_text_def)

lemma html_tree_text_and_length_witness:
  "generate_container (build container_append
     (Tag ''p'' (Attribute_Literal ''id'' ''1'') (Sequence [Text_Literal ''a<b'', Tag_Empty ''br'' (Sequence [])]))) =
   ''<p id='' @ [CHR 0x22] @ ''1'' @ [CHR 0x22] @ ''>a&lt;b<br/></p>''"
  using html_tree_text_and_length [OF container_chars.char_sink_axioms, where t = "[]" and
    tree = "Tag ''p'' (Attribute_Literal ''id'' ''1'') (Sequence [Text_Literal ''a<b'', Tag_Empty ''br'' (Sequence [])])"]
  by (simp add: generate_container_def plain_name_def escape_char.simps)

text \<open>
  A generated element closes under the name it was opened with exactly if the name needs no
  escaping: the start tag escapes the name and the end tag does not.
\<close>

theorem element_tags_match_iff:
  assumes "char_sink app written invar" "invar t" "writes_text written invar make_content body"
  shows "\<exists>opening closing.
    written (gen_element app (Str name) make_content t) =
      written t @ ''<'' @ opening @ ''>'' @ body @ ''</'' @ closing @ ''>'' \<and>
    (opening = closing \<longleftrightarrow> set name \<inter> {CHR ''&'', CHR ''<'', CHR ''>'', CHR 0x27, CHR 0x22} = {})"
proof -
  let ?special = "{CHR ''&'', CHR ''<'', CHR ''>'', CHR 0x27, CHR 0x22}"
  have iff: "escape str = str \<longleftrightarrow> set str \<inter> ?special = {}" for str
  proof (induction str)
    case (Cons c str)
    show ?case
    proof (cases "c \<in> ?special")
      case True
      then have "2 \<le> length (escape_char c)" by (auto simp: escape_char.simps)
      with length_escape [of str] have "length (escape (c # str)) \<noteq> length (c # str)" by simp
      then have "escape (c # str) \<noteq> c # str" by metis
      with True show ?thesis by simp
    next
      case False
      with Cons show ?thesis by (simp add: escape_char.simps)
    qed
  qed simp
  from char_sink.gen_element_writes [OF assms(1,3), of "Str name"] assms(2) iff [of name] show ?thesis
    unfolding writes_text_def by (metis make_range_from_string_like.simps(1))
qed

lemma element_tags_match_iff_witness:
  "\<exists>opening closing. gen_element container_append (Str ''a&b'') (\<lambda>t. t) [] =
     ''<'' @ opening @ ''></'' @ closing @ ''>'' \<and> opening \<noteq> closing"
  using element_tags_match_iff [OF container_chars.char_sink_axioms _ writes_text_id, where t = "[]" and name = "''a&b''"]
  by auto

end
