(* ===== verification/Arithmetic.thy ===== *)
theory Arithmetic
  imports Optional "HOL-Library.Word"
begin

text \<open>
  \<open>silicium/arithmetic/\<close>, \<open>byte_order_intrinsics.hpp\<close>, \<open>lossless_cast.hpp\<close>, \<open>byte.hpp\<close>: sums of unsigned
  numbers that notice the overflow, and byte orders.  An unsigned type of \<open>w\<close> bits is \<open>w word\<close>; the
  sum of two \<open>unsigned char\<close> or \<open>unsigned short\<close> is computed in \<open>int\<close> and cast back, which is the sum in
  the narrow type.
\<close>

unbundle bit_operations_syntax

section \<open>overflow_or\<close>

record 'u overflow_or =
  ov_state :: "'u optional_obj"

definition overflow_or_overflow :: "'u overflow_or" where
  "overflow_or_overflow = \<lparr>ov_state = opt_none\<rparr>"

definition overflow_or_value :: "'u \<Rightarrow> 'u overflow_or" where
  "overflow_or_value v = \<lparr>ov_state = \<lparr>is_set = True, storage = Live v\<rparr>\<rparr>"

definition is_overflow :: "'u overflow_or \<Rightarrow> bool" where
  "is_overflow x = opt_not (ov_state x)"

definition ov_value :: "'u overflow_or \<Rightarrow> 'u optional_obj" where
  "ov_value x = ov_state x"

definition ov_equal :: "('u \<Rightarrow> 'u \<Rightarrow> bool) \<Rightarrow> 'u overflow_or \<Rightarrow> 'u overflow_or \<Rightarrow> fault + bool" where
  "ov_equal eq left right =
     (if is_overflow left \<and> is_overflow right then Inr True
      else if is_overflow left \<noteq> is_overflow right then Inr False
      else read2 eq (opt_deref (ov_value left)) (opt_deref (ov_value right)))"

definition ov_print :: "('u \<Rightarrow> string) \<Rightarrow> 'u overflow_or \<Rightarrow> fault + string" where
  "ov_print show_value x =
     (if is_overflow x then Inr ''overflow'' else read1 show_value (opt_deref (ov_value x)))"

section \<open>Addition\<close>

definition checked_add :: "'w::len word \<Rightarrow> 'w word \<Rightarrow> 'w word overflow_or" where
  "checked_add left right =
     (let result = left + right
      in if result < left then overflow_or_overflow else overflow_or_value result)"

text \<open>
  The operators find \<open>checked_add\<close> for their number type by argument-dependent lookup: \<open>add\<close>.  The
  result of \<open>+=\<close> is the new left operand.
\<close>

definition ov_plus_assign ::
    "('u \<Rightarrow> 'u \<Rightarrow> 'u overflow_or) \<Rightarrow> 'u overflow_or \<Rightarrow> 'u overflow_or \<Rightarrow> fault + 'u overflow_or" where
  "ov_plus_assign add left right =
     (if is_overflow left \<or> is_overflow right then Inr left
      else read2 add (opt_deref (ov_value left)) (opt_deref (ov_value right)))"

definition ov_plus_assign_number ::
    "('u \<Rightarrow> 'u \<Rightarrow> 'u overflow_or) \<Rightarrow> 'u overflow_or \<Rightarrow> 'u \<Rightarrow> fault + 'u overflow_or" where
  "ov_plus_assign_number add left right =
     (if is_overflow left then Inr left
      else read1 (\<lambda>l. add l right) (opt_deref (ov_value left)))"

definition ov_plus ::
    "('u \<Rightarrow> 'u \<Rightarrow> 'u overflow_or) \<Rightarrow> 'u overflow_or \<Rightarrow> 'u overflow_or \<Rightarrow> fault + 'u overflow_or" where
  "ov_plus add left right = ov_plus_assign add left right"

definition number_plus_ov ::
    "('u \<Rightarrow> 'u \<Rightarrow> 'u overflow_or) \<Rightarrow> 'u \<Rightarrow> 'u overflow_or \<Rightarrow> fault + 'u overflow_or" where
  "number_plus_ov add left right = ov_plus_assign_number add right left"

definition ov_plus_number ::
    "('u \<Rightarrow> 'u \<Rightarrow> 'u overflow_or) \<Rightarrow> 'u overflow_or \<Rightarrow> 'u \<Rightarrow> fault + 'u overflow_or" where
  "ov_plus_number add left right = ov_plus_assign_number add left right"

text \<open>A client that adds up numbers: \<open>for (n : ns) total += n;\<close>\<close>

fun ov_sum :: "'w::len word overflow_or \<Rightarrow> 'w word list \<Rightarrow> fault + 'w word overflow_or" where
  "ov_sum sum_so_far [] = Inr sum_so_far"
| "ov_sum sum_so_far (n # ns) = (case ov_plus_assign_number checked_add sum_so_far n of
      Inl f \<Rightarrow> Inl f | Inr next_sum \<Rightarrow> ov_sum next_sum ns)"

section \<open>Byte order\<close>

definition bswap16 :: "16 word \<Rightarrow> 16 word" where
  "bswap16 v = drop_bit 8 v OR push_bit 8 v"

text \<open>The GCC intrinsics reverse the order of the bytes.\<close>

definition nth_byte :: "nat \<Rightarrow> 'w::len word \<Rightarrow> 'w word" where
  "nth_byte k v = take_bit 8 (drop_bit (8 * k) v)"

definition bswap32 :: "32 word \<Rightarrow> 32 word" where
  "bswap32 v = push_bit 24 (nth_byte 0 v) OR push_bit 16 (nth_byte 1 v) OR push_bit 8 (nth_byte 2 v) OR nth_byte 3 v"

definition bswap64 :: "64 word \<Rightarrow> 64 word" where
  "bswap64 v = push_bit 56 (nth_byte 0 v) OR push_bit 48 (nth_byte 1 v) OR push_bit 40 (nth_byte 2 v) OR
     push_bit 32 (nth_byte 3 v) OR push_bit 24 (nth_byte 4 v) OR push_bit 16 (nth_byte 5 v) OR
     push_bit 8 (nth_byte 6 v) OR nth_byte 7 v"

text \<open>\<open>ntohl\<close> and its siblings on a little-endian or a big-endian host.\<close>

definition ntoh32 :: "bool \<Rightarrow> 32 word \<Rightarrow> 32 word" where
  "ntoh32 little_endian v = (if little_endian then bswap32 v else v)"

definition hton32 :: "bool \<Rightarrow> 32 word \<Rightarrow> 32 word" where
  "hton32 little_endian v = (if little_endian then bswap32 v else v)"

definition ntoh16 :: "bool \<Rightarrow> 16 word \<Rightarrow> 16 word" where
  "ntoh16 little_endian v = (if little_endian then bswap16 v else v)"

definition hton16 :: "bool \<Rightarrow> 16 word \<Rightarrow> 16 word" where
  "hton16 little_endian v = (if little_endian then bswap16 v else v)"

text \<open>How a host lays out a 32-bit number in memory.\<close>

definition bytes_in_memory :: "bool \<Rightarrow> 32 word \<Rightarrow> 32 word list" where
  "bytes_in_memory little_endian v =
     (if little_endian then map (\<lambda>k. nth_byte k v) [0, 1, 2, 3] else map (\<lambda>k. nth_byte k v) [3, 2, 1, 0])"

section \<open>Lemmas\<close>

definition ov_inv :: "'u overflow_or \<Rightarrow> bool" where
  "ov_inv x \<longleftrightarrow> opt_inv (ov_state x)"

definition ov_abs :: "'u overflow_or \<Rightarrow> 'u option" where
  "ov_abs x = opt_abs (ov_state x)"

lemma ov_value_simps [simp]:
  "is_overflow (overflow_or_value v) = False" "is_overflow overflow_or_overflow = True"
  "opt_deref (ov_value (overflow_or_value v)) = Inr v"
  "(overflow_or_value v = overflow_or_value w) = (v = w)"
  "overflow_or_value v \<noteq> overflow_or_overflow"
  by (simp_all add: is_overflow_def overflow_or_value_def overflow_or_overflow_def opt_none_def opt_not_def
      opt_deref_def ov_value_def)

lemma ov_inv_cases:
  assumes "ov_inv x"
  obtains (overflow) "x = overflow_or_overflow" | (number) v where "x = overflow_or_value v"
proof (cases x)
  case (fields s)
  with assms have "opt_inv s" by (simp add: ov_inv_def)
  then show thesis
    by (cases s rule: opt_inv_cases)
       (use fields that in \<open>auto simp: overflow_or_overflow_def overflow_or_value_def opt_none_def\<close>)
qed

lemma checked_add_result:
  fixes a b :: "'w::len word"
  shows "checked_add a b = (if unat a + unat b < 2 ^ LENGTH('w) then overflow_or_value (a + b) else overflow_or_overflow)"
proof (cases "unat a + unat b < 2 ^ LENGTH('w)")
  case False
  moreover have "unat b < 2 ^ LENGTH('w)" by (rule unsigned_less)
  ultimately have "unat a + unat b - 2 ^ LENGTH('w) < unat a" by linarith
  with False show ?thesis by (simp add: checked_add_def Let_def word_less_nat_alt unat_plus_if')
qed (simp add: checked_add_def Let_def word_less_nat_alt unat_plus_if')

lemma ov_plus_assign_simps [simp]:
  "ov_plus_assign add (overflow_or_value a) (overflow_or_value b) = Inr (add a b)"
  "ov_plus_assign add overflow_or_overflow y = Inr overflow_or_overflow"
  "ov_plus_assign add x overflow_or_overflow = Inr x"
  "ov_plus_assign_number add (overflow_or_value a) b = Inr (add a b)"
  "ov_plus_assign_number add overflow_or_overflow b = Inr overflow_or_overflow"
  by (simp_all add: ov_plus_assign_def ov_plus_assign_number_def)

lemma ov_sum_overflow: "ov_sum overflow_or_overflow ns = Inr overflow_or_overflow"
  by (induction ns) simp_all

lemma bit_nth_byte: "bit (nth_byte k v) n \<longleftrightarrow> n < 8 \<and> bit v (8 * k + n)"
  by (simp add: nth_byte_def bit_simps)

lemma bit_bswap16: "bit (bswap16 v) n \<longleftrightarrow> (n < 8 \<and> bit v (8 + n) \<or> 8 \<le> n \<and> n < 16 \<and> bit v (n - 8))"
  by (auto simp: bswap16_def bit_simps dest: bit_imp_le_length)

lemma bit_bswap32:
  assumes "q < 4" "r < 8"
  shows "bit (bswap32 v) (8 * q + r) \<longleftrightarrow> bit v (8 * (3 - q) + r)"
proof -
  from assms(1) consider "q = 0" | "q = 1" | "q = 2" | "q = 3" by linarith
  then show ?thesis
    using assms(2) by cases (simp_all add: bswap32_def bit_simps bit_nth_byte add.commute)
qed

lemma bit_bswap64:
  assumes "q < 8" "r < 8"
  shows "bit (bswap64 v) (8 * q + r) \<longleftrightarrow> bit v (8 * (7 - q) + r)"
proof -
  from assms(1) consider "q = 0" | "q = 1" | "q = 2" | "q = 3" | "q = 4" | "q = 5" | "q = 6" | "q = 7" by linarith
  then show ?thesis
    using assms(2) by cases (simp_all add: bswap64_def bit_simps bit_nth_byte add.commute)
qed

text \<open>Reversing the bytes twice gives the number back.\<close>

lemma reverse_bytes_involution:
  fixes swap :: "'w::len word \<Rightarrow> 'w word"
  assumes w: "LENGTH('w) = 8 * m"
    and bits: "\<And>v q r. q < m \<Longrightarrow> r < 8 \<Longrightarrow> bit (swap v) (8 * q + r) \<longleftrightarrow> bit v (8 * (m - 1 - q) + r)"
  shows "swap (swap v) = v"
proof (rule bit_word_eqI)
  fix n assume "n < LENGTH('w)"
  then have "n div 8 < m" "n mod 8 < 8" using w by auto
  with bits [of "n div 8" "n mod 8" "swap v"] bits [of "m - 1 - n div 8" "n mod 8" v]
  show "bit (swap (swap v)) n \<longleftrightarrow> bit v n" by simp
qed

lemma bswap_involution: "bswap16 (bswap16 a) = a" "bswap32 (bswap32 b) = b" "bswap64 (bswap64 c) = c"
proof -
  show "bswap16 (bswap16 a) = a"
    by (rule bit_word_eqI) (auto simp: bit_bswap16)
  show "bswap32 (bswap32 b) = b"
    by (rule reverse_bytes_involution [where m = 4]) (simp_all add: bit_bswap32)
  show "bswap64 (bswap64 c) = c"
    by (rule reverse_bytes_involution [where m = 8]) (simp_all add: bit_bswap64)
qed

lemma nth_byte_bswap32:
  assumes "k < 4"
  shows "nth_byte k (bswap32 v) = nth_byte (3 - k) v"
  by (rule bit_word_eqI) (use assms bit_bswap32 [OF assms] in \<open>auto simp: bit_nth_byte\<close>)

section \<open>Properties\<close>

text \<open>
  C26: Adding any list of numbers to an \<open>overflow_or\<close> one after the other, in any unsigned type, gives
  the mathematical sum if that fits into the type, and overflow, which no later summand undoes,
  otherwise.
\<close>

theorem checked_sum_exact:
  fixes a :: "'w::len word"
  shows "if unat a + sum_list (map unat ns) < 2 ^ LENGTH('w)
    then \<exists>v. ov_sum (overflow_or_value a) ns = Inr (overflow_or_value v) \<and> unat v = unat a + sum_list (map unat ns)
    else ov_sum (overflow_or_value a) ns = Inr overflow_or_overflow"
proof (induction ns arbitrary: a)
  case (Cons n ns)
  show ?case
  proof (cases "unat a + unat n < 2 ^ LENGTH('w)")
    case True
    then have "unat (a + n) = unat a + unat n" by (simp add: unat_plus_if')
    with Cons.IH [of "a + n"] True show ?thesis by (simp add: checked_add_result add.assoc split: if_splits)
  qed (simp add: checked_add_result ov_sum_overflow)
qed simp

text \<open>
  The sum of two \<open>overflow_or\<close> is an overflow if the left one is, and the checked sum if both are
  numbers; but an overflow on the right is ignored and the left number is the result, although the
  same overflow on the left, or on the right of a plain number, is kept.
\<close>

theorem overflow_on_the_right_is_lost:
  fixes a :: "'w::len word" and x y :: "'w word overflow_or"
  assumes "ov_inv x" "ov_inv y"
  shows "ov_plus checked_add x y = Inr (case (ov_abs x, ov_abs y) of
      (None, _) \<Rightarrow> overflow_or_overflow
    | (Some a, None) \<Rightarrow> overflow_or_value a
    | (Some a, Some b) \<Rightarrow> if unat a + unat b < 2 ^ LENGTH('w) then overflow_or_value (a + b) else overflow_or_overflow) \<and>
    number_plus_ov checked_add a overflow_or_overflow = Inr overflow_or_overflow"
  using assms
  by (elim ov_inv_cases)
     (auto simp: ov_plus_def number_plus_ov_def checked_add_result ov_abs_def overflow_or_overflow_def
       overflow_or_value_def opt_abs_def opt_none_def ov_plus_assign_def ov_plus_assign_number_def
       is_overflow_def opt_not_def opt_deref_def ov_value_def)

lemma overflow_on_the_right_is_lost_witness:
  "ov_plus checked_add (overflow_or_value (7 :: 8 word)) overflow_or_overflow = Inr (overflow_or_value 7)"
  using overflow_on_the_right_is_lost [of "overflow_or_value (7 :: 8 word)" overflow_or_overflow 0]
  by (simp add: ov_inv_def overflow_or_value_def overflow_or_overflow_def opt_inv_def opt_abs_def opt_none_def ov_abs_def)

text \<open>
  On a host of either byte order, a number in network byte order is the same bytes in memory, the
  most significant one first, and the conversion back gives the number; the byte swaps are their own
  inverses.
\<close>

theorem network_byte_order:
  "bytes_in_memory e (hton32 e v) = map (\<lambda>k. nth_byte k v) [3, 2, 1, 0] \<and> ntoh32 e (hton32 e v) = v \<and>
   ntoh16 e (hton16 e u) = u \<and> bswap64 (bswap64 w) = w"
  using bswap_involution
  by (simp add: bytes_in_memory_def hton32_def ntoh32_def hton16_def ntoh16_def nth_byte_bswap32)

end
