(* ===== verification/Bounded_Int.thy ===== *)
theory Bounded_Int
  imports Silicium_Prelude
begin

text \<open>
  \<open>silicium/bounded_int.hpp\<close>, \<open>memory_size.hpp\<close> and \<open>lossless_cast.hpp\<close>: integers with bounds in their
  type.  The underlying type \<open>Int\<close> is a signedness and a width; its values are \<open>int\<close>, and conversions,
  the integer promotions and the usual arithmetic conversions of C++ are written out.  An expression
  that the compiler rejects (a \<open>BOOST_STATIC_ASSERT\<close>, or an overflow in a template argument) is \<open>None\<close>.
\<close>

section \<open>Integer types\<close>

record int_type =
  int_signed :: bool
  int_bits :: nat

definition type_min :: "int_type \<Rightarrow> int" where
  "type_min it = (if int_signed it then - (2 ^ (int_bits it - 1)) else 0)"

definition type_max :: "int_type \<Rightarrow> int" where
  "type_max it = (if int_signed it then 2 ^ (int_bits it - 1) - 1 else 2 ^ int_bits it - 1)"

definition convert :: "int_type \<Rightarrow> int \<Rightarrow> int" where
  "convert it v = (v - type_min it) mod 2 ^ int_bits it + type_min it"

definition int_t :: int_type where
  "int_t = \<lparr>int_signed = True, int_bits = 32\<rparr>"

definition size_t :: int_type where
  "size_t = \<lparr>int_signed = False, int_bits = 64\<rparr>"

definition promote :: "int_type \<Rightarrow> int_type" where
  "promote it = (if int_bits it < 32 then int_t else it)"

definition common_type :: "int_type \<Rightarrow> int_type \<Rightarrow> int_type" where
  "common_type a b =
     (let p = promote a; q = promote b
      in if int_signed p = int_signed q then (if int_bits q \<le> int_bits p then p else q)
         else if int_signed p then (if int_bits p \<le> int_bits q then q else p)
         else (if int_bits q \<le> int_bits p then p else q))"

text \<open>\<open>x < y\<close> for operands of the types \<open>a\<close> and \<open>b\<close>.\<close>

definition c_less :: "int_type \<Rightarrow> int \<Rightarrow> int_type \<Rightarrow> int \<Rightarrow> bool" where
  "c_less a x b y = (convert (common_type a b) x < convert (common_type a b) y)"

section \<open>bounded_int\<close>

text \<open>The template arguments, and an object with the type it has.\<close>

record bounded_type =
  bound_int :: int_type
  bound_min :: int
  bound_max :: int

record bounded_int =
  bi_type :: bounded_type
  bi_stored :: int

text \<open>\<open>compact_int\<close> stores nothing if there is only one possible value.\<close>

definition compact_int :: "bounded_type \<Rightarrow> int \<Rightarrow> int" where
  "compact_int bt v = (if bound_min bt = bound_max bt then bound_min bt else v)"

definition bi_value :: "bounded_int \<Rightarrow> int" where
  "bi_value x = bi_stored x"

definition make_bounded :: "bounded_type \<Rightarrow> int \<Rightarrow> bounded_int" where
  "make_bounded bt v = \<lparr>bi_type = bt, bi_stored = compact_int bt v\<rparr>"

text \<open>The optional results are options of HOL, which \<open>Optional\<close> relates to objects of the library.\<close>

definition bi_create :: "bounded_type \<Rightarrow> int \<Rightarrow> bounded_int option" where
  "bi_create bt v = (if v < bound_min bt then None
     else if bound_max bt < v then None
     else Some (make_bounded bt v))"

definition bi_create_or_throw :: "bounded_type \<Rightarrow> int \<Rightarrow> string + bounded_int" where
  "bi_create_or_throw bt v = (if v < bound_min bt then Inl ''bounded_int''
     else if bound_max bt < v then Inl ''bounded_int''
     else Inr (make_bounded bt v))"

text \<open>From a bounded integer of another type: the comparisons are between different integer types.\<close>

definition bi_create_from :: "bounded_type \<Rightarrow> bounded_int \<Rightarrow> bounded_int option" where
  "bi_create_from bt other =
     (if c_less (bound_int (bi_type other)) (bi_value other) (bound_int bt) (bound_min bt) then None
      else if c_less (bound_int bt) (bound_max bt) (bound_int (bi_type other)) (bi_value other) then None
      else Some (make_bounded bt (convert (bound_int bt) (bi_value other))))"

definition bi_widen :: "bounded_type \<Rightarrow> bounded_int \<Rightarrow> bounded_int option" where
  "bi_widen bt other =
     (if bound_min bt \<le> bound_min (bi_type other) \<and> bound_max (bi_type other) \<le> bound_max bt
      then Some (make_bounded bt (bi_value other)) else None)"

definition bi_literal :: "bounded_type \<Rightarrow> int \<Rightarrow> bounded_int option" where
  "bi_literal bt l = (if bound_min bt \<le> l \<and> l \<le> bound_max bt then Some (make_bounded bt l) else None)"

text \<open>The free \<open>literal<Int, Value>()\<close>.\<close>

definition literal :: "int_type \<Rightarrow> int \<Rightarrow> bounded_int option" where
  "literal it v = bi_literal \<lparr>bound_int = it, bound_min = v, bound_max = v\<rparr> v"

definition with_bounds :: "bounded_int \<Rightarrow> int \<Rightarrow> int \<Rightarrow> bounded_type" where
  "with_bounds x new_min new_max = (bi_type x)\<lparr>bound_min := new_min, bound_max := new_max\<rparr>"

definition bi_clamp :: "int \<Rightarrow> int \<Rightarrow> bounded_int \<Rightarrow> fault + bounded_int" where
  "bi_clamp new_min new_max x =
     (case bi_create (with_bounds x new_min new_max) (max new_min (min new_max (bi_value x))) of
        None \<Rightarrow> Inl Assertion_Failed | Some y \<Rightarrow> Inr y)"

definition bi_narrow :: "int \<Rightarrow> int \<Rightarrow> bounded_int \<Rightarrow> bounded_int option" where
  "bi_narrow new_min new_max x = bi_create (with_bounds x new_min new_max) (bi_value x)"

definition comparable :: "bounded_type \<Rightarrow> bounded_type \<Rightarrow> bool" where
  "comparable l r \<longleftrightarrow> (bound_min r < bound_max l \<and> bound_min l \<le> bound_min r) \<or>
     (bound_min l < bound_max r \<and> bound_min r \<le> bound_min l)"

definition bi_equal :: "bounded_int \<Rightarrow> bounded_int \<Rightarrow> bool option" where
  "bi_equal l r = (if comparable (bi_type l) (bi_type r) then Some (bi_value l = bi_value r) else None)"

definition bi_less :: "bounded_int \<Rightarrow> bounded_int \<Rightarrow> bool option" where
  "bi_less l r = (if comparable (bi_type l) (bi_type r) then Some (bi_value l < bi_value r) else None)"

text \<open>\<open>0 + value()\<close> promotes a character to \<open>int\<close>; \<open>show_int\<close> is the output of an integer.\<close>

definition bi_print :: "(int \<Rightarrow> string) \<Rightarrow> bounded_int \<Rightarrow> string" where
  "bi_print show_int x = show_int (convert (common_type int_t (bound_int (bi_type x))) (0 + bi_value x))"

text \<open>
  A template argument of type \<open>Int\<close> that is computed: an unsigned type wraps around, in a signed type
  the overflow is rejected, as it is when narrowing the promoted result back to a small type.
\<close>

definition static_value :: "int_type \<Rightarrow> int \<Rightarrow> int option" where
  "static_value it v =
     (if \<not> int_signed it \<and> 32 \<le> int_bits it then Some (convert it v)
      else if type_min it \<le> v \<and> v \<le> type_max it then Some v else None)"

definition result_type :: "(int \<Rightarrow> int \<Rightarrow> int) \<Rightarrow> bounded_type \<Rightarrow> bounded_type \<Rightarrow> bounded_type option" where
  "result_type f l r =
     (case (static_value (bound_int l) (f (bound_min l) (bound_min r)),
            static_value (bound_int l) (f (bound_max l) (bound_max r))) of
        (Some new_min, Some new_max) \<Rightarrow>
          (if new_min \<le> new_max then Some \<lparr>bound_int = bound_int l, bound_min = new_min, bound_max = new_max\<rparr> else None)
      | _ \<Rightarrow> None)"

definition bi_plus :: "bounded_int \<Rightarrow> bounded_int \<Rightarrow> (fault + bounded_int) option" where
  "bi_plus l r = map_option (\<lambda>bt.
     case bi_create bt (convert (bound_int bt) (bi_value l + bi_value r)) of
       None \<Rightarrow> Inl Assertion_Failed | Some z \<Rightarrow> Inr z) (result_type (+) (bi_type l) (bi_type r))"

definition bi_times :: "bounded_int \<Rightarrow> bounded_int \<Rightarrow> (string + bounded_int) option" where
  "bi_times l r = map_option (\<lambda>bt. bi_create_or_throw bt (convert (bound_int bt) (bi_value l * bi_value r)))
     (result_type (*) (bi_type l) (bi_type r))"

definition is_always_less :: "bounded_type \<Rightarrow> bounded_type \<Rightarrow> bool option" where
  "is_always_less l r = (if bound_min l \<le> bound_max l \<and> bound_min r \<le> bound_max r
     then Some (bound_max l < bound_min r) else None)"

section \<open>memory_size\<close>

record memory_size =
  ms_element_size :: nat
  ms_value :: bounded_int

definition make_memory_size :: "nat \<Rightarrow> bounded_int \<Rightarrow> memory_size" where
  "make_memory_size element_size v = \<lparr>ms_element_size = element_size, ms_value = v\<rparr>"

definition as_chars :: "memory_size \<Rightarrow> (string + memory_size) option" where
  "as_chars s = Option.bind (literal size_t (int (ms_element_size s)))
     (\<lambda>l. map_option (map_sum id (make_memory_size 1)) (bi_times (ms_value s) l))"

section \<open>lossless_cast\<close>

text \<open>Only casts between types of the same signedness, to a type that is at least as wide, compile.\<close>

definition lossless_cast :: "int_type \<Rightarrow> int_type \<Rightarrow> int \<Rightarrow> int option" where
  "lossless_cast to_type from_type v =
     (if int_signed to_type = int_signed from_type \<and> int_bits from_type \<le> int_bits to_type
      then Some (convert to_type v) else None)"

section \<open>Lemmas\<close>

definition int_type_ok :: "int_type \<Rightarrow> bool" where
  "int_type_ok it \<longleftrightarrow> 0 < int_bits it"

definition representable :: "int_type \<Rightarrow> int \<Rightarrow> bool" where
  "representable it v \<longleftrightarrow> type_min it \<le> v \<and> v \<le> type_max it"

definition bounded_type_ok :: "bounded_type \<Rightarrow> bool" where
  "bounded_type_ok bt \<longleftrightarrow> int_type_ok (bound_int bt) \<and> bound_min bt \<le> bound_max bt \<and>
     representable (bound_int bt) (bound_min bt) \<and> representable (bound_int bt) (bound_max bt)"

definition bi_inv :: "bounded_int \<Rightarrow> bool" where
  "bi_inv x \<longleftrightarrow> bounded_type_ok (bi_type x) \<and> bound_min (bi_type x) \<le> bi_value x \<and> bi_value x \<le> bound_max (bi_type x)"

lemma type_range: "int_type_ok it \<Longrightarrow> type_max it = type_min it + 2 ^ int_bits it - 1"
  by (cases "int_bits it") (auto simp: type_min_def type_max_def int_type_ok_def)

lemma convert_representable: "int_type_ok it \<Longrightarrow> representable it v \<Longrightarrow> convert it v = v"
  using type_range [of it] by (simp add: convert_def representable_def)

lemma representable_convert: "int_type_ok it \<Longrightarrow> representable it (convert it v)"
  using type_range [of it] pos_mod_bound [of "2 ^ int_bits it" "v - type_min it"]
  by (simp add: convert_def representable_def)

lemma make_bounded_simps [simp]:
  "bi_type (make_bounded bt v) = bt"
  "bound_min bt \<le> v \<Longrightarrow> v \<le> bound_max bt \<Longrightarrow> bi_value (make_bounded bt v) = v"
  by (auto simp: make_bounded_def compact_int_def bi_value_def)

lemma bi_create_result:
  "bi_create bt v = (if bound_min bt \<le> v \<and> v \<le> bound_max bt then Some (make_bounded bt v) else None)"
  by (auto simp: bi_create_def)

lemma bi_create_or_throw_result:
  "bi_create_or_throw bt v = (if bound_min bt \<le> v \<and> v \<le> bound_max bt then Inr (make_bounded bt v) else Inl ''bounded_int'')"
  by (auto simp: bi_create_or_throw_def)

lemma bi_inv_make_bounded:
  "bounded_type_ok bt \<Longrightarrow> bound_min bt \<le> v \<Longrightarrow> v \<le> bound_max bt \<Longrightarrow> bi_inv (make_bounded bt v)"
  by (simp add: bi_inv_def)

lemma representable_between:
  "representable it a \<Longrightarrow> representable it b \<Longrightarrow> a \<le> v \<Longrightarrow> v \<le> b \<Longrightarrow> representable it v"
  by (simp add: representable_def)

lemma static_value_representable:
  assumes "int_type_ok it"
  shows "representable it v \<Longrightarrow> static_value it v = Some v"
    and "static_value it v = Some w \<Longrightarrow> representable it w"
    and "static_value it v = Some w \<Longrightarrow> w \<noteq> v \<Longrightarrow> \<not> int_signed it \<and> \<not> representable it v"
  using convert_representable [OF assms] representable_convert [OF assms]
  by (auto simp: static_value_def representable_def split: if_splits)

lemma result_type_ok:
  assumes "int_type_ok (bound_int l)" "result_type f l r = Some bt"
  shows "bounded_type_ok bt" "bound_int bt = bound_int l"
    "static_value (bound_int l) (f (bound_min l) (bound_min r)) = Some (bound_min bt)"
    "static_value (bound_int l) (f (bound_max l) (bound_max r)) = Some (bound_max bt)"
  using assms static_value_representable(2) [OF assms(1)]
  by (auto simp: result_type_def bounded_type_ok_def split: option.splits if_splits)

lemma result_type_exact:
  assumes "int_type_ok (bound_int l)" "representable (bound_int l) (f (bound_min l) (bound_min r))"
    "representable (bound_int l) (f (bound_max l) (bound_max r))" "f (bound_min l) (bound_min r) \<le> f (bound_max l) (bound_max r)"
  shows "result_type f l r = Some \<lparr>bound_int = bound_int l, bound_min = f (bound_min l) (bound_min r),
    bound_max = f (bound_max l) (bound_max r)\<rparr>"
  using static_value_representable(1) [OF assms(1)] assms by (simp add: result_type_def)

section \<open>Properties\<close>

text \<open>
  C27: The sum of two bounded integers of the same \<open>Int\<close>.  When the sums of the bounds fit into \<open>Int\<close>, the
  expression compiles and returns the mathematical sum, in the bounds of the new type.  When they do
  not, it does not compile, or \<open>Int\<close> is unsigned and the bounds wrap around: then the assertion fails
  or the result is the sum modulo \<open>2 ^ w\<close>.
\<close>

theorem bounded_plus_exact:
  assumes inv: "bi_inv x" "bi_inv y" and int: "bound_int (bi_type y) = bound_int (bi_type x)"
  defines "it \<equiv> bound_int (bi_type x)"
  defines "fits \<equiv> representable it (bound_min (bi_type x) + bound_min (bi_type y)) \<and>
    representable it (bound_max (bi_type x) + bound_max (bi_type y))"
  shows "case bi_plus x y of
      None \<Rightarrow> \<not> fits
    | Some (Inl f) \<Rightarrow> f = Assertion_Failed \<and> \<not> int_signed it \<and> \<not> fits
    | Some (Inr z) \<Rightarrow> bi_inv z \<and> bi_value z =
        (if fits then bi_value x + bi_value y else (bi_value x + bi_value y) mod 2 ^ int_bits it)"
proof -
  let ?l = "bi_type x" and ?r = "bi_type y"
  have ok: "int_type_ok it" using inv by (simp add: bi_inv_def bounded_type_ok_def it_def)
  show ?thesis
  proof (cases fits)
    case True
    let ?bt = "\<lparr>bound_int = it, bound_min = bound_min ?l + bound_min ?r, bound_max = bound_max ?l + bound_max ?r\<rparr>"
    have "result_type (+) ?l ?r = Some ?bt"
      using result_type_exact [of ?l "(+)" ?r] True ok inv
      by (simp add: it_def fits_def bi_inv_def bounded_type_ok_def)
    moreover have b: "bound_min ?bt \<le> bi_value x + bi_value y" "bi_value x + bi_value y \<le> bound_max ?bt"
      using inv by (simp_all add: bi_inv_def)
    moreover have "convert it (bi_value x + bi_value y) = bi_value x + bi_value y"
      using representable_between [of it "bound_min ?bt" "bound_max ?bt"] True b ok
      by (simp add: fits_def convert_representable)
    moreover have "bounded_type_ok ?bt" using True ok inv by (simp add: bounded_type_ok_def fits_def bi_inv_def)
    ultimately show ?thesis
      using b True bi_inv_make_bounded [of ?bt "bi_value x + bi_value y"] by (simp add: bi_plus_def bi_create_result)
  next
    case False
    show ?thesis
    proof (cases "result_type (+) ?l ?r")
      case (Some bt)
      note bt = result_type_ok [OF ok [unfolded it_def] Some]
      have "\<not> int_signed it"
        using False bt(3,4) static_value_representable(1,2,3) [OF ok] unfolding fits_def it_def by metis
      then have "convert it v = v mod 2 ^ int_bits it" for v by (simp add: convert_def type_min_def)
      with \<open>\<not> int_signed it\<close> show ?thesis using Some False bt(1,2) bi_inv_make_bounded [OF bt(1)]
        by (auto simp: bi_plus_def bi_create_result it_def)
    qed (simp add: bi_plus_def False)
  qed
qed

lemma bounded_plus_exact_witness:
  "case bi_plus (make_bounded \<lparr>bound_int = int_t, bound_min = -1, bound_max = 2\<rparr> 2)
     (make_bounded \<lparr>bound_int = int_t, bound_min = 0, bound_max = 1\<rparr> 1) of
      None \<Rightarrow> False | Some (Inl f) \<Rightarrow> False | Some (Inr z) \<Rightarrow> bi_value z = 3"
proof -
  let ?x = "make_bounded \<lparr>bound_int = int_t, bound_min = -1, bound_max = 2\<rparr> 2"
    and ?y = "make_bounded \<lparr>bound_int = int_t, bound_min = 0, bound_max = 1\<rparr> 1"
  have "bi_inv ?x" "bi_inv ?y" "bound_int (bi_type ?y) = bound_int (bi_type ?x)"
    by (simp_all add: bi_inv_def bounded_type_ok_def int_type_ok_def representable_def type_min_def type_max_def int_t_def)
  from bounded_plus_exact [OF this] show ?thesis
    by (auto simp: representable_def type_min_def type_max_def int_t_def split: option.splits sum.splits)
qed

lemma bounded_times:
  assumes inv: "bi_inv x" "bi_inv y" and int: "bound_int (bi_type y) = bound_int (bi_type x)"
    and nonneg: "0 \<le> bound_min (bi_type x)" "0 \<le> bound_min (bi_type y)"
    and fits: "representable (bound_int (bi_type x)) (bound_max (bi_type x) * bound_max (bi_type y))"
  shows "\<exists>z. bi_times x y = Some (Inr z) \<and> bi_inv z \<and> bi_value z = bi_value x * bi_value y"
proof -
  let ?it = "bound_int (bi_type x)"
  let ?bt = "\<lparr>bound_int = ?it, bound_min = bound_min (bi_type x) * bound_min (bi_type y),
    bound_max = bound_max (bi_type x) * bound_max (bi_type y)\<rparr>"
  have ok: "int_type_ok ?it" using inv by (simp add: bi_inv_def bounded_type_ok_def)
  have order: "bound_min ?bt \<le> bi_value x * bi_value y" "bi_value x * bi_value y \<le> bound_max ?bt"
    using inv nonneg by (auto simp: bi_inv_def intro!: mult_mono)
  moreover have "type_min ?it \<le> 0" by (simp add: type_min_def)
  then have rep: "representable ?it (bound_min ?bt)" "representable ?it (bi_value x * bi_value y)"
    using fits order mult_nonneg_nonneg [OF nonneg] by (simp_all add: representable_def)
  moreover have "result_type (*) (bi_type x) (bi_type y) = Some ?bt"
    using result_type_exact [of "bi_type x" "(*)" "bi_type y"] ok rep(1) fits order by simp
  moreover have "bounded_type_ok ?bt" using ok rep fits order by (simp add: bounded_type_ok_def)
  ultimately show ?thesis
    using bi_inv_make_bounded [of ?bt "bi_value x * bi_value y"] ok
    by (simp add: bi_times_def bi_create_or_throw_result convert_representable)
qed

text \<open>
  The product of two bounded integers without negative bounds is the mathematical product, in the
  bounds of the new type, if the product of the maxima fits into \<open>Int\<close>.  With negative bounds the new
  bounds are wrong, the products of the minima and of the maxima: the multiplication of in-range
  operands can throw \<open>out_of_range\<close>.
\<close>

theorem bounded_times_exact:
  assumes inv: "bi_inv x" "bi_inv y" and int: "bound_int (bi_type y) = bound_int (bi_type x)"
    and nonneg: "0 \<le> bound_min (bi_type x)" "0 \<le> bound_min (bi_type y)"
    and fits: "representable (bound_int (bi_type x)) (bound_max (bi_type x) * bound_max (bi_type y))"
  shows "(\<exists>z. bi_times x y = Some (Inr z) \<and> bi_inv z \<and> bi_value z = bi_value x * bi_value y) \<and>
    (let a = make_bounded \<lparr>bound_int = int_t, bound_min = -2, bound_max = 3\<rparr>
     in bi_inv (a (-2)) \<and> bi_inv (a 3) \<and> bi_times (a (-2)) (a 3) = Some (Inl ''bounded_int''))"
proof
  show "\<exists>z. bi_times x y = Some (Inr z) \<and> bi_inv z \<and> bi_value z = bi_value x * bi_value y"
    by (rule bounded_times [OF assms])
  show "let a = make_bounded \<lparr>bound_int = int_t, bound_min = -2, bound_max = 3\<rparr>
     in bi_inv (a (-2)) \<and> bi_inv (a 3) \<and> bi_times (a (-2)) (a 3) = Some (Inl ''bounded_int'')"
    by (simp add: Let_def bi_inv_def bounded_type_ok_def int_type_ok_def representable_def type_min_def type_max_def
        int_t_def bi_times_def result_type_def static_value_def convert_def bi_create_or_throw_result)
qed

lemma bounded_times_exact_witness:
  "\<exists>z. bi_times (make_bounded \<lparr>bound_int = size_t, bound_min = 2, bound_max = 5\<rparr> 4)
     (make_bounded \<lparr>bound_int = size_t, bound_min = 0, bound_max = 8\<rparr> 8) = Some (Inr z) \<and> bi_value z = 32"
proof -
  let ?x = "make_bounded \<lparr>bound_int = size_t, bound_min = 2, bound_max = 5\<rparr> 4"
    and ?y = "make_bounded \<lparr>bound_int = size_t, bound_min = 0, bound_max = 8\<rparr> 8"
  have "bi_inv ?x" "bi_inv ?y" "bound_int (bi_type ?y) = bound_int (bi_type ?x)"
    "0 \<le> bound_min (bi_type ?x)" "0 \<le> bound_min (bi_type ?y)"
    "representable (bound_int (bi_type ?x)) (bound_max (bi_type ?x) * bound_max (bi_type ?y))"
    by (simp_all add: bi_inv_def bounded_type_ok_def int_type_ok_def representable_def type_min_def type_max_def size_t_def)
  from bounded_times_exact [OF this] show ?thesis by auto
qed

text \<open>A negative value against unsigned bounds that are at least as wide wraps around once.\<close>

lemma bi_create_from_negative:
  assumes inv: "bi_inv x" and ok: "bounded_type_ok bt"
    and neg: "int_signed (bound_int (bi_type x))" "bi_value x < 0" "\<not> int_signed (bound_int bt)" "32 \<le> int_bits (bound_int bt)"
      "int_bits (bound_int (bi_type x)) \<le> int_bits (bound_int bt)"
  shows "bi_create_from bt x = (let w = bi_value x + 2 ^ int_bits (bound_int bt)
    in if bound_min bt \<le> w \<and> w \<le> bound_max bt then Some (make_bounded bt w) else None)"
proof -
  let ?n = "int_bits (bound_int bt)" and ?m = "int_bits (bound_int (bi_type x))"
  have c: "common_type (bound_int (bi_type x)) (bound_int bt) = bound_int bt" "common_type (bound_int bt) (bound_int (bi_type x)) = bound_int bt"
    using neg by (auto simp: common_type_def Let_def promote_def int_t_def)
  have "- (2 ^ (?m - 1)) \<le> bi_value x"
    using inv neg(1) by (auto simp: bi_inv_def bounded_type_ok_def representable_def type_min_def)
  moreover have "(2::int) ^ (?m - 1) \<le> 2 ^ ?n" using neg(5) by (intro power_increasing) auto
  ultimately have "(bi_value x + 2 ^ ?n) mod 2 ^ ?n = bi_value x + 2 ^ ?n"
    using neg(2) by (intro mod_pos_pos_trivial) linarith+
  then have "convert (bound_int bt) (bi_value x) = bi_value x + 2 ^ ?n"
    using neg(3) by (simp add: convert_def type_min_def)
  moreover have "convert (bound_int bt) (bound_min bt) = bound_min bt" "convert (bound_int bt) (bound_max bt) = bound_max bt"
    using ok by (simp_all add: bounded_type_ok_def convert_representable)
  ultimately show ?thesis using c by (auto simp: bi_create_from_def c_less_def Let_def)
qed

text \<open>
  \<open>create\<close> from a bounded integer of another \<open>Int\<close>: if the value and the bounds mean the same in the
  common type of the two, it accepts exactly the values within the bounds, and keeps them.  Otherwise
  it may accept a wrong value: a negative value of a signed type that is no wider than the unsigned
  \<open>Int\<close> is accepted as \<open>value + 2 ^ w\<close> whenever that is within the bounds.
\<close>

theorem bounded_create_from:
  assumes inv: "bi_inv x" and ok: "bounded_type_ok bt"
  defines "c \<equiv> common_type (bound_int (bi_type x)) (bound_int bt)"
  shows "if representable c (bi_value x) \<and> representable c (bound_min bt) \<and> representable c (bound_max bt)
    then bi_create_from bt x = (if bound_min bt \<le> bi_value x \<and> bi_value x \<le> bound_max bt
      then Some (make_bounded bt (bi_value x)) else None)
    else (int_signed (bound_int (bi_type x)) \<and> bi_value x < 0 \<and> \<not> int_signed (bound_int bt) \<and> 32 \<le> int_bits (bound_int bt) \<and>
       int_bits (bound_int (bi_type x)) \<le> int_bits (bound_int bt)
      \<longrightarrow> bi_create_from bt x = (let w = bi_value x + 2 ^ int_bits (bound_int bt)
            in if bound_min bt \<le> w \<and> w \<le> bound_max bt then Some (make_bounded bt w) else None))"
proof (cases "representable c (bi_value x) \<and> representable c (bound_min bt) \<and> representable c (bound_max bt)")
  case True
  have pos: "int_type_ok (bound_int bt)" "int_type_ok (bound_int (bi_type x))"
    using inv ok by (simp_all add: bi_inv_def bounded_type_ok_def)
  have comm: "common_type (bound_int bt) (bound_int (bi_type x)) = c"
    by (auto simp: c_def common_type_def Let_def promote_def int_t_def)
  have "int_type_ok c" using pos by (auto simp: c_def common_type_def Let_def promote_def int_t_def int_type_ok_def)
  with True have "convert c (bi_value x) = bi_value x" "convert c (bound_min bt) = bound_min bt" "convert c (bound_max bt) = bound_max bt"
    by (simp_all add: convert_representable)
  moreover have "convert (bound_int bt) (bi_value x) = bi_value x" if "bound_min bt \<le> bi_value x" "bi_value x \<le> bound_max bt"
    using representable_between [OF _ _ that, of "bound_int bt"] ok pos(1)
    by (simp add: bounded_type_ok_def convert_representable)
  ultimately show ?thesis using True comm by (auto simp: bi_create_from_def c_less_def c_def)
next
  case False
  with bi_create_from_negative [OF inv ok] show ?thesis by auto
qed

lemma bounded_create_from_witness:
  "bi_create_from \<lparr>bound_int = size_t, bound_min = 0, bound_max = 2 ^ 64 - 1\<rparr>
     (make_bounded \<lparr>bound_int = int_t, bound_min = -5, bound_max = 5\<rparr> (-1)) =
   Some (make_bounded \<lparr>bound_int = size_t, bound_min = 0, bound_max = 2 ^ 64 - 1\<rparr> (2 ^ 64 - 1))"
proof -
  let ?x = "make_bounded \<lparr>bound_int = int_t, bound_min = -5, bound_max = 5\<rparr> (-1)"
    and ?bt = "\<lparr>bound_int = size_t, bound_min = 0, bound_max = 2 ^ 64 - 1\<rparr>"
  have "bi_inv ?x" "bounded_type_ok ?bt"
    by (simp_all add: bi_inv_def bounded_type_ok_def int_type_ok_def representable_def type_min_def type_max_def size_t_def int_t_def)
  from bounded_create_from [OF this] show ?thesis
    by (simp add: representable_def type_min_def type_max_def size_t_def int_t_def common_type_def promote_def Let_def)
qed

text \<open>
  \<open>as_chars\<close> of a number of elements of \<open>n\<close> bytes is the number of bytes, a multiple of \<open>n\<close> within the
  bounds, if the greatest possible one is below \<open>2 ^ 64\<close>.
\<close>

theorem as_chars_exact:
  assumes "bi_inv (ms_value s)" "bound_int (bi_type (ms_value s)) = size_t"
    and "bound_max (bi_type (ms_value s)) * int (ms_element_size s) < 2 ^ 64" "0 < bound_max (bi_type (ms_value s))"
  shows "\<exists>t. as_chars s = Some (Inr t) \<and> ms_element_size t = 1 \<and> bi_inv (ms_value t) \<and>
    bi_value (ms_value t) = bi_value (ms_value s) * int (ms_element_size s)"
proof -
  let ?n = "int (ms_element_size s)" and ?x = "ms_value s"
  let ?lt = "\<lparr>bound_int = size_t, bound_min = ?n, bound_max = ?n\<rparr>"
  have "?n \<le> bound_max (bi_type ?x) * ?n" using assms(4) by (simp add: mult_le_cancel_right1)
  with assms(3) have n: "?n < 2 ^ 64" by linarith
  have l: "literal size_t ?n = Some (make_bounded ?lt ?n)" by (simp add: literal_def bi_literal_def)
  have "bi_inv (make_bounded ?lt ?n)"
    using n by (intro bi_inv_make_bounded)
      (simp_all add: bounded_type_ok_def int_type_ok_def size_t_def representable_def type_min_def type_max_def)
  moreover have "0 \<le> bound_min (bi_type ?x)"
    using assms(1,2) by (simp add: bi_inv_def bounded_type_ok_def representable_def type_min_def size_t_def)
  moreover have "0 \<le> bound_max (bi_type ?x) * ?n" using assms(4) by simp
  then have "representable size_t (bound_max (bi_type ?x) * ?n)"
    using assms(3) by (simp add: representable_def type_min_def type_max_def size_t_def)
  ultimately obtain z where "bi_times ?x (make_bounded ?lt ?n) = Some (Inr z)" "bi_inv z" "bi_value z = bi_value ?x * ?n"
    using bounded_times [OF assms(1), of "make_bounded ?lt ?n"] assms(2) by auto
  then show ?thesis using l by (simp add: as_chars_def make_memory_size_def)
qed

lemma as_chars_exact_witness:
  "\<exists>t. as_chars (make_memory_size 4 (make_bounded \<lparr>bound_int = size_t, bound_min = 0, bound_max = 100\<rparr> 7)) = Some (Inr t) \<and>
     bi_value (ms_value t) = 28"
proof -
  let ?s = "make_memory_size 4 (make_bounded \<lparr>bound_int = size_t, bound_min = 0, bound_max = 100\<rparr> 7)"
  have "bi_inv (ms_value ?s)" "bound_int (bi_type (ms_value ?s)) = size_t"
    "bound_max (bi_type (ms_value ?s)) * int (ms_element_size ?s) < 2 ^ 64" "0 < bound_max (bi_type (ms_value ?s))"
    by (simp_all add: make_memory_size_def bi_inv_def bounded_type_ok_def int_type_ok_def representable_def
        type_min_def type_max_def size_t_def)
  from as_chars_exact [OF this] show ?thesis by (auto simp: make_memory_size_def)
qed

text \<open>
  \<open>clamp\<close> to any bounds that \<open>Int\<close> can represent never fails its assertion and gives the nearest
  value within them; \<open>narrow\<close> keeps the value or gives \<open>none\<close>; a \<open>lossless_cast\<close> that compiles keeps it.
\<close>

theorem bounded_clamp_narrow:
  assumes "bi_inv x" "bounded_type_ok (with_bounds x lo hi)"
  shows "(\<exists>y. bi_clamp lo hi x = Inr y \<and> bi_inv y \<and>
      bi_value y = (if bi_value x < lo then lo else if hi < bi_value x then hi else bi_value x)) \<and>
    (case bi_narrow lo hi x of
       Some y \<Rightarrow> bi_inv y \<and> bi_value y = bi_value x | None \<Rightarrow> bi_value x < lo \<or> hi < bi_value x) \<and>
    (\<forall>t. lossless_cast t (bound_int (bi_type x)) (bi_value x) \<in> {None, Some (bi_value x)})"
proof (intro conjI allI)
  have b: "lo \<le> hi" using assms(2) by (simp add: bounded_type_ok_def with_bounds_def)
  show "\<exists>y. bi_clamp lo hi x = Inr y \<and> bi_inv y \<and>
      bi_value y = (if bi_value x < lo then lo else if hi < bi_value x then hi else bi_value x)"
    using b bi_inv_make_bounded [OF assms(2), of "max lo (min hi (bi_value x))"]
    by (auto simp: bi_clamp_def bi_create_result with_bounds_def max_def min_def)
  show "case bi_narrow lo hi x of Some y \<Rightarrow> bi_inv y \<and> bi_value y = bi_value x | None \<Rightarrow> bi_value x < lo \<or> hi < bi_value x"
    using bi_inv_make_bounded [OF assms(2), of "bi_value x"]
    by (auto simp: bi_narrow_def bi_create_result with_bounds_def)
  fix t
  let ?f = "bound_int (bi_type x)"
  have f: "int_type_ok ?f" "representable ?f (bi_value x)"
    using assms(1) representable_between by (auto simp: bi_inv_def bounded_type_ok_def)
  show "lossless_cast t ?f (bi_value x) \<in> {None, Some (bi_value x)}"
  proof (cases "int_signed t = int_signed ?f \<and> int_bits ?f \<le> int_bits t")
    case True
    have "(2::int) ^ (int_bits ?f - 1) \<le> 2 ^ (int_bits t - 1)" "(2::int) ^ int_bits ?f \<le> 2 ^ int_bits t"
      using True by (auto intro!: power_increasing)
    then have "type_min t \<le> type_min ?f" "type_max ?f \<le> type_max t"
      using True unfolding type_min_def type_max_def by (cases "int_signed t"; simp only: if_True if_False)+
    then have "representable t (bi_value x)" "int_type_ok t"
      using f True by (auto simp: representable_def int_type_ok_def)
    then show ?thesis using True by (simp add: lossless_cast_def convert_representable)
  qed (auto simp: lossless_cast_def)
qed

lemma bounded_clamp_narrow_witness:
  "\<exists>y. bi_clamp 1 4 (make_bounded \<lparr>bound_int = int_t, bound_min = -9, bound_max = 9\<rparr> 7) = Inr y \<and> bi_value y = 4"
proof -
  let ?x = "make_bounded \<lparr>bound_int = int_t, bound_min = -9, bound_max = 9\<rparr> 7"
  have "bi_inv ?x" "bounded_type_ok (with_bounds ?x 1 4)"
    by (simp_all add: with_bounds_def bi_inv_def bounded_type_ok_def int_type_ok_def representable_def
        type_min_def type_max_def int_t_def)
  from bounded_clamp_narrow [OF this] show ?thesis by auto
qed

end
