(* ===== verification/Ranges.thy ===== *)
theory Ranges
  imports Bounded_Int
begin

text \<open>
  \<open>silicium/iterator_range.hpp\<close>, \<open>memory_range.hpp\<close>, \<open>range_value.hpp\<close> and \<open>array_view.hpp\<close>: pairs of random access
  iterators, and views of arrays whose length has bounds in its type.  An iterator is a position in an
  array of elements; \<open>difference_type\<close> is \<open>int\<close>.  Forming an iterator outside the array or
  dereferencing one that points to no element is the fault \<open>Out_Of_Range\<close>.
\<close>

section \<open>iterator_range\<close>

record 'e iterator_range =
  range_array :: "'e list"
  range_begin :: int
  range_end :: int

definition empty_iterator_range :: "'e iterator_range" where
  "empty_iterator_range = \<lparr>range_array = [], range_begin = 0, range_end = 0\<rparr>"

definition valid_position :: "'e list \<Rightarrow> int \<Rightarrow> bool" where
  "valid_position arr p \<longleftrightarrow> 0 \<le> p \<and> p \<le> int (length arr)"

definition dereference :: "'e list \<Rightarrow> int \<Rightarrow> fault + 'e" where
  "dereference arr p = (if 0 \<le> p \<and> p < int (length arr) then Inr (arr ! nat p) else Inl Out_Of_Range)"

definition range_empty :: "'e iterator_range \<Rightarrow> bool" where
  "range_empty r = (range_begin r = range_end r)"

definition range_size :: "'e iterator_range \<Rightarrow> int" where
  "range_size r = range_end r - range_begin r"

definition advance_begin :: "int \<Rightarrow> ('e iterator_range, 'x, unit) op" where
  "advance_begin n r = (if valid_position (range_array r) (range_begin r + n)
     then Ok () (r\<lparr>range_begin := range_begin r + n\<rparr>) else Fault Out_Of_Range)"

definition range_pop_front_n :: "int \<Rightarrow> ('e iterator_range, 'x, unit) op" where
  "range_pop_front_n n r = (if \<not> n \<le> range_size r then Fault Assertion_Failed else advance_begin n r)"

definition range_pop_front :: "('e iterator_range, 'x, unit) op" where
  "range_pop_front r = (if range_empty r then Fault Assertion_Failed else advance_begin 1 r)"

definition range_front :: "'e iterator_range \<Rightarrow> fault + 'e" where
  "range_front r = (if range_empty r then Inl Assertion_Failed else dereference (range_array r) (range_begin r))"

definition range_index :: "'e iterator_range \<Rightarrow> int \<Rightarrow> fault + 'e" where
  "range_index r i = (if \<not> i < range_size r then Inl Assertion_Failed
     else dereference (range_array r) (range_begin r + i))"

text \<open>Only ranges into the same array are compared.\<close>

definition pointing_to_same_subrange :: "'e iterator_range \<Rightarrow> 'e iterator_range \<Rightarrow> bool" where
  "pointing_to_same_subrange l r \<longleftrightarrow> range_begin l = range_begin r \<and> range_end l = range_end r"

definition make_iterator_range :: "'e list \<Rightarrow> int \<Rightarrow> int \<Rightarrow> 'e iterator_range" where
  "make_iterator_range arr b e = \<lparr>range_array = arr, range_begin = b, range_end = e\<rparr>"

definition make_iterator_range_of :: "'e list \<Rightarrow> 'e iterator_range" where
  "make_iterator_range_of container = make_iterator_range container 0 (int (length container))"

definition make_contiguous_range :: "'e list \<Rightarrow> int \<Rightarrow> int \<Rightarrow> fault + 'e iterator_range" where
  "make_contiguous_range arr b e = (if b = e then Inr empty_iterator_range
     else read1 (\<lambda>_. make_iterator_range arr b (b + (e - b))) (dereference arr b))"

section \<open>memory_range\<close>

text \<open>From two pointers, from a pointer and a size, and from a container (through its first element).\<close>

definition make_memory_range :: "char list \<Rightarrow> int \<Rightarrow> int \<Rightarrow> char iterator_range" where
  "make_memory_range memory b e = make_iterator_range memory b e"

definition make_memory_range_sized :: "char list \<Rightarrow> int \<Rightarrow> nat \<Rightarrow> char iterator_range" where
  "make_memory_range_sized memory data n = make_memory_range memory data (data + int n)"

definition make_memory_range_of :: "char list \<Rightarrow> fault + char iterator_range" where
  "make_memory_range_of container =
     read1 (\<lambda>_. make_memory_range container 0 (0 + int (length container))) (dereference container 0)"

definition nul :: char where
  "nul = CHR 0x00"

definition make_c_str_range :: "char list \<Rightarrow> int \<Rightarrow> fault + char iterator_range" where
  "make_c_str_range memory str =
     (if 0 \<le> str \<and> nul \<in> set (drop (nat str) memory)
      then Inr (make_iterator_range memory str (str + int (length (before_first nul (drop (nat str) memory)))))
      else Inl Out_Of_Range)"

section \<open>range_value\<close>

text \<open>The elements a range stands for.\<close>

definition range_list :: "'e iterator_range \<Rightarrow> 'e list" where
  "range_list r = take (nat (range_size r)) (drop (nat (range_begin r)) (range_array r))"

definition range_value_equal :: "('e \<Rightarrow> 'f \<Rightarrow> bool) \<Rightarrow> 'e iterator_range \<Rightarrow> 'f iterator_range \<Rightarrow> bool" where
  "range_value_equal eq l r = list_all2 eq (range_list l) (range_list r)"

definition range_value_hash :: "('e list \<Rightarrow> nat) \<Rightarrow> 'e iterator_range \<Rightarrow> nat" where
  "range_value_hash hash_range r = hash_range (range_list r)"

section \<open>array_view\<close>

text \<open>\<open>view_memory\<close> is what \<open>m_data\<close> points to.\<close>

record 'e array_view =
  view_memory :: "'e list"
  view_length :: bounded_int

definition bounded_size_t :: bounded_type where
  "bounded_size_t = \<lparr>bound_int = size_t, bound_min = 0, bound_max = 2 ^ 64 - 1\<rparr>"

definition view_empty :: "bounded_type \<Rightarrow> 'e array_view option" where
  "view_empty length_type = map_option (\<lambda>l. \<lparr>view_memory = [], view_length = l\<rparr>) (bi_literal length_type 0)"

definition view_of_parts :: "'e list \<Rightarrow> bounded_int \<Rightarrow> 'e array_view" where
  "view_of_parts memory l = \<lparr>view_memory = memory, view_length = l\<rparr>"

text \<open>From a view with another type of length, an array of \<open>N\<close> elements, and a vector.\<close>

definition view_convert :: "bounded_type \<Rightarrow> 'e array_view \<Rightarrow> 'e array_view option" where
  "view_convert length_type other =
     map_option (\<lambda>l. \<lparr>view_memory = view_memory other, view_length = l\<rparr>) (bi_widen length_type (view_length other))"

definition view_of_array :: "bounded_type \<Rightarrow> 'e list \<Rightarrow> 'e array_view option" where
  "view_of_array length_type arr =
     map_option (\<lambda>l. \<lparr>view_memory = arr, view_length = l\<rparr>) (bi_literal length_type (int (length arr)))"

definition view_of_vector :: "'e list \<Rightarrow> fault + 'e array_view" where
  "view_of_vector vec = (case bi_create bounded_size_t (int (length vec)) of
      None \<Rightarrow> Inl Assertion_Failed
    | Some l \<Rightarrow> Inr \<lparr>view_memory = vec, view_length = l\<rparr>)"

definition make_array_view :: "'e list \<Rightarrow> 'e array_view option" where
  "make_array_view arr =
     view_of_array \<lparr>bound_int = size_t, bound_min = int (length arr), bound_max = int (length arr)\<rparr> arr"

definition make_single_element_view :: "'e \<Rightarrow> 'e array_view option" where
  "make_single_element_view x =
     map_option (view_of_parts [x]) (bi_literal \<lparr>bound_int = size_t, bound_min = 1, bound_max = 1\<rparr> 1)"

definition view_size :: "'e array_view \<Rightarrow> int" where
  "view_size v = bi_value (view_length v)"

definition view_is_empty :: "'e array_view \<Rightarrow> bool" where
  "view_is_empty v = (view_size v = 0)"

definition view_to_range :: "'e array_view \<Rightarrow> 'e iterator_range" where
  "view_to_range v = make_iterator_range (view_memory v) 0 (0 + view_size v)"

text \<open>\<open>None\<close>: the static assertion that the index is always less than the length rejects the call.\<close>

definition view_index :: "'e array_view \<Rightarrow> bounded_int \<Rightarrow> (fault + 'e) option" where
  "view_index v i = (case is_always_less (bi_type i) (bi_type (view_length v)) of
      Some True \<Rightarrow> Some (dereference (view_memory v) (bi_value i))
    | _ \<Rightarrow> None)"

definition view_front :: "'e array_view \<Rightarrow> (fault + 'e) option" where
  "view_front v = Option.bind (bi_literal \<lparr>bound_int = size_t, bound_min = 0, bound_max = 0\<rparr> 0) (view_index v)"

section \<open>Lemmas\<close>

definition range_inv :: "'e iterator_range \<Rightarrow> bool" where
  "range_inv r \<longleftrightarrow> 0 \<le> range_begin r \<and> range_begin r \<le> range_end r \<and> range_end r \<le> int (length (range_array r))"

lemma length_range_list: "range_inv r \<Longrightarrow> int (length (range_list r)) = range_size r"
  by (auto simp: range_inv_def range_list_def range_size_def)

lemma range_empty_list: "range_inv r \<Longrightarrow> range_empty r \<longleftrightarrow> range_list r = []"
  using length_range_list [of r] by (auto simp: range_empty_def range_size_def)

lemma range_advance:
  assumes "range_inv r" "0 \<le> n" "n \<le> range_size r"
  shows "advance_begin n r = Ok () (r\<lparr>range_begin := range_begin r + n\<rparr>)"
    and "range_inv (r\<lparr>range_begin := range_begin r + n\<rparr>)"
    and "range_list (r\<lparr>range_begin := range_begin r + n\<rparr>) = drop (nat n) (range_list r)"
  using assms
  by (simp_all add: range_inv_def advance_begin_def valid_position_def range_size_def range_list_def
      drop_take nat_add_distrib nat_diff_distrib algebra_simps)

lemma range_dereference:
  assumes "range_inv r" "0 \<le> i" "i < range_size r"
  shows "dereference (range_array r) (range_begin r + i) = Inr (range_list r ! nat i)"
  using assms
  by (auto simp: range_inv_def dereference_def range_size_def range_list_def nat_add_distrib)

text \<open>Client programs on a range, and the same programs on a list.\<close>

datatype range_call = Pop_Front | Pop_Front_N int | Front | Element int

definition reading :: "('s \<Rightarrow> fault + 'e) \<Rightarrow> ('s, 'x, 'e option) op" where
  "reading f s = (case f s of Inl x \<Rightarrow> Fault x | Inr v \<Rightarrow> Ok (Some v) s)"

fun range_exec :: "range_call \<Rightarrow> ('e iterator_range, 'x, 'e option) op" where
  "range_exec Pop_Front r = then_op range_pop_front (ret None) r"
| "range_exec (Pop_Front_N n) r = then_op (range_pop_front_n n) (ret None) r"
| "range_exec Front r = reading range_front r"
| "range_exec (Element i) r = reading (\<lambda>r. range_index r i) r"

fun list_exec :: "range_call \<Rightarrow> ('e list, 'x, 'e option) op" where
  "list_exec Pop_Front xs = (case xs of [] \<Rightarrow> Fault Assertion_Failed | _ # ys \<Rightarrow> Ok None ys)"
| "list_exec (Pop_Front_N n) xs =
     (if nat n \<le> length xs then Ok None (drop (nat n) xs) else Fault Assertion_Failed)"
| "list_exec Front xs = (case xs of [] \<Rightarrow> Fault Assertion_Failed | x # _ \<Rightarrow> Ok (Some x) xs)"
| "list_exec (Element i) xs = (if nat i < length xs then Ok (Some (xs ! nat i)) xs else Fault Assertion_Failed)"

fun run_calls :: "(range_call \<Rightarrow> ('s, 'x, 'e option) op) \<Rightarrow> range_call list \<Rightarrow> ('s, 'x, 'e option list) op" where
  "run_calls f [] s = Ok [] s"
| "run_calls f (c # cs) s = bind_op (f c) (\<lambda>v. bind_op (run_calls f cs) (\<lambda>vs. ret (v # vs))) s"

fun range_call_ok :: "range_call \<Rightarrow> bool" where
  "range_call_ok (Pop_Front_N n) = (0 \<le> n)"
| "range_call_ok (Element i) = (0 \<le> i)"
| "range_call_ok _ = True"

lemma range_exec_refines:
  assumes r: "range_inv r" and c: "range_call_ok c"
  shows "case (range_exec c r :: ('e iterator_range, 'x, 'e option) outcome) of
      Ok v r' \<Rightarrow> (list_exec c (range_list r) :: ('e list, 'x, 'e option) outcome) = Ok v (range_list r') \<and> range_inv r'
    | Raise x r' \<Rightarrow> False
    | Fault f \<Rightarrow> (list_exec c (range_list r) :: ('e list, 'x, 'e option) outcome) = Fault f"
proof (cases c)
  case Pop_Front
  show ?thesis
  proof (cases "range_list r")
    case Nil
    then show ?thesis using Pop_Front range_empty_list [OF r] by (simp add: range_pop_front_def outcome_defs)
  next
    case (Cons x xs)
    then have "\<not> range_empty r" "1 \<le> range_size r" using range_empty_list [OF r] length_range_list [OF r] by auto
    then show ?thesis using Pop_Front Cons
      by (simp add: range_pop_front_def outcome_defs range_advance [OF r])
  qed
next
  case (Pop_Front_N n)
  then show ?thesis using c length_range_list [OF r]
    by (auto simp: range_pop_front_n_def outcome_defs range_advance [OF r])
next
  case Front
  show ?thesis
  proof (cases "range_list r")
    case Nil
    then show ?thesis using Front range_empty_list [OF r] by (simp add: range_front_def reading_def)
  next
    case (Cons x xs)
    then have "\<not> range_empty r" "0 < range_size r" using range_empty_list [OF r] length_range_list [OF r] by auto
    then show ?thesis using Front Cons range_dereference [OF r, of 0] r
      by (simp add: range_front_def reading_def)
  qed
next
  case (Element i)
  then show ?thesis using c range_dereference [OF r, of i] length_range_list [OF r] r
    by (auto simp: range_index_def reading_def)
qed

section \<open>Properties\<close>

text \<open>
  C30: A range inside its array behaves as the list of its elements: any program of \<open>pop_front\<close>,
  \<open>pop_front(n)\<close>, \<open>front\<close> and \<open>operator[]\<close> with arguments that are not negative reads the same elements
  and leaves the corresponding rest, or fails an assertion exactly where the list has too few
  elements; it never leaves the array.
\<close>

theorem iterator_range_refines_list:
  assumes "range_inv r" "\<forall>c \<in> set calls. range_call_ok c"
  shows "case (run_calls range_exec calls r :: ('e iterator_range, 'x, 'e option list) outcome) of
      Ok vs r' \<Rightarrow> (run_calls list_exec calls (range_list r) :: ('e list, 'x, 'e option list) outcome) = Ok vs (range_list r') \<and>
        range_inv r'
    | Raise x r' \<Rightarrow> False
    | Fault f \<Rightarrow> (run_calls list_exec calls (range_list r) :: ('e list, 'x, 'e option list) outcome) = Fault f"
  using assms
proof (induction calls arbitrary: r)
  case (Cons c cs)
  then have r: "range_inv r" and c: "range_call_ok c" by simp_all
  note e = range_exec_refines [OF r c, where 'x = 'x]
  show ?case
  proof (cases "range_exec c r :: ('e iterator_range, 'x, 'e option) outcome")
    case (Ok v r')
    with e have r': "range_inv r'"
      "(list_exec c (range_list r) :: ('e list, 'x, 'e option) outcome) = Ok v (range_list r')" by simp_all
    have "case (run_calls range_exec cs r' :: ('e iterator_range, 'x, 'e option list) outcome) of
      Ok vs s \<Rightarrow> (run_calls list_exec cs (range_list r') :: ('e list, 'x, 'e option list) outcome) = Ok vs (range_list s) \<and> range_inv s
    | Raise x s \<Rightarrow> False
    | Fault f \<Rightarrow> (run_calls list_exec cs (range_list r') :: ('e list, 'x, 'e option list) outcome) = Fault f"
      using Cons.IH [OF r'(1)] Cons.prems(2) by simp
    with Ok r'(2) show ?thesis
      by (cases "run_calls range_exec cs r' :: ('e iterator_range, 'x, 'e option list) outcome")
         (simp_all add: bind_op_def ret_def)
  qed (use e in \<open>simp_all add: bind_op_def\<close>)
qed simp

lemma iterator_range_refines_list_witness:
  "case (run_calls range_exec [Pop_Front, Element 1, Pop_Front_N 2] (make_iterator_range_of ''abcd'')
     :: (char iterator_range, unit, char option list) outcome) of
      Ok vs r' \<Rightarrow> vs = [None, Some CHR ''c'', None] \<and> range_list r' = ''d'' | Raise x r' \<Rightarrow> False | Fault f \<Rightarrow> False"
proof -
  have "range_inv (make_iterator_range_of ''abcd'')" "range_list (make_iterator_range_of ''abcd'') = ''abcd''"
    by (simp_all add: range_inv_def make_iterator_range_of_def make_iterator_range_def range_list_def range_size_def)
  with iterator_range_refines_list [where 'x = unit, of "make_iterator_range_of ''abcd''" "[Pop_Front, Element 1, Pop_Front_N 2]"]
  show ?thesis by (auto simp: bind_op_def ret_def split: outcome.splits)
qed

text \<open>
  The assertions only test the upper end.  A negative argument of \<open>pop_front\<close> gives elements in
  front of the range back to it, and a negative index reads them, as long as the array has them.
\<close>

theorem negative_arguments_leave_the_range:
  assumes "range_inv r" "0 < n" "n \<le> range_begin r"
  shows "\<exists>r'. range_pop_front_n (- n) r = Ok () r' \<and> range_size r' = range_size r + n \<and>
      range_list r' = take (nat n) (drop (nat (range_begin r - n)) (range_array r)) @ range_list r \<and>
    range_index r (- n) = Inr (range_array r ! nat (range_begin r - n))"
proof -
  let ?b = "nat (range_begin r - n)" and ?s = "nat (range_size r)"
  have b: "0 \<le> range_begin r - n" "range_begin r \<le> range_end r" "range_end r \<le> int (length (range_array r))"
    using assms by (auto simp: range_inv_def)
  have "range_list (r\<lparr>range_begin := range_begin r - n\<rparr>) = take (nat n + ?s) (drop ?b (range_array r))"
    using b assms(2) by (simp add: range_list_def range_size_def nat_add_distrib [symmetric] algebra_simps)
  also have "\<dots> = take (nat n) (drop ?b (range_array r)) @ range_list r"
    using b assms(2) by (simp add: take_add range_list_def nat_add_distrib [symmetric] add.commute)
  finally show ?thesis using b assms
    by (simp add: range_pop_front_n_def advance_begin_def valid_position_def range_size_def range_index_def dereference_def)
qed

lemma negative_arguments_leave_the_range_witness:
  "\<exists>r'. range_pop_front_n (- 1) (make_iterator_range ''abcd'' 2 3) = Ok () r' \<and> range_list r' = ''bc''"
proof -
  have "range_inv (make_iterator_range ''abcd'' 2 3)" by (simp add: range_inv_def make_iterator_range_def)
  from negative_arguments_leave_the_range [OF this, of 1] show ?thesis
    by (auto simp: make_iterator_range_def range_list_def range_size_def)
qed

text \<open>\<open>view_inv\<close>: the view's length has its bounds and the memory has at least that many elements.\<close>

definition view_inv :: "'e array_view \<Rightarrow> bool" where
  "view_inv v \<longleftrightarrow> bi_inv (view_length v) \<and> 0 \<le> view_size v \<and> view_size v \<le> int (length (view_memory v))"

text \<open>
  An index of a bounded type that the static assertion of \<open>operator[]\<close> lets through reads the
  element at that place inside the view; it never goes outside of it, whatever the values are at run
  time.  A view of an array or a vector is valid, has its elements, and stays valid when its length
  type is widened.
\<close>

theorem array_view_index_safe:
  assumes v: "view_inv v" and i: "bi_inv i" "0 \<le> bi_value i"
  shows "(case view_index v i of
      Some r \<Rightarrow> nat (bi_value i) < length (range_list (view_to_range v)) \<and>
        r = Inr (range_list (view_to_range v) ! nat (bi_value i))
    | None \<Rightarrow> bound_min (bi_type (view_length v)) \<le> bound_max (bi_type i)) \<and>
    (case view_convert (with_bounds (view_length v) lo hi) v of
      Some w \<Rightarrow> view_size w = view_size v \<and> range_list (view_to_range w) = range_list (view_to_range v)
    | None \<Rightarrow> bound_min (bi_type (view_length v)) < lo \<or> hi < bound_max (bi_type (view_length v)))"
proof
  let ?r = "view_to_range v"
  have r: "range_inv ?r" "range_size ?r = view_size v" "range_array ?r = view_memory v" "range_begin ?r = 0"
    using v by (simp_all add: range_inv_def view_to_range_def make_iterator_range_def view_inv_def range_size_def)
  have bounds: "bound_min (bi_type i) \<le> bound_max (bi_type i)"
      "bound_min (bi_type (view_length v)) \<le> bound_max (bi_type (view_length v))"
    using v i by (simp_all add: view_inv_def bi_inv_def)
  show "case view_index v i of
      Some r \<Rightarrow> nat (bi_value i) < length (range_list ?r) \<and> r = Inr (range_list ?r ! nat (bi_value i))
    | None \<Rightarrow> bound_min (bi_type (view_length v)) \<le> bound_max (bi_type i)"
  proof (cases "bound_max (bi_type i) < bound_min (bi_type (view_length v))")
    case True
    then have "bi_value i < view_size v" using v i by (simp add: view_inv_def bi_inv_def view_size_def)
    then show ?thesis
      using True bounds range_dereference [OF r(1), of "bi_value i"] length_range_list [OF r(1)] r i
      by (simp add: view_index_def is_always_less_def)
  next
    case False
    then show ?thesis using bounds by (simp add: view_index_def is_always_less_def)
  qed
  show "case view_convert (with_bounds (view_length v) lo hi) v of
      Some w \<Rightarrow> view_size w = view_size v \<and> range_list (view_to_range w) = range_list ?r
    | None \<Rightarrow> bound_min (bi_type (view_length v)) < lo \<or> hi < bound_max (bi_type (view_length v))"
    using v by (auto simp: view_convert_def bi_widen_def with_bounds_def view_size_def view_to_range_def view_inv_def bi_inv_def)
qed

lemma view_of_vector_inv:
  assumes "int (length vec) < 2 ^ 64"
  shows "\<exists>v. view_of_vector vec = Inr v \<and> view_inv v \<and> range_list (view_to_range v) = vec"
  using assms
  by (auto simp: view_of_vector_def bi_create_result bounded_size_t_def view_inv_def view_size_def
      view_to_range_def make_iterator_range_def range_list_def range_size_def
      intro!: bi_inv_make_bounded)
     (simp_all add: bounded_type_ok_def int_type_ok_def representable_def type_min_def type_max_def size_t_def)

lemma array_view_index_safe_witness:
  "case make_array_view ''abc'' of None \<Rightarrow> False | Some v \<Rightarrow>
     view_index v (make_bounded \<lparr>bound_int = size_t, bound_min = 0, bound_max = 2\<rparr> 1) = Some (Inr (CHR ''b''))"
proof -
  let ?v = "\<lparr>view_memory = ''abc'', view_length = make_bounded \<lparr>bound_int = size_t, bound_min = 3, bound_max = 3\<rparr> 3\<rparr>"
    and ?i = "make_bounded \<lparr>bound_int = size_t, bound_min = 0, bound_max = 2\<rparr> 1"
  have v: "make_array_view ''abc'' = Some ?v"
    by (simp add: make_array_view_def view_of_array_def bi_literal_def)
  have "view_inv ?v" "bi_inv ?i" "0 \<le> bi_value ?i"
    by (simp_all add: view_inv_def view_size_def bi_inv_def bounded_type_ok_def int_type_ok_def representable_def
        type_min_def type_max_def size_t_def)
  from array_view_index_safe [OF this, of 0 0] v show ?thesis
    by (simp add: view_index_def is_always_less_def view_to_range_def make_iterator_range_def range_list_def
        range_size_def view_size_def split: option.splits)
qed

text \<open>
  \<open>make_memory_range\<close> of a container is all of its bytes, but of an empty one it dereferences the
  end, unlike \<open>make_contiguous_range\<close>; \<open>make_c_str_range\<close> is the text up to the terminating zero.
\<close>

theorem memory_ranges_of_containers:
  assumes "nul \<notin> set text_bytes"
  shows "(case make_memory_range_of bytes of
      Inr r \<Rightarrow> bytes \<noteq> [] \<and> range_inv r \<and> range_list r = bytes | Inl f \<Rightarrow> bytes = [] \<and> f = Out_Of_Range) \<and>
    (\<exists>r. make_contiguous_range bytes 0 (int (length bytes)) = Inr r \<and> range_inv r \<and> range_list r = bytes) \<and>
    (\<exists>r. make_c_str_range (before @ text_bytes @ nul # behind) (int (length before)) = Inr r \<and> range_inv r \<and>
       range_list r = text_bytes)"
  using assms
  by (cases bytes)
     (simp_all add: make_memory_range_of_def make_memory_range_def make_contiguous_range_def make_c_str_range_def
       make_iterator_range_def empty_iterator_range_def dereference_def range_inv_def range_list_def range_size_def)

lemma memory_ranges_of_containers_witness: "make_memory_range_of [] = Inl Out_Of_Range"
  using memory_ranges_of_containers [of "''a''" "[]", THEN conjunct1] by (simp add: nul_def split: sum.splits)

end
