(* ===== verification/Files.thy ===== *)
theory Files
  imports Sinks Error_Or "HOL-Library.Multiset"
begin

text \<open>
  \<open>silicium/file_handle.hpp\<close>, \<open>pipe.hpp\<close>, \<open>read.hpp\<close>, \<open>write.hpp\<close>, \<open>sink/file_sink.hpp\<close>,
  \<open>native_file_descriptor.hpp\<close>, \<open>get_last_error.hpp\<close>, on POSIX: ownership of file descriptors, and
  writing to and reading from them.  The system calls are parameters that work on a world \<open>'w\<close>; a call
  returns a negative number for a failure, and \<open>errno\<close> is then read from the world.  \<open>::close\<close> only
  leaves a trace of the descriptors it was called with.
\<close>

section \<open>Descriptors and errors\<close>

type_synonym native_file_descriptor = int

definition no_file_handle :: native_file_descriptor where
  "no_file_handle = - 1"

definition system_error :: "int \<Rightarrow> error_code" where
  "system_error errno = \<lparr>ec_value = errno, ec_category = 0\<rparr>"

definition get_last_error :: "('w \<Rightarrow> int) \<Rightarrow> 'w \<Rightarrow> error_code" where
  "get_last_error errno w = system_error (errno w)"

definition throw_last_error :: "('w \<Rightarrow> int) \<Rightarrow> ('w, error_code, unit) op" where
  "throw_last_error errno w = Raise (get_last_error errno w) w"

section \<open>file_handle\<close>

text \<open>
  A handle is the descriptor it holds; the operations on two handles work on \<open>*this\<close> (first) and \<open>other\<close>.
\<close>

record file_handle =
  handle :: native_file_descriptor

definition fh_default :: file_handle where
  "fh_default = \<lparr>handle = no_file_handle\<rparr>"

definition fh_of :: "native_file_descriptor \<Rightarrow> file_handle" where
  "fh_of fd = \<lparr>handle = fd\<rparr>"

definition fh_swap :: "file_handle \<times> file_handle \<Rightarrow> file_handle \<times> file_handle" where
  "fh_swap p = ((fst p)\<lparr>handle := handle (snd p)\<rparr>, (snd p)\<lparr>handle := handle (fst p)\<rparr>)"

definition fh_move_ctor :: "file_handle \<Rightarrow> file_handle \<times> file_handle" where
  "fh_move_ctor other = fh_swap (fh_default, other)"

definition fh_move_assign :: "file_handle \<times> file_handle \<Rightarrow> file_handle \<times> file_handle" where
  "fh_move_assign p = fh_swap p"

text \<open>The trace is the list of descriptors that \<open>::close\<close> was called with, in order.\<close>

definition fh_dtor :: "file_handle \<Rightarrow> native_file_descriptor list \<Rightarrow> native_file_descriptor list" where
  "fh_dtor h trace = (if handle h = no_file_handle then trace else trace @ [handle h])"

definition fh_close :: "file_handle \<Rightarrow> native_file_descriptor list \<Rightarrow> file_handle \<times> native_file_descriptor list" where
  "fh_close h trace = (case fh_swap (fh_default, h) of (temporary, this) \<Rightarrow> (this, fh_dtor temporary trace))"

text \<open>\<open>Si::exchange\<close>, on a type whose assignment does not throw\<close>

definition exchange :: "'v \<Rightarrow> 'v \<Rightarrow> 'v \<times> 'v" where
  "exchange dest source = (let old = dest; dest = source in (old, dest))"

definition fh_release :: "file_handle \<Rightarrow> native_file_descriptor \<times> file_handle" where
  "fh_release h = (case exchange (handle h) no_file_handle of (old, new) \<Rightarrow> (old, h\<lparr>handle := new\<rparr>))"

section \<open>pipe\<close>

record pipe_ends =
  pipe_write :: file_handle
  pipe_read :: file_handle

definition pipe_default :: pipe_ends where
  "pipe_default = \<lparr>pipe_write = fh_default, pipe_read = fh_default\<rparr>"

definition pipe_swap :: "pipe_ends \<times> pipe_ends \<Rightarrow> pipe_ends \<times> pipe_ends" where
  "pipe_swap p = (case (fh_swap (pipe_write (fst p), pipe_write (snd p)), fh_swap (pipe_read (fst p), pipe_read (snd p))) of
     ((w1, w2), (r1, r2)) \<Rightarrow> (\<lparr>pipe_write = w1, pipe_read = r1\<rparr>, \<lparr>pipe_write = w2, pipe_read = r2\<rparr>))"

text \<open>Members are destroyed in the reverse order of their declaration.\<close>

definition pipe_dtor :: "pipe_ends \<Rightarrow> native_file_descriptor list \<Rightarrow> native_file_descriptor list" where
  "pipe_dtor p trace = fh_dtor (pipe_write p) (fh_dtor (pipe_read p) trace)"

definition pipe_close :: "pipe_ends \<Rightarrow> native_file_descriptor list \<Rightarrow> pipe_ends \<times> native_file_descriptor list" where
  "pipe_close p trace = (case pipe_swap (pipe_default, p) of (temporary, this) \<Rightarrow> (this, pipe_dtor temporary trace))"

definition pipe_move_ctor :: "pipe_ends \<Rightarrow> pipe_ends \<times> pipe_ends" where
  "pipe_move_ctor other = (case (fh_move_ctor (pipe_write other), fh_move_ctor (pipe_read other)) of
     ((w1, w2), (r1, r2)) \<Rightarrow> (\<lparr>pipe_write = w1, pipe_read = r1\<rparr>, \<lparr>pipe_write = w2, pipe_read = r2\<rparr>))"

text \<open>
  \<open>make_pipe\<close>: \<open>result.read = file_handle(fds[0])\<close> swaps with a temporary that is destroyed, and the
  local \<open>result\<close> is destroyed after it was moved into the \<open>error_or\<close> that is returned.
\<close>

definition make_pipe ::
    "('w \<Rightarrow> int \<times> (int \<times> int) \<times> 'w) \<Rightarrow> ('w \<Rightarrow> int) \<Rightarrow> 'w \<Rightarrow> native_file_descriptor list \<Rightarrow>
     pipe_ends error_or \<times> 'w \<times> native_file_descriptor list" where
  "make_pipe sys_pipe errno w trace = (case sys_pipe w of
      (rc, (fd0, fd1), w') \<Rightarrow>
        (if rc < 0 then (eo_from_error (get_last_error errno w'), w', trace)
         else (let (r, tmp_r) = fh_move_assign (pipe_read pipe_default, fh_of fd0);
                   trace1 = fh_dtor tmp_r trace;
                   (wr, tmp_w) = fh_move_assign (pipe_write pipe_default, fh_of fd1);
                   trace2 = fh_dtor tmp_w trace1;
                   (moved, result) = pipe_move_ctor \<lparr>pipe_write = wr, pipe_read = r\<rparr>
               in (\<lparr>code = 0, members = Value_Member moved\<rparr>, w', pipe_dtor result trace2))))"

text \<open>\<open>set_close_on_exec\<close>; \<open>fcntl\<close> takes the descriptor, the command and its argument.\<close>

definition set_close_on_exec ::
    "('w \<Rightarrow> native_file_descriptor \<Rightarrow> bool \<Rightarrow> int \<Rightarrow> int \<times> 'w) \<Rightarrow> (int \<Rightarrow> int) \<Rightarrow> ('w \<Rightarrow> int) \<Rightarrow>
     native_file_descriptor \<Rightarrow> 'w \<Rightarrow> error_code \<times> 'w" where
  "set_close_on_exec fcntl or_cloexec errno file w = (case fcntl w file False 0 of
      (flags, w1) \<Rightarrow> (case fcntl w1 file True (or_cloexec flags) of
          (rc, w2) \<Rightarrow> if rc < 0 then (get_last_error errno w2, w2) else (no_error, w2)))"

section \<open>read and write\<close>

type_synonym 'w sys_write = "'w \<Rightarrow> native_file_descriptor \<Rightarrow> char list \<Rightarrow> int \<times> 'w"

definition read_file ::
    "('w \<Rightarrow> native_file_descriptor \<Rightarrow> nat \<Rightarrow> int \<times> char list \<times> 'w) \<Rightarrow> ('w \<Rightarrow> int) \<Rightarrow>
     native_file_descriptor \<Rightarrow> nat \<Rightarrow> 'w \<Rightarrow> nat error_or \<times> char list \<times> 'w" where
  "read_file sys_read errno file destination_size w = (case sys_read w file destination_size of
      (read_bytes, content, w') \<Rightarrow>
        (if read_bytes < 0 then (eo_from_error (get_last_error errno w'), content, w')
         else if read_bytes = 0 then (\<lparr>code = 0, members = Value_Member 0\<rparr>, content, w')
         else (\<lparr>code = 0, members = Value_Member (nat read_bytes)\<rparr>, content, w')))"

function write_loop ::
    "'w sys_write \<Rightarrow> ('w \<Rightarrow> int) \<Rightarrow> native_file_descriptor \<Rightarrow> char list \<Rightarrow> nat \<Rightarrow> 'w \<Rightarrow> nat error_or \<times> 'w" where
  "write_loop sys_write errno file data total_written w =
     (case sys_write w file (drop total_written data) of
        (n, w') \<Rightarrow>
          (if n < 0 then (eo_from_error (get_last_error errno w'), w')
           else if n = 0 then (\<lparr>code = 0, members = Value_Member total_written\<rparr>, w')
           else if total_written + nat n < length data
             then write_loop sys_write errno file data (total_written + nat n) w'
             else (\<lparr>code = 0, members = Value_Member (total_written + nat n)\<rparr>, w')))"
  by pat_completeness auto
termination
  by (relation "measure (\<lambda>(_, _, _, data, total_written, _). length data - total_written)") auto

declare write_loop.simps [simp del]

definition write_file ::
    "'w sys_write \<Rightarrow> ('w \<Rightarrow> int) \<Rightarrow> native_file_descriptor \<Rightarrow> char list \<Rightarrow> 'w \<Rightarrow> nat error_or \<times> 'w" where
  "write_file sys_write errno file data w = write_loop sys_write errno file data 0 w"

text \<open>\<open>file_sink::append\<close> returns \<open>write(m_file, data).error()\<close>.\<close>

definition file_append ::
    "'w sys_write \<Rightarrow> ('w \<Rightarrow> int) \<Rightarrow> native_file_descriptor \<Rightarrow> ('w, char, fault + error_code) append_function" where
  "file_append sys_write errno file w data = (case write_file sys_write errno file data w of
      (result, w') \<Rightarrow> (case eo_error result of
          Inl f \<Rightarrow> (Some (Inl f), w')
        | Inr e \<Rightarrow> (if is_set_error e then Some (Inr e) else None, w')))"

section \<open>Programs with file handles\<close>

text \<open>
  The handles of a program are variables; \<open>closed\<close> is the trace of \<open>::close\<close>, \<open>released\<close> what \<open>release\<close>
  gave back.  A call on variables that do not exist is not part of a program and does nothing.
\<close>

record fh_program =
  variables :: "file_handle list"
  closed :: "native_file_descriptor list"
  released :: "native_file_descriptor list"

datatype fh_call = Adopt native_file_descriptor | Move_Construct nat | Move_Assign nat nat
  | Close nat | Release nat | Leave_Scope

fun fh_exec :: "fh_call \<Rightarrow> fh_program \<Rightarrow> fh_program" where
  "fh_exec (Adopt fd) s = s\<lparr>variables := variables s @ [fh_of fd]\<rparr>"
| "fh_exec (Move_Construct i) s =
     (if i < length (variables s)
      then (case fh_move_ctor (variables s ! i) of
          (this, other) \<Rightarrow> s\<lparr>variables := (variables s)[i := other] @ [this]\<rparr>)
      else s)"
| "fh_exec (Move_Assign i j) s =
     (if i < length (variables s) \<and> j < length (variables s)
      then (case fh_move_assign (variables s ! i, variables s ! j) of
          (this, other) \<Rightarrow> s\<lparr>variables := (variables s)[i := this, j := other]\<rparr>)
      else s)"
| "fh_exec (Close i) s =
     (if i < length (variables s)
      then (case fh_close (variables s ! i) (closed s) of
          (this, trace) \<Rightarrow> s\<lparr>variables := (variables s)[i := this], closed := trace\<rparr>)
      else s)"
| "fh_exec (Release i) s =
     (if i < length (variables s)
      then (case fh_release (variables s ! i) of
          (fd, this) \<Rightarrow> s\<lparr>variables := (variables s)[i := this], released := released s @ [fd]\<rparr>)
      else s)"
| "fh_exec Leave_Scope s =
     (if variables s = [] then s
      else s\<lparr>variables := butlast (variables s), closed := fh_dtor (last (variables s)) (closed s)\<rparr>)"

text \<open>At the end all variables that are left are destroyed, the last one first.\<close>

definition fh_end :: "fh_program \<Rightarrow> fh_program" where
  "fh_end s = s\<lparr>variables := [], closed := foldr fh_dtor (variables s) (closed s)\<rparr>"

definition fh_run :: "fh_call list \<Rightarrow> fh_program" where
  "fh_run calls = fh_end (fold fh_exec calls \<lparr>variables = [], closed = [], released = []\<rparr>)"

fun adopted :: "fh_call \<Rightarrow> native_file_descriptor list" where
  "adopted (Adopt fd) = [fd]"
| "adopted _ = []"

definition real_descriptors :: "native_file_descriptor multiset \<Rightarrow> native_file_descriptor multiset" where
  "real_descriptors m = filter_mset (\<lambda>fd. fd \<noteq> no_file_handle) m"

definition held :: "fh_program \<Rightarrow> native_file_descriptor multiset" where
  "held s = real_descriptors (image_mset handle (mset (variables s))) + mset (closed s) +
     real_descriptors (mset (released s))"

lemma real_descriptors_simps [simp]:
  "real_descriptors {#} = {#}"
  "real_descriptors (add_mset fd m) = (if fd = no_file_handle then real_descriptors m else add_mset fd (real_descriptors m))"
  "real_descriptors (m + n) = real_descriptors m + real_descriptors n"
  by (simp_all add: real_descriptors_def)

lemma handle_update_eq [simp]: "(h :: file_handle)\<lparr>handle := fd\<rparr> = \<lparr>handle = fd\<rparr>"
  by (cases h) simp

lemma handle_eta [simp]: "\<lparr>handle = handle h\<rparr> = (h :: file_handle)"
  by (cases h) simp

lemma fh_dtor_mset: "mset (fh_dtor h trace) = mset trace + real_descriptors {#handle h#}"
  by (simp add: fh_dtor_def)

lemma image_handle_update:
  assumes "i < length vs"
  shows "add_mset (handle (vs ! i)) (image_mset handle (mset (vs[i := h]))) = add_mset (handle h) (image_mset handle (mset vs))"
proof -
  have "vs ! i \<in># mset vs" using assms by simp
  then have "add_mset (handle (vs ! i)) (image_mset handle (mset vs - {#vs ! i#})) = image_mset handle (mset vs)"
    by (metis image_mset_add_mset insert_DiffM)
  then show ?thesis using assms by (simp add: mset_update add_mset_commute)
qed

lemma real_handle_update:
  assumes "i < length vs"
  shows "real_descriptors {#handle (vs ! i)#} + real_descriptors (image_mset handle (mset (vs[i := h]))) =
    real_descriptors {#handle h#} + real_descriptors (image_mset handle (mset vs))"
  using arg_cong [OF image_handle_update [OF assms, of h], of real_descriptors]
  by (simp split: if_splits)

lemmas fh_op_defs = fh_move_ctor_def fh_move_assign_def fh_swap_def fh_close_def fh_release_def exchange_def
  fh_default_def fh_of_def

lemma fh_exec_held: "held (fh_exec c s) = held s + real_descriptors (mset (adopted c))"
proof (cases c)
  case (Move_Construct i)
  then show ?thesis
    using real_handle_update [of i "variables s" "\<lparr>handle = no_file_handle\<rparr>"]
    by (auto simp: held_def fh_op_defs ac_simps)
next
  case (Move_Assign i j)
  show ?thesis
  proof (cases "i < length (variables s) \<and> j < length (variables s) \<and> i \<noteq> j")
    case True
    let ?vs = "(variables s)[i := variables s ! j]"
    from True have "handle (?vs ! j) = handle (variables s ! j)" by simp
    with True have "real_descriptors (image_mset handle (mset (?vs[j := variables s ! i]))) =
        real_descriptors (image_mset handle (mset (variables s)))"
      using real_handle_update [of i "variables s" "variables s ! j"]
        real_handle_update [of j ?vs "variables s ! i"]
      by (simp split: if_splits)
    then show ?thesis using Move_Assign by (simp add: held_def fh_op_defs)
  next
    case False
    then show ?thesis using Move_Assign by (auto simp: held_def fh_op_defs)
  qed
next
  case (Close i)
  then show ?thesis
    using real_handle_update [of i "variables s" "\<lparr>handle = no_file_handle\<rparr>"]
    by (auto simp: held_def fh_op_defs fh_dtor_def ac_simps)
next
  case (Release i)
  then show ?thesis
    using real_handle_update [of i "variables s" "\<lparr>handle = no_file_handle\<rparr>"]
    by (auto simp: held_def fh_op_defs ac_simps)
next
  case Leave_Scope
  show ?thesis
  proof (cases "variables s" rule: rev_cases)
    case (snoc vs v)
    with Leave_Scope show ?thesis by (simp add: held_def fh_dtor_mset ac_simps)
  qed (use Leave_Scope in simp)
qed (simp add: held_def fh_of_def)

lemma fh_end_held: "held (fh_end s) = held s"
proof -
  have "mset (foldr fh_dtor vs trace) = mset trace + real_descriptors (image_mset handle (mset vs))" for vs trace
    by (induction vs) (simp_all add: fh_dtor_mset)
  then show ?thesis by (simp add: held_def fh_end_def)
qed

lemma fold_fh_exec_held: "held (fold fh_exec calls s) = held s + real_descriptors (mset (concat (map adopted calls)))"
  by (induction calls arbitrary: s) (simp_all add: fh_exec_held)

section \<open>What the code relies on\<close>

text \<open>
  The documented behaviour of \<open>::write\<close> on a descriptor, with \<open>content w\<close> what has been written to it: a
  call that fails writes nothing and sets \<open>errno\<close>; one that succeeds appends as many bytes as it says,
  at most all.  \<open>write_progress\<close>: it does not return 0 unless there is nothing to write.
\<close>

definition write_contract :: "'w sys_write \<Rightarrow> ('w \<Rightarrow> int) \<Rightarrow> native_file_descriptor \<Rightarrow> ('w \<Rightarrow> char list) \<Rightarrow> bool" where
  "write_contract sys_write errno file content \<longleftrightarrow> (\<forall>w data n w'. sys_write w file data = (n, w') \<longrightarrow>
     (if n < 0 then content w' = content w \<and> errno w' \<noteq> 0
      else nat n \<le> length data \<and> content w' = content w @ take (nat n) data))"

definition write_progress :: "'w sys_write \<Rightarrow> native_file_descriptor \<Rightarrow> bool" where
  "write_progress sys_write file \<longleftrightarrow> (\<forall>w data. data \<noteq> [] \<longrightarrow> fst (sys_write w file data) \<noteq> 0)"

lemma write_contractD:
  assumes "write_contract sys_write errno file content" "sys_write w file data = (n, w')"
  shows "n < 0 \<Longrightarrow> content w' = content w \<and> errno w' \<noteq> 0"
    and "\<not> n < 0 \<Longrightarrow> nat n \<le> length data \<and> content w' = content w @ take (nat n) data"
  using assms unfolding write_contract_def by (metis (full_types))+

definition written_result :: "bool \<Rightarrow> nat \<Rightarrow> nat \<Rightarrow> nat error_or \<Rightarrow> bool" where
  "written_result progress k n r \<longleftrightarrow> eo_inv r \<and> (case eo_abs r of
      Inl e \<Rightarrow> is_set_error e
    | Inr t \<Rightarrow> t = k \<and> (progress \<longrightarrow> k = n))"

lemma written_result_simps [simp]:
  "written_result progress k n \<lparr>code = 0, members = Value_Member t\<rparr> \<longleftrightarrow> t = k \<and> (progress \<longrightarrow> k = n)"
  "errno w \<noteq> 0 \<Longrightarrow> written_result progress k n (eo_from_error (get_last_error errno w))"
  by (simp_all add: written_result_def eo_from_error_def get_last_error_def system_error_def is_set_error_def)

lemma write_loop_result:
  assumes contract: "write_contract sys_write errno file content"
  shows "i \<le> length data \<Longrightarrow>
    case write_loop sys_write errno file data i w of
      (r, w') \<Rightarrow> \<exists>k. i \<le> k \<and> k \<le> length data \<and> content w' = content w @ take (k - i) (drop i data) \<and>
        written_result (write_progress sys_write file) k (length data) r"
proof (induction "length data - i" arbitrary: i w rule: less_induct)
  case less
  obtain n w' where s: "sys_write w file (drop i data) = (n, w')" by fastforce
  note step = write_loop.simps [of sys_write errno "file" data i w] and law = write_contractD [OF contract s]
  consider "n < 0" | "n = 0" | "0 < n" "i + nat n < length data" | "0 < n" "length data \<le> i + nat n" by linarith
  then show ?case
  proof cases
    case 1
    then show ?thesis using s step law less.prems by (auto intro!: exI [of _ i])
  next
    case 2
    have "i = length data" if "write_progress sys_write file"
    proof (rule ccontr)
      assume "i \<noteq> length data"
      then have "drop i data \<noteq> []" using less.prems by simp
      then have "fst (sys_write w file (drop i data)) \<noteq> 0" using that unfolding write_progress_def by blast
      with s 2 show False by simp
    qed
    with 2 show ?thesis using s step law less.prems by (auto intro!: exI [of _ i])
  next
    case 3
    then have "length data - (i + nat n) < length data - i" "i + nat n \<le> length data" by auto
    from less.hyps [OF this, of w'] obtain k where k: "i + nat n \<le> k" "k \<le> length data"
      "content (snd (write_loop sys_write errno file data (i + nat n) w')) = content w' @ take (k - (i + nat n)) (drop (i + nat n) data)"
      "written_result (write_progress sys_write file) k (length data) (fst (write_loop sys_write errno file data (i + nat n) w'))"
      by (auto split: prod.splits)
    moreover have "take (nat n) (drop i data) @ take (k - (i + nat n)) (drop (i + nat n) data) = take (k - i) (drop i data)"
      using k(1) take_add_drop [of "nat n" "drop i data" "k - (i + nat n)"] by (simp add: add.commute)
    ultimately show ?thesis using 3 s step law by (auto intro!: exI [of _ k] split: prod.splits)
  next
    case 4
    then have "i + nat n = length data" using law(2) less.prems by auto
    with 4 show ?thesis using s step law by (auto intro!: exI [of _ "length data"])
  qed
qed

lemma file_append_result:
  assumes "write_contract sys_write errno file content"
  shows "case file_append sys_write errno file w data of
      (None, w') \<Rightarrow> \<exists>k. content w' = content w @ take k data \<and> (write_progress sys_write file \<longrightarrow> k = length data)
    | (Some (Inr e), w') \<Rightarrow> is_set_error e \<and> (\<exists>k. content w' = content w @ take k data)
    | (Some (Inl f), w') \<Rightarrow> False"
proof -
  obtain r w' where e: "write_file sys_write errno file data w = (r, w')" by fastforce
  with write_loop_result [OF assms, of 0 data w] obtain k where
    k: "content w' = content w @ take k data" "written_result (write_progress sys_write file) k (length data) r"
    by (auto simp: write_file_def)
  then have "eo_inv r" by (simp add: written_result_def)
  then show "case file_append sys_write errno file w data of
      (None, w') \<Rightarrow> \<exists>k. content w' = content w @ take k data \<and> (write_progress sys_write file \<longrightarrow> k = length data)
    | (Some (Inr e), w') \<Rightarrow> is_set_error e \<and> (\<exists>k. content w' = content w @ take k data)
    | (Some (Inl f), w') \<Rightarrow> False"
    by (cases r rule: eo_inv_cases)
       (use e k in \<open>auto simp: file_append_def eo_error_def is_error_def is_set_error_def no_error_def\<close>)
qed

text \<open>Over a \<open>::write\<close> that makes progress, a \<open>file_sink\<close> is a sink.\<close>

lemma file_element_sink:
  assumes "write_contract sys_write errno file content" "write_progress sys_write file"
  shows "element_sink (file_append sys_write errno file) content (\<lambda>_. True)"
proof
  fix w w' data r assume "file_append sys_write errno file w data = (r, w')"
  with file_append_result [OF assms(1), of w data]
  show "\<exists>k. content w' = content w @ take k data" by (auto split: option.splits sum.splits)
next
  fix w w' data assume "file_append sys_write errno file w data = (None, w')"
  with file_append_result [OF assms(1), of w data] assms(2)
  show "content w' = content w @ data" by auto
qed simp

section \<open>Properties\<close>

text \<open>
  C21: For any program that adopts descriptors into handles and then moves, assigns, closes, releases
  and destroys these in any order: once all handles are gone, every adopted descriptor has been closed
  or released exactly as often as it was adopted, so that a descriptor that was adopted once is never
  leaked and never closed twice.
\<close>

theorem file_handles_close_once:
  "mset (closed (fh_run calls)) + real_descriptors (mset (released (fh_run calls))) =
     real_descriptors (mset (concat (map adopted calls)))"
proof -
  have "held (fh_run calls) = real_descriptors (mset (concat (map adopted calls)))"
    unfolding fh_run_def fh_end_held fold_fh_exec_held by (simp add: held_def)
  then show ?thesis by (simp add: held_def fh_run_def fh_end_def)
qed

text \<open>
  \<open>write\<close> over a \<open>::write\<close> that behaves as documented returns, on whatever sequence of partial writes:
  what has arrived is a prefix of the data; a number that it returns is the length of that prefix,
  which is all of the data unless a call returned 0; otherwise it returns the error.
\<close>

theorem write_delivers:
  assumes "write_contract sys_write errno file content"
  shows "case write_file sys_write errno file data w of (r, w') \<Rightarrow>
    \<exists>k. k \<le> length data \<and> content w' = content w @ take k data \<and> eo_inv r \<and>
      (case eo_abs r of
        Inl e \<Rightarrow> is_set_error e
      | Inr t \<Rightarrow> t = k \<and> (write_progress sys_write file \<longrightarrow> k = length data))"
  using write_loop_result [OF assms, of 0 data w]
  by (auto simp: write_file_def written_result_def)

text \<open>A device that takes at most three bytes at a time, and five in all.\<close>

definition small_device :: "string sys_write" where
  "small_device w file data =
     (if 5 \<le> length w \<and> data \<noteq> [] then (- 1, w)
      else (let k = min 3 (min (5 - length w) (length data)) in (int k, w @ take k data)))"

lemma small_device_contract: "write_contract small_device (\<lambda>_. 28) 7 id" "write_progress small_device 7"
  by (auto simp: write_contract_def write_progress_def small_device_def Let_def split: if_splits)

lemma write_delivers_witness:
  "case write_file small_device (\<lambda>_. 28) 7 ''abcd'' [] of (r, w') \<Rightarrow> w' = ''abcd''"
proof -
  have "\<not> is_error (fst (write_file small_device (\<lambda>_. 28) 7 ''abcd'' []))"
    by (simp add: write_file_def write_loop.simps small_device_def Let_def is_error_def)
  then show ?thesis using write_delivers [OF small_device_contract(1), of "''abcd''" "[]"] small_device_contract(2)
    by (auto simp: eo_abs_def eo_inv_def is_error_def split: prod.splits eo_union.splits)
qed

text \<open>
  A \<open>file_sink\<close> never has a lifetime error; what it reports as appended is written as a prefix of the
  data, and as all of it if \<open>::write\<close> never returns 0.  When \<open>::write\<close> does return 0, the number that
  \<open>write\<close> returned is dropped, and \<open>append\<close> reports success for the part that was written.
\<close>

theorem file_sink_appends:
  assumes "write_contract sys_write errno file content"
  shows "(case file_append sys_write errno file w data of
      (None, w') \<Rightarrow> \<exists>k. content w' = content w @ take k data \<and> (write_progress sys_write file \<longrightarrow> k = length data)
    | (Some (Inr e), w') \<Rightarrow> is_set_error e \<and> (\<exists>k. content w' = content w @ take k data)
    | (Some (Inl f), w') \<Rightarrow> False) \<and>
    (fst (sys_write w file data) = 0 \<longrightarrow> (\<exists>w'. file_append sys_write errno file w data = (None, w') \<and> content w' = content w))"
proof
  show "case file_append sys_write errno file w data of
      (None, w') \<Rightarrow> \<exists>k. content w' = content w @ take k data \<and> (write_progress sys_write file \<longrightarrow> k = length data)
    | (Some (Inr e), w') \<Rightarrow> is_set_error e \<and> (\<exists>k. content w' = content w @ take k data)
    | (Some (Inl f), w') \<Rightarrow> False"
    by (rule file_append_result [OF assms])
next
  show "fst (sys_write w file data) = 0 \<longrightarrow>
      (\<exists>w'. file_append sys_write errno file w data = (None, w') \<and> content w' = content w)"
    using write_contractD(2) [OF assms, of w data 0]
    by (cases "sys_write w file data")
       (auto simp: file_append_def write_file_def write_loop.simps eo_error_def is_error_def is_set_error_def no_error_def)
qed

lemma file_sink_appends_witness:
  "case file_append small_device (\<lambda>_. 28) 7 ''ab'' ''cdefgh'' of
      (Some (Inr e), w') \<Rightarrow> (\<exists>k. w' = ''ab'' @ take k ''cdefgh'') | (None, w') \<Rightarrow> w' = ''abcdefgh'' | _ \<Rightarrow> False"
  using file_sink_appends [OF small_device_contract(1), of "''ab''" "''cdefgh''"] small_device_contract(2)
  by (auto split: prod.splits option.splits sum.splits)

text \<open>
  When \<open>::pipe\<close> fails, \<open>make_pipe\<close> returns the error and owns nothing; when it succeeds, the result
  owns exactly the two new descriptors, reading end first, and nothing has been closed.  Closing the
  result closes both.
\<close>

theorem make_pipe_owns_both:
  assumes "sys_pipe w = (rc, (fd0, fd1), w')" "fd0 \<noteq> no_file_handle" "fd1 \<noteq> no_file_handle" "rc < 0 \<longrightarrow> errno w' \<noteq> 0"
  shows "case make_pipe sys_pipe errno w trace of (r, v, trace') \<Rightarrow> v = w' \<and> trace' = trace \<and> eo_inv r \<and>
    (case eo_abs r of
       Inl e \<Rightarrow> rc < 0 \<and> ec_value e = errno w'
     | Inr p \<Rightarrow> \<not> rc < 0 \<and> handle (pipe_read p) = fd0 \<and> handle (pipe_write p) = fd1 \<and>
         pipe_close p trace' = (pipe_default, trace' @ [fd0, fd1]))"
  using assms
  by (simp add: make_pipe_def eo_from_error_def get_last_error_def system_error_def pipe_default_def pipe_move_ctor_def
      pipe_close_def pipe_swap_def pipe_dtor_def fh_op_defs fh_dtor_def)

lemma make_pipe_owns_both_witness:
  "case make_pipe (\<lambda>w. (0, (3, 4), w)) (\<lambda>_. 0) () [] of (r, v, trace') \<Rightarrow> trace' = [] \<and> eo_inv r"
  using make_pipe_owns_both [of "\<lambda>w. (0, (3, 4), w)" "()" 0 3 4 "()" "\<lambda>_. 0" "[]"]
  by (auto simp: no_file_handle_def split: prod.splits)

end
