(* ===== verification/Callables.thy ===== *)
theory Callables
  imports Error_Or "HOL-Library.Multiset"
begin

text \<open>
  \<open>silicium/make_destructor.hpp\<close>, \<open>function.hpp\<close>, \<open>ptr_adaptor.hpp\<close>, \<open>error_code.hpp\<close>,
  \<open>error_handler.hpp\<close> and \<open>c_string.hpp\<close>: owners of callables, and small wrappers.
\<close>

section \<open>destructor\<close>

text \<open>
  An optional action that the destructor runs.  Running \<open>action\<close> is recorded in a trace; \<open>T\<close> has the
  special member functions of the callable, whose moved-from state is what \<open>move_construct\<close> says.
\<close>

record 'f destructor =
  m_action :: "'f optional_obj"

definition destructor_default :: "'f destructor" where
  "destructor_default = \<lparr>m_action = opt_none\<rparr>"

text \<open>\<open>make_destructor\<close> and the explicit constructor move the action into the optional.\<close>

definition make_destructor :: "'f \<Rightarrow> 'f destructor" where
  "make_destructor action = \<lparr>m_action = \<lparr>is_set = True, storage = Live action\<rparr>\<rparr>"

definition destructor_move_ctor ::
    "('f, 'e) element_type \<Rightarrow> ('f destructor \<times> 'f destructor, 'e, unit) op" where
  "destructor_move_ctor T = (\<lambda>(this, other). case opt_move_ctor T (m_action this, m_action other) of
      Ok r (a, b) \<Rightarrow> Ok r (\<lparr>m_action = a\<rparr>, \<lparr>m_action = b\<rparr>)
    | Raise e (a, b) \<Rightarrow> Raise e (\<lparr>m_action = a\<rparr>, \<lparr>m_action = b\<rparr>)
    | Fault f \<Rightarrow> Fault f)"

definition destructor_dtor :: "'f destructor \<Rightarrow> 'f list \<Rightarrow> fault + 'f list" where
  "destructor_dtor d trace = (if opt_not (m_action d) then Inr trace
     else read1 (\<lambda>f. trace @ [f]) (opt_deref (m_action d)))"

section \<open>function\<close>

text \<open>
  \<open>function\<close> is a \<open>std::shared_ptr\<close> to a holder of the callable.  The heap maps an address to the state
  of a callable; a call of the callable is a function of its state and the argument, parameter \<open>invoke\<close>.
  The use count that \<open>shared_ptr\<close> keeps is part of the heap, so that what is freed when can be read off.
\<close>

record 'f holder =
  callable :: 'f
  use_count :: nat

type_synonym 'f heap = "nat \<Rightarrow> 'f holder option"

type_synonym function_object = "nat option"

fun acquire :: "function_object \<Rightarrow> 'f heap \<Rightarrow> 'f heap" where
  "acquire None h = h"
| "acquire (Some a) h = (case h a of
      None \<Rightarrow> h | Some c \<Rightarrow> h(a := Some (c\<lparr>use_count := Suc (use_count c)\<rparr>)))"

fun drop_reference :: "function_object \<Rightarrow> 'f heap \<Rightarrow> 'f heap" where
  "drop_reference None h = h"
| "drop_reference (Some a) h = (case h a of
      None \<Rightarrow> h
    | Some c \<Rightarrow> (if use_count c \<le> 1 then h(a := None) else h(a := Some (c\<lparr>use_count := use_count c - 1\<rparr>))))"

text \<open>The programs with functions: variables, the heap, and the next fresh address.\<close>

record 'f function_program =
  fn_vars :: "function_object list"
  heap :: "'f heap"
  fresh :: nat

definition function_empty :: "function_object" where
  "function_empty = None"

definition function_new :: "'f \<Rightarrow> 'f function_program \<Rightarrow> 'f function_program" where
  "function_new f s = s\<lparr>fn_vars := fn_vars s @ [Some (fresh s)],
     heap := (heap s)(fresh s := Some \<lparr>callable = f, use_count = 1\<rparr>), fresh := Suc (fresh s)\<rparr>"

definition function_copy_ctor :: "nat \<Rightarrow> 'f function_program \<Rightarrow> 'f function_program" where
  "function_copy_ctor i s = s\<lparr>fn_vars := fn_vars s @ [fn_vars s ! i], heap := acquire (fn_vars s ! i) (heap s)\<rparr>"

definition function_move_ctor :: "nat \<Rightarrow> 'f function_program \<Rightarrow> 'f function_program" where
  "function_move_ctor i s = s\<lparr>fn_vars := (fn_vars s)[i := None] @ [fn_vars s ! i]\<rparr>"

text \<open>The assignments of \<open>shared_ptr\<close>: take the new reference, then give up the old one.\<close>

definition function_copy_assign :: "nat \<Rightarrow> nat \<Rightarrow> 'f function_program \<Rightarrow> 'f function_program" where
  "function_copy_assign i j s = s\<lparr>fn_vars := (fn_vars s)[i := fn_vars s ! j],
     heap := drop_reference (fn_vars s ! i) (acquire (fn_vars s ! j) (heap s))\<rparr>"

definition function_move_assign :: "nat \<Rightarrow> nat \<Rightarrow> 'f function_program \<Rightarrow> 'f function_program" where
  "function_move_assign i j s = (if i = j then s
     else s\<lparr>fn_vars := (fn_vars s)[j := None, i := fn_vars s ! j],
            heap := drop_reference (fn_vars s ! i) (heap s)\<rparr>)"

definition function_dtor_last :: "'f function_program \<Rightarrow> 'f function_program" where
  "function_dtor_last s = s\<lparr>fn_vars := butlast (fn_vars s), heap := drop_reference (last (fn_vars s)) (heap s)\<rparr>"

definition function_not :: "function_object \<Rightarrow> bool" where
  "function_not f = (f = None)"

definition function_call ::
    "('f \<Rightarrow> 'a \<Rightarrow> 'r \<times> 'f) \<Rightarrow> nat \<Rightarrow> 'a \<Rightarrow> 'f function_program \<Rightarrow> fault + 'r \<times> 'f function_program" where
  "function_call invoke i argument s = (case fn_vars s ! i of
      None \<Rightarrow> Inl Assertion_Failed
    | Some a \<Rightarrow> (case heap s a of
          None \<Rightarrow> Inl Dead_Object
        | Some c \<Rightarrow> (case invoke (callable c) argument of
              (r, f) \<Rightarrow> Inr (r, s\<lparr>heap := (heap s)(a := Some (c\<lparr>callable := f\<rparr>))\<rparr>))))"

section \<open>ptr_adaptor, error_code, error handlers, c_string\<close>

record 'p ptr_adaptor =
  pa_value :: 'p

definition make_ptr_adaptor :: "'p \<Rightarrow> 'p ptr_adaptor" where
  "make_ptr_adaptor v = \<lparr>pa_value = v\<rparr>"

definition ptr_adaptor_deref :: "'p ptr_adaptor \<Rightarrow> 'p" where
  "ptr_adaptor_deref p = pa_value p"

definition ptr_adaptor_not :: "'p ptr_adaptor \<Rightarrow> bool" where
  "ptr_adaptor_not p = False"

text \<open>The small \<open>error_code\<close> is a pointer to an error code of the underlying type, or null.\<close>

record small_error_code =
  underlying :: "error_code option"

definition sec_default :: small_error_code where
  "sec_default = \<lparr>underlying = None\<rparr>"

definition sec_create :: "int \<Rightarrow> nat \<Rightarrow> small_error_code" where
  "sec_create value_number category = \<lparr>underlying = Some \<lparr>ec_value = value_number, ec_category = category\<rparr>\<rparr>"

definition to_underlying :: "small_error_code \<Rightarrow> error_code" where
  "to_underlying e = (case underlying e of Some u \<Rightarrow> u | None \<Rightarrow> no_error)"

definition sec_clear :: "small_error_code \<Rightarrow> small_error_code" where
  "sec_clear e = e\<lparr>underlying := None\<rparr>"

definition sec_value :: "small_error_code \<Rightarrow> int" where
  "sec_value e = ec_value (to_underlying e)"

definition sec_category :: "small_error_code \<Rightarrow> nat" where
  "sec_category e = ec_category (to_underlying e)"

definition sec_equal :: "small_error_code \<Rightarrow> small_error_code \<Rightarrow> bool" where
  "sec_equal l r = (to_underlying l = to_underlying r)"

definition sec_hash :: "(error_code \<Rightarrow> nat) \<Rightarrow> small_error_code \<Rightarrow> nat" where
  "sec_hash hash_code e = hash_code (to_underlying e)"

definition sec_print :: "(error_code \<Rightarrow> string) \<Rightarrow> small_error_code \<Rightarrow> string" where
  "sec_print show_code e = show_code (to_underlying e)"

definition sec_throw :: "small_error_code \<Rightarrow> ('s, error_code, 'r) op" where
  "sec_throw e = throw_error (to_underlying e)"

text \<open>The three error handlers: return the error, throw it, or put it into an \<open>error_or\<close>.\<close>

definition returning_error_handler :: "error_code \<Rightarrow> error_code" where
  "returning_error_handler error = error"

definition throwing_error_handler :: "error_code \<Rightarrow> ('s, error_code, 'r) op" where
  "throwing_error_handler error = throw_error error"

definition throwing_error_handler_void :: "error_code \<Rightarrow> ('s, error_code, unit) op" where
  "throwing_error_handler_void error s = (if \<not> is_set_error error then Ok () s else throw_error error s)"

definition variant_error_handler :: "error_code \<Rightarrow> 'v error_or" where
  "variant_error_handler error = eo_from_error error"

text \<open>A C string is a null pointer or points to text that ends with a zero.\<close>

record c_string =
  m_begin :: "char list option"

definition c_string_default :: c_string where
  "c_string_default = \<lparr>m_begin = None\<rparr>"

definition c_string_of :: "char list option \<Rightarrow> fault + c_string" where
  "c_string_of p = (if p = None then Inl Assertion_Failed else Inr \<lparr>m_begin = p\<rparr>)"

definition c_string_literal :: "char list \<Rightarrow> c_string" where
  "c_string_literal text_with_zero = \<lparr>m_begin = Some text_with_zero\<rparr>"

definition c_string_is_set :: "c_string \<Rightarrow> bool" where
  "c_string_is_set s \<longleftrightarrow> m_begin s \<noteq> None"

definition c_str :: "c_string \<Rightarrow> fault + char list" where
  "c_str s = (case m_begin s of None \<Rightarrow> Inl Assertion_Failed | Some p \<Rightarrow> Inr p)"

definition c_string_empty :: "c_string \<Rightarrow> fault + bool" where
  "c_string_empty s = (case m_begin s of
      None \<Rightarrow> Inl Assertion_Failed
    | Some [] \<Rightarrow> Inl Out_Of_Range
    | Some (c # _) \<Rightarrow> Inr (c = CHR 0x00))"

section \<open>Programs with functions\<close>

datatype ('f, 'a) fn_call = New_Function 'f | New_Empty | Copy_Function nat | Move_Function nat
  | Assign_Copy nat nat | Assign_Move nat nat | Destroy_Last | Call nat 'a

text \<open>A step on variables that do not exist is not part of a program and does nothing.\<close>

fun fn_exec :: "('f \<Rightarrow> 'a \<Rightarrow> 'r \<times> 'f) \<Rightarrow> ('f, 'a) fn_call \<Rightarrow> 'f function_program \<Rightarrow> fault + 'f function_program" where
  "fn_exec invoke (New_Function f) s = Inr (function_new f s)"
| "fn_exec invoke New_Empty s = Inr (s\<lparr>fn_vars := fn_vars s @ [function_empty]\<rparr>)"
| "fn_exec invoke (Copy_Function i) s = Inr (if i < length (fn_vars s) then function_copy_ctor i s else s)"
| "fn_exec invoke (Move_Function i) s = Inr (if i < length (fn_vars s) then function_move_ctor i s else s)"
| "fn_exec invoke (Assign_Copy i j) s =
     Inr (if i < length (fn_vars s) \<and> j < length (fn_vars s) then function_copy_assign i j s else s)"
| "fn_exec invoke (Assign_Move i j) s =
     Inr (if i < length (fn_vars s) \<and> j < length (fn_vars s) then function_move_assign i j s else s)"
| "fn_exec invoke Destroy_Last s = Inr (if fn_vars s = [] then s else function_dtor_last s)"
| "fn_exec invoke (Call i x) s =
     (if i < length (fn_vars s) then map_sum id snd (function_call invoke i x s) else Inr s)"

fun fn_run :: "('f \<Rightarrow> 'a \<Rightarrow> 'r \<times> 'f) \<Rightarrow> ('f, 'a) fn_call list \<Rightarrow> 'f function_program \<Rightarrow> fault + 'f function_program" where
  "fn_run invoke [] s = Inr s"
| "fn_run invoke (c # cs) s = (case fn_exec invoke c s of Inl f \<Rightarrow> Inl f | Inr s' \<Rightarrow> fn_run invoke cs s')"

definition fn_start :: "'f function_program" where
  "fn_start = \<lparr>fn_vars = [], heap = (\<lambda>_. None), fresh = 0\<rparr>"

text \<open>Every holder is alive as long as its use count says, and the use count is the number of references.\<close>

definition references :: "'f function_program \<Rightarrow> nat \<Rightarrow> nat" where
  "references s a = count (mset (fn_vars s)) (Some a)"

definition uses :: "'f heap \<Rightarrow> nat \<Rightarrow> nat" where
  "uses h a = (case h a of None \<Rightarrow> 0 | Some c \<Rightarrow> use_count c)"

definition heap_ok :: "'f heap \<Rightarrow> bool" where
  "heap_ok h \<longleftrightarrow> (\<forall>a c. h a = Some c \<longrightarrow> 0 < use_count c)"

definition fn_inv :: "'f function_program \<Rightarrow> bool" where
  "fn_inv s \<longleftrightarrow> heap_ok (heap s) \<and> (\<forall>a. uses (heap s) a = references s a) \<and> (\<forall>a \<ge> fresh s. heap s a = None)"

lemma uses_acquire: "uses h (the r) \<noteq> 0 \<or> r = None \<Longrightarrow>
    uses (acquire r h) a = uses h a + (if r = Some a then 1 else 0)"
  by (cases r) (auto simp: uses_def split: option.splits)

lemma uses_drop: "uses (drop_reference r h) a = uses h a - (if r = Some a then 1 else 0)"
  by (cases r) (auto simp: uses_def split: option.splits)

lemma heap_ok_acquire: "heap_ok h \<Longrightarrow> heap_ok (acquire r h)"
  by (cases r) (auto simp: heap_ok_def split: option.splits)

lemma heap_ok_drop: "heap_ok h \<Longrightarrow> heap_ok (drop_reference r h)"
  by (cases r) (auto simp: heap_ok_def split: option.splits)

lemma heap_None_iff: "heap_ok h \<Longrightarrow> h a = None \<longleftrightarrow> uses h a = 0"
  by (auto simp: uses_def heap_ok_def split: option.splits)

lemma fn_inv_nth: "fn_inv s \<Longrightarrow> i < length (fn_vars s) \<Longrightarrow> fn_vars s ! i = Some a \<Longrightarrow> uses (heap s) a \<noteq> 0"
  by (auto simp: fn_inv_def references_def dest: nth_mem)

lemma fn_inv_step:
  assumes "fn_inv s" "heap_ok h" "\<And>a. uses h a = count (mset vs) (Some a)"
    and "\<And>a. fresh s \<le> a \<Longrightarrow> Some a \<notin> set vs"
  shows "fn_inv (s\<lparr>fn_vars := vs, heap := h\<rparr>)"
  using assms heap_None_iff [OF assms(2)]
  by (auto simp: fn_inv_def references_def count_eq_zero_iff)

lemma fn_inv_fresh: "fn_inv s \<Longrightarrow> fresh s \<le> a \<Longrightarrow> Some a \<notin> set (fn_vars s)"
proof -
  assume s: "fn_inv s" and a: "fresh s \<le> a"
  then have "uses (heap s) a = 0" by (simp add: uses_def fn_inv_def)
  with s show "Some a \<notin> set (fn_vars s)" by (simp add: fn_inv_def references_def count_eq_zero_iff)
qed

lemma count_update:
  assumes "i < length vs"
  shows "count (mset (vs[i := x])) y = count (mset vs) y - (if vs ! i = y then 1 else 0) + (if x = y then 1 else 0)"
  using assms by (simp add: mset_update)

lemma count_nth: "i < length vs \<Longrightarrow> vs ! i = y \<Longrightarrow> 0 < count (mset vs) y"
  by auto

text \<open>Each operation keeps the invariant.\<close>

lemma fn_inv_uses: "fn_inv s \<Longrightarrow> uses (heap s) a = count (mset (fn_vars s)) (Some a)"
  by (simp add: fn_inv_def references_def)

lemma fn_inv_heap_ok: "fn_inv s \<Longrightarrow> heap_ok (heap s)"
  by (simp add: fn_inv_def)

lemma fn_inv_alive: "fn_inv s \<Longrightarrow> i < length (fn_vars s) \<Longrightarrow> uses (heap s) (the (fn_vars s ! i)) \<noteq> 0 \<or> fn_vars s ! i = None"
  using fn_inv_nth by (cases "fn_vars s ! i") auto

lemma fn_inv_nth_old:
  assumes "fn_inv s" "fresh s \<le> a" "i < length (fn_vars s)"
  shows "fn_vars s ! i \<noteq> Some a" "Some a \<noteq> fn_vars s ! i"
  using fn_inv_fresh [OF assms(1,2)] nth_mem [OF assms(3)] by metis+

lemmas fn_inv_facts = fn_inv_uses fn_inv_fresh fn_inv_nth_old

lemma function_new_inv:
  assumes "fn_inv s"
  shows "fn_inv (function_new f s)"
proof -
  have "Some (fresh s) \<notin> set (fn_vars s)" by (rule fn_inv_fresh [OF assms]) simp
  with assms show ?thesis
    by (auto simp: fn_inv_def function_new_def references_def uses_def heap_ok_def count_eq_zero_iff [symmetric])
qed

lemma function_empty_inv:
  assumes "fn_inv s"
  shows "fn_inv (s\<lparr>fn_vars := fn_vars s @ [function_empty]\<rparr>)"
proof -
  have "fn_inv (s\<lparr>fn_vars := fn_vars s @ [None], heap := heap s\<rparr>)"
    by (rule fn_inv_step [OF assms fn_inv_heap_ok [OF assms]]) (use fn_inv_facts [OF assms] in auto)
  then show ?thesis by (simp add: function_empty_def)
qed

lemma function_copy_ctor_inv:
  assumes s: "fn_inv s" and i: "i < length (fn_vars s)"
  shows "fn_inv (function_copy_ctor i s)"
  unfolding function_copy_ctor_def
  by (rule fn_inv_step [OF s heap_ok_acquire [OF fn_inv_heap_ok [OF s]]])
     (use fn_inv_facts [OF s] i uses_acquire [OF fn_inv_alive [OF s i]] in auto)

lemma function_move_ctor_inv:
  assumes s: "fn_inv s" and i: "i < length (fn_vars s)"
  shows "fn_inv (function_move_ctor i s)"
proof -
  have "fn_inv (s\<lparr>fn_vars := (fn_vars s)[i := None] @ [fn_vars s ! i], heap := heap s\<rparr>)"
  proof (rule fn_inv_step [OF s fn_inv_heap_ok [OF s]])
    show "uses (heap s) a = count (mset ((fn_vars s)[i := None] @ [fn_vars s ! i])) (Some a)" for a
      using fn_inv_uses [OF s, of a] count_nth [OF i, of "Some a"] i by (simp add: count_update del: count_greater_zero_iff)
  qed (use fn_inv_facts [OF s] i in \<open>auto dest: set_update_subset_insert [THEN subsetD]\<close>)
  then show ?thesis by (simp add: function_move_ctor_def)
qed

lemma function_copy_assign_inv:
  assumes s: "fn_inv s" and ij: "i < length (fn_vars s)" "j < length (fn_vars s)"
  shows "fn_inv (function_copy_assign i j s)"
  unfolding function_copy_assign_def
proof (rule fn_inv_step [OF s heap_ok_drop [OF heap_ok_acquire [OF fn_inv_heap_ok [OF s]]]])
  show "uses (drop_reference (fn_vars s ! i) (acquire (fn_vars s ! j) (heap s))) a =
      count (mset ((fn_vars s)[i := fn_vars s ! j])) (Some a)" for a
    using fn_inv_uses [OF s, of a] count_nth [OF ij(1), of "Some a"] ij
    by (simp add: count_update uses_drop uses_acquire [OF fn_inv_alive [OF s ij(2)]] del: count_greater_zero_iff)
qed (use fn_inv_facts [OF s] ij in \<open>auto dest: set_update_subset_insert [THEN subsetD]\<close>)

lemma function_move_assign_inv:
  assumes s: "fn_inv s" and ij: "i < length (fn_vars s)" "j < length (fn_vars s)"
  shows "fn_inv (function_move_assign i j s)"
proof -
  have "fn_inv (s\<lparr>fn_vars := (fn_vars s)[j := None, i := fn_vars s ! j], heap := drop_reference (fn_vars s ! i) (heap s)\<rparr>)"
    if "i \<noteq> j"
  proof (rule fn_inv_step [OF s heap_ok_drop [OF fn_inv_heap_ok [OF s]]])
    show "uses (drop_reference (fn_vars s ! i) (heap s)) a =
        count (mset ((fn_vars s)[j := None, i := fn_vars s ! j])) (Some a)" for a
      using fn_inv_uses [OF s, of a] count_nth [OF ij(1), of "Some a"] count_nth [OF ij(2), of "Some a"] ij that
        count_nth [of i "(fn_vars s)[j := None]" "Some a"]
      by (auto simp: count_update uses_drop simp del: count_greater_zero_iff split: if_splits)
  qed (use fn_inv_facts [OF s] ij in \<open>auto dest!: set_update_subset_insert [THEN subsetD]\<close>)
  with s show ?thesis by (simp add: function_move_assign_def)
qed

lemma function_dtor_last_inv:
  assumes s: "fn_inv s" and "fn_vars s \<noteq> []"
  shows "fn_inv (function_dtor_last s)"
proof (cases "fn_vars s" rule: rev_cases)
  case (snoc vs v)
  have "fn_inv (s\<lparr>fn_vars := vs, heap := drop_reference v (heap s)\<rparr>)"
    by (rule fn_inv_step [OF s heap_ok_drop [OF fn_inv_heap_ok [OF s]]])
       (use fn_inv_facts [OF s] snoc in \<open>auto simp: uses_drop\<close>)
  with snoc show ?thesis by (simp add: function_dtor_last_def)
qed (use assms in simp)

lemma function_call_inv:
  assumes s: "fn_inv s" and i: "i < length (fn_vars s)"
  shows "case function_call invoke i x s of Inr (r, s') \<Rightarrow> fn_inv s' | Inl f \<Rightarrow> f = Assertion_Failed"
proof (cases "fn_vars s ! i")
  case (Some a)
  with fn_inv_nth [OF s i] obtain c where c: "heap s a = Some c" by (cases "heap s a") (auto simp: uses_def)
  obtain r f where call: "invoke (callable c) x = (r, f)" by fastforce
  have "fn_inv (s\<lparr>fn_vars := fn_vars s, heap := (heap s)(a := Some (c\<lparr>callable := f\<rparr>))\<rparr>)"
  proof (rule fn_inv_step [OF s])
    show "uses ((heap s)(a := Some (c\<lparr>callable := f\<rparr>))) b = count (mset (fn_vars s)) (Some b)" for b
      using fn_inv_uses [OF s, of b] c by (auto simp: uses_def)
  qed (use c fn_inv_fresh [OF s] fn_inv_heap_ok [OF s] in \<open>auto simp: heap_ok_def split: if_splits\<close>)
  with Some c call show ?thesis by (simp add: function_call_def)
qed (simp add: function_call_def)

lemma fn_exec_inv:
  assumes "fn_inv s"
  shows "case fn_exec invoke c s of Inr s' \<Rightarrow> fn_inv s' | Inl f \<Rightarrow> f = Assertion_Failed"
proof (cases c)
  case (Call i x)
  with function_call_inv [OF assms, of i invoke x] assms show ?thesis
    by (cases "function_call invoke i x s") auto
qed (use assms in \<open>simp_all add: function_new_inv function_empty_inv function_copy_ctor_inv function_move_ctor_inv
    function_copy_assign_inv function_move_assign_inv function_dtor_last_inv\<close>)

lemma fn_run_inv:
  "fn_inv s \<Longrightarrow> case fn_run invoke cs s of Inr s' \<Rightarrow> fn_inv s' | Inl f \<Rightarrow> f = Assertion_Failed"
proof (induction cs arbitrary: s)
  case (Cons c cs)
  with fn_exec_inv [OF Cons.prems, of invoke c] show ?case by (cases "fn_exec invoke c s") auto
qed simp

lemma fn_start_inv: "fn_inv fn_start"
  by (simp add: fn_inv_def fn_start_def heap_ok_def uses_def references_def)

section \<open>Properties\<close>

text \<open>
  C19: Any program that makes, copies, moves, assigns, calls and destroys \<open>function\<close> objects: a call never
  reaches a callable that has been freed (calling an empty function fails the assertion, and nothing
  else goes wrong), a callable is freed exactly when no function refers to it any more, and when all
  functions are gone the heap is empty.
\<close>

theorem function_programs_memory_safe:
  "case fn_run invoke calls fn_start of
     Inl f \<Rightarrow> f = Assertion_Failed
   | Inr s \<Rightarrow> (\<forall>a. heap s a = None \<longleftrightarrow> Some a \<notin> set (fn_vars s)) \<and> (fn_vars s = [] \<longrightarrow> heap s = (\<lambda>_. None))"
proof (cases "fn_run invoke calls fn_start")
  case (Inl f)
  with fn_run_inv [OF fn_start_inv, of invoke calls] show ?thesis by simp
next
  case (Inr s)
  with fn_run_inv [OF fn_start_inv, of invoke calls] have s: "fn_inv s" by simp
  then have "heap s a = None \<longleftrightarrow> Some a \<notin> set (fn_vars s)" for a
    using heap_None_iff [of "heap s" a] by (simp add: fn_inv_def references_def count_eq_zero_iff)
  with Inr show ?thesis by auto
qed

lemma function_programs_memory_safe_witness:
  "fn_run (\<lambda>f x. (f, f + x)) [New_Function (5::int), Copy_Function 0, Call 1 2, Destroy_Last, New_Empty, Call 1 (3::int)]
     (fn_start :: int function_program) = Inl Assertion_Failed"
proof -
  let ?calls = "[New_Function (5::int), Copy_Function 0, Call 1 2, Destroy_Last, New_Empty, Call 1 (3::int)]"
  have "\<exists>f. fn_run (\<lambda>f x. (f, f + x)) ?calls (fn_start :: int function_program) = Inl f"
    by (simp add: fn_start_def function_new_def function_copy_ctor_def function_call_def function_dtor_last_def
        function_empty_def)
  then obtain f where f: "fn_run (\<lambda>f x. (f, f + x)) ?calls (fn_start :: int function_program) = Inl f" by blast
  from function_programs_memory_safe [of "\<lambda>f x. (f, f + x)" ?calls] have "f = Assertion_Failed"
    unfolding f by simp
  with f show ?thesis by simp
qed

text \<open>
  A moved-from \<open>destructor\<close> keeps its action, because the moved-from optional in it stays set: after
  one move the action runs twice, once for each object, the second time in its moved-from state.
\<close>

theorem moved_destructor_runs_twice:
  fixes T :: "('f, 'e) element_type"
  assumes "nothrow_movable T"
  shows "\<exists>w v x y. move_construct T f = Inr (w, v) \<and>
    (destructor_move_ctor T (destructor_default, make_destructor f) :: ('f destructor \<times> 'f destructor, 'e, unit) outcome) = Ok () (x, y) \<and>
    destructor_dtor x [] = Inr [w] \<and> destructor_dtor y [w] = Inr [w, v] \<and> (regular T \<longrightarrow> w = f)"
proof -
  obtain w v where m: "move_construct T f = Inr (w, v)" using nothrow_move_construct [OF assms] by blast
  then show ?thesis using regular_move_construct [OF _ m]
    by (simp add: destructor_move_ctor_def make_destructor_def destructor_default_def opt_move_ctor_def noexcept_def
        uninitialised_def Let_def on_storages_def opt_none_def destructor_dtor_def opt_not_def opt_deref_def)
qed

lemma moved_destructor_runs_twice_witness:
  "\<exists>x y. destructor_move_ctor trivial_type (destructor_default, make_destructor ''a'') =
      (Ok () (x, y) :: (string destructor \<times> string destructor, unit, unit) outcome) \<and>
     destructor_dtor y [''a''] = Inr [''a'', ''a'']"
  using moved_destructor_runs_twice [of "trivial_type :: (string, unit) element_type" "''a''"] by auto

text \<open>
  The three error handlers on the same error code.  For a set one, the throwing handlers throw it
  and the \<open>error_or\<close> of the variant handler is an error whose \<open>error\<close> is that code; without an error,
  the throwing handler for \<open>void\<close> returns, but the \<open>error_or\<close> claims to have a value that does not exist.
  A small \<open>error_code\<close> is equal to another exactly if they stand for the same code, and a cleared one
  stands for no error.
\<close>

theorem error_handlers_agree:
  fixes e :: error_code
  shows "(if is_set_error e
    then (throwing_error_handler_void e s :: ('s, error_code, unit) outcome) = Raise (returning_error_handler e) s \<and>
      eo_inv (variant_error_handler e :: 'v error_or) \<and> eo_error (variant_error_handler e :: 'v error_or) = Inr e
    else (throwing_error_handler_void e s :: ('s, error_code, unit) outcome) = Ok () s \<and>
      eo_get (variant_error_handler e :: 'v error_or) = Fault Wrong_Alternative) \<and>
    to_underlying (sec_create (ec_value e) (ec_category e)) = e \<and> to_underlying (sec_clear c) = no_error \<and>
    (sec_equal c d \<longleftrightarrow> sec_value c = sec_value d \<and> sec_category c = sec_category d) \<and>
    (sec_equal c d \<longrightarrow> sec_hash h c = sec_hash h d)"
  by (cases e)
     (auto simp: throwing_error_handler_void_def throw_error_def returning_error_handler_def variant_error_handler_def
       eo_from_error_def eo_error_def is_error_def is_set_error_def eo_get_def to_underlying_def sec_create_def sec_clear_def
       sec_equal_def sec_value_def sec_category_def sec_hash_def)

lemma error_handlers_agree_witness:
  "sec_equal sec_default (sec_create 0 0) \<and>
   sec_hash (\<lambda>e. nat (ec_value e)) sec_default = sec_hash (\<lambda>e. nat (ec_value e)) (sec_create 0 0)"
proof -
  have "sec_equal sec_default (sec_create 0 0)"
    by (simp add: sec_equal_def sec_default_def sec_create_def to_underlying_def no_error_def)
  then show ?thesis
    using error_handlers_agree [THEN conjunct2, THEN conjunct2, THEN conjunct2, THEN conjunct2,
      of sec_default "sec_create 0 0" "\<lambda>e. nat (ec_value e)"] by simp
qed

end
