(* ===== verification/Asio.thy ===== *)
theory Asio
  imports Sources Sinks "HOL-Library.Multiset"
begin

text \<open>
  \<open>silicium/asio/\<close>: work on a background dispatcher whose result is handed to a handler on a foreground
  dispatcher, the asynchronous source on top of it, and the adapters for sockets.  Boost.Asio is a
  parameter: a dispatcher is a record of what it does with a posted function, with what it promises as
  a named hypothesis, and the operations on sockets are functions of a world \<open>'w\<close>.
\<close>

section \<open>Dispatchers\<close>

text \<open>
  A dispatcher is any type with a \<open>post\<close>: a state \<open>'q\<close> that takes posted functions, that says which of
  them its threads may run next, and the state it has then.  \<open>posted\<close> are the functions that have been
  posted and not been taken by a thread.
\<close>

record ('q, 'f) dispatcher =
  post_to :: "'f \<Rightarrow> 'q \<Rightarrow> 'q"
  next_choices :: "'q \<Rightarrow> ('f \<times> 'q) list"
  posted :: "'q \<Rightarrow> 'f list"

text \<open>Every posted function is run once, none is forgotten, in any order.\<close>

definition dispatcher_contract :: "('q, 'f) dispatcher \<Rightarrow> bool" where
  "dispatcher_contract d \<longleftrightarrow>
     (\<forall>f q. mset (posted d (post_to d f q)) = add_mset f (mset (posted d q))) \<and>
     (\<forall>f q q'. (f, q') \<in> set (next_choices d q) \<longrightarrow> mset (posted d q) = add_mset f (mset (posted d q'))) \<and>
     (\<forall>q. posted d q \<noteq> [] \<longrightarrow> next_choices d q \<noteq> [])"

text \<open>What an \<open>io_service\<close> run by one thread, or a strand, promises in addition: the order of the posts.\<close>

definition fifo :: "('q, 'f) dispatcher \<Rightarrow> bool" where
  "fifo d \<longleftrightarrow>
     (\<forall>f q. posted d (post_to d f q) = posted d q @ [f]) \<and>
     (\<forall>f q q'. (f, q') \<in> set (next_choices d q) \<longrightarrow> posted d q = f # posted d q')"

lemma dispatcher_contractD:
  assumes "dispatcher_contract d"
  shows "mset (posted d (post_to d f q)) = add_mset f (mset (posted d q))"
    and "(f, q') \<in> set (next_choices d q) \<Longrightarrow> mset (posted d q) = add_mset f (mset (posted d q'))"
    and "posted d q \<noteq> [] \<Longrightarrow> \<exists>f q'. (f, q') \<in> set (next_choices d q)"
proof -
  show "mset (posted d (post_to d f q)) = add_mset f (mset (posted d q))"
    and "(f, q') \<in> set (next_choices d q) \<Longrightarrow> mset (posted d q) = add_mset f (mset (posted d q'))"
    using assms unfolding dispatcher_contract_def by blast+
  assume "posted d q \<noteq> []"
  with assms have "next_choices d q \<noteq> []" unfolding dispatcher_contract_def by blast
  then show "\<exists>f q'. (f, q') \<in> set (next_choices d q)" by (cases "next_choices d q") auto
qed

lemma dispatcher_size:
  assumes "dispatcher_contract d"
  shows "length (posted d (post_to d f q)) = Suc (length (posted d q))"
    and "(f, q') \<in> set (next_choices d q) \<Longrightarrow> length (posted d q) = Suc (length (posted d q'))"
  using dispatcher_contractD(1) [OF assms, of f q, THEN arg_cong [of _ _ size]]
    dispatcher_contractD(2) [OF assms, of f q' q, THEN arg_cong [of _ _ size]] by simp_all

lemma fifoD:
  assumes "fifo d"
  shows "posted d (post_to d f q) = posted d q @ [f]"
    and "(f, q') \<in> set (next_choices d q) \<Longrightarrow> posted d q = f # posted d q'"
  using assms unfolding fifo_def by blast+

text \<open>An \<open>io_service\<close> as a queue, and a pool of threads that may take what they like.\<close>

definition queue_dispatcher :: "('f list, 'f) dispatcher" where
  "queue_dispatcher = \<lparr>post_to = (\<lambda>f q. q @ [f]),
     next_choices = (\<lambda>q. case q of [] \<Rightarrow> [] | f # q' \<Rightarrow> [(f, q')]), posted = (\<lambda>q. q)\<rparr>"

definition pool_dispatcher :: "('f list, 'f) dispatcher" where
  "pool_dispatcher = \<lparr>post_to = (\<lambda>f q. q @ [f]),
     next_choices = (\<lambda>q. map (\<lambda>i. (q ! i, take i q @ drop (Suc i) q)) [0..<length q]), posted = (\<lambda>q. q)\<rparr>"

lemma queue_dispatcher_simps [simp]:
  "post_to queue_dispatcher f q = q @ [f]"
  "next_choices queue_dispatcher q = (case q of [] \<Rightarrow> [] | f # q' \<Rightarrow> [(f, q')])"
  "posted queue_dispatcher q = q"
  by (simp_all add: queue_dispatcher_def)

lemma queue_dispatcher_fifo: "dispatcher_contract queue_dispatcher" "fifo queue_dispatcher"
  by (auto simp: dispatcher_contract_def fifo_def split: list.splits)

lemma mset_remove_nth: "i < length xs \<Longrightarrow> mset xs = add_mset (xs ! i) (mset (take i xs @ drop (Suc i) xs))"
  by (subst id_take_nth_drop [of i xs]) simp_all

lemma pool_dispatcher_contract: "dispatcher_contract pool_dispatcher"
  unfolding dispatcher_contract_def pool_dispatcher_def dispatcher.simps
proof (intro conjI allI impI)
  fix f and q q' :: "'a list"
  assume "(f, q') \<in> set (map (\<lambda>i. (q ! i, take i q @ drop (Suc i) q)) [0..<length q])"
  then obtain i where "i < length q" "f = q ! i" "q' = take i q @ drop (Suc i) q" by auto
  then show "mset q = add_mset f (mset q')" using mset_remove_nth by simp
qed simp_all

section \<open>async\<close>

text \<open>
  The work that is passed to \<open>async\<close> returns a result, throws, or does a step on the state \<open>'w\<close> its
  captures refer to and goes on; the steps of different threads may interleave.
\<close>

datatype ('w, 'x, 'r) work = Throws 'x | Returns 'r | Does "'w \<Rightarrow> 'w" "'w \<Rightarrow> ('w, 'x, 'r) work"

text \<open>
  The state of the two dispatchers and what has come out of them, with the number of the call of \<open>async\<close>
  for each function: \<open>running\<close> is the work that threads of the background have taken and not finished,
  \<open>handled\<close> are the results that handlers were called with, \<open>thrown\<close> the exceptions that left the
  background, both in order.
\<close>

record ('q, 'p, 'w, 'x, 'r) async_state =
  background :: 'q
  running :: "(nat \<times> ('w, 'x, 'r) work) list"
  foreground :: 'p
  handled :: "(nat \<times> 'r) list"
  thrown :: "(nat \<times> 'x) list"
  world :: 'w
  next_call :: nat

definition async_start :: "'q \<Rightarrow> 'p \<Rightarrow> 'w \<Rightarrow> ('q, 'p, 'w, 'x, 'r) async_state" where
  "async_start q p w = \<lparr>background = q, running = [], foreground = p, handled = [], thrown = [], world = w, next_call = 0\<rparr>"

definition async ::
    "('q, nat \<times> ('w, 'x, 'r) work) dispatcher \<Rightarrow> ('w, 'x, 'r) work \<Rightarrow>
     ('q, 'p, 'w, 'x, 'r) async_state \<Rightarrow> ('q, 'p, 'w, 'x, 'r) async_state" where
  "async bg work s = s\<lparr>background := post_to bg (next_call s, work) (background s), next_call := Suc (next_call s)\<rparr>"

text \<open>
  A thread of the background goes on with the function it runs: a step of the work, or the work has
  returned and the handler is posted to the foreground, or its exception leaves the function.
\<close>

definition run_background ::
    "('p, nat \<times> 'r) dispatcher \<Rightarrow> nat \<Rightarrow> ('q, 'p, 'w, 'x, 'r) async_state \<Rightarrow> ('q, 'p, 'w, 'x, 'r) async_state" where
  "run_background fg i s = (let others = take i (running s) @ drop (Suc i) (running s) in
     case running s ! i of
       (n, Throws x) \<Rightarrow> s\<lparr>running := others, thrown := thrown s @ [(n, x)]\<rparr>
     | (n, Returns r) \<Rightarrow> s\<lparr>running := others, foreground := post_to fg (n, r) (foreground s)\<rparr>
     | (n, Does act continue) \<Rightarrow> s\<lparr>running := (running s)[i := (n, continue (world s))], world := act (world s)\<rparr>)"

text \<open>The function that was posted to the foreground: \<open>real_handler(std::move(*result))\<close>.\<close>

definition run_foreground :: "nat \<times> 'r \<Rightarrow> ('q, 'p, 'w, 'x, 'r) async_state \<Rightarrow> ('q, 'p, 'w, 'x, 'r) async_state" where
  "run_foreground h s = s\<lparr>handled := handled s @ [h]\<rparr>"

text \<open>The callers of \<open>async\<close>, \<open>threads\<close> threads of the background and the foreground interleave in any way.\<close>

inductive async_step ::
    "nat \<Rightarrow> ('q, nat \<times> ('w, 'x, 'r) work) dispatcher \<Rightarrow> ('p, nat \<times> 'r) dispatcher \<Rightarrow>
     ('q, 'p, 'w, 'x, 'r) async_state \<Rightarrow> ('q, 'p, 'w, 'x, 'r) async_state \<Rightarrow> bool" for threads bg fg where
  Call_Async: "async_step threads bg fg s (async bg work s)"
| Take_Background: "(f, q) \<in> set (next_choices bg (background s)) \<Longrightarrow> length (running s) < threads \<Longrightarrow>
    async_step threads bg fg s (s\<lparr>background := q, running := running s @ [f]\<rparr>)"
| Background: "i < length (running s) \<Longrightarrow> async_step threads bg fg s (run_background fg i s)"
| Foreground: "(h, p) \<in> set (next_choices fg (foreground s)) \<Longrightarrow>
    async_step threads bg fg s (run_foreground h (s\<lparr>foreground := p\<rparr>))"

inductive async_reachable ::
    "nat \<Rightarrow> ('q, nat \<times> ('w, 'x, 'r) work) dispatcher \<Rightarrow> ('p, nat \<times> 'r) dispatcher \<Rightarrow>
     ('q, 'p, 'w, 'x, 'r) async_state \<Rightarrow> ('q, 'p, 'w, 'x, 'r) async_state \<Rightarrow> bool" for threads bg fg where
  Reach_Start: "async_reachable threads bg fg s s"
| Reach_Step: "async_reachable threads bg fg s t \<Longrightarrow> async_step threads bg fg t u \<Longrightarrow> async_reachable threads bg fg s u"

inductive_cases async_stepE: "async_step threads bg fg s t"

text \<open>Nothing is left to do.\<close>

definition idle ::
    "('q, nat \<times> ('w, 'x, 'r) work) dispatcher \<Rightarrow> ('p, nat \<times> 'r) dispatcher \<Rightarrow> ('q, 'p, 'w, 'x, 'r) async_state \<Rightarrow> bool" where
  "idle bg fg s \<longleftrightarrow> posted bg (background s) = [] \<and> running s = [] \<and> posted fg (foreground s) = []"

section \<open>block_thread\<close>

text \<open>
  \<open>blocking_thread_handler\<close> is a promise and the handler that fulfils it; setting a promise twice
  throws, and the result is only there once the handler has run.
\<close>

record 'r blocking_handler =
  m_promised :: "'r option"

definition blocking_init :: "'r blocking_handler" where
  "blocking_init = \<lparr>m_promised = None\<rparr>"

definition blocking_handle :: "'r \<Rightarrow> ('r blocking_handler, string, unit) op" where
  "blocking_handle v h = (case m_promised h of
      None \<Rightarrow> Ok () (h\<lparr>m_promised := Some v\<rparr>) | Some _ \<Rightarrow> Raise ''promise_already_satisfied'' h)"

definition blocking_get :: "'r blocking_handler \<Rightarrow> 'r option" where
  "blocking_get h = m_promised h"

section \<open>async_source\<close>

text \<open>
  The result of \<open>async_get\<close> is a mapped range, or the end of what was copied into the buffer.  \<open>map_next\<close>
  is called with the greatest size, \<open>2 ^ 64 - 1\<close>, parameter \<open>big\<close>.  The state is that of the source.
\<close>

datatype 'e async_result = Mapped "'e list" | Copied "'e list"

definition async_get_work ::
    "('s \<Rightarrow> nat \<Rightarrow> 'e list \<times> 's) \<Rightarrow> ('s, 'e) copy_function \<Rightarrow> nat \<Rightarrow> nat \<Rightarrow> ('s, 'x, 'e async_result) work" where
  "async_get_work map_next copy_next big buffer = Does (\<lambda>s. snd (map_next s big)) (\<lambda>s.
     if fst (map_next s big) \<noteq> [] then Returns (Mapped (fst (map_next s big)))
     else Does (\<lambda>s1. snd (copy_next s1 buffer)) (\<lambda>s1. Returns (Copied (fst (copy_next s1 buffer)))))"

definition async_get ::
    "('q, nat \<times> ('s, 'x, 'e async_result) work) dispatcher \<Rightarrow>
     ('s \<Rightarrow> nat \<Rightarrow> 'e list \<times> 's) \<Rightarrow> ('s, 'e) copy_function \<Rightarrow> nat \<Rightarrow> nat \<Rightarrow>
     ('q, 'p, 's, 'x, 'e async_result) async_state \<Rightarrow> ('q, 'p, 's, 'x, 'e async_result) async_state" where
  "async_get bg map_next copy_next big buffer d = async bg (async_get_work map_next copy_next big buffer) d"

fun result_elements :: "'e async_result \<Rightarrow> 'e list" where
  "result_elements (Mapped ys) = ys"
| "result_elements (Copied ys) = ys"

section \<open>Sockets\<close>

text \<open>\<open>accepting_source\<close>: \<open>accept\<close> waits for the next client, or throws.\<close>

fun accepting_copy_next :: "('w \<Rightarrow> ('x + 'c) \<times> 'w) \<Rightarrow> nat \<Rightarrow> ('w, 'x, 'c list) op" where
  "accepting_copy_next accept 0 w = Ok [] w"
| "accepting_copy_next accept (Suc n) w = (case accept w of
      (Inl x, w1) \<Rightarrow> Raise x w1
    | (Inr client, w1) \<Rightarrow> bind_op (accepting_copy_next accept n) (\<lambda>cs. ret (client # cs)) w1)"

definition accepting_map_next :: "nat \<Rightarrow> 'c list" where
  "accepting_map_next size_wanted = []"

text \<open>\<open>connecting_source\<close>: a socket or the error of connecting, as many times as there is room.\<close>

fun connecting_copy_next :: "('w \<Rightarrow> 'x option \<times> 'c \<times> 'w) \<Rightarrow> nat \<Rightarrow> 'w \<Rightarrow> ('c + 'x) list \<times> 'w" where
  "connecting_copy_next connect 0 w = ([], w)"
| "connecting_copy_next connect (Suc n) w = (case connect w of
      (error, socket, w1) \<Rightarrow> (case connecting_copy_next connect n w1 of
          (cs, w2) \<Rightarrow> ((case error of Some e \<Rightarrow> Inr e | None \<Rightarrow> Inl socket) # cs, w2)))"

definition connecting_map_next :: "nat \<Rightarrow> ('c + 'x) list" where
  "connecting_map_next size_wanted = []"

text \<open>\<open>socket_sink\<close>: \<open>async_write\<close> writes everything or stops with an error.\<close>

definition socket_append :: "('w \<Rightarrow> char list \<Rightarrow> 'x option \<times> 'w) \<Rightarrow> ('w, char, 'x) append_function" where
  "socket_append async_write w data = async_write w data"

text \<open>\<open>socket_source\<close>: \<open>async_read_some\<close> reads at least one byte of what there is, or throws.\<close>

definition socket_copy_next :: "('w \<Rightarrow> nat \<Rightarrow> ('x + char list) \<times> 'w) \<Rightarrow> nat \<Rightarrow> ('w, 'x, char list) op" where
  "socket_copy_next async_read_some n w = (case async_read_some w n of
      (Inl x, w1) \<Rightarrow> Raise x w1 | (Inr bytes, w1) \<Rightarrow> Ok bytes w1)"

definition socket_map_next :: "nat \<Rightarrow> char list" where
  "socket_map_next size_wanted = []"

section \<open>Lemmas\<close>

text \<open>What the work gives when no other work interferes, and what running the queued work in order gives.\<close>

primrec run_work :: "('w, 'x, 'r) work \<Rightarrow> 'w \<Rightarrow> ('x + 'r) \<times> 'w" where
  "run_work (Throws x) w = (Inl x, w)"
| "run_work (Returns r) w = (Inr r, w)"
| "run_work (Does act continue) w = run_work (continue w) (act w)"

fun run_all :: "(nat \<times> ('w, 'x, 'r) work) list \<Rightarrow> 'w \<Rightarrow> (nat \<times> 'r) list \<times> (nat \<times> 'x) list \<times> 'w" where
  "run_all [] w = ([], [], w)"
| "run_all ((n, work) # ws) w = (case run_work work w of
      (Inl x, w1) \<Rightarrow> (case run_all ws w1 of (rs, xs, w2) \<Rightarrow> (rs, (n, x) # xs, w2))
    | (Inr r, w1) \<Rightarrow> (case run_all ws w1 of (rs, xs, w2) \<Rightarrow> ((n, r) # rs, xs, w2)))"

text \<open>Each call is in one place.\<close>

definition async_inv ::
    "('q, nat \<times> ('w, 'x, 'r) work) dispatcher \<Rightarrow> ('p, nat \<times> 'r) dispatcher \<Rightarrow> ('q, 'p, 'w, 'x, 'r) async_state \<Rightarrow> bool" where
  "async_inv bg fg s \<longleftrightarrow>
     mset (map fst (posted bg (background s))) + mset (map fst (running s)) +
     mset (map fst (posted fg (foreground s))) + mset (map fst (handled s)) + mset (map fst (thrown s)) =
       mset [0..<next_call s]"

lemma async_step_inv:
  assumes "dispatcher_contract bg" "dispatcher_contract fg" "async_step threads bg fg s t" "async_inv bg fg s"
  shows "async_inv bg fg t"
  using assms(3)
proof (cases rule: async_step.cases)
  case (Call_Async work)
  with assms(4) show ?thesis by (simp add: async_inv_def async_def dispatcher_contractD(1) [OF assms(1)])
next
  case (Take_Background f q)
  with assms(4) dispatcher_contractD(2) [OF assms(1) Take_Background(2)] show ?thesis by (simp add: async_inv_def)
next
  case (Background i)
  then obtain n k where k: "running s ! i = (n, k)" by fastforce
  have r: "mset (running s) = add_mset (n, k) (mset (take i (running s) @ drop (Suc i) (running s)))"
    using mset_remove_nth [OF Background(2)] k by simp
  have u: "mset ((running s)[i := (n, j)]) = add_mset (n, j) (mset (take i (running s) @ drop (Suc i) (running s)))" for j
    using Background(2) by (simp add: upd_conv_take_nth_drop)
  show ?thesis
    by (cases k) (use assms(4) Background(1) k r u in
      \<open>simp_all add: async_inv_def run_background_def dispatcher_contractD(1) [OF assms(2)] Let_def\<close>)
next
  case (Foreground h p)
  with assms(4) dispatcher_contractD(2) [OF assms(2) Foreground(2)] show ?thesis
    by (simp add: async_inv_def run_foreground_def)
qed

lemma async_reachable_inv:
  assumes "async_reachable threads bg fg s t" "dispatcher_contract bg" "dispatcher_contract fg" "async_inv bg fg s"
  shows "async_inv bg fg t"
  using assms(1,4) by (induction rule: async_reachable.induct) (auto intro: async_step_inv [OF assms(2,3)])

lemma async_start_inv: "posted bg q = [] \<Longrightarrow> posted fg p = [] \<Longrightarrow> async_inv bg fg (async_start q p w)"
  by (simp add: async_inv_def async_start_def)

text \<open>With dispatchers that keep the order and one thread of the background the functions are in order.\<close>

definition async_ordered ::
    "('q, nat \<times> ('w, 'x, 'r) work) dispatcher \<Rightarrow> ('p, nat \<times> 'r) dispatcher \<Rightarrow> ('q, 'p, 'w, 'x, 'r) async_state \<Rightarrow> bool" where
  "async_ordered bg fg s \<longleftrightarrow> length (running s) \<le> 1 \<and>
     sorted (map fst (handled s) @ map fst (posted fg (foreground s)) @ map fst (running s) @
       map fst (posted bg (background s)) @ [next_call s]) \<and>
     sorted (map fst (thrown s) @ map fst (running s) @ map fst (posted bg (background s)) @ [next_call s])"

lemma one_running:
  assumes "length xs \<le> 1" "i < length xs"
  obtains n k where "xs = [(n, k)]" "i = 0"
  using assms by (cases xs) auto

lemma async_step_ordered:
  assumes "fifo bg" "fifo fg" "async_step 1 bg fg s t" "async_ordered bg fg s"
  shows "async_ordered bg fg t"
  using assms(3)
proof (cases rule: async_step.cases)
  case (Call_Async work)
  with assms(4) show ?thesis
    by (auto simp: async_ordered_def async_def fifoD(1) [OF assms(1)] sorted_append)
next
  case (Take_Background f q)
  with assms(4) fifoD(2) [OF assms(1) Take_Background(2)] show ?thesis by (simp add: async_ordered_def)
next
  case (Background i)
  from assms(4) have "length (running s) \<le> 1" by (simp add: async_ordered_def)
  then obtain n k where k: "running s = [(n, k)]" "i = 0" by (rule one_running [OF _ Background(2)])
  show ?thesis
    by (cases k) (use assms(4) Background(1) k in
      \<open>auto simp: async_ordered_def run_background_def fifoD(1) [OF assms(2)] Let_def sorted_append\<close>)
next
  case (Foreground h p)
  with assms(4) fifoD(2) [OF assms(2) Foreground(2)] show ?thesis
    by (simp add: async_ordered_def run_foreground_def)
qed

lemma async_reachable_ordered:
  assumes "async_reachable 1 bg fg s t" "fifo bg" "fifo fg" "async_ordered bg fg s"
  shows "async_ordered bg fg t"
  using assms(1,4) by (induction rule: async_reachable.induct) (auto intro: async_step_ordered [OF assms(2,3)])

lemma async_start_ordered: "posted bg q = [] \<Longrightarrow> posted fg p = [] \<Longrightarrow> async_ordered bg fg (async_start q p w)"
  by (simp add: async_ordered_def async_start_def)

text \<open>The history of a state: what will have been handled and thrown when nothing is left to do.\<close>

definition outcome_of ::
    "('q, nat \<times> ('w, 'x, 'r) work) dispatcher \<Rightarrow> ('p, nat \<times> 'r) dispatcher \<Rightarrow>
     ('q, 'p, 'w, 'x, 'r) async_state \<Rightarrow> (nat \<times> 'r) list \<times> (nat \<times> 'x) list \<times> 'w" where
  "outcome_of bg fg s = (case run_all (running s @ posted bg (background s)) (world s) of
      (rs, xs, w) \<Rightarrow> (handled s @ posted fg (foreground s) @ rs, thrown s @ xs, w))"

lemma next_call_step: "async_step threads bg fg s t \<Longrightarrow> next_call t = next_call s \<or> next_call t = Suc (next_call s)"
  by (erule async_stepE)
     (auto simp: async_def run_background_def run_foreground_def Let_def split: prod.splits work.splits)

lemma next_call_mono: "async_reachable threads bg fg s t \<Longrightarrow> next_call s \<le> next_call t"
  by (induction rule: async_reachable.induct) (auto dest: next_call_step)

lemma step_without_call:
  assumes "fifo bg" "fifo fg" "async_step 1 bg fg s t" "next_call t = next_call s" "length (running s) \<le> 1"
  shows "outcome_of bg fg t = outcome_of bg fg s \<and> length (running t) \<le> 1"
  using assms(3)
proof (cases rule: async_step.cases)
  case (Call_Async work)
  with assms(4) show ?thesis by (simp add: async_def)
next
  case (Take_Background f q)
  with fifoD(2) [OF assms(1) Take_Background(2)] show ?thesis by (simp add: outcome_of_def)
next
  case (Background i)
  from assms(5) obtain n k where k: "running s = [(n, k)]" "i = 0" by (rule one_running [OF _ Background(2)])
  show ?thesis
    by (cases k) (use Background(1) k in
      \<open>auto simp: outcome_of_def run_background_def fifoD(1) [OF assms(2)] Let_def split: prod.splits\<close>)
next
  case (Foreground h p)
  with fifoD(2) [OF assms(2) Foreground(2)] assms(5) show ?thesis
    by (simp add: outcome_of_def run_foreground_def split: prod.splits)
qed

lemma outcome_without_calls:
  assumes "async_reachable 1 bg fg s t" "fifo bg" "fifo fg" "next_call t = next_call s" "length (running s) \<le> 1"
  shows "outcome_of bg fg t = outcome_of bg fg s \<and> length (running t) \<le> 1"
  using assms(1,4,5)
proof (induction rule: async_reachable.induct)
  case (Reach_Step s t u)
  have "next_call u = next_call t" "next_call t = next_call s"
    using next_call_step [OF Reach_Step.hyps(2)] next_call_mono [OF Reach_Step.hyps(1)] Reach_Step.prems(1) by auto
  with Reach_Step.IH Reach_Step.prems step_without_call [OF assms(2,3) Reach_Step.hyps(2)] show ?case by auto
qed simp

lemma async_idle:
  assumes "async_reachable 1 bg fg s t" "fifo bg" "fifo fg" "next_call t = next_call s" "length (running s) \<le> 1"
    and "idle bg fg t"
  shows "case run_all (running s @ posted bg (background s)) (world s) of (rs, xs, w) \<Rightarrow>
      handled t = handled s @ posted fg (foreground s) @ rs \<and> thrown t = thrown s @ xs \<and> world t = w"
  using outcome_without_calls [OF assms(1-5)] assms(6) by (auto simp: outcome_of_def idle_def split: prod.splits)

text \<open>Everything that is posted can be finished, by any number of threads.\<close>

lemma async_reachable_trans:
  assumes "async_reachable threads bg fg t u" "async_reachable threads bg fg s t"
  shows "async_reachable threads bg fg s u"
  using assms by (induction rule: async_reachable.induct) (auto intro: Reach_Step)

lemma async_reachable_step: "async_step threads bg fg s t \<Longrightarrow> async_reachable threads bg fg s t"
  by (rule Reach_Step [OF Reach_Start])

definition unfinished ::
    "('q, nat \<times> ('w, 'x, 'r) work) dispatcher \<Rightarrow> ('p, nat \<times> 'r) dispatcher \<Rightarrow> ('q, 'p, 'w, 'x, 'r) async_state \<Rightarrow> nat" where
  "unfinished bg fg s =
     3 * length (posted bg (background s)) + 2 * length (running s) + length (posted fg (foreground s))"

lemma unfinished_idle: "unfinished bg fg s = 0 \<longleftrightarrow> idle bg fg s"
  by (auto simp: unfinished_def idle_def)

lemma async_work_finishes:
  assumes "dispatcher_contract fg"
  shows "running s = (n, k) # rs \<Longrightarrow> \<exists>t. async_reachable threads bg fg s t \<and> next_call t = next_call s \<and>
    unfinished bg fg t < unfinished bg fg s"
proof (induction k arbitrary: s)
  case (Throws x)
  then have "async_step threads bg fg s (s\<lparr>running := rs, thrown := thrown s @ [(n, x)]\<rparr>)"
    using Background [where threads = threads and bg = bg and fg = fg and s = s and i = 0] by (simp add: run_background_def)
  from async_reachable_step [OF this] Throws show ?case
    by (intro exI [of _ "s\<lparr>running := rs, thrown := thrown s @ [(n, x)]\<rparr>"]) (simp add: unfinished_def)
next
  case (Returns r)
  then have "async_step threads bg fg s (s\<lparr>running := rs, foreground := post_to fg (n, r) (foreground s)\<rparr>)"
    using Background [where threads = threads and bg = bg and fg = fg and s = s and i = 0] by (simp add: run_background_def)
  from async_reachable_step [OF this] Returns show ?case
    by (intro exI [of _ "s\<lparr>running := rs, foreground := post_to fg (n, r) (foreground s)\<rparr>"])
      (simp add: unfinished_def dispatcher_size [OF assms])
next
  case (Does act continue)
  let ?t = "s\<lparr>running := (n, continue (world s)) # rs, world := act (world s)\<rparr>"
  from Does.prems have "async_step threads bg fg s ?t"
    using Background [where threads = threads and bg = bg and fg = fg and s = s and i = 0] by (simp add: run_background_def)
  moreover from Does.IH [of "continue (world s)" ?t] obtain u where
    "async_reachable threads bg fg ?t u" "next_call u = next_call s" "unfinished bg fg u < unfinished bg fg ?t" by auto
  moreover have "unfinished bg fg ?t = unfinished bg fg s" using Does.prems by (simp add: unfinished_def)
  ultimately show ?case using async_reachable_trans [OF _ async_reachable_step] by metis
qed

lemma async_progress:
  assumes "dispatcher_contract bg" "dispatcher_contract fg" "0 < threads" "\<not> idle bg fg s"
  shows "\<exists>t. async_reachable threads bg fg s t \<and> next_call t = next_call s \<and> unfinished bg fg t < unfinished bg fg s"
proof (cases "running s")
  case (Cons f rs)
  then show ?thesis using async_work_finishes [OF assms(2)] by (cases f) auto
next
  case Nil
  show ?thesis
  proof (cases "posted bg (background s) = []")
    case False
    then obtain f q where "(f, q) \<in> set (next_choices bg (background s))" using dispatcher_contractD(3) [OF assms(1)] by blast
    from async_reachable_step [OF Take_Background [OF this]] dispatcher_size(2) [OF assms(1) this] Nil assms(3)
    show ?thesis by (intro exI [of _ "s\<lparr>background := q, running := running s @ [f]\<rparr>"]) (simp add: unfinished_def)
  next
    case True
    with Nil assms(4) obtain h p where "(h, p) \<in> set (next_choices fg (foreground s))"
      using dispatcher_contractD(3) [OF assms(2)] unfolding idle_def by blast
    from async_reachable_step [OF Foreground [OF this]] dispatcher_size(2) [OF assms(2) this]
    show ?thesis by (intro exI [of _ "run_foreground h (s\<lparr>foreground := p\<rparr>)"]) (simp add: unfinished_def run_foreground_def)
  qed
qed

lemma async_drains:
  assumes "dispatcher_contract bg" "dispatcher_contract fg" "0 < threads"
  shows "\<exists>t. async_reachable threads bg fg s t \<and> next_call t = next_call s \<and> idle bg fg t"
proof (induction "unfinished bg fg s" arbitrary: s rule: less_induct)
  case less
  show ?case
  proof (cases "idle bg fg s")
    case False
    from async_progress [OF assms this] obtain t where
      "async_reachable threads bg fg s t" "next_call t = next_call s" "unfinished bg fg t < unfinished bg fg s" by blast
    with less.hyps [of t] show ?thesis using async_reachable_trans by metis
  qed (auto intro: Reach_Start)
qed

section \<open>Properties\<close>

text \<open>
  C24: For any two dispatchers that run every function that is posted once (\<open>dispatcher_contract\<close>) and
  any number of threads of the background: in every state that any interleaving of calls of \<open>async\<close>, of
  the steps of the work and of the two dispatchers reaches, each call is in exactly one place: its work
  is posted, or a thread runs it, or its result is posted to the foreground, or its handler has been
  called, or its work has thrown; no handler is called twice.  If both dispatchers keep the order of the
  posts (\<open>fifo\<close>) and the background has one thread, the handlers are called in the order of the calls.
\<close>

theorem async_handles_once_in_order:
  assumes "dispatcher_contract bg" "dispatcher_contract fg" "posted bg q = []" "posted fg p = []"
    and "async_reachable threads bg fg (async_start q p w) s"
  shows "mset (map fst (posted bg (background s))) + mset (map fst (running s)) +
      mset (map fst (posted fg (foreground s))) + mset (map fst (handled s)) + mset (map fst (thrown s)) =
      mset [0..<next_call s] \<and>
    distinct (map fst (handled s)) \<and> set (map fst (handled s)) \<inter> set (map fst (thrown s)) = {} \<and>
    (fifo bg \<and> fifo fg \<and> threads = 1 \<longrightarrow> sorted (map fst (handled s)))"
proof -
  let ?all = "map fst (posted bg (background s)) @ map fst (running s) @ map fst (posted fg (foreground s)) @
    map fst (handled s) @ map fst (thrown s)"
  have m: "mset (map fst (posted bg (background s))) + mset (map fst (running s)) +
      mset (map fst (posted fg (foreground s))) + mset (map fst (handled s)) + mset (map fst (thrown s)) =
      mset [0..<next_call s]"
    using async_reachable_inv [OF assms(5,1,2) async_start_inv [OF assms(3,4)]] unfolding async_inv_def .
  then have "mset ?all = mset [0..<next_call s]" by (simp add: ac_simps)
  then have "distinct ?all \<longleftrightarrow> distinct [0..<next_call s]" by (rule mset_eq_imp_distinct_iff)
  then have "distinct (map fst (handled s))" "set (map fst (handled s)) \<inter> set (map fst (thrown s)) = {}" by simp_all
  moreover have "sorted (map fst (handled s))" if "fifo bg \<and> fifo fg \<and> threads = 1"
    using async_reachable_ordered [of bg fg "async_start q p w" s] async_start_ordered [OF assms(3,4)] assms(5) that
    by (simp add: async_ordered_def sorted_append)
  ultimately show ?thesis using m by (intro conjI) simp_all
qed

lemma async_handles_once_in_order_witness:
  "sorted (map fst (handled (run_foreground (0, 5) (run_background queue_dispatcher 0
      ((async queue_dispatcher (Returns 5) (async_start [] [] (1::int)))\<lparr>background := [], running := [(0, Returns (5::int))]\<rparr>)
      \<lparr>foreground := []\<rparr>) :: (_, _, int, unit, int) async_state)))"
proof -
  let ?s1 = "async queue_dispatcher (Returns 5) (async_start [] [] 1) ::
    ((nat \<times> (int, unit, int) work) list, (nat \<times> int) list, int, unit, int) async_state"
  let ?s2 = "?s1\<lparr>background := [], running := running ?s1 @ [(0, Returns 5)]\<rparr>"
  let ?s3 = "run_background queue_dispatcher 0 ?s2"
  let ?s4 = "run_foreground (0, 5) (?s3\<lparr>foreground := []\<rparr>)"
  have s1: "async_step 1 queue_dispatcher queue_dispatcher (async_start [] [] 1) ?s1" by (rule Call_Async)
  have s2: "async_step 1 queue_dispatcher queue_dispatcher ?s1 ?s2"
    by (rule Take_Background) (simp_all add: async_def async_start_def)
  have s3: "async_step 1 queue_dispatcher queue_dispatcher ?s2 ?s3" by (rule Background) simp
  have s4: "async_step 1 queue_dispatcher queue_dispatcher ?s3 ?s4"
    by (rule Foreground) (simp add: run_background_def async_def async_start_def)
  from async_handles_once_in_order [OF _ _ _ _ Reach_Step [OF Reach_Step [OF Reach_Step [OF Reach_Step [OF Reach_Start s1] s2] s3] s4]]
  have "sorted (map fst (handled ?s4))" by (simp add: queue_dispatcher_fifo)
  then show ?thesis by (simp add: async_def async_start_def)
qed

text \<open>With two threads of the background the handlers may be called in another order.\<close>

lemma async_two_threads_reorder:
  "\<exists>s :: ((nat \<times> (int, unit, int) work) list, (nat \<times> int) list, int, unit, int) async_state.
     async_reachable 2 queue_dispatcher queue_dispatcher (async_start [] [] 0) s \<and> map fst (handled s) = [1, 0]"
proof -
  define s0 :: "((nat \<times> (int, unit, int) work) list, (nat \<times> int) list, int, unit, int) async_state" where
    "s0 = async queue_dispatcher (Returns 8) (async queue_dispatcher (Returns 7) (async_start [] [] 0)) \<lparr>
    background := [], running := [(0, Returns 7), (1, Returns 8)]\<rparr>"
  have "async_reachable 2 queue_dispatcher queue_dispatcher (async_start [] [] 0)
      (async queue_dispatcher (Returns 8) (async queue_dispatcher (Returns 7) (async_start [] [] 0 ::
        ((nat \<times> (int, unit, int) work) list, (nat \<times> int) list, int, unit, int) async_state)))"
    by (rule Reach_Step [OF Reach_Step [OF Reach_Start Call_Async] Call_Async])
  note r2 = Reach_Step [OF Reach_Step [OF this Take_Background [of "(0, Returns 7)" "[(1, Returns 8)]"]]
      Take_Background [of "(1, Returns 8)" "[]"]]
  have "async_reachable 2 queue_dispatcher queue_dispatcher (async_start [] [] 0) s0"
    using r2 by (simp add: s0_def async_def async_start_def)
  note r3 = Reach_Step [OF Reach_Step [OF this Background [of 1]] Background [of 0]]
  have "async_reachable 2 queue_dispatcher queue_dispatcher (async_start [] [] 0)
      (s0\<lparr>running := [], foreground := [(1, 8), (0, 7)]\<rparr>)"
    using r3 by (simp add: s0_def async_def async_start_def run_background_def)
  note r4 = Reach_Step [OF Reach_Step [OF this Foreground [of "(1, 8)" "[(0, 7)]"]] Foreground [of "(0, 7)" "[]"]]
  show ?thesis
    by (rule exI, rule conjI, rule r4) (simp_all add: s0_def async_def async_start_def run_foreground_def)
qed

text \<open>
  C25: For any two dispatchers that run every function that is posted once, and at least one thread of
  the background: from every state the dispatchers can finish everything that has been posted.  If both
  keep the order of the posts and the background has one thread, then, whatever the interleaving of the
  two dispatchers, the work of all calls is done in the order of the calls, each on the state its
  predecessor left, and when nothing is left to do, the handlers have been called with exactly the
  results of the work that did not throw, in order.
\<close>

theorem async_outcome_deterministic:
  assumes "dispatcher_contract bg" "dispatcher_contract fg" "0 < threads"
  shows "(\<exists>t. async_reachable threads bg fg s t \<and> next_call t = next_call s \<and> idle bg fg t) \<and>
    (fifo bg \<and> fifo fg \<and> threads = 1 \<and> length (running s) \<le> 1 \<longrightarrow>
     (\<forall>t. async_reachable threads bg fg s t \<and> next_call t = next_call s \<and> idle bg fg t \<longrightarrow>
       (case run_all (running s @ posted bg (background s)) (world s) of (rs, xs, w) \<Rightarrow>
          handled t = handled s @ posted fg (foreground s) @ rs \<and> thrown t = thrown s @ xs \<and> world t = w)))"
  by (intro conjI impI allI async_drains [OF assms]) (elim conjE, rule async_idle, simp_all)

lemma async_outcome_deterministic_witness:
  "\<exists>t :: ((nat \<times> (int, unit, int) work) list, (nat \<times> int) list, int, unit, int) async_state.
     async_reachable 1 queue_dispatcher queue_dispatcher
       (async queue_dispatcher (Does (\<lambda>w. w + 1) Returns) (async queue_dispatcher (Does (\<lambda>w. w + 1) Returns) (async_start [] [] 5))) t \<and>
     handled t = [(0, 5), (1, 6)]"
proof -
  let ?s = "async queue_dispatcher (Does (\<lambda>w. w + 1) Returns) (async queue_dispatcher (Does (\<lambda>w. w + 1) Returns) (async_start [] [] 5)) ::
    ((nat \<times> (int, unit, int) work) list, (nat \<times> int) list, int, unit, int) async_state"
  have s: "posted queue_dispatcher (background ?s) = [(0, Does (\<lambda>w. w + 1) Returns), (1, Does (\<lambda>w. w + 1) Returns)]"
    "world ?s = 5" "handled ?s = []" "posted queue_dispatcher (foreground ?s) = []" "running ?s = []"
    by (simp_all add: async_def async_start_def)
  note d = async_outcome_deterministic [of queue_dispatcher queue_dispatcher 1 ?s]
  from d [THEN conjunct1] obtain t where
    t: "async_reachable 1 queue_dispatcher queue_dispatcher ?s t \<and> next_call t = next_call ?s \<and> idle queue_dispatcher queue_dispatcher t"
    by (auto simp: queue_dispatcher_fifo simp del: queue_dispatcher_simps)
  from d [THEN conjunct2, THEN mp, THEN spec, THEN mp, OF _ _ _ _ t] s(5)
  have "handled t = [(0, 5), (1, 6)]" unfolding s by (simp add: queue_dispatcher_fifo)
  with t show ?thesis by (intro exI [of _ t]) simp
qed

text \<open>The state after \<open>k\<close> calls of \<open>async_get\<close> on a source.\<close>

fun after_gets ::
    "('q, nat \<times> ('s, 'x, 'e async_result) work) dispatcher \<Rightarrow> 'q \<Rightarrow> 'p \<Rightarrow>
     ('s \<Rightarrow> nat \<Rightarrow> 'e list \<times> 's) \<Rightarrow> ('s, 'e) copy_function \<Rightarrow> nat \<Rightarrow> nat \<Rightarrow> nat \<Rightarrow> 's \<Rightarrow>
     ('q, 'p, 's, 'x, 'e async_result) async_state" where
  "after_gets bg q p map_next copy_next big buffer 0 s = async_start q p s"
| "after_gets bg q p map_next copy_next big buffer (Suc k) s =
     async_get bg map_next copy_next big buffer (after_gets bg q p map_next copy_next big buffer k s)"

definition consumes :: "('s \<Rightarrow> nat \<Rightarrow> 'e list \<times> 's) \<Rightarrow> ('s \<Rightarrow> 'e list) \<Rightarrow> ('s \<Rightarrow> bool) \<Rightarrow> bool" where
  "consumes map_next pending invar \<longleftrightarrow> (\<forall>s n ys s'. invar s \<longrightarrow> map_next s n = (ys, s') \<longrightarrow> pending s = ys @ pending s' \<and> invar s')"

lemma after_gets_simps:
  "next_call (after_gets bg q p m c big buffer k s) = k"
  "world (after_gets bg q p m c big buffer k s) = s" "handled (after_gets bg q p m c big buffer k s) = []"
  "foreground (after_gets bg q p m c big buffer k s) = p" "thrown (after_gets bg q p m c big buffer k s) = []"
  "running (after_gets bg q p m c big buffer k s) = []"
  by (induction k) (simp_all add: async_get_def async_def async_start_def)

lemma after_gets_posted:
  assumes "fifo bg" "posted bg q = []"
  shows "posted bg (background (after_gets bg q p m c big buffer k s)) =
    map (\<lambda>i. (i, async_get_work m c big buffer)) [0..<k]"
  using assms(2)
  by (induction k) (simp_all add: async_get_def async_def async_start_def after_gets_simps fifoD(1) [OF assms(1)])

lemma after_gets_idle:
  assumes "fifo bg" "fifo fg" "posted bg q = []" "posted fg p = []"
    and "async_reachable 1 bg fg (after_gets bg q p m c big buffer k s) t" "next_call t = k" "idle bg fg t"
  shows "run_all (map (\<lambda>i. (i, async_get_work m c big buffer)) [0..<k]) s = (handled t, thrown t, world t)"
  using async_idle [OF assms(5,1,2) _ _ assms(7)] assms(3,4,6)
  by (simp add: after_gets_simps after_gets_posted [OF assms(1,3)] split: prod.splits)

context element_source
begin

lemma async_get_work_result:
  assumes "consumes m pending invar" "invar s" "0 < buffer"
  shows "\<exists>r s'. (run_work (async_get_work m copy_next big buffer) s :: ('x + 'e async_result) \<times> 's) = (Inr r, s') \<and> invar s' \<and>
    pending s = result_elements r @ pending s' \<and> (pending s \<noteq> [] \<longrightarrow> result_elements r \<noteq> [])"
proof -
  obtain mapped s1 where m: "m s big = (mapped, s1)" by fastforce
  with assms have s1: "pending s = mapped @ pending s1" "invar s1" unfolding consumes_def by blast+
  obtain ys s2 where c: "copy_next s1 buffer = (ys, s2)" by fastforce
  from copy_next_pending [OF s1(2) c] copy_next_inv [OF s1(2) c] copy_next_progress [OF s1(2) c assms(3)] m c s1
  show ?thesis by (auto simp: async_get_work_def)
qed

lemma run_async_gets:
  assumes "consumes m pending invar" "invar s" "0 < buffer"
  shows "\<exists>rs s'. run_all (map (\<lambda>i. (i, async_get_work m copy_next big buffer)) is) s =
      (rs, [] :: (nat \<times> 'x) list, s') \<and> invar s' \<and>
    pending s = concat (map (\<lambda>r. result_elements (snd r)) rs) @ pending s' \<and> length (pending s') \<le> length (pending s) - length is"
  using assms(2)
proof (induction "is" arbitrary: s)
  case (Cons i js)
  from async_get_work_result [OF assms(1) Cons.prems assms(3), of big] obtain r s1 where
    r: "(run_work (async_get_work m copy_next big buffer) s :: ('x + 'e async_result) \<times> 's) = (Inr r, s1)" "invar s1" "pending s = result_elements r @ pending s1"
      "pending s \<noteq> [] \<longrightarrow> result_elements r \<noteq> []" by blast
  from Cons.IH [OF r(2)] obtain rs s2 where
    IH: "run_all (map (\<lambda>i. (i, async_get_work m copy_next big buffer)) js) s1 = (rs, [] :: (nat \<times> 'x) list, s2)" "invar s2"
      "pending s1 = concat (map (\<lambda>r. result_elements (snd r)) rs) @ pending s2" "length (pending s2) \<le> length (pending s1) - length js"
    by blast
  have "length (pending s1) \<le> length (pending s) - 1"
    using r(3,4) by (cases "result_elements r") auto
  with IH r show ?case by auto
qed simp

end

text \<open>
  \<open>k\<close> calls of \<open>async_get\<close> on a source that keeps the contract and whose \<open>map_next\<close> consumes what it
  hands out, with dispatchers that keep the order of the posts and one thread of the background: once
  the dispatchers are idle, under any interleaving, nothing has been thrown and the handlers have
  received, in order, the first elements of the source without loss or repetition, and all of them if
  \<open>k\<close> is at least their number.
\<close>

theorem async_source_delivers:
  fixes t :: "('q, 'p, 's, 'x, 'e async_result) async_state"
  assumes source: "element_source copy_next pending invar" and m: "consumes map_next pending invar"
    and s: "invar s" "0 < buffer"
    and d: "fifo bg" "fifo fg" "posted bg q = []" "posted fg p = []"
    and t: "async_reachable 1 bg fg (after_gets bg q p map_next copy_next big buffer k s) t" "next_call t = k" "idle bg fg t"
  shows "thrown t = [] \<and> pending s = concat (map (\<lambda>r. result_elements (snd r)) (handled t)) @ pending (world t) \<and>
    (length (pending s) \<le> k \<longrightarrow> pending (world t) = [])"
proof -
  from element_source.run_async_gets [OF source m s, of big "[0..<k]", unfolded length_upt diff_zero] obtain rs s' where
    r: "run_all (map (\<lambda>i. (i, async_get_work map_next copy_next big buffer)) [0..<k]) s = (rs, [] :: (nat \<times> 'x) list, s')"
      "pending s = concat (map (\<lambda>r. result_elements (snd r)) rs) @ pending s'" "length (pending s') \<le> length (pending s) - k"
    by blast
  from r(3) have last: "length (pending s) \<le> k \<longrightarrow> pending s' = []" unfolding length_0_conv [symmetric] by arith
  from after_gets_idle [OF d t] r(1,2) last show ?thesis by simp
qed

text \<open>
  \<open>memory_source::map_next\<close> hands out everything it has left and does not consume it, so that an
  \<open>async_source\<close> over it never ends: every call is answered with all the elements again.
\<close>

theorem async_memory_source_repeats:
  fixes t :: "('q, 'p, 'e list, 'x, 'e async_result) async_state"
  assumes "elements \<noteq> []" and d: "fifo bg" "fifo fg" "posted bg q = []" "posted fg p = []"
    and t: "async_reachable 1 bg fg (after_gets bg q p memory_map_next memory_copy_next big buffer k elements) t" "next_call t = k"
      "idle bg fg t"
  shows "handled t = map (\<lambda>i. (i, Mapped elements)) [0..<k] \<and> world t = elements"
proof -
  have r: "run_all (map (\<lambda>i. (i, async_get_work memory_map_next memory_copy_next big buffer)) is) elements =
      (map (\<lambda>i. (i, Mapped elements)) is, [] :: (nat \<times> 'x) list, elements)" for "is"
    using assms(1) by (induction "is") (simp_all add: async_get_work_def memory_map_next_def)
  from after_gets_idle [OF d t, unfolded r] show ?thesis unfolding prod.inject by (elim conjE, intro conjI) (erule sym)+
qed

lemma async_source_delivers_witness:
  "\<exists>t :: (_, _, int list, unit, int async_result) async_state.
     async_reachable 1 queue_dispatcher queue_dispatcher
       (after_gets queue_dispatcher [] [] mutable_memory_map_next memory_copy_next 5 2 3 [7, 8, 9]) t \<and>
     concat (map (\<lambda>r. result_elements (snd r)) (handled t)) = [7, 8, 9]"
proof -
  let ?s = "after_gets queue_dispatcher [] [] mutable_memory_map_next memory_copy_next 5 2 3 [7, 8, 9 :: int] ::
    (_, _, int list, unit, int async_result) async_state"
  from async_drains [of queue_dispatcher queue_dispatcher 1 ?s] queue_dispatcher_fifo(1) obtain t where
    t: "async_reachable 1 queue_dispatcher queue_dispatcher ?s t" "next_call t = 3" "idle queue_dispatcher queue_dispatcher t"
    by (auto simp: after_gets_simps queue_dispatcher_fifo simp del: queue_dispatcher_simps)
  have m: "consumes mutable_memory_map_next (\<lambda>xs :: int list. xs) (\<lambda>_. True)"
    by (simp add: consumes_def mutable_memory_map_next_def)
  from async_source_delivers [OF memory.element_source_axioms m _ _ _ _ _ _ t]
  have "concat (map (\<lambda>r. result_elements (snd r)) (handled t)) = [7, 8, 9]" by (simp add: queue_dispatcher_fifo)
  with t show ?thesis by (intro exI [of _ t]) simp
qed

lemma async_memory_source_repeats_witness:
  "\<exists>t :: (_, _, int list, unit, int async_result) async_state.
     async_reachable 1 queue_dispatcher queue_dispatcher
       (after_gets queue_dispatcher [] [] memory_map_next memory_copy_next 5 2 2 [7, 8]) t \<and>
     handled t = [(0, Mapped [7, 8]), (1, Mapped [7, 8])]"
proof -
  let ?s = "after_gets queue_dispatcher [] [] memory_map_next memory_copy_next 5 2 2 [7, 8 :: int] ::
    (_, _, int list, unit, int async_result) async_state"
  from async_drains [of queue_dispatcher queue_dispatcher 1 ?s] obtain t where
    t: "async_reachable 1 queue_dispatcher queue_dispatcher ?s t" "next_call t = 2" "idle queue_dispatcher queue_dispatcher t"
    by (auto simp: after_gets_simps queue_dispatcher_fifo simp del: queue_dispatcher_simps)
  from async_memory_source_repeats [OF _ _ _ _ _ t]
  have "handled t = map (\<lambda>i. (i, Mapped [7, 8])) [0..<2]" by (simp add: queue_dispatcher_fifo)
  with t show ?thesis by (intro exI [of _ t]) (simp add: upt_rec)
qed

end
