(* ===== verification/Zlib.thy ===== *)
theory Zlib
  imports Sinks Error_Or
begin

text \<open>
  \<open>silicium/zlib/\<close>: the owners of deflate and inflate streams, and \<open>zlib_deflating_sink\<close>, which
  compresses what is appended into the append space of the next sink.  zlib is a parameter: a stream
  has a state \<open>'z\<close>, and \<open>::deflate\<close> and \<open>::inflate\<close> are functions from the state, the input, the room for
  output and the kind of flush to the status, the number of bytes taken from the input, the bytes
  written, and the new state.
\<close>

section \<open>Status codes\<close>

definition z_ok :: int where "z_ok = 0"
definition z_errno :: int where "z_errno = - 1"
definition z_stream_error :: int where "z_stream_error = - 2"
definition z_data_error :: int where "z_data_error = - 3"
definition z_mem_error :: int where "z_mem_error = - 4"
definition z_buf_error :: int where "z_buf_error = - 5"
definition z_version_error :: int where "z_version_error = - 6"

definition z_no_flush :: int where "z_no_flush = 0"
definition z_full_flush :: int where "z_full_flush = 3"

lemmas z_constants = z_ok_def z_errno_def z_stream_error_def z_data_error_def z_mem_error_def z_buf_error_def
  z_version_error_def z_no_flush_def z_full_flush_def

definition zlib_message :: "int \<Rightarrow> string" where
  "zlib_message ev =
     (if ev = z_errno then ''Z_ERRNO''
      else if ev = z_stream_error then ''Z_STREAM_ERROR''
      else if ev = z_data_error then ''Z_DATA_ERROR''
      else if ev = z_mem_error then ''Z_MEM_ERROR''
      else if ev = z_buf_error then ''Z_BUF_ERROR''
      else if ev = z_version_error then ''Z_VERSION_ERROR''
      else [])"

definition handle_zlib_status :: "int \<Rightarrow> ('s, int, unit) op" where
  "handle_zlib_status status s = (if status = z_ok then Ok () s else Raise status s)"

section \<open>Streams\<close>

text \<open>
  \<open>zlib_deflate_stream\<close> and \<open>zlib_inflate_stream\<close> own an \<open>optional<z_stream>\<close>.  Constructors and
  assignments work on \<open>*this\<close> (first) and \<open>other\<close>; the destructor appends to the trace of the streams
  that \<open>deflateEnd\<close> or \<open>inflateEnd\<close> was called with.
\<close>

type_synonym 'z stream = "'z option"

definition stream_default :: "'z stream" where
  "stream_default = None"

text \<open>
  \<open>zlib_deflate_stream(level)\<close> and \<open>zlib_inflate_stream::initialize\<close>.  When the initialisation fails
  the exception leaves the constructor and no stream exists.
\<close>

definition deflate_stream_init :: "(int \<Rightarrow> int \<times> 'z) \<Rightarrow> int \<Rightarrow> ('z stream, int, unit) op" where
  "deflate_stream_init deflateInit level s = (case deflateInit level of
      (status, z) \<Rightarrow> then_op (handle_zlib_status status) (modify (\<lambda>_. Some z)) s)"

definition inflate_stream_init :: "int \<times> 'z \<Rightarrow> ('z stream, int, unit) op" where
  "inflate_stream_init inflateInit s = (case inflateInit of
      (status, z) \<Rightarrow> then_op (handle_zlib_status status) (modify (\<lambda>_. Some z)) s)"

definition stream_move_ctor :: "'z stream \<Rightarrow> 'z stream \<times> 'z stream" where
  "stream_move_ctor other = prod.swap (stream_default, other)"

definition stream_move_assign :: "'z stream \<times> 'z stream \<Rightarrow> 'z stream \<times> 'z stream" where
  "stream_move_assign p = prod.swap p"

definition stream_dtor :: "'z stream \<Rightarrow> 'z list \<Rightarrow> 'z list" where
  "stream_dtor s trace = (case s of None \<Rightarrow> trace | Some z \<Rightarrow> trace @ [z])"

text \<open>Sizes are narrowed to the 32-bit \<open>uInt\<close> of zlib.\<close>

definition uint_of :: "nat \<Rightarrow> nat" where
  "uint_of n = n mod 2 ^ 32"

type_synonym 'z sys_deflate = "'z \<Rightarrow> char list \<Rightarrow> nat \<Rightarrow> int \<Rightarrow> int \<times> nat \<times> char list \<times> 'z"

text \<open>The result is what is left of both ranges, and the bytes that were written into \<open>deflated\<close>.\<close>

definition stream_deflate ::
    "'z sys_deflate \<Rightarrow> char list \<Rightarrow> nat \<Rightarrow> int \<Rightarrow> ('z stream, 'x, nat \<times> nat \<times> char list) op" where
  "stream_deflate sys uncompressed deflated_size flush s = (case s of
      None \<Rightarrow> Fault Assertion_Failed
    | Some z \<Rightarrow>
        (if deflated_size = 0 then Fault Assertion_Failed
         else (case sys z (take (uint_of (length uncompressed)) uncompressed) (uint_of deflated_size) flush of
            (rc, consumed, out, z') \<Rightarrow>
              (if rc \<noteq> z_ok then Fault Assertion_Failed
               else Ok (uint_of (length uncompressed) - consumed, uint_of deflated_size - length out, out) (Some z')))))"

definition stream_inflate ::
    "'z sys_deflate \<Rightarrow> char list \<Rightarrow> nat \<Rightarrow> int \<Rightarrow> ('z stream, 'x, nat \<times> nat \<times> char list) op" where
  "stream_inflate sys deflated original_size flush s = (case s of
      None \<Rightarrow> Fault Assertion_Failed
    | Some z \<Rightarrow>
        (if original_size = 0 \<or> deflated = [] then Fault Assertion_Failed
         else (case sys z (take (uint_of (length deflated)) deflated) (uint_of original_size) flush of
            (rc, consumed, out, z') \<Rightarrow>
              (if rc \<noteq> z_ok then Fault Assertion_Failed
               else Ok (uint_of (length deflated) - consumed, uint_of original_size - length out, out) (Some z')))))"

section \<open>The deflating sink\<close>

datatype zlib_sink_element = Flush | Content "char list"

definition piece_content :: "zlib_sink_element \<Rightarrow> char list" where
  "piece_content piece = (case piece of Flush \<Rightarrow> [] | Content content \<Rightarrow> content)"

definition piece_flag :: "zlib_sink_element \<Rightarrow> int" where
  "piece_flag piece = (case piece of Flush \<Rightarrow> z_full_flush | Content content \<Rightarrow> z_no_flush)"

text \<open>
  The next sink is given by what \<open>make_append_space\<close> (the size of the space and the new state), writing
  into the space, and \<open>flush_append_space\<close> do.  The error of \<open>flush_append_space\<close> is dropped.
\<close>

type_synonym 't make_space = "'t \<Rightarrow> nat \<Rightarrow> nat \<times> 't"

partial_function (option) deflate_rest ::
    "'t make_space \<Rightarrow> (char list \<Rightarrow> 't \<Rightarrow> 't) \<Rightarrow> ('t \<Rightarrow> 'y option \<times> 't) \<Rightarrow> 'z sys_deflate \<Rightarrow> int \<Rightarrow> char list \<Rightarrow> 't \<Rightarrow> 'z stream \<Rightarrow>
     ('t \<times> 'z stream, 'x, unit) outcome option" where
  "deflate_rest make_space fill_space flush_space sys flag todo t st =
     (case make_space t (max (length todo) 4096) of (n, t1) \<Rightarrow>
        (if n = 0 then Some (Fault Assertion_Failed)
         else (case stream_deflate sys todo n flag st of
            Fault f \<Rightarrow> Some (Fault f)
          | Raise e st' \<Rightarrow> Some (Raise e (t1, st'))
          | Ok (avail_in, avail_out, out) st' \<Rightarrow>
              (let written = n - avail_out;
                   t2 = snd (make_space (fill_space out t1) written);
                   t3 = snd (flush_space t2);
                   next_in = drop (length todo - avail_in) todo
               in if next_in \<noteq> [] then deflate_rest make_space fill_space flush_space sys flag next_in t3 st'
                  else Some (Ok () (t3, st'))))))"

fun deflating_append ::
    "'t make_space \<Rightarrow> (char list \<Rightarrow> 't \<Rightarrow> 't) \<Rightarrow> ('t \<Rightarrow> 'y option \<times> 't) \<Rightarrow> 'z sys_deflate \<Rightarrow> zlib_sink_element list \<Rightarrow> 't \<times> 'z stream \<Rightarrow>
     ('t \<times> 'z stream, 'x, unit) outcome option" where
  "deflating_append make_space fill_space flush_space sys [] s = Some (Ok () s)"
| "deflating_append make_space fill_space flush_space sys (piece # data) s =
     (case deflate_rest make_space fill_space flush_space sys (piece_flag piece) (piece_content piece) (fst s) (snd s) of
        None \<Rightarrow> None
      | Some (Ok _ s') \<Rightarrow> deflating_append make_space fill_space flush_space sys data s'
      | Some (Raise e s') \<Rightarrow> Some (Raise e s')
      | Some (Fault f) \<Rightarrow> Some (Fault f))"

section \<open>What the sink relies on\<close>

text \<open>The append space of the next sink: what is filled in and flushed is written, unless the sink is full.\<close>

locale space_sink =
  fixes make_space :: "'t make_space"
    and fill_space :: "char list \<Rightarrow> 't \<Rightarrow> 't"
    and flush_space :: "'t \<Rightarrow> 'y option \<times> 't"
    and written :: "'t \<Rightarrow> char list"
    and invar :: "'t \<Rightarrow> bool"
    and full :: "'t \<Rightarrow> bool"
  assumes space_bound: "invar t \<Longrightarrow> make_space t wanted = (n, t1) \<Longrightarrow> n \<le> wanted"
    and space_empty: "invar t \<Longrightarrow> 0 < wanted \<Longrightarrow> make_space t wanted = (0, t1) \<Longrightarrow> full t"
    and space_written: "invar t \<Longrightarrow> make_space t wanted = (n, t1) \<Longrightarrow> length ys \<le> n \<Longrightarrow>
      make_space (fill_space ys t1) (length ys) = (m, t2) \<Longrightarrow> flush_space t2 = (r, t3) \<Longrightarrow>
      invar t3 \<and> written t3 = written t @ ys"

text \<open>
  The documented behaviour of \<open>::deflate\<close> on a valid stream with room for output.  \<open>consumed\<close> and \<open>emitted\<close>
  are all the bytes that went in and came out so far.  It stops when the input is used up or the room
  is; it reports \<open>Z_OK\<close> when there was something to do, and not when there was nothing; what it holds
  back (\<open>backlog\<close>) shrinks when it only writes; and after a full flush that left room for output,
  \<open>expand\<close> (inflating) of what came out is what went in.
\<close>

definition deflate_contract ::
    "'z sys_deflate \<Rightarrow> ('z \<Rightarrow> bool) \<Rightarrow> ('z \<Rightarrow> char list) \<Rightarrow> ('z \<Rightarrow> char list) \<Rightarrow> ('z \<Rightarrow> nat) \<Rightarrow> ('z \<Rightarrow> bool) \<Rightarrow> (char list \<Rightarrow> char list) \<Rightarrow> bool" where
  "deflate_contract sys valid consumed emitted backlog flushed expand \<longleftrightarrow>
     (\<forall>z input room flush rc k ys z'. valid z \<longrightarrow> 0 < room \<longrightarrow> sys z input room flush = (rc, k, ys, z') \<longrightarrow>
        valid z' \<and> k \<le> length input \<and> length ys \<le> room \<and>
        consumed z' = consumed z @ take k input \<and> emitted z' = emitted z @ ys \<and>
        (length ys < room \<longrightarrow> k = length input) \<and>
        (input \<noteq> [] \<longrightarrow> rc = z_ok \<and> (k = 0 \<longrightarrow> backlog z' < backlog z)) \<and>
        (input \<noteq> [] \<and> flush = z_no_flush \<longrightarrow> \<not> flushed z') \<and>
        (input = [] \<and> flush = z_full_flush \<and> \<not> flushed z \<longrightarrow> rc = z_ok) \<and>
        (input = [] \<and> flushed z \<longrightarrow> rc \<noteq> z_ok) \<and>
        (flush = z_full_flush \<and> length ys < room \<longrightarrow> flushed z')) \<and>
     (\<forall>z. valid z \<and> flushed z \<longrightarrow> expand (emitted z) = consumed z)"

lemma deflate_contractD:
  assumes "deflate_contract sys valid consumed emitted backlog flushed expand" "valid z" "0 < room"
    and "sys z input room flush = (rc, k, ys, z')"
  shows "valid z'" "k \<le> length input" "length ys \<le> room" "consumed z' = consumed z @ take k input"
    "emitted z' = emitted z @ ys" "length ys < room \<Longrightarrow> k = length input"
    "input \<noteq> [] \<Longrightarrow> rc = z_ok" "input \<noteq> [] \<Longrightarrow> k = 0 \<Longrightarrow> backlog z' < backlog z"
    "input \<noteq> [] \<Longrightarrow> flush = z_no_flush \<Longrightarrow> \<not> flushed z'"
    "input = [] \<Longrightarrow> flush = z_full_flush \<Longrightarrow> \<not> flushed z \<Longrightarrow> rc = z_ok"
    "input = [] \<Longrightarrow> flushed z \<Longrightarrow> rc \<noteq> z_ok"
    "flush = z_full_flush \<Longrightarrow> length ys < room \<Longrightarrow> flushed z'"
  using assms unfolding deflate_contract_def by blast+

lemma deflate_contract_expand:
  "deflate_contract sys valid consumed emitted backlog flushed expand \<Longrightarrow> valid z \<Longrightarrow> flushed z \<Longrightarrow>
   expand (emitted z) = consumed z"
  unfolding deflate_contract_def by blast

section \<open>One call and the loop\<close>

lemma uint_of_small [simp]: "n < 2 ^ 32 \<Longrightarrow> uint_of n = n"
  by (simp add: uint_of_def)

context space_sink
begin

text \<open>One turn of the loop: space, one call of \<open>::deflate\<close>, and what was written is committed.\<close>

lemma deflate_turn:
  assumes contract: "deflate_contract sys valid consumed emitted backlog flushed expand"
    and state: "invar t" "valid z" "length todo < 2 ^ 32"
    and space: "make_space t (max (length todo) 4096) = (n, t1)" "n \<noteq> 0"
    and call: "sys z todo n flag = (rc, k, ys, z')"
  shows "\<exists>t'. invar t' \<and> written t' = written t @ ys \<and>
    (deflate_rest make_space fill_space flush_space sys flag todo t (Some z) :: ('t \<times> 'z stream, 'x, unit) outcome option) =
      (if rc \<noteq> z_ok then Some (Fault Assertion_Failed)
       else if drop k todo \<noteq> [] then deflate_rest make_space fill_space flush_space sys flag (drop k todo) t' (Some z')
       else Some (Ok () (t', Some z')))"
proof -
  have n: "n \<le> max (length todo) 4096" "n < 2 ^ 32"
    using space_bound [OF state(1) space(1)] state(3) by auto
  note law = deflate_contractD [OF contract state(2) _ call]
  let ?t2 = "snd (make_space (fill_space ys t1) (length ys))" and ?t3 = "\<lambda>t2. snd (flush_space t2)"
  have "length ys \<le> n" using law(3) space(2) by simp
  from space_written [OF state(1) space(1) this] have t3: "invar (?t3 ?t2)" "written (?t3 ?t2) = written t @ ys"
    by (metis prod.collapse)+
  have k: "length todo - (length todo - k) = k" "n - (n - length ys) = length ys"
    using law(2,3) space(2) by simp_all
  show ?thesis
    using t3 k n state(3) space call
    by (intro exI [of _ "?t3 ?t2"]) (simp add: deflate_rest.simps [of _ _ _ _ _ todo] stream_deflate_def Let_def)
qed

text \<open>The loop over one piece without a flush ends, and all of the piece has gone into the stream.\<close>

definition delivered :: "('z \<Rightarrow> bool) \<Rightarrow> ('z \<Rightarrow> char list) \<Rightarrow> ('z \<Rightarrow> char list) \<Rightarrow> 't \<Rightarrow> 'z \<Rightarrow> char list \<Rightarrow> 't \<Rightarrow> 'z \<Rightarrow> bool" where
  "delivered valid consumed emitted t z content t' z' \<longleftrightarrow> invar t' \<and> valid z' \<and> consumed z' = consumed z @ content \<and>
     (\<exists>out. emitted z' = emitted z @ out \<and> written t' = written t @ out)"

lemma delivered_trans:
  "delivered valid consumed emitted t z xs t1 z1 \<Longrightarrow> delivered valid consumed emitted t1 z1 ys t2 z2 \<Longrightarrow>
   delivered valid consumed emitted t z (xs @ ys) t2 z2"
  by (auto simp: delivered_def)

text \<open>
  What happens with content: all of it is delivered and \<open>k\<close> says how it goes on, or the next sink is full in the
  middle, which is an assertion.
\<close>

definition delivers :: "('z \<Rightarrow> bool) \<Rightarrow> ('z \<Rightarrow> char list) \<Rightarrow> ('z \<Rightarrow> char list) \<Rightarrow> ('z \<Rightarrow> bool) \<Rightarrow> 't \<Rightarrow> 'z \<Rightarrow> char list \<Rightarrow>
    ('t \<Rightarrow> 'z \<Rightarrow> ('r, 'x, unit) outcome option) \<Rightarrow> ('r, 'x, unit) outcome option \<Rightarrow> bool" where
  "delivers valid consumed emitted flushed t z content k r \<longleftrightarrow>
     (\<exists>t' z'. r = k t' z' \<and> delivered valid consumed emitted t z content t' z' \<and> (content = [] \<and> z' = z \<or> \<not> flushed z')) \<or>
     (\<exists>t' z' ys zs. r = Some (Fault Assertion_Failed) \<and> delivered valid consumed emitted t z ys t' z' \<and> content = ys @ zs \<and> full t')"

lemma delivers_nothing: "invar t \<Longrightarrow> valid z \<Longrightarrow> delivers valid consumed emitted flushed t z [] k (k t z)"
  unfolding delivers_def by (intro disjI1 exI [of _ t] exI [of _ z]) (simp add: delivered_def)

lemma delivers_full:
  "invar t \<Longrightarrow> valid z \<Longrightarrow> full t \<Longrightarrow> delivers valid consumed emitted flushed t z content k (Some (Fault Assertion_Failed))"
  unfolding delivers_def by (intro disjI2 exI [of _ t] exI [of _ z] exI [of _ "[]"] exI [of _ content]) (simp add: delivered_def)

lemma delivers_step:
  assumes "delivered valid consumed emitted t z xs t1 z1" "\<not> flushed z1" "delivers valid consumed emitted flushed t1 z1 ys k r"
  shows "delivers valid consumed emitted flushed t z (xs @ ys) k r"
proof -
  consider (all) t2 z2 where "r = k t2 z2" "delivered valid consumed emitted t1 z1 ys t2 z2" "ys = [] \<and> z2 = z1 \<or> \<not> flushed z2"
    | (stuck) t2 z2 ys' zs where "r = Some (Fault Assertion_Failed)" "delivered valid consumed emitted t1 z1 ys' t2 z2" "ys = ys' @ zs" "full t2"
    using assms(3) unfolding delivers_def by blast
  then show ?thesis
  proof cases
    case all
    with delivered_trans [OF assms(1) all(2)] assms(2) show ?thesis
      unfolding delivers_def by (intro disjI1 exI [of _ t2] exI [of _ z2]) auto
  next
    case stuck
    with delivered_trans [OF assms(1) stuck(2)] show ?thesis
      unfolding delivers_def by (intro disjI2 exI [of _ t2] exI [of _ z2] exI [of _ "xs @ ys'"] exI [of _ zs]) simp
  qed
qed

lemma deflate_rest_content:
  fixes rest :: "char list \<Rightarrow> 't \<Rightarrow> 'z \<Rightarrow> ('t \<times> 'z stream, 'x, unit) outcome option"
  assumes contract: "deflate_contract sys valid consumed emitted backlog flushed expand"
    and rest_def: "rest = (\<lambda>todo t z. deflate_rest make_space fill_space flush_space sys z_no_flush todo t (Some z))"
  shows "invar t \<Longrightarrow> valid z \<Longrightarrow> todo \<noteq> [] \<Longrightarrow> length todo < 2 ^ 32 \<Longrightarrow>
    delivers valid consumed emitted flushed t z todo (\<lambda>t z. Some (Ok () (t, Some z))) (rest todo t z)"
proof (induction "(length todo, backlog z)" arbitrary: todo t z rule: wf_induct_rule [OF wf_lex_prod [OF wf_less_than wf_less_than]])
  case 1
  obtain n t1 where space: "make_space t (max (length todo) 4096) = (n, t1)" by fastforce
  show ?case
  proof (cases "n = 0")
    case True
    with space space_empty [OF "1.prems"(1) _ space [unfolded True]] "1.prems" show ?thesis
      by (simp add: rest_def deflate_rest.simps [of _ _ _ _ _ todo] delivers_full)
  next
    case False
    obtain rc k ys z' where call: "sys z todo n z_no_flush = (rc, k, ys, z')" by (metis prod_cases4)
    note law = deflate_contractD [OF contract "1.prems"(2) _ call]
    from deflate_turn [OF contract "1.prems"(1,2,4) space False call, where ?'x = 'x] obtain t' where
      t': "invar t'" "written t' = written t @ ys" "rest todo t z = (if rc \<noteq> z_ok then Some (Fault Assertion_Failed)
           else if drop k todo \<noteq> [] then rest (drop k todo) t' z' else Some (Ok () (t', Some z')))" by (auto simp: rest_def)
    have z': "valid z'" "k \<le> length todo" "rc = z_ok" "\<not> flushed z'" "k = 0 \<longrightarrow> backlog z' < backlog z"
      "delivered valid consumed emitted t z (take k todo) t' z'"
      using law "1.prems"(3) False t'(1,2) by (auto simp: delivered_def)
    have "delivers valid consumed emitted flushed t' z' (drop k todo) (\<lambda>t z. Some (Ok () (t, Some z))) (rest todo t z)"
    proof (cases "drop k todo = []")
      case True
      with t'(3) z'(3) delivers_nothing [of t' valid z' consumed emitted flushed "\<lambda>t z. Some (Ok () (t, Some z))"] t'(1) z'(1)
      show ?thesis by simp
    next
      case more: False
      from z'(5) "1.prems"(3) have "((length (drop k todo), backlog z'), (length todo, backlog z)) \<in> less_than <*lex*> less_than"
        by (cases k) auto
      from "1.hyps" [OF this t'(1) z'(1) more] "1.prems"(4) t'(3) more z'(3) show ?thesis by simp
    qed
    from delivers_step [where xs = "take k todo", OF z'(6,4) this] show ?thesis by simp
  qed
qed

text \<open>A flush is one turn of the loop.\<close>

lemma deflate_rest_flush:
  assumes contract: "deflate_contract sys valid consumed emitted backlog flushed expand"
    and state: "invar t" "valid z" "\<not> flushed z"
    and space: "make_space t 4096 = (n, t1)"
  shows "if n = 0 then full t \<and> (deflate_rest make_space fill_space flush_space sys z_full_flush [] t (Some z) :: ('t \<times> 'z stream, 'x, unit) outcome option) = Some (Fault Assertion_Failed)
    else \<exists>t' z' ys rc k. sys z [] n z_full_flush = (rc, k, ys, z') \<and> (deflate_rest make_space fill_space flush_space sys z_full_flush [] t (Some z) :: ('t \<times> 'z stream, 'x, unit) outcome option) = Some (Ok () (t', Some z')) \<and>
      delivered valid consumed emitted t z [] t' z' \<and> written t' = written t @ ys \<and> (length ys < n \<longrightarrow> flushed z')"
proof (cases "n = 0")
  case True
  with space space_empty [OF state(1), of 4096 t1] show ?thesis by (simp add: deflate_rest.simps)
next
  case False
  obtain rc k ys z' where call: "sys z [] n z_full_flush = (rc, k, ys, z')" by (metis prod_cases4)
  note law = deflate_contractD [OF contract state(2) _ call]
  have "\<exists>t'. invar t' \<and> written t' = written t @ ys \<and>
    (deflate_rest make_space fill_space flush_space sys z_full_flush [] t (Some z) :: ('t \<times> 'z stream, 'x, unit) outcome option) =
      (if rc \<noteq> z_ok then Some (Fault Assertion_Failed)
       else if drop k ([] :: char list) \<noteq> [] then deflate_rest make_space fill_space flush_space sys z_full_flush (drop k []) t' (Some z')
       else Some (Ok () (t', Some z')))"
    by (rule deflate_turn [OF contract state(1,2) _ _ False call]) (simp_all add: space)
  then obtain t' where "invar t'" "written t' = written t @ ys"
    "(deflate_rest make_space fill_space flush_space sys z_full_flush [] t (Some z) :: ('t \<times> 'z stream, 'x, unit) outcome option) =
      (if rc \<noteq> z_ok then Some (Fault Assertion_Failed) else Some (Ok () (t', Some z')))" by auto
  with law False state(3) call show ?thesis by (auto simp: delivered_def)
qed

end

lemma deflating_append_append:
  "deflating_append make_space fill_space flush_space sys (xs @ ys) s =
     (case deflating_append make_space fill_space flush_space sys xs s of
        Some (Ok _ s') \<Rightarrow> deflating_append make_space fill_space flush_space sys ys s' | r \<Rightarrow> r)"
  by (induction xs arbitrary: s) (simp_all split: option.splits outcome.splits)

context space_sink
begin

lemma deflating_append_contents:
  fixes app :: "zlib_sink_element list \<Rightarrow> 't \<Rightarrow> 'z \<Rightarrow> ('t \<times> 'z stream, 'x, unit) outcome option"
  assumes contract: "deflate_contract sys valid consumed emitted backlog flushed expand"
    and app_def: "app = (\<lambda>data t z. deflating_append make_space fill_space flush_space sys data (t, Some z))"
  shows "invar t \<Longrightarrow> valid z \<Longrightarrow> \<forall>c \<in> set cs. c \<noteq> [] \<and> length c < 2 ^ 32 \<Longrightarrow>
    delivers valid consumed emitted flushed t z (concat cs) (app ps) (app (map Content cs @ ps) t z)"
proof (induction cs arbitrary: t z)
  case Nil
  then show ?case using delivers_nothing [of t valid z consumed emitted flushed "app ps"] by simp
next
  case (Cons c cs)
  let ?rest = "deflate_rest make_space fill_space flush_space sys z_no_flush c t (Some z) :: ('t \<times> 'z stream, 'x, unit) outcome option"
  from Cons.prems(3) have c: "c \<noteq> []" "length c < 2 ^ 32" "\<forall>c \<in> set cs. c \<noteq> [] \<and> length c < 2 ^ 32" by simp_all
  from deflate_rest_content [OF contract refl Cons.prems(1,2) c(1,2), where ?'x = 'x] c(1)
  consider (taken) t' z' where "?rest = Some (Ok () (t', Some z'))" "delivered valid consumed emitted t z c t' z'" "\<not> flushed z'"
    | (stuck) t' z' ys zs where "?rest = Some (Fault Assertion_Failed)" "delivered valid consumed emitted t z ys t' z'" "c = ys @ zs" "full t'"
    unfolding delivers_def by blast
  then show ?case
  proof cases
    case taken
    then have "invar t'" "valid z'" by (simp_all add: delivered_def)
    from delivers_step [where flushed = flushed, OF taken(2,3) Cons.IH [OF this c(3)]] taken(1) show ?thesis
      by (simp add: app_def piece_flag_def piece_content_def)
  next
    case stuck
    then show ?thesis unfolding delivers_def
      by (intro disjI2 exI [of _ t'] exI [of _ z'] exI [of _ ys] exI [of _ "zs @ concat cs"])
         (simp add: app_def piece_flag_def piece_content_def)
  qed
qed

end

section \<open>The next sink is a container or a buffering sink\<close>

lemma container_space_eq:
  "container_make_append_space cap fill (container_buffer_init d) wanted =
     (min wanted (cap - length d), \<lparr>c_destination = d @ replicate (min wanted (cap - length d)) fill, m_committed = length d\<rparr>)"
  by (simp add: container_make_append_space_def container_buffer_init_def resize_list_def Let_def)

text \<open>What is committed is the part of the space that is asked for the second time.\<close>

lemma container_commit_eq:
  assumes "length out \<le> w" "w \<le> n" "n \<le> cap - length d"
  shows "container_flush_append_space (snd (container_make_append_space cap fill
      (container_fill_space out \<lparr>c_destination = d @ replicate n fill, m_committed = length d\<rparr>) w)) =
    (None, container_buffer_init (d @ out @ replicate (w - length out) fill))"
proof -
  have 1: "container_fill_space out \<lparr>c_destination = d @ replicate n fill, m_committed = length d\<rparr> =
      \<lparr>c_destination = d @ out @ replicate (n - length out) fill, m_committed = length d\<rparr>"
    by (simp add: container_fill_space_def)
  have "min w (cap - length d) = w" using assms by simp
  moreover have "resize_list fill (length d + w) (d @ out @ replicate (n - length out) fill) = d @ out @ replicate (w - length out) fill"
    using assms by (simp add: resize_list_def min_def)
  ultimately show ?thesis
    by (simp add: 1 container_make_append_space_def container_flush_append_space_def container_buffer_init_def Let_def)
qed

lemma container_invE:
  assumes "m_committed s = length (c_destination s) \<and> length (c_destination s) \<le> cap"
  obtains d where "s = container_buffer_init d" "length d \<le> cap"
  using assms by (cases s) (simp add: container_buffer_init_def)

lemma container_init_simps [simp]:
  "c_destination (container_buffer_init d) = d" "m_committed (container_buffer_init d) = length d"
  by (simp_all add: container_buffer_init_def)

interpretation container_space: space_sink "container_make_append_space cap fill" container_fill_space container_flush_append_space
    c_destination "\<lambda>s. m_committed s = length (c_destination s) \<and> length (c_destination s) \<le> cap" "\<lambda>s. cap \<le> m_committed s"
  for cap fill
proof
  fix t t1 t2 t3 :: "char container_buffer" and wanted n m ys and r :: "unit option"
  assume "m_committed t = length (c_destination t) \<and> length (c_destination t) \<le> cap"
  then obtain d where d: "t = container_buffer_init d" "length d \<le> cap" by (rule container_invE)
  assume s: "container_make_append_space cap fill t wanted = (n, t1)"
  with d show "n \<le> wanted" by (auto simp: container_space_eq)
  assume ys: "length ys \<le> n" "container_make_append_space cap fill (container_fill_space ys t1) (length ys) = (m, t2)"
    "container_flush_append_space t2 = (r, t3)"
  from s d have "t1 = \<lparr>c_destination = d @ replicate n fill, m_committed = length d\<rparr>" "n \<le> cap - length d"
    by (auto simp: container_space_eq)
  with container_commit_eq [of ys "length ys" n cap d fill] ys d
  show "(m_committed t3 = length (c_destination t3) \<and> length (c_destination t3) \<le> cap) \<and> c_destination t3 = c_destination t @ ys"
    by auto
next
  fix t t1 :: "char container_buffer" and wanted
  assume "m_committed t = length (c_destination t) \<and> length (c_destination t) \<le> cap"
  then obtain d where "t = container_buffer_init d" "length d \<le> cap" by (rule container_invE)
  then show "0 < wanted \<Longrightarrow> container_make_append_space cap fill t wanted = (0, t1) \<Longrightarrow> cap \<le> m_committed t"
    by (simp add: container_space_eq min_def split: if_splits)
qed

context reliable_sink
begin

lemma buffering_space_written:
  assumes "buffering_sink_inv invar s" "m_buffer_used s = 0" "length ys \<le> length (m_fallback_buffer s)"
    and "buffering_make_append_space (fill_append_space ys s1) (length ys) = (m, t)" "s1 = s\<lparr>m_buffer_used := n\<rparr>"
    and "buffering_flush_append_space append t = (r, u)"
  shows "buffering_sink_inv invar u \<and> m_buffer_used u = 0 \<and> length (m_fallback_buffer u) = length (m_fallback_buffer s) \<and>
    written (m_destination u) = written (m_destination s) @ ys"
proof -
  from assms(3-5) have t: "t = s\<lparr>m_fallback_buffer := ys @ drop (length ys) (m_fallback_buffer s), m_buffer_used := length ys\<rparr>"
    by (auto simp: buffering_make_append_space_def fill_append_space_def Let_def)
  with assms(1,3) have i: "buffering_sink_inv invar t" by (simp add: buffering_sink_inv_def)
  obtain r' u' where f: "buffering_flush append t = (r', u')" by fastforce
  have w: "buffering_written written t = written (m_destination s) @ ys"
    using t by (simp add: buffering_written_def buffered_elements_def)
  show ?thesis
  proof (cases "ys = []")
    case True
    with assms(1,2,6) t show ?thesis by (auto simp: buffering_flush_append_space_def buffering_sink_inv_def)
  next
    case False
    with assms(6) t f have "u = u'" by (simp add: buffering_flush_append_space_def)
    with buffering_flush_delivers [OF i] buffering_flush_cases [OF i f] f w assms(3) t show ?thesis by auto
  qed
qed

end

interpretation buffering_space: space_sink buffering_make_append_space fill_append_space "buffering_flush_append_space container_append"
    m_destination "\<lambda>s. m_buffer_used s = 0 \<and> m_fallback_buffer s \<noteq> []" "\<lambda>_. False"
proof
  fix t :: "(char list, char) buffering_sink" and wanted n t1 ys m t2 t3 and r :: "unit option"
  assume i: "m_buffer_used t = 0 \<and> m_fallback_buffer t \<noteq> []" "buffering_make_append_space t wanted = (n, t1)"
  then show "n \<le> wanted" by (auto simp: buffering_make_append_space_def Let_def)
  assume ys: "length ys \<le> n" "buffering_make_append_space (fill_append_space ys t1) (length ys) = (m, t2)"
    "buffering_flush_append_space container_append t2 = (r, t3)"
  from i ys(1) have "buffering_sink_inv (\<lambda>_. True) t" "length ys \<le> length (m_fallback_buffer t)" "t1 = t\<lparr>m_buffer_used := n\<rparr>"
    by (auto simp: buffering_sink_inv_def buffering_make_append_space_def Let_def)
  from container.buffering_space_written [OF this(1) _ this(2) ys(2) this(3) ys(3)] i
  show "(m_buffer_used t3 = 0 \<and> m_fallback_buffer t3 \<noteq> []) \<and> m_destination t3 = m_destination t @ ys" by auto
qed (auto simp: buffering_make_append_space_def Let_def min_def split: if_splits)

section \<open>A codec that holds everything back until it is flushed\<close>

text \<open>
  It satisfies the contract: input is stored and only written on a flush, unchanged.  The state is what
  has been stored, what was written, and what is still held back.
\<close>

record holding =
  h_in :: "char list"
  h_out :: "char list"
  h_held :: "char list"
  h_flushed :: bool

definition holding_start :: holding where
  "holding_start = \<lparr>h_in = [], h_out = [], h_held = [], h_flushed = False\<rparr>"

definition holding_deflate :: "holding sys_deflate" where
  "holding_deflate z input room flush =
     (if input = [] \<and> h_flushed z then (z_buf_error, 0, [], z)
      else if flush = z_full_flush
      then (let held = h_held z @ input in
         (z_ok, length input, take room held,
          \<lparr>h_in = h_in z @ input, h_out = h_out z @ take room held, h_held = drop room held, h_flushed = length held < room\<rparr>))
      else (z_ok, length input, [],
          \<lparr>h_in = h_in z @ input, h_out = h_out z, h_held = h_held z @ input, h_flushed = False\<rparr>))"

definition holding_valid :: "holding \<Rightarrow> bool" where
  "holding_valid z \<longleftrightarrow> h_in z = h_out z @ h_held z \<and> (h_flushed z \<longrightarrow> h_held z = [])"

lemma holding_contract:
  "deflate_contract holding_deflate holding_valid h_in h_out (\<lambda>z. length (h_held z)) h_flushed id"
  unfolding deflate_contract_def
  by (intro conjI allI impI) (auto simp: holding_deflate_def holding_valid_def z_constants Let_def
      simp del: take_append drop_append split: if_splits)

text \<open>One turn of the loop in front of a container: what \<open>written\<close> says is committed, whether it was written or not.\<close>

lemma container_turn:
  assumes "n = min (max (length todo) 4096) (cap - length d)" "n \<noteq> 0"
    and "(stream_deflate sys todo n flag st :: ('z stream, 'x, nat \<times> nat \<times> char list) outcome) = Ok (left, avail_out, out) st'" "length out \<le> n - avail_out"
  shows "(deflate_rest (container_make_append_space cap fill) container_fill_space container_flush_append_space sys
      flag todo (container_buffer_init d) st :: (char container_buffer \<times> 'z stream, 'x, unit) outcome option) =
    (let d' = d @ out @ replicate (n - avail_out - length out) fill;
         next_in = drop (length todo - left) todo
     in if next_in \<noteq> []
        then deflate_rest (container_make_append_space cap fill) container_fill_space container_flush_append_space sys
          flag next_in (container_buffer_init d') st'
        else Some (Ok () (container_buffer_init d', st')))"
proof -
  have space: "container_make_append_space cap fill (container_buffer_init d) (max (length todo) 4096) =
      (n, \<lparr>c_destination = d @ replicate n fill, m_committed = length d\<rparr>)"
    by (simp add: container_space_eq flip: assms(1))
  have "n \<le> cap - length d" using assms(1) by simp
  note commit = container_commit_eq [OF assms(4) diff_le_self this, of fill]
  show ?thesis
    unfolding deflate_rest.simps [of _ _ _ _ _ todo] space
    by (simp only: prod.case assms(2,3) outcome.case commit if_False snd_conv Let_def)
qed

text \<open>The stream that holds everything back until it is flushed, in front of an empty container.\<close>

lemma holding_content:
  assumes "content \<noteq> []" "length content < 2 ^ 32" "0 < cap"
  shows "(deflate_rest (container_make_append_space cap fill) container_fill_space container_flush_append_space holding_deflate
      z_no_flush content (container_buffer_init []) (Some z) :: (char container_buffer \<times> holding stream, 'x, unit) outcome option) =
    Some (Ok () (container_buffer_init [], Some \<lparr>h_in = h_in z @ content, h_out = h_out z, h_held = h_held z @ content, h_flushed = False\<rparr>))"
proof -
  let ?z = "\<lparr>h_in = h_in z @ content, h_out = h_out z, h_held = h_held z @ content, h_flushed = False\<rparr>"
  let ?n = "min (max (length content) 4096) cap"
  have n: "?n < 2 ^ 32" "?n \<noteq> 0" using assms by auto
  show ?thesis
  proof (subst container_turn [where n = ?n and left = 0 and avail_out = ?n and out = "[]" and st' = "Some ?z"])
    show "stream_deflate holding_deflate content ?n z_no_flush (Some z) = Ok (0, ?n, []) (Some ?z)"
      using assms(1,2) n by (simp add: stream_deflate_def holding_deflate_def z_constants)
  qed (use n in auto)
qed

lemma holding_flush:
  assumes "\<not> h_flushed z" "4096 \<le> cap"
  shows "(deflate_rest (container_make_append_space cap fill) container_fill_space container_flush_append_space holding_deflate
      z_full_flush [] (container_buffer_init []) (Some z) :: (char container_buffer \<times> holding stream, 'x, unit) outcome option) =
    Some (Ok () (container_buffer_init (take 4096 (h_held z)), Some \<lparr>h_in = h_in z, h_out = h_out z @ take 4096 (h_held z),
      h_held = drop 4096 (h_held z), h_flushed = length (h_held z) < 4096\<rparr>))"
proof -
  let ?z = "\<lparr>h_in = h_in z, h_out = h_out z @ take 4096 (h_held z), h_held = drop 4096 (h_held z), h_flushed = length (h_held z) < 4096\<rparr>"
  let ?out = "take 4096 (h_held z)"
  show ?thesis
  proof (subst container_turn [where n = 4096 and left = 0 and avail_out = "4096 - length ?out" and out = ?out and st' = "Some ?z"])
    show "stream_deflate holding_deflate [] 4096 z_full_flush (Some z) = Ok (0, 4096 - length ?out, ?out) (Some ?z)"
      using assms(1) by (simp add: stream_deflate_def holding_deflate_def z_constants Let_def)
  qed (use assms in auto)
qed

section \<open>Properties\<close>

text \<open>
  C17: pieces of content, each of at least one byte and below \<open>2 ^ 32\<close> bytes, followed by a flush, appended to a
  \<open>zlib_deflating_sink\<close> in front of any sink with append space, over a \<open>::deflate\<close> that behaves as
  documented: the loops end.  If \<open>append\<close> succeeds, the pieces have left the sink in some state \<open>t1\<close> and the
  stream in a state \<open>z1\<close>, the flush was one call of \<open>::deflate\<close> with the \<open>n\<close> bytes of append space that
  \<open>t1\<close> gave, everything that \<open>::deflate\<close> wrote is in the next sink, and if this call did not fill its
  space, inflating what is in the next sink gives back the pieces.  Otherwise an assertion fails, and only if the
  next sink can be full when it has received what a stream that has taken a prefix of the pieces has emitted.
\<close>

theorem deflating_sink_round_trip:
  fixes make_space :: "'t make_space" and sys :: "'z sys_deflate"
  assumes sink: "space_sink make_space fill_space flush_space written invar full"
    and contract: "deflate_contract sys valid consumed emitted backlog flushed expand"
    and start: "invar t" "written t = []" "valid z" "consumed z = []" "emitted z = []"
    and cs: "cs \<noteq> []" "\<forall>c \<in> set cs. c \<noteq> [] \<and> length c < 2 ^ 32"
  shows "case (deflating_append make_space fill_space flush_space sys (map Content cs @ [Flush]) (t, Some z) ::
      ('t \<times> 'z stream, 'x, unit) outcome option) of
      Some (Ok _ (t', st)) \<Rightarrow>
        (\<exists>t1 z1 n t2 rc k ys z'. st = Some z' \<and>
           (deflating_append make_space fill_space flush_space sys (map Content cs) (t, Some z) ::
             ('t \<times> 'z stream, 'x, unit) outcome option) = Some (Ok () (t1, Some z1)) \<and>
           make_space t1 4096 = (n, t2) \<and> sys z1 [] n z_full_flush = (rc, k, ys, z') \<and>
           written t' = written t1 @ ys \<and> written t' = emitted z' \<and> (length ys < n \<longrightarrow> expand (written t') = concat cs))
    | Some (Fault f) \<Rightarrow> f = Assertion_Failed \<and>
        (\<exists>t' z' ys zs. invar t' \<and> full t' \<and> written t' = emitted z' \<and> valid z' \<and> consumed z' = ys \<and> concat cs = ys @ zs)
    | _ \<Rightarrow> False"
proof -
  let ?app = "\<lambda>data t z. deflating_append make_space fill_space flush_space sys data (t, Some z) :: ('t \<times> 'z stream, 'x, unit) outcome option"
  note delivered = space_sink.delivered_def [OF sink]
  note append = deflating_append_append [of make_space fill_space flush_space sys "map Content cs" "[Flush]" "(t, Some z)", where ?'c = 'x]
  from space_sink.deflating_append_contents [OF sink contract refl start(1,3) cs(2), of "[]", where ?'x = 'x]
  consider (flush) t1 z1 where "?app (map Content cs) t z = Some (Ok () (t1, Some z1))"
      "space_sink.delivered written invar valid consumed emitted t z (concat cs) t1 z1" "concat cs = [] \<or> \<not> flushed z1"
    | (stuck) t' z' ys zs where "?app (map Content cs) t z = Some (Fault Assertion_Failed)"
      "space_sink.delivered written invar valid consumed emitted t z ys t' z'" "concat cs = ys @ zs" "full t'"
    unfolding space_sink.delivers_def [OF sink] append_Nil2 deflating_append.simps(1) by blast
  then show ?thesis
  proof cases
    case flush
    from flush(2) have t1: "invar t1" "valid z1" "consumed z1 = concat cs" "written t1 = emitted z1"
      using start by (auto simp: delivered)
    obtain n t2 where space: "make_space t1 4096 = (n, t2)" by fastforce
    from flush(3) cs have "\<not> flushed z1" by (cases cs) auto
    note last = space_sink.deflate_rest_flush [OF sink contract t1(1,2) this space, where ?'x = 'x]
    show ?thesis
    proof (cases "n = 0")
      case True
      have "concat cs = consumed z1 @ []" using t1(3) by simp
      moreover from True last flush(1) append have "?app (map Content cs @ [Flush]) t z = Some (Fault Assertion_Failed)" "full t1"
        by (simp_all add: piece_flag_def piece_content_def)
      ultimately show ?thesis using t1(1,2,4) by (simp del: append_Nil2) blast
    next
      case False
      with last obtain t' z' ys rc k where f: "sys z1 [] n z_full_flush = (rc, k, ys, z')"
        "(deflate_rest make_space fill_space flush_space sys z_full_flush [] t1 (Some z1) :: ('t \<times> 'z stream, 'x, unit) outcome option) =
          Some (Ok () (t', Some z'))"
        "space_sink.delivered written invar valid consumed emitted t1 z1 [] t' z'" "written t' = written t1 @ ys" "length ys < n \<longrightarrow> flushed z'"
        by auto
      from f(3) t1 have z': "valid z'" "consumed z' = concat cs" "written t' = emitted z'" by (auto simp: delivered)
      with deflate_contract_expand [OF contract, of z'] f(5) have "length ys < n \<longrightarrow> expand (written t') = concat cs" by auto
      moreover have "?app (map Content cs @ [Flush]) t z = Some (Ok () (t', Some z'))"
        using append flush(1) f(2) by (simp add: piece_flag_def piece_content_def)
      ultimately show ?thesis using flush(1) space f(1,4) z'(3) by simp
    qed
  next
    case stuck
    with start append show ?thesis by (auto simp: delivered)
  qed
qed

lemma deflating_sink_round_trip_witness:
  "\<exists>t' st. (deflating_append (container_make_append_space 10000 CHR ''.'') container_fill_space container_flush_append_space holding_deflate
      (map Content [''abc'', ''de''] @ [Flush]) (container_buffer_init [], Some holding_start) ::
      (char container_buffer \<times> holding stream, unit, unit) outcome option) = Some (Ok () (t', st)) \<and> c_destination t' = ''abcde''"
proof -
  let ?app = "\<lambda>data. deflating_append (container_make_append_space 10000 CHR ''.'') container_fill_space container_flush_append_space
    holding_deflate data (container_buffer_init [], Some holding_start) :: (char container_buffer \<times> holding stream, unit, unit) outcome option"
  let ?z1 = "\<lparr>h_in = ''abcde'', h_out = [], h_held = ''abcde'', h_flushed = False\<rparr>"
  have contents: "?app (map Content [''abc'', ''de'']) = Some (Ok () (container_buffer_init [], Some ?z1))"
    by (simp add: holding_content piece_flag_def piece_content_def holding_start_def)
  then have all: "?app (map Content [''abc'', ''de''] @ [Flush]) \<noteq> Some (Fault f) \<and> ?app (map Content [''abc'', ''de''] @ [Flush]) \<noteq> None \<and>
      ?app (map Content [''abc'', ''de''] @ [Flush]) \<noteq> Some (Raise e s)" for f e s
    by (simp add: deflating_append_append holding_flush piece_flag_def piece_content_def del: list.map append_Cons)
  have start: "m_committed (container_buffer_init ([] :: char list)) = length (c_destination (container_buffer_init ([] :: char list))) \<and>
      length (c_destination (container_buffer_init ([] :: char list))) \<le> 10000" "c_destination (container_buffer_init ([] :: char list)) = []"
    "holding_valid holding_start" "h_in holding_start = []" "h_out holding_start = []"
    by (simp_all add: container_buffer_init_def holding_start_def holding_valid_def)
  from deflating_sink_round_trip [OF container_space.space_sink_axioms [of 10000 "CHR ''.''"] holding_contract start, of "[''abc'', ''de'']", where ?'x = unit]
    all obtain t' st n t2 rc k ys z' where r: "?app (map Content [''abc'', ''de''] @ [Flush]) = Some (Ok () (t', st))"
      "container_make_append_space 10000 CHR ''.'' (container_buffer_init []) 4096 = (n, t2)"
      "holding_deflate ?z1 [] n z_full_flush = (rc, k, ys, z')" "length ys < n \<longrightarrow> id (c_destination t') = concat [''abc'', ''de'']"
    unfolding contents by (auto simp del: deflating_append.simps list.map append_Cons id_apply split: option.splits outcome.splits)
  from r(2) have "n = 4096" by (simp add: container_space_eq)
  with r(3,4) have "c_destination t' = ''abcde''" by (auto simp: holding_deflate_def z_constants Let_def)
  with r(1) show ?thesis by blast
qed

text \<open>
  A flush is one call of \<open>::deflate\<close> with the room of one append space.  A stream that has more to write
  than that is not flushed completely: \<open>append\<close> still succeeds, but the next sink has only received the
  first 4096 bytes, whatever was to come.
\<close>

theorem deflating_sink_flush_incomplete:
  assumes "4096 < length content" "length content < 2 ^ 32" "length content \<le> cap"
  shows "\<exists>t' z'. (deflating_append (container_make_append_space cap fill) container_fill_space container_flush_append_space holding_deflate
      [Content content, Flush] (container_buffer_init [], Some holding_start) ::
      (char container_buffer \<times> holding stream, 'x, unit) outcome option) = Some (Ok () (t', Some z')) \<and>
    c_destination t' = take 4096 content \<and> h_in z' = content"
proof -
  from assms have "content \<noteq> []" "0 < cap" "4096 \<le> cap" by auto
  with assms(2) show ?thesis
    by (simp add: piece_flag_def piece_content_def holding_content holding_flush holding_start_def)
qed

lemma deflating_sink_flush_incomplete_witness:
  "\<exists>t' z'. (deflating_append (container_make_append_space 10000 CHR ''.'') container_fill_space container_flush_append_space holding_deflate
      [Content (replicate 5000 CHR ''a''), Flush] (container_buffer_init [], Some holding_start) ::
      (char container_buffer \<times> holding stream, unit, unit) outcome option) = Some (Ok () (t', Some z')) \<and>
    c_destination t' = take 4096 (replicate 5000 CHR ''a'') \<and> h_in z' = replicate 5000 CHR ''a''"
  by (rule deflating_sink_flush_incomplete) simp_all

text \<open>
  Sizes are narrowed to 32 bits.  Of a piece of \<open>2 ^ 32 + k\<close> bytes only the first \<open>k\<close> are compressed, and
  \<open>2 ^ 32\<close> bytes that \<open>::deflate\<close> has not written are committed to the next sink; \<open>append\<close> succeeds.
\<close>

theorem deflating_sink_big_piece:
  assumes "length content = 2 ^ 32 + k" "0 < k" "k < 2 ^ 32" "length content \<le> cap"
  shows "\<exists>t' z'. (deflating_append (container_make_append_space cap fill) container_fill_space container_flush_append_space holding_deflate
      [Content content] (container_buffer_init [], Some holding_start) ::
      (char container_buffer \<times> holding stream, 'x, unit) outcome option) = Some (Ok () (t', Some z')) \<and>
    h_in z' = take k content \<and> h_out z' = [] \<and> length (c_destination t') = 2 ^ 32"
proof -
  let ?z = "\<lparr>h_in = take k content, h_out = [], h_held = take k content, h_flushed = False\<rparr>"
  have k: "uint_of (length content) = k" "take k content \<noteq> []" "length (take k content) = k"
    using assms by (auto simp: uint_of_def)
  have "(deflate_rest (container_make_append_space cap fill) container_fill_space container_flush_append_space holding_deflate
      z_no_flush content (container_buffer_init []) (Some holding_start) :: (char container_buffer \<times> holding stream, 'x, unit) outcome option) =
    Some (Ok () (container_buffer_init (replicate (2 ^ 32) fill), Some ?z))"
  proof (subst container_turn [where n = "length content" and left = 0 and avail_out = k and out = "[]" and st' = "Some ?z"])
    show "stream_deflate holding_deflate content (length content) z_no_flush (Some holding_start) = Ok (0, k, []) (Some ?z)"
      using k assms(1) by (simp add: stream_deflate_def holding_deflate_def holding_start_def z_constants)
  qed (use assms in auto)
  then show ?thesis by (simp add: piece_flag_def piece_content_def)
qed

lemma deflating_sink_big_piece_witness:
  "\<exists>t' z'. (deflating_append (container_make_append_space (2 ^ 33) CHR ''.'') container_fill_space container_flush_append_space holding_deflate
      [Content (replicate (2 ^ 32 + 1) CHR ''a'')] (container_buffer_init [], Some holding_start) ::
      (char container_buffer \<times> holding stream, unit, unit) outcome option) = Some (Ok () (t', Some z')) \<and>
    h_in z' = take 1 (replicate (2 ^ 32 + 1) CHR ''a'') \<and> h_out z' = [] \<and> length (c_destination t') = 2 ^ 32"
  by (rule deflating_sink_big_piece) simp_all

text \<open>
  A stream that has nothing left to write must be given something: a second flush, or an empty piece of
  content, ends in a failed assertion.
\<close>

theorem deflating_sink_nothing_to_do:
  assumes "deflate_contract sys valid consumed emitted backlog flushed expand" "valid z" "flushed z"
    and "piece = Flush \<or> piece = Content []" "0 < fst (make_space t 4096)" "fst (make_space t 4096) \<le> 4096"
  shows "deflating_append make_space fill_space flush_space sys [piece] (t, Some z) = Some (Fault Assertion_Failed)"
proof -
  obtain n t1 where n: "make_space t 4096 = (n, t1)" by fastforce
  obtain rc k ys z' where call: "sys z [] n (piece_flag piece) = (rc, k, ys, z')" by (metis prod_cases4)
  from deflate_contractD(11) [OF assms(1,2) _ call] assms(3,5) n have "rc \<noteq> z_ok" by simp
  moreover have "piece_content piece = []" using assms(4) by (auto simp: piece_content_def)
  moreover have "n < 2 ^ 32" using assms(6) n by simp
  ultimately show ?thesis using n call assms(5) by (simp add: deflate_rest.simps stream_deflate_def)
qed

lemma deflating_sink_nothing_to_do_witness:
  "deflating_append (container_make_append_space 10000 CHR ''.'') container_fill_space container_flush_append_space holding_deflate
     [Flush] (container_buffer_init [], Some (holding_start\<lparr>h_flushed := True\<rparr>)) =
   (Some (Fault Assertion_Failed) :: (char container_buffer \<times> holding stream, unit, unit) outcome option)"
  using deflating_sink_nothing_to_do [OF holding_contract, where z = "holding_start\<lparr>h_flushed := True\<rparr>" and piece = Flush
      and make_space = "container_make_append_space 10000 CHR ''.''" and t = "container_buffer_init []"]
  by (simp add: holding_start_def holding_valid_def container_make_append_space_def container_buffer_init_def Let_def)

end
