(* ===== verification/Connections.thy ===== *)
theory Connections
  imports Http Buffering_Source Asio
begin

text \<open>
  The reading side of a connection: sources whose \<open>copy_next\<close> may throw, as those of sockets and
  \<open>throwing_source\<close> do, and what \<open>buffering_source\<close>, \<open>line_source\<close> and \<open>parse_request\<close> do on top of them.
  The definitions follow the same code as those of \<open>Buffering_Source\<close>, \<open>Lines\<close> and \<open>Http\<close>, now with the
  exceptions that pass through it.  The locale \<open>throwing_reader\<close> is the contract of such a source: it
  delivers \<open>pending s\<close> in order and may throw only when there is less to deliver than was asked for, up
  to a \<open>slack\<close> that says how much may be lost with the exception (\<open>None\<close>: it never throws).  A \<open>patient_reader\<close> moreover does not throw when it is asked for nothing, which
  \<open>buffering_source\<close> does when its buffer is empty.
\<close>

type_synonym ('s, 'x, 'e) reader = "nat \<Rightarrow> ('s, 'x, 'e list) op"

section \<open>Reading with exceptions\<close>

text \<open>A source that does not throw.\<close>

definition lift_source :: "('s, 'e) copy_function \<Rightarrow> ('s, 'x, 'e) reader" where
  "lift_source cn n s = (case cn s n of (ys, s') \<Rightarrow> Ok ys s')"

definition reader_get :: "('s, 'x, 'e) reader \<Rightarrow> ('s, 'x, 'e option) op" where
  "reader_get rd = bind_op (rd 1) (\<lambda>ys. ret (case ys of [] \<Rightarrow> None | x # _ \<Rightarrow> Some x))"

text \<open>
  \<open>buffering_source::pull\<close>: the ring has been resized to its capacity before the inner source is asked,
  so that an exception leaves it full of default-constructed elements.
\<close>

definition reader_pull ::
    "('s, 'x, 'e) reader \<Rightarrow> (nat \<Rightarrow> nat \<Rightarrow> nat) \<Rightarrow> 'e \<Rightarrow> (('s, 'e) buffering, 'x, unit) op" where
  "reader_pull rd split_at fill s =
     (let buf = ring_resize fill (b_capacity s) (b_buffer s);
          one = split_at (ring_changes s) (length buf);
          after = (\<lambda>t b. s\<lparr>b_next := t, b_buffer := b, ring_changes := Suc (ring_changes s)\<rparr>)
      in (case rd one (b_next s) of
          Fault f \<Rightarrow> Fault f
        | Raise e t \<Rightarrow> Raise e (after t buf)
        | Ok copied1 t \<Rightarrow>
            (let buf1 = overwrite 0 copied1 buf
             in if length copied1 = one
                then (case rd (length buf - one) t of
                    Fault f \<Rightarrow> Fault f
                  | Raise e u \<Rightarrow> Raise e (after u buf1)
                  | Ok copied2 u \<Rightarrow>
                      Ok () (after u (ring_resize fill (length copied1 + length copied2) (overwrite one copied2 buf1))))
                else Ok () (after t (ring_resize fill (length copied1) buf1)))))"

text \<open>\<open>buffering_source::copy_next\<close>: after \<open>pull\<close> the rest of the destination is read from the inner source.\<close>

definition reader_direct :: "('s, 'x, 'e) reader \<Rightarrow> (('s, 'e) buffering, 'x, 'e) reader" where
  "reader_direct rd n s =
     (let taken_from_buffer = min n (length (b_buffer s))
      in (case rd (n - taken_from_buffer) (b_next s) of
          Fault f \<Rightarrow> Fault f
        | Raise e t \<Rightarrow> Raise e (s\<lparr>b_next := t\<rparr>)
        | Ok direct t \<Rightarrow> Ok (take taken_from_buffer (b_buffer s) @ direct)
            (s\<lparr>b_next := t, b_buffer := drop taken_from_buffer (b_buffer s),
               ring_changes := Suc (ring_changes s)\<rparr>)))"

definition reader_buffering ::
    "('s, 'x, 'e) reader \<Rightarrow> (nat \<Rightarrow> nat \<Rightarrow> nat) \<Rightarrow> 'e \<Rightarrow> (('s, 'e) buffering, 'x, 'e) reader" where
  "reader_buffering rd split_at fill n =
     then_op (\<lambda>s. if b_buffer s = [] \<and> n < b_capacity s then reader_pull rd split_at fill s else Ok () s)
       (reader_direct rd n)"

text \<open>\<open>line_source::copy_next\<close> for a destination of one line, which is how \<open>get\<close> calls it.\<close>

partial_function (option) reader_line ::
    "('s, 'x, char) reader \<Rightarrow> 's \<Rightarrow> string \<Rightarrow> ('s, 'x, string option) outcome option" where
  "reader_line rd s line = (case reader_get rd s of
      Fault f \<Rightarrow> Some (Fault f)
    | Raise e s1 \<Rightarrow> Some (Raise e s1)
    | Ok None s1 \<Rightarrow> Some (Ok None s1)
    | Ok (Some c) s1 \<Rightarrow>
        (if c = CR
         then (case reader_get rd s1 of
             Fault f \<Rightarrow> Some (Fault f)
           | Raise e s2 \<Rightarrow> Some (Raise e s2)
           | Ok None s2 \<Rightarrow> Some (Ok None s2)
           | Ok (Some lf) s2 \<Rightarrow> (if lf = LF then Some (Ok (Some line) s2) else reader_line rd s2 (line @ [c])))
         else if c = LF then Some (Ok (Some line) s1)
         else reader_line rd s1 (line @ [c])))"

partial_function (option) reader_arguments ::
    "('s, 'x, char) reader \<Rightarrow> 's \<Rightarrow> arguments \<Rightarrow> ('s, 'x, arguments option) outcome option" where
  "reader_arguments rd s args = Option.bind (reader_line rd s []) (\<lambda>r. case r of
      Fault f \<Rightarrow> Some (Fault f)
    | Raise e s1 \<Rightarrow> Some (Raise e s1)
    | Ok None s1 \<Rightarrow> Some (Ok None s1)
    | Ok (Some value_line) s1 \<Rightarrow>
        (if value_line = [] then Some (Ok (Some args) s1)
         else (case split_value_line value_line of
             Inl f \<Rightarrow> Some (Fault f)
           | Inr (k, v) \<Rightarrow> reader_arguments rd s1 (map_set k v args))))"

definition reader_request :: "('s, 'x, char) reader \<Rightarrow> 's \<Rightarrow> ('s, 'x, request option) outcome option" where
  "reader_request rd s = Option.bind (reader_line rd s []) (\<lambda>r. case r of
      Fault f \<Rightarrow> Some (Fault f)
    | Raise e s1 \<Rightarrow> Some (Raise e s1)
    | Ok None s1 \<Rightarrow> Some (Ok None s1)
    | Ok (Some first_line) s1 \<Rightarrow> (case parse_request_line first_line of
          None \<Rightarrow> Some (Ok None s1)
        | Some (method, path, version) \<Rightarrow> Option.bind (reader_arguments rd s1 []) (\<lambda>a. case a of
              Fault f \<Rightarrow> Some (Fault f)
            | Raise e s2 \<Rightarrow> Some (Raise e s2)
            | Ok None s2 \<Rightarrow> Some (Ok None s2)
            | Ok (Some args) s2 \<Rightarrow> Some (Ok (Some
                \<lparr>req_method = method, req_path = path, req_version = version, req_arguments = args\<rparr>) s2))))"

section \<open>The contract\<close>

definition short_of :: "nat option \<Rightarrow> nat \<Rightarrow> nat \<Rightarrow> bool" where
  "short_of slack n there \<longleftrightarrow> (\<exists>k. slack = Some k \<and> there < n + k)"

locale throwing_reader =
  fixes rd :: "('s, 'x, 'e) reader"
    and pending :: "'s \<Rightarrow> 'e list"
    and invar :: "'s \<Rightarrow> bool"
    and slack :: "nat option"
  assumes read_pending: "invar s \<Longrightarrow> rd n s = Ok ys s' \<Longrightarrow> pending s = ys @ pending s'"
    and read_invar: "invar s \<Longrightarrow> rd n s = Ok ys s' \<Longrightarrow> invar s'"
    and read_bound: "invar s \<Longrightarrow> rd n s = Ok ys s' \<Longrightarrow> length ys \<le> n"
    and read_progress: "invar s \<Longrightarrow> rd n s = Ok ys s' \<Longrightarrow> 0 < n \<Longrightarrow> pending s \<noteq> [] \<Longrightarrow> ys \<noteq> []"
    and read_raise: "invar s \<Longrightarrow> rd n s = Raise e s' \<Longrightarrow> short_of slack n (length (pending s))"
    and read_no_fault: "invar s \<Longrightarrow> rd n s \<noteq> Fault f"
begin

lemma reader_get_cases:
  assumes "invar s"
  obtains (end_of_source) s' where "reader_get rd s = Ok None s'" "invar s'" "pending s = []" "pending s' = []"
        | (next_element) x s' where "reader_get rd s = Ok (Some x) s'" "invar s'" "pending s = x # pending s'"
        | (throws) e s' where "reader_get rd s = Raise e s'" "short_of slack 1 (length (pending s))"
proof (cases "rd 1 s")
  case (Ok ys s')
  note r = read_pending [OF assms Ok] read_invar [OF assms Ok] read_bound [OF assms Ok] read_progress [OF assms Ok]
  show ?thesis
  proof (cases ys)
    case Nil
    with Ok r end_of_source show ?thesis by (fastforce simp: reader_get_def bind_op_def ret_def)
  next
    case (Cons x xs)
    with Ok r next_element show ?thesis by (fastforce simp: reader_get_def bind_op_def ret_def)
  qed
next
  case (Raise e s')
  with read_raise [OF assms Raise] throws show ?thesis by (simp add: reader_get_def bind_op_def)
next
  case (Fault f)
  with read_no_fault [OF assms] show ?thesis by blast
qed

end

lemma throwing_readerI:
  assumes "\<And>s n. invar s \<Longrightarrow> case rd n s of
      Ok ys s' \<Rightarrow> pending s = ys @ pending s' \<and> invar s' \<and> length ys \<le> n \<and> (0 < n \<longrightarrow> pending s \<noteq> [] \<longrightarrow> ys \<noteq> [])
    | Raise e s' \<Rightarrow> short_of slack n (length (pending s))
    | Fault f \<Rightarrow> False"
  shows "throwing_reader rd pending invar slack"
proof
  fix s n assume s: "invar s"
  note m = assms [OF s, of n]
  show "pending s = ys @ pending s'" "invar s'" "length ys \<le> n" if "rd n s = Ok ys s'" for ys s'
    using m [unfolded that outcome.case] by simp_all
  show "ys \<noteq> []" if "rd n s = Ok ys s'" "0 < n" "pending s \<noteq> []" for ys s'
    using m [unfolded that(1) outcome.case] that(2,3) by blast
  show "short_of slack n (length (pending s))" if "rd n s = Raise e s'" for e s'
    using m [unfolded that outcome.case] .
  show "rd n s \<noteq> Fault f" for f using m by auto
qed

lemma lift_source_reader:
  assumes "element_source cn pending invar"
  shows "throwing_reader (lift_source cn) pending invar slack"
  using element_source.copy_next_pending [OF assms] element_source.copy_next_inv [OF assms]
    element_source.copy_next_bound [OF assms] element_source.copy_next_progress [OF assms]
  by unfold_locales (fastforce simp: lift_source_def split: prod.splits)+

locale patient_reader = throwing_reader +
  assumes read_nothing: "invar s \<Longrightarrow> rd 0 s \<noteq> Raise e s'"

lemma lift_source_patient:
  assumes "element_source cn pending invar"
  shows "patient_reader (lift_source cn) pending invar slack"
  using lift_source_reader [OF assms]
  by (auto simp: patient_reader_def patient_reader_axioms_def lift_source_def split: prod.splits)

section \<open>Buffering\<close>

definition more_slack :: "nat \<Rightarrow> nat option \<Rightarrow> nat option" where
  "more_slack n = map_option (\<lambda>k. n + k)"

lemma short_of_simps [simp]: "\<not> short_of None n there" "short_of (Some k) n there \<longleftrightarrow> there < n + k"
  by (simp_all add: short_of_def)

lemma short_of_mono: "short_of slack n a \<Longrightarrow> b + n \<le> a + m \<Longrightarrow> short_of slack m b"
  unfolding short_of_def by auto

lemma short_of_more: "short_of slack n a \<Longrightarrow> short_of (more_slack c slack) n a"
  unfolding short_of_def more_slack_def by auto

lemma more_slack_simps [simp]: "more_slack n None = None" "more_slack n (Some k) = Some (n + k)"
  by (simp_all add: more_slack_def)

definition reader_buffering_inv :: "('s \<Rightarrow> bool) \<Rightarrow> nat \<Rightarrow> ('s, 'e) buffering \<Rightarrow> bool" where
  "reader_buffering_inv invar capacity s \<longleftrightarrow> buffering_inv invar s \<and> b_capacity s = capacity"

context patient_reader
begin

text \<open>An empty buffer is filled by one read, or by two where the free space wraps around.\<close>

lemma reader_pull_one:
  assumes i: "reader_buffering_inv invar c s" and empty: "b_buffer s = []" and split: "valid_split split_at"
    and r: "rd (split_at (ring_changes s) c) (b_next s) = Ok ys t" "length ys \<noteq> split_at (ring_changes s) c"
  shows "\<exists>s1. reader_pull rd split_at fill s = Ok () s1 \<and> reader_buffering_inv invar c s1 \<and>
    buffering_pending pending s1 = pending (b_next s) \<and> (0 < c \<longrightarrow> pending (b_next s) \<noteq> [] \<longrightarrow> b_buffer s1 \<noteq> [])"
proof -
  have cap: "b_capacity s = c" and inv0: "invar (b_next s)" using i by (simp_all add: reader_buffering_inv_def buffering_inv_def)
  note one = valid_splitD [OF split]
  note r1 = read_pending [OF inv0 r(1)] read_invar [OF inv0 r(1)] read_bound [OF inv0 r(1)] read_progress [OF inv0 r(1)]
  have short: "length ys \<le> c" using r1(3) one(1) [of "ring_changes s" c] by simp
  have some: "0 < c \<Longrightarrow> pending (b_next s) \<noteq> [] \<Longrightarrow> ys \<noteq> []" by (rule r1(4) [OF one(2)])
  have "reader_pull rd split_at fill s = Ok () (s\<lparr>b_next := t, b_buffer := ys, ring_changes := Suc (ring_changes s)\<rparr>)"
    using r ring_resize_overwrite [of ys "replicate c fill" fill] short
    by (simp add: reader_pull_def cap empty ring_resize_Nil Let_def)
  with short r1 some show ?thesis
    by (auto simp: reader_buffering_inv_def buffering_inv_def buffering_pending_def cap)
qed

lemma reader_pull_two:
  assumes i: "reader_buffering_inv invar c s" and empty: "b_buffer s = []" and split: "valid_split split_at"
    and r: "rd (split_at (ring_changes s) c) (b_next s) = Ok ys t" "length ys = split_at (ring_changes s) c"
      "rd (c - split_at (ring_changes s) c) t = Ok zs u"
  shows "\<exists>s1. reader_pull rd split_at fill s = Ok () s1 \<and> reader_buffering_inv invar c s1 \<and>
    buffering_pending pending s1 = pending (b_next s) \<and> (0 < c \<longrightarrow> pending (b_next s) \<noteq> [] \<longrightarrow> b_buffer s1 \<noteq> [])"
proof -
  have cap: "b_capacity s = c" and inv0: "invar (b_next s)" using i by (simp_all add: reader_buffering_inv_def buffering_inv_def)
  note one = valid_splitD [OF split]
  note r1 = read_pending [OF inv0 r(1)] read_invar [OF inv0 r(1)]
  note r2 = read_pending [OF r1(2) r(3)] read_invar [OF r1(2) r(3)] read_bound [OF r1(2) r(3)]
  have some: "0 < c \<Longrightarrow> pending (b_next s) \<noteq> [] \<Longrightarrow> ys \<noteq> []" by (rule read_progress [OF inv0 r(1) one(2)])
  from r2(3) r(2) one(1) [of "ring_changes s" c] have l: "length ys + length zs \<le> length (replicate c fill)" by simp
  have "reader_pull rd split_at fill s = Ok () (s\<lparr>b_next := u, b_buffer := ys @ zs, ring_changes := Suc (ring_changes s)\<rparr>)"
    using r ring_resize_overwrite2 [OF l, of fill] by (simp add: reader_pull_def cap empty ring_resize_Nil Let_def)
  with r1 r2 l some show ?thesis
    by (auto simp: reader_buffering_inv_def buffering_inv_def buffering_pending_def cap)
qed

lemma reader_pull_cases:
  assumes i: "reader_buffering_inv invar c s" and empty: "b_buffer s = []" and split: "valid_split split_at"
  shows "case reader_pull rd split_at fill s of
      Ok _ s1 \<Rightarrow> reader_buffering_inv invar c s1 \<and> buffering_pending pending s1 = pending (b_next s) \<and>
        (0 < c \<longrightarrow> pending (b_next s) \<noteq> [] \<longrightarrow> b_buffer s1 \<noteq> [])
    | Raise e s1 \<Rightarrow> short_of slack c (length (pending (b_next s)))
    | Fault f \<Rightarrow> False"
proof -
  let ?one = "split_at (ring_changes s) c"
  have cap: "b_capacity s = c" and inv0: "invar (b_next s)" using i by (simp_all add: reader_buffering_inv_def buffering_inv_def)
  note one = valid_splitD(1) [OF split, of "ring_changes s" c]
  note def = reader_pull_def [of rd split_at fill s, unfolded cap empty ring_resize_Nil length_replicate Let_def]
  show ?thesis
  proof (cases "rd ?one (b_next s)")
    case (Fault f)
    with read_no_fault [OF inv0] show ?thesis by blast
  next
    case (Raise e t)
    from short_of_mono [OF read_raise [OF inv0 Raise]] one have "short_of slack c (length (pending (b_next s)))" by simp
    with Raise show ?thesis unfolding def by simp
  next
    case (Ok ys t)
    note r1 = read_pending [OF inv0 Ok] read_invar [OF inv0 Ok]
    show ?thesis
    proof (cases "length ys = ?one")
      case False
      from reader_pull_one [OF assms Ok this, of fill] show ?thesis by auto
    next
      case full: True
      show ?thesis
      proof (cases "rd (c - ?one) t")
        case (Fault f)
        with read_no_fault [OF r1(2)] show ?thesis by blast
      next
        case (Raise e u)
        have "short_of slack c (length (pending (b_next s)))"
          using r1(1) full one by (intro short_of_mono [OF read_raise [OF r1(2) Raise]]) simp
        with Raise Ok full show ?thesis unfolding def by simp
      next
        case second: (Ok zs u)
        from reader_pull_two [OF assms Ok full second, of fill] show ?thesis by auto
      qed
    qed
  qed
qed

text \<open>The part of \<open>copy_next\<close> after \<open>pull\<close>.\<close>

lemma reader_direct_cases:
  assumes i: "reader_buffering_inv invar c s"
  shows "case reader_direct rd n s of
      Ok ys s' \<Rightarrow> buffering_pending pending s = ys @ buffering_pending pending s' \<and> reader_buffering_inv invar c s' \<and>
        length ys \<le> n \<and> (0 < n \<longrightarrow> buffering_pending pending s \<noteq> [] \<longrightarrow> ys \<noteq> [])
    | Raise e s' \<Rightarrow> short_of (more_slack c slack) n (length (buffering_pending pending s))
    | Fault f \<Rightarrow> False"
proof -
  define k where k: "k = min n (length (b_buffer s))"
  note def = reader_direct_def [of rd n s, unfolded Let_def, folded k]
  have i1: "invar (b_next s)" "length (b_buffer s) \<le> c" "b_capacity s = c"
    using i by (auto simp: reader_buffering_inv_def buffering_inv_def)
  show ?thesis
  proof (cases "rd (n - k) (b_next s)")
    case (Ok ys t)
    note r = read_pending [OF i1(1) Ok] read_invar [OF i1(1) Ok] read_bound [OF i1(1) Ok] read_progress [OF i1(1) Ok]
    have all: "drop k (b_buffer s) = []" if "ys \<noteq> []" using that r(3) k by (auto simp: min_def split: if_splits)
    have parts: "buffering_pending pending s = take k (b_buffer s) @ ys @ drop k (b_buffer s) @ pending t"
      using r(1) all by (cases "ys = []") (auto simp: buffering_pending_def append_take_drop_id)
    have progress: "take k (b_buffer s) @ ys \<noteq> []" if "0 < n" "buffering_pending pending s \<noteq> []"
    proof (cases "b_buffer s = []")
      case True
      with that r(4) k show ?thesis by (simp add: buffering_pending_def)
    qed (use that k in \<open>simp add: min_def\<close>)
    have len: "k + length ys \<le> n" "length (take k (b_buffer s)) = k" using r(3) k by auto
    from Ok have "reader_direct rd n s = Ok (take k (b_buffer s) @ ys)
      (s\<lparr>b_next := t, b_buffer := drop k (b_buffer s), ring_changes := Suc (ring_changes s)\<rparr>)" unfolding def by simp
    with parts progress len r(2) i1 show ?thesis
      by (auto simp: reader_buffering_inv_def buffering_inv_def buffering_pending_def)
  next
    case (Raise e t)
    have "length (b_buffer s) = k" using read_nothing [OF i1(1)] Raise k by (cases "n - k") auto
    then have "short_of slack n (length (buffering_pending pending s))"
      using k by (intro short_of_mono [OF read_raise [OF i1(1) Raise]]) (simp add: buffering_pending_def)
    then have "short_of (more_slack c slack) n (length (buffering_pending pending s))" by (rule short_of_more)
    with Raise show ?thesis unfolding def by simp
  next
    case (Fault f)
    with read_no_fault [OF i1(1)] show ?thesis by blast
  qed
qed

lemma buffering_reader:
  assumes "valid_split split_at"
  shows "throwing_reader (reader_buffering rd split_at fill) (buffering_pending pending)
    (reader_buffering_inv invar c) (more_slack c slack)"
proof -
  have main: "case reader_buffering rd split_at fill n s of
      Ok ys s' \<Rightarrow> buffering_pending pending s = ys @ buffering_pending pending s' \<and> reader_buffering_inv invar c s' \<and>
        length ys \<le> n \<and> (0 < n \<longrightarrow> buffering_pending pending s \<noteq> [] \<longrightarrow> ys \<noteq> [])
    | Raise e s' \<Rightarrow> short_of (more_slack c slack) n (length (buffering_pending pending s))
    | Fault f \<Rightarrow> False" if i: "reader_buffering_inv invar c s" for n s
  proof (cases "b_buffer s = [] \<and> n < b_capacity s")
    case False
    then have "reader_buffering rd split_at fill n s = reader_direct rd n s"
      unfolding reader_buffering_def then_op_def by (subst if_not_P) simp_all
    then show ?thesis by (simp only: reader_direct_cases [OF i])
  next
    case True
    then have empty: "b_buffer s = []" "n < c" and def: "reader_buffering rd split_at fill n s =
        then_op (reader_pull rd split_at fill) (reader_direct rd n) s"
      using i unfolding reader_buffering_def then_op_def by (auto simp: reader_buffering_inv_def)
    note p = reader_pull_cases [OF i empty(1) assms, of fill]
    show ?thesis
    proof (cases "reader_pull rd split_at fill s")
      case (Ok u s1)
      with p have s1: "reader_buffering_inv invar c s1" "buffering_pending pending s1 = buffering_pending pending s"
        using empty by (simp_all add: buffering_pending_def)
      from Ok have "reader_buffering rd split_at fill n s = reader_direct rd n s1"
        unfolding def then_op_def by simp
      then show ?thesis unfolding s1(2) [symmetric] by (simp only: reader_direct_cases [OF s1(1)])
    next
      case (Raise e s1)
      with p have "short_of slack c (length (buffering_pending pending s))"
        using empty by (simp add: buffering_pending_def)
      then have "short_of (more_slack c slack) n (length (buffering_pending pending s))"
        unfolding short_of_def more_slack_def by auto
      with Raise show ?thesis unfolding def then_op_def by simp
    next
      case (Fault f)
      with p show ?thesis by simp
    qed
  qed
  then show ?thesis by (rule throwing_readerI)
qed

end

section \<open>Reading lines and requests\<close>

text \<open>
  A result agrees with the specification on the text that is to come, or it is an exception, which
  leaves less than the slack behind what was asked for.
\<close>

definition reads_as ::
    "('s \<Rightarrow> bool) \<Rightarrow> ('s \<Rightarrow> string) \<Rightarrow> nat option \<Rightarrow> fault + 'r option \<times> string \<Rightarrow> ('s, 'x, 'r option) outcome option \<Rightarrow> bool" where
  "reads_as invar pending slack expected_result result = (case result of
      None \<Rightarrow> False
    | Some (Ok r s') \<Rightarrow> expected_result = Inr (r, pending s') \<and> invar s'
    | Some (Fault f) \<Rightarrow> expected_result = Inl f
    | Some (Raise e s') \<Rightarrow> slack \<noteq> None \<and> (\<forall>r remaining. expected_result = Inr (Some r, remaining) \<longrightarrow> short_of slack 0 (length remaining)))"

lemma reads_as_simps [simp]:
  "\<not> reads_as invar pending slack x None"
  "reads_as invar pending slack x (Some (Ok r s')) \<longleftrightarrow> x = Inr (r, pending s') \<and> invar s'"
  "reads_as invar pending slack x (Some (Fault f)) \<longleftrightarrow> x = Inl f"
  by (simp_all add: reads_as_def)

definition line_of :: "string \<Rightarrow> string \<Rightarrow> fault + string option \<times> string" where
  "line_of acc str = (case split_line str of None \<Rightarrow> Inr (None, []) | Some (l, r) \<Rightarrow> Inr (Some (acc @ l), r))"

lemma reads_as_raise:
  assumes "short_of slack 1 there" "\<And>r remaining. x = Inr (Some r, remaining) \<Longrightarrow> length remaining < there"
  shows "reads_as invar pending slack x (Some (Raise e s'))"
  using assms by (fastforce simp: reads_as_def short_of_def)

lemma line_of_shorter: "line_of acc str = Inr (Some l, r) \<Longrightarrow> length r < length str"
  by (auto simp: line_of_def split_line_shorter split: option.splits)

lemma line_of_Cons:
  "line_of acc [] = Inr (None, [])"
  "line_of acc (c # cs) =
     (if c = LF then Inr (Some acc, cs)
      else if c = CR
      then (case cs of [] \<Rightarrow> Inr (None, []) | d # ds \<Rightarrow> if d = LF then Inr (Some acc, ds) else line_of (acc @ [c]) ds)
      else line_of (acc @ [c]) cs)"
  by (cases cs; auto simp: line_of_def split: option.splits)+

text \<open>Sequences: on the text, and over a source.\<close>

definition then_text ::
    "fault + 'a option \<times> string \<Rightarrow> ('a \<Rightarrow> string \<Rightarrow> fault + 'b option \<times> string) \<Rightarrow> fault + 'b option \<times> string" where
  "then_text x f = (case x of Inl e \<Rightarrow> Inl e | Inr (None, r) \<Rightarrow> Inr (None, r) | Inr (Some a, r) \<Rightarrow> f a r)"

lemma read_arguments_string_then:
  "read_arguments_string str args = then_text (line_of [] str) (\<lambda>l r.
     if l = [] then Inr (Some args, r)
     else (case split_value_line l of Inl f \<Rightarrow> Inl f | Inr (k, v) \<Rightarrow> read_arguments_string r (map_set k v args)))"
  by (simp add: then_text_def line_of_def read_arguments_string.simps [of str] split: option.splits)

lemma parse_request_string_then:
  "parse_request_string str = then_text (line_of [] str) (\<lambda>l r. case parse_request_line l of
      None \<Rightarrow> Inr (None, r)
    | Some (method, path, version) \<Rightarrow> then_text (read_arguments_string r []) (\<lambda>args r'.
        Inr (Some \<lparr>req_method = method, req_path = path, req_version = version, req_arguments = args\<rparr>, r')))"
  by (simp add: parse_request_string_def then_text_def line_of_def split: option.splits)

lemma read_arguments_string_shorter:
  "read_arguments_string str args = Inr (Some a, r) \<Longrightarrow> length r \<le> length str"
proof (induction str args rule: read_arguments_string.induct)
  case (1 str args)
  show ?case
  proof (cases "split_line str")
    case (Some lr)
    obtain l rem where lr: "lr = (l, rem)" by fastforce
    have "length r \<le> length rem" if "l \<noteq> []" "split_value_line l = Inr (k, v)"
        "read_arguments_string rem (map_set k v args) = Inr (Some a, r)" for k v
      using 1(1) [OF Some lr [symmetric] that(1,2) refl that(3)] .
    with split_line_shorter [of str l rem] Some lr 1(2) [unfolded read_arguments_string.simps [of str args]] show ?thesis
      by (fastforce split: if_splits sum.splits)
  qed (use 1(2) in \<open>simp add: read_arguments_string.simps [of str args]\<close>)
qed

lemma reads_as_bind:
  assumes "reads_as invar pending slack x res"
    and "\<And>a t. x = Inr (Some a, pending t) \<Longrightarrow> invar t \<Longrightarrow> reads_as invar pending slack (f a (pending t)) (g a t)"
    and "\<And>a b r r'. x = Inr (Some a, r) \<Longrightarrow> f a r = Inr (Some b, r') \<Longrightarrow> length r' \<le> length r"
  shows "reads_as invar pending slack (then_text x f) (Option.bind res (\<lambda>out. case out of
      Fault e \<Rightarrow> Some (Fault e) | Raise e t \<Rightarrow> Some (Raise e t) | Ok None t \<Rightarrow> Some (Ok None t) | Ok (Some a) t \<Rightarrow> g a t))"
proof (cases res)
  case (Some out)
  show ?thesis
  proof (cases out)
    case (Ok a t)
    with Some assms(1,2) show ?thesis by (cases a) (auto simp: then_text_def)
  next
    case (Raise e t)
    with Some assms(1) have r: "slack \<noteq> None" "x = Inr (Some a, r) \<Longrightarrow> short_of slack 0 (length r)" for a r
      by (auto simp: reads_as_def)
    have "short_of slack 0 (length r')" if "then_text x f = Inr (Some b, r')" for b r'
    proof -
      from that obtain a r where x: "x = Inr (Some a, r)" "f a r = Inr (Some b, r')"
        by (auto simp: then_text_def split: sum.splits option.splits prod.splits)
      from r(2) [OF x(1)] assms(3) [OF x] show ?thesis by (auto simp: short_of_def)
    qed
    with r(1) Some Raise show ?thesis by (auto simp: reads_as_def)
  next
    case (Fault e)
    with Some assms(1) show ?thesis by (simp add: then_text_def)
  qed
qed (use assms(1) in simp)

locale throwing_chars = throwing_reader rd pending invar slack
  for rd :: "('s, 'x, char) reader" and pending :: "'s \<Rightarrow> string" and invar slack
begin

lemma reader_line_agrees:
  "invar s \<Longrightarrow> reads_as invar pending slack (line_of acc (pending s)) (reader_line rd s acc)"
proof (induction "length (pending s)" arbitrary: s acc rule: less_induct)
  case less
  note step = reader_line.simps [of rd s acc]
  from less.prems show ?case
  proof (cases rule: reader_get_cases)
    case (end_of_source s1)
    then show ?thesis by (simp add: step line_of_Cons)
  next
    case (throws e s1)
    then show ?thesis by (simp add: step reads_as_raise line_of_shorter)
  next
    case (next_element c s1)
    have again: "reads_as invar pending slack (line_of (acc @ [c]) (pending t)) (reader_line rd t (acc @ [c]))"
      if "invar t" "length (pending t) \<le> length (pending s1)" for t
      using less.hyps [OF _ that(1)] that(2) next_element(3) by simp
    show ?thesis
    proof (cases "c = CR")
      case False
      with next_element again [of s1] show ?thesis by (simp add: step line_of_Cons)
    next
      case True
      from next_element(2) show ?thesis
      proof (cases rule: reader_get_cases)
        case (end_of_source s2)
        with True next_element show ?thesis by (simp add: step line_of_Cons)
      next
        case second: (next_element d s2)
        with again [of s2] True next_element show ?thesis by (simp add: step line_of_Cons)
      next
        case (throws e s2)
        have "length remaining < length (pending s1)" if "line_of acc (pending s) = Inr (Some r, remaining)" for r remaining
          using that True next_element(3) by (auto simp: line_of_Cons dest: line_of_shorter split: list.splits if_splits)
        with throws True next_element show ?thesis by (simp add: step reads_as_raise)
      qed
    qed
  qed
qed

lemma reader_arguments_agrees:
  "invar s \<Longrightarrow> reads_as invar pending slack (read_arguments_string (pending s) args) (reader_arguments rd s args)"
proof (induction "pending s" args arbitrary: s rule: read_arguments_string.induct)
  case (1 args s)
  show ?case unfolding reader_arguments.simps [of rd s args] read_arguments_string_then [of "pending s" args]
  proof (rule reads_as_bind [OF reader_line_agrees [OF 1(2)]])
    fix l t assume t: "line_of [] (pending s) = Inr (Some l, pending t)" "invar t"
    then have split: "split_line (pending s) = Some (l, pending t)" by (auto simp: line_of_def split: option.splits)
    show "reads_as invar pending slack
        (if l = [] then Inr (Some args, pending t)
         else case split_value_line l of Inl f \<Rightarrow> Inl f | Inr (k, v) \<Rightarrow> read_arguments_string (pending t) (map_set k v args))
        (if l = [] then Some (Ok (Some args) t)
         else (case split_value_line l of Inl f \<Rightarrow> Some (Fault f) | Inr (k, v) \<Rightarrow> reader_arguments rd t (map_set k v args)))"
      using 1(1) [OF split refl _ _ refl t(2)] t(2) by (auto split: sum.splits)
  qed (auto dest: read_arguments_string_shorter split: if_splits sum.splits)
qed

lemma reader_request_agrees:
  assumes "invar s"
  shows "reads_as invar pending slack (parse_request_string (pending s)) (reader_request rd s)"
  unfolding reader_request_def parse_request_string_then
proof (rule reads_as_bind [OF reader_line_agrees [OF assms]])
  fix l t assume "invar t"
  from reader_arguments_agrees [OF this, of "[]"]
  have "reads_as invar pending slack
      (then_text (read_arguments_string (pending t) []) (\<lambda>args r. Inr (Some \<lparr>req_method = m, req_path = p, req_version = v, req_arguments = args\<rparr>, r)))
      (Option.bind (reader_arguments rd t []) (\<lambda>a. case a of Fault f \<Rightarrow> Some (Fault f) | Raise e s2 \<Rightarrow> Some (Raise e s2) | Ok None s2 \<Rightarrow> Some (Ok None s2)
         | Ok (Some args) s2 \<Rightarrow> Some (Ok (Some \<lparr>req_method = m, req_path = p, req_version = v, req_arguments = args\<rparr>) s2)))"
    for m p v by (rule reads_as_bind) simp_all
  with \<open>invar t\<close> show "reads_as invar pending slack
     (case parse_request_line l of
          None \<Rightarrow> Inr (None, pending t)
        | Some (method, path, version) \<Rightarrow> then_text (read_arguments_string (pending t) []) (\<lambda>args r.
            Inr (Some \<lparr>req_method = method, req_path = path, req_version = version, req_arguments = args\<rparr>, r)))
     (case parse_request_line l of
          None \<Rightarrow> Some (Ok None t)
        | Some (method, path, version) \<Rightarrow> Option.bind (reader_arguments rd t []) (\<lambda>a. case a of
            Fault f \<Rightarrow> Some (Fault f) | Raise e s2 \<Rightarrow> Some (Raise e s2) | Ok None s2 \<Rightarrow> Some (Ok None s2)
          | Ok (Some args) s2 \<Rightarrow> Some (Ok (Some
              \<lparr>req_method = method, req_path = path, req_version = version, req_arguments = args\<rparr>) s2)))"
    by (auto split: option.splits)
qed (auto simp: then_text_def dest!: read_arguments_string_shorter split: option.splits sum.splits)

end

section \<open>The sources that throw\<close>

lemma throwing_source_reader:
  assumes "element_source cn pending invar"
  shows "patient_reader (throwing_copy_next cn) (\<lambda>s. values_before_error (pending s)) invar (Some 0)"
proof -
  from assms have source: "error_or_source cn pending invar" by (simp add: error_or_source_def)
  have "throwing_reader (throwing_copy_next cn) (\<lambda>s. values_before_error (pending s)) invar (Some 0)"
  proof (rule throwing_readerI)
    fix s n assume "invar s"
    have rest: "values_before_error xs = take n (values_before_error xs) @ values_before_error (drop n xs)"
      if "\<not> (length (values_before_error xs) < n \<and> first_error xs \<noteq> None)" for xs :: "('d + 'c) list"
      using that
    proof (induction xs arbitrary: n rule: values_before_error.induct)
      case (3 v xs)
      then show ?case by (cases n) auto
    qed simp_all
    from error_or_source.throwing_eq [OF source \<open>invar s\<close>, of n] rest [of "pending s"]
    show "case throwing_copy_next cn n s of
        Ok ys s' \<Rightarrow> values_before_error (pending s) = ys @ values_before_error (pending s') \<and> invar s' \<and> length ys \<le> n \<and>
          (0 < n \<longrightarrow> values_before_error (pending s) \<noteq> [] \<longrightarrow> ys \<noteq> [])
      | Raise e s' \<Rightarrow> short_of (Some 0) n (length (values_before_error (pending s)))
      | Fault f \<Rightarrow> False"
      by (auto split: if_splits)
  qed
  then show ?thesis by (simp add: patient_reader_def patient_reader_axioms_def)
qed

text \<open>
  What Boost.Asio documents of \<open>async_read_some\<close>: it reads at least one byte of what the connection
  delivers, if there is room for one, and fails when nothing more will be delivered.
\<close>

definition reads_some :: "('w \<Rightarrow> nat \<Rightarrow> ('x + char list) \<times> 'w) \<Rightarrow> ('w \<Rightarrow> string) \<Rightarrow> ('w \<Rightarrow> bool) \<Rightarrow> bool" where
  "reads_some async_read_some pending invar \<longleftrightarrow> (\<forall>w n. invar w \<longrightarrow> (case async_read_some w n of
      (Inr bytes, w') \<Rightarrow> pending w = bytes @ pending w' \<and> invar w' \<and> length bytes \<le> n \<and> (0 < n \<longrightarrow> bytes \<noteq> [])
    | (Inl e, w') \<Rightarrow> 0 < n \<and> pending w = []))"

lemma socket_reader:
  assumes "reads_some async_read_some pending invar"
  shows "patient_reader (socket_copy_next async_read_some) pending invar (Some 0)"
proof -
  have m: "case async_read_some w n of
      (Inr bytes, w') \<Rightarrow> pending w = bytes @ pending w' \<and> invar w' \<and> length bytes \<le> n \<and> (0 < n \<longrightarrow> bytes \<noteq> [])
    | (Inl e, w') \<Rightarrow> 0 < n \<and> pending w = []" if "invar w" for w n
    using assms [unfolded reads_some_def, rule_format, OF that] .
  have "throwing_reader (socket_copy_next async_read_some) pending invar (Some 0)"
    by (rule throwing_readerI) (use m in \<open>fastforce simp: socket_copy_next_def split: prod.splits sum.splits\<close>)
  moreover have "socket_copy_next async_read_some 0 w \<noteq> Raise e w'" if "invar w" for w e w'
    using m [OF that, of 0] by (auto simp: socket_copy_next_def split: prod.splits sum.splits)
  ultimately show ?thesis by (simp add: patient_reader_def patient_reader_axioms_def)
qed

text \<open>A connection that delivers packets and is closed then.\<close>

fun read_packet :: "string list \<Rightarrow> nat \<Rightarrow> (string + char list) \<times> string list" where
  "read_packet ps 0 = (Inr [], ps)"
| "read_packet [] n = (Inl ''end of file'', [])"
| "read_packet (p # ps) n = (Inr (take n p), if length p \<le> n then ps else drop n p # ps)"

lemma read_packet_reads_some: "reads_some read_packet concat (\<lambda>ps. [] \<notin> set ps)"
  unfolding reads_some_def
proof (intro allI impI)
  fix ps :: "string list" and n assume "[] \<notin> set ps"
  then show "case read_packet ps n of
      (Inr bytes, w') \<Rightarrow> concat ps = bytes @ concat w' \<and> [] \<notin> set w' \<and> length bytes \<le> n \<and> (0 < n \<longrightarrow> bytes \<noteq> [])
    | (Inl e, w') \<Rightarrow> 0 < n \<and> concat ps = []"
    by (cases "(ps, n)" rule: read_packet.cases) auto
qed

interpretation packets: patient_reader "socket_copy_next read_packet" concat "\<lambda>ps. [] \<notin> set ps" "Some 0"
  by (rule socket_reader [OF read_packet_reads_some])

interpretation text_reader: patient_reader "lift_source memory_copy_next" "\<lambda>xs. xs" "\<lambda>_. True" None
  by (rule lift_source_patient [OF memory.element_source_axioms])

interpretation throwing_memory: patient_reader "throwing_copy_next memory_copy_next" values_before_error "\<lambda>_. True" "Some 0"
  by (rule throwing_source_reader [OF memory.element_source_axioms])

interpretation packet_chars: throwing_chars "reader_buffering (socket_copy_next read_packet) no_wrap fill"
    "buffering_pending concat" "reader_buffering_inv (\<lambda>ps. [] \<notin> set ps) c" "more_slack c (Some 0)"
  unfolding throwing_chars_def by (rule packets.buffering_reader [OF valid_split_no_wrap])

section \<open>Properties\<close>

text \<open>
  C3: a request read with \<open>parse_request\<close> through a \<open>buffering_source\<close> of any capacity in front of a socket:
  the call returns, and its result is the one the parser of requests on strings gives for what the
  connection delivers (nothing read ahead is lost); or the exception of the socket passes through.
  On a complete request that can only happen if fewer bytes follow it than the buffer holds, since
  \<open>buffering_source\<close> reads ahead.
\<close>

theorem connection_request:
  assumes "reads_some async_read_some pending invar" "invar w" "valid_split split_at"
  shows "case reader_request (reader_buffering (socket_copy_next async_read_some) split_at fill) (buffering_init w capacity) of
      None \<Rightarrow> False
    | Some (Ok r s') \<Rightarrow> parse_request_string (pending w) = Inr (r, b_buffer s' @ pending (b_next s'))
    | Some (Fault f) \<Rightarrow> parse_request_string (pending w) = Inl f
    | Some (Raise e s') \<Rightarrow>
        (case parse_request_string (pending w) of Inr (Some r, remaining) \<Rightarrow> length remaining < capacity | _ \<Rightarrow> True)"
proof -
  from patient_reader.buffering_reader [OF socket_reader [OF assms(1)] assms(3)]
  have "throwing_chars (reader_buffering (socket_copy_next async_read_some) split_at fill) (buffering_pending pending)
      (reader_buffering_inv invar capacity) (more_slack capacity (Some 0))" by (simp add: throwing_chars_def)
  from throwing_chars.reader_request_agrees [OF this, of "buffering_init w capacity"] assms(2)
  have "reads_as (reader_buffering_inv invar capacity) (buffering_pending pending) (more_slack capacity (Some 0)) (parse_request_string (pending w))
      (reader_request (reader_buffering (socket_copy_next async_read_some) split_at fill) (buffering_init w capacity))"
    by (simp add: reader_buffering_inv_def buffering_inv_def buffering_init_def buffering_pending_def)
  then show ?thesis
    by (auto simp: reads_as_def buffering_pending_def split: option.splits outcome.splits sum.splits)
qed

lemma connection_request_witness:
  "\<exists>s'. reader_request (reader_buffering (socket_copy_next read_packet) no_wrap (CHR ''.'')) (buffering_init [''GET / HT'', ''TP/1.0'' @ [CR, LF, CR, LF] @ ''xyz''] 3) =
    Some (Ok (Some \<lparr>req_method = ''GET'', req_path = ''/'', req_version = ''HTTP/1.0'', req_arguments = []\<rparr>) s')"
proof -
  have "parse_request_string (concat [''GET / HT'', ''TP/1.0'' @ [CR, LF, CR, LF] @ ''xyz'']) =
    Inr (Some \<lparr>req_method = ''GET'', req_path = ''/'', req_version = ''HTTP/1.0'', req_arguments = []\<rparr>, ''xyz'')"
    by (simp add: parse_request_string_def read_arguments_string.simps parse_request_line_def)
  with connection_request [OF read_packet_reads_some _ valid_split_no_wrap, where capacity = 3
      and w = "[''GET / HT'', ''TP/1.0'' @ [CR, LF, CR, LF] @ ''xyz'']" and fill = "CHR ''.''"]
  show ?thesis by (auto split: option.splits outcome.splits)
qed

text \<open>
  \<open>buffering_source::pull\<close> is not exception safe: when the inner source throws, the ring keeps the
  default-constructed elements that made room for the read.  A caller that catches the exception and reads
  on gets them, although the inner source never delivered them.
\<close>

theorem pull_leaves_garbage:
  assumes "b_buffer s = []" "n < b_capacity s" "rd (split_at (ring_changes s) (b_capacity s)) (b_next s) = Raise e t"
    and "m \<le> b_capacity s" "rd 0 t = Ok [] t"
  shows "\<exists>s1 s2. reader_buffering rd split_at fill n s = Raise e s1 \<and>
    reader_buffering rd split_at fill m s1 = Ok (replicate m fill) s2"
proof -
  let ?s1 = "s\<lparr>b_next := t, b_buffer := replicate (b_capacity s) fill, ring_changes := Suc (ring_changes s)\<rparr>"
  from assms(1-3) have "reader_buffering rd split_at fill n s = Raise e ?s1"
    by (simp add: reader_buffering_def then_op_def reader_pull_def Let_def)
  moreover have "\<exists>s2. reader_buffering rd split_at fill m ?s1 = Ok (replicate m fill) s2"
    using assms(2,4,5) by (auto simp: reader_buffering_def then_op_def reader_direct_def Let_def min_def)
  ultimately show ?thesis by blast
qed

lemma pull_leaves_garbage_witness:
  "\<exists>s1 s2. reader_buffering (throwing_copy_next memory_copy_next) no_wrap 0 1 (buffering_init [Inl ''eof'', Inr (7 :: int)] 2) = Raise ''eof'' s1 \<and>
    reader_buffering (throwing_copy_next memory_copy_next) no_wrap 0 2 s1 = Ok [0, 0] s2"
  using pull_leaves_garbage [where s = "buffering_init [Inl ''eof'', Inr (7 :: int)] 2" and n = 1 and m = 2 and split_at = no_wrap
      and rd = "throwing_copy_next memory_copy_next" and fill = 0 and t = "[Inr 7]" and e = "''eof''"]
  by (simp add: buffering_init_def no_wrap_def get_def numeral_2_eq_2)

end
