(* ===== verification/Server.thy ===== *)
theory Server
  imports Http Connections
begin

text \<open>
  \<open>examples/hellohttp.cpp\<close>, the server that puts the library together.  \<open>serve_client\<close>: a request is
  parsed from a \<open>buffering_source\<close> in front of the socket, the response is generated into a
  \<open>buffering_sink\<close> in front of it, the content is appended and everything is flushed; an exception of
  the socket ends it without an answer.  The reading side of the socket is a reader \<open>rd\<close>, whose
  exceptions \<open>'x\<close> are all of the type \<open>boost::system::system_error\<close>, the writing side a sink \<open>app\<close>;
  \<open>lexical_cast\<close> and \<open>remote_endpoint\<close>, as the text of the client's endpoint or the exception that
  asking for it throws, are parameters.  \<open>main\<close>: the clients are accepted one after the other and
  \<open>serve_client\<close> is spawned for each.
\<close>

section \<open>serve_client\<close>

definition bad_request_response :: response where
  "bad_request_response = response_init\<lparr>resp_status := 400, resp_status_text := ''Bad Request'', resp_version := ''HTTP/1.0''\<rparr>"

definition hello_content :: "string \<Rightarrow> string" where
  "hello_content client_name = ''Hello, '' @ client_name @ ''!''"

definition hello_arguments :: "(nat \<Rightarrow> string) \<Rightarrow> string \<Rightarrow> arguments" where
  "hello_arguments show_nat content =
     map_set ''Content-Type'' ''text/html'' (map_set ''Connection'' ''close''
       (map_set ''Content-Length'' (show_nat (length content)) []))"

definition hello_response :: "(nat \<Rightarrow> string) \<Rightarrow> string \<Rightarrow> response" where
  "hello_response show_nat content =
     response_init\<lparr>resp_status := 200, resp_status_text := ''OK'', resp_version := ''HTTP/1.0'',
       resp_arguments := Some (hello_arguments show_nat content)\<rparr>"

text \<open>The block behind \<open>try\<close>, and the handler \<open>catch (boost::system::system_error const &)\<close>;
  an exception \<open>Inl e\<close> is of that type, \<open>Inr e\<close> one of \<open>generate_response\<close>.\<close>

definition serve_client_try ::
    "('s, 'x, char) reader \<Rightarrow> (nat \<Rightarrow> nat \<Rightarrow> nat) \<Rightarrow> char \<Rightarrow> ('t, char, 'y) append_function \<Rightarrow> (int \<Rightarrow> string) \<Rightarrow> (nat \<Rightarrow> string) \<Rightarrow>
     'x + string \<Rightarrow> char list \<Rightarrow> 's \<times> 't \<Rightarrow> ('s \<times> 't, 'x + unit, unit) outcome option" where
  "serve_client_try rd split_at fill app show_int show_nat remote_endpoint buffer socket =
     (let buffered_sender = buffering_sink_init (snd socket) buffer;
          buffered_receiver = buffering_init (fst socket) 4096
      in (case reader_request (reader_buffering rd split_at fill) buffered_receiver of
          None \<Rightarrow> None
        | Some (Fault f) \<Rightarrow> Some (Fault f)
        | Some (Raise e r) \<Rightarrow> Some (Raise (Inl e) (b_next r, m_destination buffered_sender))
        | Some (Ok header r) \<Rightarrow>
            (case header of
              None \<Rightarrow>
                (case generate_response show_int (buffering_append app) bad_request_response buffered_sender of
                  Fault f \<Rightarrow> Some (Fault f)
                | Raise e t \<Rightarrow> Some (Raise (Inr e) (b_next r, m_destination t))
                | Ok _ t \<Rightarrow> Some (Ok () (b_next r, m_destination (snd (buffering_flush app t)))))
            | Some _ \<Rightarrow>
                (case remote_endpoint of
                  Inl e \<Rightarrow> Some (Raise (Inl e) (b_next r, m_destination buffered_sender))
                | Inr client_name \<Rightarrow>
                    (let content = hello_content client_name
                     in (case generate_response show_int (buffering_append app) (hello_response show_nat content) buffered_sender of
                      Fault f \<Rightarrow> Some (Fault f)
                    | Raise e t \<Rightarrow> Some (Raise (Inr e) (b_next r, m_destination t))
                    | Ok _ t \<Rightarrow>
                        (let t1 = emit (buffering_append app) content t
                         in Some (Ok () (b_next r, m_destination (snd (buffering_flush app t1)))))))))))"

definition serve_client ::
    "('s, 'x, char) reader \<Rightarrow> (nat \<Rightarrow> nat \<Rightarrow> nat) \<Rightarrow> char \<Rightarrow> ('t, char, 'y) append_function \<Rightarrow> (int \<Rightarrow> string) \<Rightarrow> (nat \<Rightarrow> string) \<Rightarrow>
     'x + string \<Rightarrow> char list \<Rightarrow> 's \<times> 't \<Rightarrow> ('s \<times> 't, 'x + unit, unit) outcome option" where
  "serve_client rd split_at fill app show_int show_nat remote_endpoint buffer socket =
     (case serve_client_try rd split_at fill app show_int show_nat remote_endpoint buffer socket of
        Some (Raise (Inl e) s) \<Rightarrow> Some (Ok () s)
      | r \<Rightarrow> r)"

section \<open>main\<close>

text \<open>
  The loop \<open>for (auto client : range)\<close> over a \<open>buffering_source\<close> of capacity 1 in front of an
  \<open>accepting_source\<close>; \<open>fill\<close> is the null pointer, \<open>spawned\<close> the clients that \<open>serve_client\<close> has been
  spawned for.  The iterator is that of \<open>buffering_source.hpp\<close>; an exception of \<open>accept\<close> leaves the loop.
\<close>

definition reader_map_next_mutable ::
    "('s, 'x, 'e) reader \<Rightarrow> (nat \<Rightarrow> nat \<Rightarrow> nat) \<Rightarrow> 'e \<Rightarrow> nat \<Rightarrow> (('s, 'e) buffering, 'x, 'e list) op" where
  "reader_map_next_mutable rd split_at fill n =
     then_op (\<lambda>s. if b_buffer s = [] then reader_pull rd split_at fill s else Ok () s)
       (\<lambda>s. Ok (take (min n (split_at (ring_changes s) (length (b_buffer s)))) (b_buffer s)) s)"

definition reader_check_end ::
    "('s, 'x, 'e) reader \<Rightarrow> (nat \<Rightarrow> nat \<Rightarrow> nat) \<Rightarrow> 'e \<Rightarrow> (('s, 'e) buffering, 'x, bool) op" where
  "reader_check_end rd split_at fill =
     bind_op (reader_map_next_mutable rd split_at fill 1) (\<lambda>mapped. ret (mapped \<noteq> []))"

partial_function (option) accept_clients ::
    "('s, 'x, 'c) reader \<Rightarrow> (nat \<Rightarrow> nat \<Rightarrow> nat) \<Rightarrow> 'c \<Rightarrow> bool \<Rightarrow> ('s, 'c) buffering \<Rightarrow> 'c list \<Rightarrow>
     (('s, 'c) buffering \<times> 'c list, 'x, unit) outcome option" where
  "accept_clients rd split_at fill at_source s spawned =
     (if \<not> at_source then Some (Ok () (s, spawned))
      else (case reader_map_next_mutable rd split_at fill 1 s of
          Fault f \<Rightarrow> Some (Fault f)
        | Raise e s1 \<Rightarrow> Some (Raise e (s1, spawned))
        | Ok [] s1 \<Rightarrow> Some (Fault Assertion_Failed)
        | Ok (client # _) s1 \<Rightarrow>
            (case buffering_skip s1 1 of (skipped, s2) \<Rightarrow>
              (if skipped \<noteq> 1 then Some (Fault Assertion_Failed)
               else (case reader_check_end rd split_at fill s2 of
                  Fault f \<Rightarrow> Some (Fault f)
                | Raise e s3 \<Rightarrow> Some (Raise e (s3, spawned @ [client]))
                | Ok again s3 \<Rightarrow> accept_clients rd split_at fill again s3 (spawned @ [client]))))))"

definition serve_clients ::
    "('w \<Rightarrow> ('x + 'c) \<times> 'w) \<Rightarrow> (nat \<Rightarrow> nat \<Rightarrow> nat) \<Rightarrow> 'c \<Rightarrow> 'w \<Rightarrow> (('w, 'c) buffering \<times> 'c list, 'x, unit) outcome option" where
  "serve_clients accept split_at fill acceptor =
     (case reader_check_end (accepting_copy_next accept) split_at fill (buffering_init acceptor 1) of
        Fault f \<Rightarrow> Some (Fault f)
      | Raise e s \<Rightarrow> Some (Raise e (s, []))
      | Ok at_source s \<Rightarrow> accept_clients (accepting_copy_next accept) split_at fill at_source s [])"

section \<open>The response\<close>

lemma hello_arguments_eq:
  "hello_arguments show_nat content =
     [(''Connection'', ''close''), (''Content-Length'', show_nat (length content)), (''Content-Type'', ''text/html'')]"
  by (simp add: hello_arguments_def)

lemma hello_response_args: "resp_arguments (hello_response show_nat content) = Some (hello_arguments show_nat content)"
  by (simp add: hello_response_def)

lemma valid_hello_response:
  assumes "free_of [CR, LF] (show_nat (length content))"
  shows "valid_response (hello_response show_nat content)" "valid_arguments (hello_arguments show_nat content)"
  using assms by (simp_all add: valid_response_def hello_response_def response_init_def valid_arguments_def hello_arguments_eq less_list_code)

definition hello_text :: "(int \<Rightarrow> string) \<Rightarrow> (nat \<Rightarrow> string) \<Rightarrow> string \<Rightarrow> string" where
  "hello_text show_int show_nat client_name =
     (let content = hello_content client_name
      in response_text show_int (hello_response show_nat content) (hello_arguments show_nat content) @ content)"

text \<open>The buffer in front of the socket does not change what is parsed.\<close>

lemma serve_client_parses:
  assumes "patient_reader rd pending source_inv slack" "valid_split split_at" "source_inv s"
  shows "reads_as (reader_buffering_inv source_inv 4096) (buffering_pending pending) (more_slack 4096 slack)
    (parse_request_string (pending s)) (reader_request (reader_buffering rd split_at fill) (buffering_init s 4096))"
proof -
  from patient_reader.buffering_reader [OF assms(1,2)]
  have "throwing_chars (reader_buffering rd split_at fill) (buffering_pending pending)
      (reader_buffering_inv source_inv 4096) (more_slack 4096 slack)" by (simp add: throwing_chars_def)
  from throwing_chars.reader_request_agrees [OF this, of "buffering_init s 4096"] assms(3) show ?thesis
    by (simp add: reader_buffering_inv_def buffering_inv_def buffering_init_def buffering_pending_def)
qed

text \<open>The other outcomes of \<open>parse_request\<close>, and a peer without an address.\<close>

lemma serve_client_cases:
  fixes rd :: "('s, 'x, char) reader" and app :: "('t, char, 'y) append_function"
  assumes "parsed = reader_request (reader_buffering rd split_at fill) (buffering_init s 4096)"
    and "served = serve_client rd split_at fill app show_int show_nat remote buffer (s, t)"
  shows "parsed = Some (Raise e r) \<Longrightarrow> served = Some (Ok () (b_next r, t))"
    and "parsed = Some (Fault f) \<Longrightarrow> served = Some (Fault f)"
    and "parsed = Some (Ok None r) \<Longrightarrow> served = Some (Fault Null_Pointer)"
    and "parsed = Some (Ok (Some request) r) \<Longrightarrow> remote = Inl e \<Longrightarrow> served = Some (Ok () (b_next r, t))"
  using assms by (simp_all add: serve_client_def serve_client_try_def buffering_sink_init_def
      generate_response_def bad_request_response_def response_init_def)

lemma serve_client_sticky:
  assumes parsed: "reader_request (reader_buffering rd split_at fill) (buffering_init s 4096) = Some (Ok (Some r) s1)"
    and sink: "sticky_sink app written sink_inv failed" "sink_inv t"
  shows "\<exists>s' t' k. serve_client rd split_at fill app show_int show_nat (Inr client_name) buffer (s, t) = Some (Ok () (s', t')) \<and> sink_inv t' \<and>
    written t' = written t @ take k (hello_text show_int show_nat client_name) \<and>
    (failed t' \<or> written t' = written t @ hello_text show_int show_nat client_name)"
proof -
  let ?content = "hello_content client_name" and ?app = "buffering_append app"
  from sticky_generate_response [OF sink hello_response_args] obtain t1 where
    t1: "generate_response show_int ?app (hello_response show_nat ?content) (buffering_sink_init t buffer) = Ok () t1"
      "buffering_sink_inv sink_inv t1"
      "arrives written failed (written t) (response_text show_int (hello_response show_nat ?content) (hello_arguments show_nat ?content)) t1"
    by blast
  obtain e t2 where t2: "?app t1 ?content = (e, t2)" by fastforce
  from sticky_sink.buffering_append_arrives [OF sink(1) t1(2,3) t2]
  have i: "buffering_sink_inv sink_inv t2" "arrives written failed (written t) (hello_text show_int show_nat client_name) t2"
    by (simp_all add: hello_text_def Let_def)
  obtain e' t3 where t3: "buffering_flush app t2 = (e', t3)" by fastforce
  from sticky_sink.buffering_flush_arrives [OF sink(1) i t3]
  have "sink_inv (m_destination t3)" "arrives written failed (written t) (hello_text show_int show_nat client_name) t3"
    "failed (m_destination t3) \<or> written (m_destination t3) = written t @ hello_text show_int show_nat client_name"
    by (auto simp: buffering_sink_inv_def)
  with parsed t1(1) t2 t3 show ?thesis
    by (auto simp: serve_client_def serve_client_try_def Let_def append_string_def arrives_def)
qed

lemma parse_request_string_generated:
  assumes "valid_request r"
  shows "parse_request_string (request_text r @ body) = Inr (Some r, body)"
  using memory_chars.parse_request_generated [OF _ assms refl, of body]
    memory_chars.parse_request_agrees [of "request_text r @ body"]
  by (cases "parse_request_string (request_text r @ body)") auto

lemma example_request_text_nonempty [simp]: "request_text example_request \<noteq> []" "[] \<noteq> request_text example_request"
  by (simp_all add: request_text_def)

section \<open>Properties\<close>

text \<open>
  C1: the server answers every valid request, whatever follows it, over a source that keeps its contract, a
  sink that never fails, and buffers of any size, for a client whose remote endpoint is known
  (\<open>Inr client_name\<close>): \<open>serve_client\<close> returns, and a client that reads what arrived with \<open>parse_response\<close>
  (\<open>recv\<close>: the client's source over the written bytes; \<open>casts\<close>: \<open>lexical_cast\<close> prints and reads numbers) gets status 200 with the three arguments, whose
  \<open>Content-Length\<close> is the length of the content, and exactly the content remains to be read.  A source
  that may throw (\<open>slack = Some k\<close>) must have at least \<open>4096 + k\<close> bytes behind the request, which is as far
  as the server reads ahead; with fewer the request may be lost (C2).
\<close>

theorem serve_client_answers:
  assumes source: "patient_reader rd pending source_inv slack" "valid_split split_at" "source_inv s"
    and ahead: "\<forall>k. slack = Some k \<longrightarrow> k + 4096 \<le> length body"
    and sink: "reliable_sink app written sink_inv" "sink_inv t" "written t = []"
    and r: "valid_request r" "pending s = request_text r @ body"
    and client: "element_source ccn client_pending client_inv" "\<And>t. sink_inv t \<Longrightarrow> client_inv (recv t)"
      "\<And>t. sink_inv t \<Longrightarrow> client_pending (recv t) = written t"
    and casts: "show_int 200 = ''200''" "cast_unsigned ''200'' = Some 200" "\<And>n. free_of [CR, LF] (show_nat n)"
  shows "\<exists>s' t' u. serve_client rd split_at fill app show_int show_nat (Inr client_name) buffer (s, t) = Some (Ok () (s', t')) \<and>
    parse_response cast_unsigned ccn (recv t') = Some (Ok (Some \<lparr>resp_version = ''HTTP/1.0'', resp_status = 200, resp_status_text = ''OK'',
      resp_arguments = Some [(''Connection'', ''close''), (''Content-Length'', show_nat (length (''Hello, '' @ client_name @ ''!''))),
        (''Content-Type'', ''text/html'')]\<rparr>) u) \<and>
    client_pending u = ''Hello, '' @ client_name @ ''!''"
proof -
  let ?content = "hello_content client_name"
  let ?r = "hello_response show_nat ?content" and ?a = "hello_arguments show_nat ?content"
  have "\<not> short_of (more_slack 4096 slack) 0 (length body)" using ahead by (cases slack) (auto simp: add.commute)
  with serve_client_parses [OF source, of fill] parse_request_string_generated [OF r(1), of body] r(2) obtain s1 where
    "reader_request (reader_buffering rd split_at fill) (buffering_init s 4096) = Some (Ok (Some r) s1)"
    by (auto simp: reads_as_def split: option.splits outcome.splits)
  from serve_client_sticky [OF this reliable_is_sticky [OF sink(1)] sink(2), of show_int show_nat client_name buffer] sink(3) obtain s' t' where
    served: "serve_client rd split_at fill app show_int show_nat (Inr client_name) buffer (s, t) = Some (Ok () (s', t'))"
      "sink_inv t'" "written t' = response_text show_int ?r ?a @ ?content" by (auto simp: hello_text_def Let_def)
  have chars: "char_source ccn client_pending client_inv" using client(1) by (simp add: char_source_def)
  have status: "resp_status ?r = 200" by (simp add: hello_response_def)
  have "client_pending (recv t') = response_text show_int ?r ?a @ ?content" using client(3) [OF served(2)] served(3) by simp
  from char_source.parse_response_generated [OF chars client(2) [OF served(2)] valid_hello_response [OF casts(3)] _ _ this, of cast_unsigned]
    casts(1,2) status obtain u where
    "parse_response cast_unsigned ccn (recv t') = Some (Ok (Some (?r\<lparr>resp_arguments := Some ?a\<rparr>)) u)" "client_pending u = ?content"
    by auto
  with served(1) show ?thesis
    by (auto simp: hello_response_def response_init_def hello_arguments_eq hello_content_def)
qed

lemma serve_client_answers_witness:
  "\<exists>s' t' u. serve_client (socket_copy_next read_packet) no_wrap (CHR ''.'') container_append (\<lambda>_. ''200'') (\<lambda>_. ''13'') (Inr ''me:80'') ''..........''
      ([request_text example_request, replicate 4096 (CHR ''x'')], []) = Some (Ok () (s', t')) \<and>
    parse_response cast_small memory_copy_next t' = Some (Ok (Some \<lparr>resp_version = ''HTTP/1.0'', resp_status = 200, resp_status_text = ''OK'',
      resp_arguments = Some [(''Connection'', ''close''), (''Content-Length'', ''13''), (''Content-Type'', ''text/html'')]\<rparr>) u) \<and>
    u = ''Hello, me:80!''"
  using serve_client_answers [OF packets.patient_reader_axioms valid_split_no_wrap _ _ container.reliable_sink_axioms _ _ valid_example_request _
      memory.element_source_axioms, where recv = "\<lambda>t. t" and s = "[request_text example_request, replicate 4096 (CHR ''x'')]" and t = "[]"
        and body = "replicate 4096 (CHR ''x'')" and show_int = "\<lambda>_. ''200''" and show_nat = "\<lambda>_. ''13''" and cast_unsigned = cast_small
        and client_name = "''me:80''" and buffer = "''..........''" and fill = "CHR ''.''"]
  by (simp add: cast_small_def example_request_text_nonempty)

definition dropped :: "nat option \<Rightarrow> 't \<Rightarrow> ('s \<times> 't, 'x, unit) outcome option \<Rightarrow> bool" where
  "dropped slack t served \<longleftrightarrow> slack \<noteq> None \<and> (\<exists>s'. served = Some (Ok () (s', t)))"

text \<open>
  C2: what the server does on any input whatever, over a socket whose reads may throw and that may fail
  for good while it is written to: it returns or faults, as the parser of requests on strings says, or it is
  \<open>dropped\<close>, which means that an exception of the socket is ignored and nothing has been sent.  On a request
  it returns, and what has arrived is a prefix of the answer (all of it if the socket has not failed),
  although no error of the sinks is looked at; if the parser faults, so does the server; and
  the answer to a malformed or incomplete request is never sent, since its \<open>arguments\<close> are still null when
  \<open>generate_response\<close> dereferences them.
\<close>

theorem serve_client_behaviour:
  assumes source: "patient_reader rd pending source_inv slack" "valid_split split_at" "source_inv s"
    and sink: "sticky_sink app written sink_inv failed" "sink_inv t"
    and served_def: "served = serve_client rd split_at fill app show_int show_nat remote_endpoint buffer (s, t)"
  shows "case parse_request_string (pending s) of
      Inl f \<Rightarrow> dropped slack t served \<or> served = Some (Fault f)
    | Inr (None, _) \<Rightarrow> dropped slack t served \<or> served = Some (Fault Null_Pointer)
    | Inr (Some _, remaining) \<Rightarrow> dropped slack t served \<and> short_of slack 4096 (length remaining) \<or> (case remote_endpoint of
        Inl _ \<Rightarrow> \<exists>s'. served = Some (Ok () (s', t))
      | Inr client_name \<Rightarrow> \<exists>s' t' k. served = Some (Ok () (s', t')) \<and>
          written t' = written t @ take k (hello_text show_int show_nat client_name) \<and>
          (failed t' \<or> written t' = written t @ hello_text show_int show_nat client_name))"
proof -
  note parsed = serve_client_parses [OF source, of fill] and cases = serve_client_cases [OF refl served_def]
  let ?request = "reader_request (reader_buffering rd split_at fill) (buffering_init s 4096)"
  have more: "short_of (more_slack 4096 slack) 0 n \<longleftrightarrow> short_of slack 4096 n" for n by (cases slack) simp_all
  consider (diverges) "?request = None" | (raises) e r where "?request = Some (Raise e r)" | (faults) f where "?request = Some (Fault f)"
    | (malformed) r where "?request = Some (Ok None r)" | (request) req r where "?request = Some (Ok (Some req) r)"
    by (metis outcome.exhaust option.exhaust)
  then show ?thesis
  proof cases
    case raises
    from cases(1) [OF this] parsed raises more show ?thesis
      by (cases slack) (auto simp: reads_as_def dropped_def split: sum.splits option.splits)
  next
    case faults
    from cases(2) [OF this] parsed faults show ?thesis by simp
  next
    case malformed
    from cases(3) [OF this] parsed malformed show ?thesis by simp
  next
    case request
    show ?thesis
    proof (cases remote_endpoint)
      case (Inl e)
      with cases(4) [OF request] parsed request show ?thesis by simp
    next
      case (Inr client_name)
      with serve_client_sticky [OF request sink, of show_int show_nat client_name buffer] parsed request show ?thesis
        by (auto simp: served_def)
    qed
  qed (use parsed in simp)
qed

text \<open>A connection that is lost after so many bytes.\<close>

definition lost_after :: "nat \<Rightarrow> (string, char, unit) append_function" where
  "lost_after n s xs = (if length s + length xs \<le> n then None else Some (), take n (s @ xs))"

lemma lost_after_sticky: "sticky_sink (lost_after n) (\<lambda>xs. xs) (\<lambda>xs. length xs \<le> n) (\<lambda>xs. length xs = n)"
proof
  fix s s' xs r assume "length s \<le> n" "lost_after n s xs = (r, s')"
  then show "\<exists>k. s' = s @ take k xs" by (auto simp: lost_after_def intro: exI [of _ "n - length s"])
qed (auto simp: lost_after_def split: if_splits)

lemma serve_client_behaviour_witness:
  "\<exists>s' k. serve_client (lift_source memory_copy_next) no_wrap (CHR ''.'') (lost_after 20) (\<lambda>_. ''200'') (\<lambda>_. ''13'') (Inr ''me:80'') ''.....''
     (request_text example_request, []) =
     Some (Ok () (s', take k (hello_text (\<lambda>_. ''200'') (\<lambda>_. ''13'') ''me:80'')))"
  using serve_client_behaviour [OF text_reader.patient_reader_axioms valid_split_no_wrap _ lost_after_sticky [of 20],
      where s = "request_text example_request" and t = "[]" and fill = "CHR ''.''" and show_int = "\<lambda>_. ''200''" and show_nat = "\<lambda>_. ''13''"
        and remote_endpoint = "Inr ''me:80''" and buffer = "''.....''"]
    parse_request_string_generated [OF valid_example_request, of "[]"]
  by auto

section \<open>The clients\<close>

text \<open>The acceptor hands out the clients \<open>cs\<close> and fails with \<open>e\<close> then.\<close>

fun accepts_until :: "('w \<Rightarrow> ('x + 'c) \<times> 'w) \<Rightarrow> 'x \<Rightarrow> 'c list \<Rightarrow> 'w \<Rightarrow> bool" where
  "accepts_until accept e [] w \<longleftrightarrow> fst (accept w) = Inl e"
| "accepts_until accept e (c # cs) w \<longleftrightarrow> fst (accept w) = Inr c \<and> accepts_until accept e cs (snd (accept w))"

lemma valid_split_one: "valid_split split_at \<Longrightarrow> split_at t (Suc 0) = Suc 0"
  using valid_splitD(1) [of split_at t 1] valid_splitD(2) [of split_at 1 t] by simp

lemma accepting_check_end:
  assumes "valid_split split_at" "b_buffer s = []" "b_capacity s = 1"
  shows "reader_check_end (accepting_copy_next accept) split_at fill s = (case accept (b_next s) of
      (Inl e, w) \<Rightarrow> Raise e (s\<lparr>b_next := w, b_buffer := [fill], ring_changes := Suc (ring_changes s)\<rparr>)
    | (Inr c, w) \<Rightarrow> Ok True (s\<lparr>b_next := w, b_buffer := [c], ring_changes := Suc (ring_changes s)\<rparr>))"
  using assms valid_split_one [OF assms(1)]
  by (auto simp: reader_check_end_def reader_map_next_mutable_def reader_pull_def then_op_def bind_op_def ret_def Let_def
    ring_resize_def overwrite_def split: prod.splits sum.splits)

lemma accept_clients_step:
  assumes "valid_split split_at" "b_buffer s = [c]" "b_capacity s = 1"
  shows "accept_clients (accepting_copy_next accept) split_at fill True s spawned = (case accept (b_next s) of
      (Inl e, w) \<Rightarrow> Some (Raise e (s\<lparr>b_next := w, b_buffer := [fill], ring_changes := ring_changes s + 2\<rparr>, spawned @ [c]))
    | (Inr d, w) \<Rightarrow> accept_clients (accepting_copy_next accept) split_at fill True
        (s\<lparr>b_next := w, b_buffer := [d], ring_changes := ring_changes s + 2\<rparr>) (spawned @ [c]))"
proof -
  let ?s1 = "s\<lparr>b_buffer := [], ring_changes := Suc (ring_changes s)\<rparr>"
  have mapped: "reader_map_next_mutable (accepting_copy_next accept) split_at fill 1 s = Ok [c] s"
    using assms valid_split_one [OF assms(1)] by (simp add: reader_map_next_mutable_def then_op_def)
  have skipped: "buffering_skip s 1 = (1, ?s1)"
    using assms(2) by (simp add: buffering_skip_def)
  have "reader_check_end (accepting_copy_next accept) split_at fill ?s1 = (case accept (b_next s) of
      (Inl e, w) \<Rightarrow> Raise e (s\<lparr>b_next := w, b_buffer := [fill], ring_changes := ring_changes s + 2\<rparr>)
    | (Inr d, w) \<Rightarrow> Ok True (s\<lparr>b_next := w, b_buffer := [d], ring_changes := ring_changes s + 2\<rparr>))"
    using accepting_check_end [OF assms(1), of ?s1 accept fill] assms(3) by (simp split: prod.splits sum.splits)
  then show ?thesis
    unfolding accept_clients.simps [of _ _ _ True s] mapped outcome.case skipped list.case
    by (simp split: prod.splits sum.splits)
qed

lemma accept_clients_until:
  "valid_split split_at \<Longrightarrow> b_buffer s = [c] \<Longrightarrow> b_capacity s = 1 \<Longrightarrow> accepts_until accept e cs (b_next s) \<Longrightarrow>
   \<exists>s'. accept_clients (accepting_copy_next accept) split_at fill True s spawned = Some (Raise e (s', spawned @ c # cs))"
proof (induction cs arbitrary: s c spawned)
  case Nil
  then obtain w where "accept (b_next s) = (Inl e, w)" by (cases "accept (b_next s)") auto
  then show ?case unfolding accept_clients_step [OF Nil(1-3)] by simp
next
  case (Cons d cs)
  then obtain w where w: "accept (b_next s) = (Inr d, w)" "accepts_until accept e cs w"
    by (cases "accept (b_next s)") auto
  let ?t = "s\<lparr>b_next := w, b_buffer := [d], ring_changes := ring_changes s + 2\<rparr>"
  have "b_buffer ?t = [d]" "b_capacity ?t = 1" "b_next ?t = w" using Cons.prems(3) by simp_all
  with Cons.IH [OF Cons.prems(1), of ?t d "spawned @ [c]"] w(2) show ?case
    unfolding accept_clients_step [OF Cons.prems(1-3)] w(1) by simp
qed

text \<open>
  C4: the server's \<open>main\<close> spawns \<open>serve_client\<close> exactly once for every client that is accepted, in the
  order in which they are accepted, until accepting fails; that exception then leaves \<open>main\<close>.
\<close>

theorem main_serves_every_client:
  fixes accept :: "'w \<Rightarrow> ('x + 'c) \<times> 'w"
  assumes "valid_split split_at" "accepts_until accept e cs acceptor"
  shows "\<exists>s'. serve_clients accept split_at fill acceptor = Some (Raise e (s', cs))"
proof -
  let ?s = "buffering_init acceptor 1 :: ('w, 'c) buffering"
  have s: "b_buffer ?s = []" "b_capacity ?s = 1" "b_next ?s = acceptor" by (simp_all add: buffering_init_def)
  note first = accepting_check_end [OF assms(1) s(1,2), of accept fill]
  show ?thesis
  proof (cases cs)
    case Nil
    with assms(2) obtain w where w: "accept acceptor = (Inl e, w)" by (cases "accept acceptor") auto
    from first [unfolded s(3) w] Nil show ?thesis by (simp add: serve_clients_def)
  next
    case (Cons c ds)
    with assms(2) obtain w where w: "accept acceptor = (Inr c, w)" "accepts_until accept e ds w"
      by (cases "accept acceptor") auto
    let ?t = "?s\<lparr>b_next := w, b_buffer := [c], ring_changes := Suc (ring_changes ?s)\<rparr>"
    have "serve_clients accept split_at fill acceptor = accept_clients (accepting_copy_next accept) split_at fill True ?t []"
      using first [unfolded s(3) w(1)] by (simp add: serve_clients_def)
    with accept_clients_until [OF assms(1), of ?t c accept e ds fill "[]"] w(2) s(2) Cons show ?thesis by simp
  qed
qed

fun accept_from :: "string list \<Rightarrow> (string + string) \<times> string list" where
  "accept_from [] = (Inl ''operation aborted'', [])"
| "accept_from (c # cs) = (Inr c, cs)"

lemma main_serves_every_client_witness:
  "\<exists>s'. serve_clients accept_from no_wrap '''' [''a'', ''b'', ''c''] = Some (Raise ''operation aborted'' (s', [''a'', ''b'', ''c'']))"
  using main_serves_every_client [OF valid_split_no_wrap, of accept_from "''operation aborted''" "[''a'', ''b'', ''c'']"] by simp

end
