(* ===== verification/Ownership.thy ===== *)
theory Ownership
  imports Sources Files Callables "HOL-Library.Multiset"
begin

text \<open>
  Objects that own something through a \<open>std::unique_ptr\<close> or a container: \<open>detail/basic_dynamic_library.hpp\<close>
  with \<open>linux/dynamic_library_impl.hpp\<close>, the copies and moves of \<open>source/owning_source.hpp\<close>,
  \<open>aligned_ref.hpp\<close> and \<open>environment_variables.hpp\<close>.  The dynamic linker and \<open>setenv\<close> are parameters.
\<close>

section \<open>Dynamic libraries\<close>

text \<open>\<open>dlopen\<close> and \<open>dlsym\<close> return null (\<open>None\<close>) or an address; \<open>dlerror\<close> is the text of the last failure.\<close>

type_synonym 'w dlopen = "'w \<Rightarrow> string \<Rightarrow> nat option \<times> 'w"

type_synonym 'w dlclose = "'w \<Rightarrow> nat \<Rightarrow> int \<times> 'w"

definition impl_open :: "'w dlopen \<Rightarrow> ('w \<Rightarrow> string) \<Rightarrow> c_string \<Rightarrow> ('w, string, nat) op" where
  "impl_open dlopen dlerror file w = (case c_str file of
      Inl f \<Rightarrow> Fault f
    | Inr path \<Rightarrow> (case dlopen w path of
          (None, w') \<Rightarrow> Raise (dlerror w') w'
        | (Some h, w') \<Rightarrow> Ok h w'))"

definition impl_close :: "'w dlclose \<Rightarrow> nat \<Rightarrow> 'w \<Rightarrow> 'w" where
  "impl_close dlclose h w = snd (dlclose w h)"

definition impl_find_symbol ::
    "('w \<Rightarrow> nat \<Rightarrow> string \<Rightarrow> nat option) \<Rightarrow> nat \<Rightarrow> c_string \<Rightarrow> 'w \<Rightarrow> fault + nat option" where
  "impl_find_symbol dlsym h symbol w = (case c_str symbol of Inl f \<Rightarrow> Inl f | Inr text_of \<Rightarrow> Inr (dlsym w h text_of))"

text \<open>
  The state of a program: the libraries that exist, in the order of their construction, and the world.
  The member \<open>handle\<close> is a \<open>unique_ptr\<close> whose deleter closes the library.
\<close>

record library =
  lib_handle :: "nat option"

record 'w lib_program =
  libs :: "library list"
  lib_world :: 'w

definition lib_default :: library where
  "lib_default = \<lparr>lib_handle = None\<rparr>"

definition deleter_call :: "'w dlclose \<Rightarrow> nat \<Rightarrow> 'w \<Rightarrow> 'w" where
  "deleter_call dlclose h w = impl_close dlclose h w"

definition lib_dtor :: "'w dlclose \<Rightarrow> library \<Rightarrow> 'w \<Rightarrow> 'w" where
  "lib_dtor dlclose l w = (case lib_handle l of None \<Rightarrow> w | Some h \<Rightarrow> deleter_call dlclose h w)"

text \<open>
  \<open>open\<close>: moving the new handle into the member closes the old one; when opening throws, nothing
  has changed.  The \<open>if\<close> of the source tests a pointer that is never null here.
\<close>

definition lib_open ::
    "'w dlopen \<Rightarrow> 'w dlclose \<Rightarrow> ('w \<Rightarrow> string) \<Rightarrow> c_string \<Rightarrow> (library \<times> 'w, string, unit) op" where
  "lib_open dlopen dlclose dlerror file = (\<lambda>(this, w). case impl_open dlopen dlerror file w of
      Fault f \<Rightarrow> Fault f
    | Raise e w' \<Rightarrow> Raise e (this, w')
    | Ok new_handle w' \<Rightarrow> Ok () (this\<lparr>lib_handle := Some new_handle\<rparr>, lib_dtor dlclose this w'))"

definition lib_open_ctor ::
    "'w dlopen \<Rightarrow> 'w dlclose \<Rightarrow> ('w \<Rightarrow> string) \<Rightarrow> c_string \<Rightarrow> (library \<times> 'w, string, unit) op" where
  "lib_open_ctor dlopen dlclose dlerror file = (\<lambda>(_, w). lib_open dlopen dlclose dlerror file (lib_default, w))"

definition lib_move_ctor :: "library \<Rightarrow> library \<times> library" where
  "lib_move_ctor other = (other, other\<lparr>lib_handle := None\<rparr>)"

text \<open>The move assignment is \<open>reset(other.release())\<close>: the pointer is taken before the old one is closed.\<close>

definition lib_move_assign :: "'w dlclose \<Rightarrow> nat \<Rightarrow> nat \<Rightarrow> 'w lib_program \<Rightarrow> 'w lib_program" where
  "lib_move_assign dlclose i j s =
     (let released = lib_handle (libs s ! j);
          libs1 = (libs s)[j := (libs s ! j)\<lparr>lib_handle := None\<rparr>];
          old = libs1 ! i
      in s\<lparr>libs := libs1[i := old\<lparr>lib_handle := released\<rparr>], lib_world := lib_dtor dlclose old (lib_world s)\<rparr>)"

definition lib_find_symbol ::
    "('w \<Rightarrow> nat \<Rightarrow> string \<Rightarrow> nat option) \<Rightarrow> c_string \<Rightarrow> library \<Rightarrow> 'w \<Rightarrow> fault + nat option" where
  "lib_find_symbol dlsym symbol l w = (case lib_handle l of
      None \<Rightarrow> Inl Assertion_Failed | Some h \<Rightarrow> impl_find_symbol dlsym h symbol w)"

definition lib_empty :: "library \<Rightarrow> bool" where
  "lib_empty l \<longleftrightarrow> lib_handle l = None"

section \<open>Copies and moves of an owning_source\<close>

text \<open>
  The store maps a container's buffer to its elements, so that the iterator \<open>m_next\<close> (a buffer and a
  position) can point into another object's container.  \<open>keeps_buffer\<close> says whether moving the
  container moves its buffer (\<open>std::vector\<close>) or the elements (a short \<open>std::string\<close>).  Comparing an
  iterator with the end of another container is undefined.
\<close>

record owning_object =
  own_buffer :: nat
  own_next :: "nat \<times> nat"

record 'e owning_store =
  buffers :: "nat \<Rightarrow> 'e list"
  next_buffer :: nat

definition new_buffer :: "'e list \<Rightarrow> 'e owning_store \<Rightarrow> nat \<times> 'e owning_store" where
  "new_buffer c st = (next_buffer st, \<lparr>buffers = (buffers st)(next_buffer st := c), next_buffer = Suc (next_buffer st)\<rparr>)"

definition make_owning_source :: "'e list \<Rightarrow> 'e owning_store \<Rightarrow> owning_object \<times> 'e owning_store" where
  "make_owning_source c st = (case new_buffer c st of (b, st') \<Rightarrow> (\<lparr>own_buffer = b, own_next = (b, 0)\<rparr>, st'))"

definition owning_copy_ctor :: "owning_object \<Rightarrow> 'e owning_store \<Rightarrow> owning_object \<times> 'e owning_store" where
  "owning_copy_ctor other st = (case new_buffer (buffers st (own_buffer other)) st of
     (b, st') \<Rightarrow> (\<lparr>own_buffer = b, own_next = own_next other\<rparr>, st'))"

text \<open>Returns the new object and \<open>other\<close>.\<close>

definition owning_move_ctor ::
    "bool \<Rightarrow> owning_object \<Rightarrow> 'e owning_store \<Rightarrow> (owning_object \<times> owning_object) \<times> 'e owning_store" where
  "owning_move_ctor keeps_buffer other st =
     (if keeps_buffer
      then (case new_buffer [] st of (b, st') \<Rightarrow> ((other, other\<lparr>own_buffer := b\<rparr>), st'))
      else (case new_buffer (buffers st (own_buffer other)) st of
              (b, st') \<Rightarrow> ((\<lparr>own_buffer = b, own_next = own_next other\<rparr>, other), st')))"

fun owning_object_copy_next :: "'e owning_store \<Rightarrow> owning_object \<Rightarrow> nat \<Rightarrow> fault + 'e list \<times> owning_object" where
  "owning_object_copy_next st s 0 = Inr ([], s)"
| "owning_object_copy_next st s (Suc n) =
     (if fst (own_next s) \<noteq> own_buffer s then Inl Out_Of_Range
      else if snd (own_next s) \<noteq> length (buffers st (own_buffer s))
      then (case owning_object_copy_next st (s\<lparr>own_next := (fst (own_next s), snd (own_next s) + 1)\<rparr>) n of
              Inl f \<Rightarrow> Inl f
            | Inr (ys, s') \<Rightarrow> Inr (buffers st (own_buffer s) ! snd (own_next s) # ys, s'))
      else Inr ([], s))"

section \<open>aligned_ref and environment variables\<close>

text \<open>
  A reference is the address of an element; \<open>width\<close> is the distance of neighbouring elements.
  \<open>copy\<close> reads and writes element by element, as \<open>std::copy\<close> does.
\<close>

definition aligned_create :: "nat \<Rightarrow> nat \<Rightarrow> nat option" where
  "aligned_create alignment address = (if alignment dvd address then Some address else None)"

fun aligned_copy :: "nat \<Rightarrow> ('v \<Rightarrow> 'v) \<Rightarrow> nat \<Rightarrow> nat \<Rightarrow> nat \<Rightarrow> (nat \<Rightarrow> 'v) \<Rightarrow> nat \<Rightarrow> 'v" where
  "aligned_copy width convert from_ptr to_ptr 0 memory = memory"
| "aligned_copy width convert from_ptr to_ptr (Suc n) memory =
     aligned_copy width convert (from_ptr + width) (to_ptr + width) n (memory(to_ptr := convert (memory from_ptr)))"

definition set_environment_variable ::
    "('w \<Rightarrow> string \<Rightarrow> string \<Rightarrow> bool \<Rightarrow> int \<times> 'w) \<Rightarrow> ('w \<Rightarrow> int) \<Rightarrow> c_string \<Rightarrow> c_string \<Rightarrow> 'w \<Rightarrow> fault + error_code \<times> 'w" where
  "set_environment_variable setenv errno key val w = (case (c_str key, c_str val) of
      (Inl f, _) \<Rightarrow> Inl f
    | (Inr _, Inl f) \<Rightarrow> Inl f
    | (Inr k, Inr v) \<Rightarrow> (case setenv w k v True of
          (rc, w') \<Rightarrow> if rc \<noteq> 0 then Inr (get_last_error errno w', w') else Inr (no_error, w')))"

section \<open>Programs with dynamic libraries\<close>

datatype lib_step = Lib_Default | Lib_Open_Ctor c_string | Lib_Open nat c_string | Lib_Move_Ctor nat
  | Lib_Move_Assign nat nat | Lib_Find nat c_string | Lib_Destroy_Last

text \<open>
  A program catches what its steps throw; an object whose constructor throws does not come into being.
  A step on objects that do not exist is not part of a program and does nothing.
\<close>

fun lib_exec ::
    "'w dlopen \<Rightarrow> 'w dlclose \<Rightarrow> ('w \<Rightarrow> nat \<Rightarrow> string \<Rightarrow> nat option) \<Rightarrow> ('w \<Rightarrow> string) \<Rightarrow> lib_step \<Rightarrow> 'w lib_program \<Rightarrow>
     fault + 'w lib_program" where
  "lib_exec dlopen dlclose dlsym dlerror Lib_Default s = Inr (s\<lparr>libs := libs s @ [lib_default]\<rparr>)"
| "lib_exec dlopen dlclose dlsym dlerror (Lib_Open_Ctor file) s =
     (case lib_open_ctor dlopen dlclose dlerror file (lib_default, lib_world s) of
        Fault f \<Rightarrow> Inl f
      | Raise e (_, w) \<Rightarrow> Inr (s\<lparr>lib_world := w\<rparr>)
      | Ok _ (l, w) \<Rightarrow> Inr (s\<lparr>libs := libs s @ [l], lib_world := w\<rparr>))"
| "lib_exec dlopen dlclose dlsym dlerror (Lib_Open i file) s =
     (if i < length (libs s)
      then (case lib_open dlopen dlclose dlerror file (libs s ! i, lib_world s) of
              Fault f \<Rightarrow> Inl f
            | Raise e (l, w) \<Rightarrow> Inr (s\<lparr>libs := (libs s)[i := l], lib_world := w\<rparr>)
            | Ok _ (l, w) \<Rightarrow> Inr (s\<lparr>libs := (libs s)[i := l], lib_world := w\<rparr>))
      else Inr s)"
| "lib_exec dlopen dlclose dlsym dlerror (Lib_Move_Ctor i) s =
     (if i < length (libs s)
      then (case lib_move_ctor (libs s ! i) of (new, other) \<Rightarrow> Inr (s\<lparr>libs := (libs s)[i := other] @ [new]\<rparr>))
      else Inr s)"
| "lib_exec dlopen dlclose dlsym dlerror (Lib_Move_Assign i j) s =
     Inr (if i < length (libs s) \<and> j < length (libs s) then lib_move_assign dlclose i j s else s)"
| "lib_exec dlopen dlclose dlsym dlerror (Lib_Find i symbol) s =
     (if i < length (libs s) then map_sum id (\<lambda>_. s) (lib_find_symbol dlsym symbol (libs s ! i) (lib_world s)) else Inr s)"
| "lib_exec dlopen dlclose dlsym dlerror Lib_Destroy_Last s =
     Inr (if libs s = [] then s else s\<lparr>libs := butlast (libs s), lib_world := lib_dtor dlclose (last (libs s)) (lib_world s)\<rparr>)"

fun lib_run ::
    "'w dlopen \<Rightarrow> 'w dlclose \<Rightarrow> ('w \<Rightarrow> nat \<Rightarrow> string \<Rightarrow> nat option) \<Rightarrow> ('w \<Rightarrow> string) \<Rightarrow> lib_step list \<Rightarrow> 'w lib_program \<Rightarrow>
     fault + 'w lib_program" where
  "lib_run dlopen dlclose dlsym dlerror [] s = Inr s"
| "lib_run dlopen dlclose dlsym dlerror (c # cs) s = (case lib_exec dlopen dlclose dlsym dlerror c s of
      Inl f \<Rightarrow> Inl f | Inr s' \<Rightarrow> lib_run dlopen dlclose dlsym dlerror cs s')"

text \<open>
  What is documented of the dynamic linker: it counts how often each library has been opened.
  \<open>opened w\<close> contains a handle once for every \<open>dlopen\<close> that has not been matched by a \<open>dlclose\<close>;
  nothing is known of a \<open>dlclose\<close> without a \<open>dlopen\<close>.
\<close>

definition dl_contract :: "'w dlopen \<Rightarrow> 'w dlclose \<Rightarrow> ('w \<Rightarrow> nat multiset) \<Rightarrow> bool" where
  "dl_contract dlopen dlclose opened \<longleftrightarrow>
     (\<forall>w path. case dlopen w path of
        (None, w') \<Rightarrow> opened w' = opened w | (Some h, w') \<Rightarrow> opened w' = add_mset h (opened w)) \<and>
     (\<forall>w h. h \<in># opened w \<longrightarrow> opened (snd (dlclose w h)) = opened w - {#h#})"

fun held :: "library \<Rightarrow> nat multiset" where
  "held \<lparr>lib_handle = None\<rparr> = {#}"
| "held \<lparr>lib_handle = Some h\<rparr> = {#h#}"

definition all_held :: "library list \<Rightarrow> nat multiset" where
  "all_held ls = \<Sum>\<^sub># (image_mset held (mset ls))"

text \<open>What is open is what was open before, \<open>base\<close>, and what the libraries of the program hold.\<close>

definition lib_inv :: "('w \<Rightarrow> nat multiset) \<Rightarrow> nat multiset \<Rightarrow> 'w lib_program \<Rightarrow> bool" where
  "lib_inv opened base s \<longleftrightarrow> opened (lib_world s) = base + all_held (libs s)"

lemma held_simps [simp]:
  "held lib_default = {#}" "held (l\<lparr>lib_handle := None\<rparr>) = {#}" "held (l\<lparr>lib_handle := Some h\<rparr>) = {#h#}"
  by (cases l; simp add: lib_default_def)+

lemma held_eq: "held l = (case lib_handle l of None \<Rightarrow> {#} | Some h \<Rightarrow> {#h#})"
  by (cases l rule: held.cases) simp_all

lemma all_held_simps [simp]:
  "all_held [] = {#}" "all_held (l # ls) = held l + all_held ls" "all_held (ls @ ms) = all_held ls + all_held ms"
  by (simp_all add: all_held_def)

lemma all_held_update:
  assumes "i < length ls"
  shows "all_held (ls[i := l]) + held (ls ! i) = all_held ls + held l"
proof -
  have "all_held ls = all_held (take i ls) + (held (ls ! i) + all_held (drop (Suc i) ls))"
    using id_take_nth_drop [OF assms] all_held_simps(2,3) by metis
  with assms show ?thesis by (simp add: upd_conv_take_nth_drop)
qed

lemma all_held_butlast: "ls \<noteq> [] \<Longrightarrow> all_held (butlast ls) + held (last ls) = all_held ls"
  using all_held_simps(3) [of "butlast ls" "[last ls]"] by simp

lemma lib_dtor_opened:
  assumes "dl_contract dlopen dlclose opened" "opened w = held l + others"
  shows "opened (lib_dtor dlclose l w) = others"
  using assms
  by (auto simp: lib_dtor_def deleter_call_def impl_close_def dl_contract_def held_eq split: option.splits)

lemma dl_contractD:
  "dl_contract dlopen dlclose opened \<Longrightarrow> dlopen w path = (None, w') \<Longrightarrow> opened w' = opened w"
  "dl_contract dlopen dlclose opened \<Longrightarrow> dlopen w path = (Some h, w') \<Longrightarrow> opened w' = add_mset h (opened w)"
  unfolding dl_contract_def by (metis (mono_tags, lifting) case_prod_conv option.case)+

lemma lib_open_opened:
  assumes "dl_contract dlopen dlclose opened" "opened w = held l + others"
  shows "case lib_open dlopen dlclose dlerror file (l, w) of
      Ok _ (l', w') \<Rightarrow> opened w' = held l' + others
    | Raise e (l', w') \<Rightarrow> l' = l \<and> opened w' = opened w
    | Fault f \<Rightarrow> f = Assertion_Failed"
proof (cases "c_str file")
  case (Inl f)
  then have "f = Assertion_Failed" by (simp add: c_str_def split: option.splits)
  with Inl show ?thesis by (simp add: lib_open_def impl_open_def)
next
  case (Inr path)
  obtain r w' where d: "dlopen w path = (r, w')" by fastforce
  show ?thesis
  proof (cases r)
    case None
    with dl_contractD(1) [OF assms(1)] d have "opened w' = opened w" by metis
    with None Inr d show ?thesis by (simp add: lib_open_def impl_open_def)
  next
    case (Some h)
    with dl_contractD(2) [OF assms(1)] d assms(2) have "opened w' = held l + add_mset h others" by simp
    from lib_dtor_opened [OF assms(1) this] Some Inr d show ?thesis by (simp add: lib_open_def impl_open_def)
  qed
qed

lemma lib_move_assign_inv:
  assumes "dl_contract dlopen dlclose opened" "lib_inv opened base s" "i < length (libs s)" "j < length (libs s)"
  shows "lib_inv opened base (lib_move_assign dlclose i j s)"
proof -
  let ?r = "lib_handle (libs s ! j)"
  let ?libs1 = "(libs s)[j := (libs s ! j)\<lparr>lib_handle := None\<rparr>]"
  let ?libs2 = "?libs1[i := (?libs1 ! i)\<lparr>lib_handle := ?r\<rparr>]"
  have "held ((?libs1 ! i)\<lparr>lib_handle := ?r\<rparr>) = held (libs s ! j)" by (simp add: held_eq)
  with all_held_update [of i ?libs1 "(?libs1 ! i)\<lparr>lib_handle := ?r\<rparr>"] all_held_update [of j "libs s" "(libs s ! j)\<lparr>lib_handle := None\<rparr>"] assms(3,4)
  have "all_held ?libs2 + held (?libs1 ! i) = all_held (libs s)" by simp
  with assms(2) have "opened (lib_world s) = held (?libs1 ! i) + (base + all_held ?libs2)"
    by (simp add: lib_inv_def ac_simps)
  from lib_dtor_opened [OF assms(1) this] show ?thesis by (simp add: lib_inv_def lib_move_assign_def Let_def)
qed

lemma lib_open_inv:
  assumes c: "dl_contract dlopen dlclose opened" and s: "lib_inv opened base s" and i: "i < length (libs s)"
  shows "case lib_open dlopen dlclose dlerror path (libs s ! i, lib_world s) of
      Ok _ (l, w) \<Rightarrow> lib_inv opened base (s\<lparr>libs := (libs s)[i := l], lib_world := w\<rparr>)
    | Raise e (l, w) \<Rightarrow> lib_inv opened base (s\<lparr>libs := (libs s)[i := l], lib_world := w\<rparr>)
    | Fault f \<Rightarrow> f = Assertion_Failed"
proof -
  have "all_held ((libs s)[i := lib_default]) + held (libs s ! i) = all_held (libs s)"
    using all_held_update [OF i, of lib_default] by simp
  with s have "opened (lib_world s) = held (libs s ! i) + (base + all_held ((libs s)[i := lib_default]))"
    by (simp add: lib_inv_def ac_simps)
  note opened = lib_open_opened [OF c this, of dlerror path]
  have update: "lib_inv opened base (s\<lparr>libs := (libs s)[i := l], lib_world := w'\<rparr>)"
    if "opened w' = held l + (base + all_held ((libs s)[i := lib_default]))" for l w'
    using that all_held_update [of i "(libs s)[i := lib_default]" l] i by (simp add: ac_simps lib_inv_def)
  show ?thesis
  proof (cases "lib_open dlopen dlclose dlerror path (libs s ! i, lib_world s)")
    case (Ok u p)
    with opened update [of "snd p" "fst p"] show ?thesis by (cases p) simp
  next
    case (Raise e p)
    with opened s show ?thesis by (cases p) (simp add: lib_inv_def)
  next
    case (Fault f)
    with opened show ?thesis by simp
  qed
qed

lemma lib_exec_inv:
  assumes c: "dl_contract dlopen dlclose opened" and s: "lib_inv opened base s"
  shows "case lib_exec dlopen dlclose dlsym dlerror step s of
      Inr s' \<Rightarrow> lib_inv opened base s' | Inl f \<Rightarrow> f = Assertion_Failed"
proof (cases step)
  case Lib_Default
  with s show ?thesis by (simp add: lib_inv_def)
next
  case (Lib_Open_Ctor path)
  have "opened (lib_world s) = held lib_default + (base + all_held (libs s))" using s by (simp add: lib_inv_def)
  from lib_open_opened [OF c this, of dlerror path] Lib_Open_Ctor s show ?thesis
    by (auto simp: lib_open_ctor_def lib_inv_def ac_simps split: outcome.splits)
next
  case (Lib_Open i path)
  with lib_open_inv [OF c s, of i dlerror path] s show ?thesis
    by (cases "lib_open dlopen dlclose dlerror path (libs s ! i, lib_world s)") auto
next
  case (Lib_Move_Ctor i)
  then show ?thesis
    using s all_held_update [of i "libs s" "(libs s ! i)\<lparr>lib_handle := None\<rparr>"] by (simp add: lib_move_ctor_def lib_inv_def)
next
  case (Lib_Move_Assign i j)
  then show ?thesis using s lib_move_assign_inv [OF c s] by simp
next
  case (Lib_Find i symbol)
  with s show ?thesis
    by (auto simp: lib_find_symbol_def impl_find_symbol_def c_str_def split: option.splits sum.splits)
next
  case Lib_Destroy_Last
  show ?thesis
  proof (cases "libs s = []")
    case False
    with s all_held_butlast [OF False] have "opened (lib_world s) = held (last (libs s)) + (base + all_held (butlast (libs s)))"
      by (simp add: lib_inv_def ac_simps)
    from lib_dtor_opened [OF c this] Lib_Destroy_Last False show ?thesis by (simp add: lib_inv_def)
  qed (use Lib_Destroy_Last s in simp)
qed

lemma lib_run_inv:
  "dl_contract dlopen dlclose opened \<Longrightarrow> lib_inv opened base s \<Longrightarrow>
   case lib_run dlopen dlclose dlsym dlerror steps s of Inr s' \<Rightarrow> lib_inv opened base s' | Inl f \<Rightarrow> f = Assertion_Failed"
proof (induction steps arbitrary: s)
  case (Cons c cs)
  from lib_exec_inv [OF Cons.prems, of dlsym dlerror c] Cons.IH [OF Cons.prems(1)] show ?case
    by (cases "lib_exec dlopen dlclose dlsym dlerror c s") simp_all
qed simp

section \<open>Copied and moved sources\<close>

lemma owning_object_refines:
  "fst (own_next s) = own_buffer s \<Longrightarrow>
   owning_object_copy_next st s n =
     (case owning_indirect_copy_next \<lparr>owned = buffers st (own_buffer s), next_pos = snd (own_next s)\<rparr> n of
        (ys, t) \<Rightarrow> Inr (ys, s\<lparr>own_next := (own_buffer s, next_pos t)\<rparr>))"
proof (induction st s n rule: owning_object_copy_next.induct)
  case (1 st s)
  then show ?case by (cases s) (auto simp: prod_eq_iff)
next
  case (2 st s n)
  show ?case
  proof (cases "snd (own_next s) = length (buffers st (own_buffer s))")
    case True
    with 2 show ?thesis by (cases s) (auto simp: prod_eq_iff)
  next
    case False
    with "2.IH" 2 show ?thesis by (auto split: prod.splits)
  qed
qed

lemma owning_object_take:
  assumes "own_next s = (own_buffer s, i)" "i \<le> length (buffers st (own_buffer s))"
  shows "\<exists>s'. owning_object_copy_next st s n = Inr (take n (drop i (buffers st (own_buffer s))), s')"
proof -
  let ?s = "\<lparr>owned = buffers st (own_buffer s), next_pos = i\<rparr>"
  have "owning_inv ?s" using assms(2) by (simp add: owning_inv_def)
  from owning_indirect.copy_next_take [OF this, of n] show ?thesis
    using owning_object_refines [of s st n] assms(1) by (auto simp: owning_pending_def split: prod.splits)
qed

lemma aligned_copy_eq:
  assumes "0 < width"
    and "to_ptr \<le> from_ptr \<and> width dvd from_ptr - to_ptr \<or> from_ptr + n * width \<le> to_ptr \<or> to_ptr + n * width \<le> from_ptr"
  shows "aligned_copy width convert from_ptr to_ptr n memory =
    (\<lambda>a. if \<exists>i < n. a = to_ptr + i * width then convert (memory (from_ptr + (a - to_ptr))) else memory a)"
  using assms(2)
proof (induction n arbitrary: from_ptr to_ptr memory)
  case (Suc n)
  have split: "(\<exists>i < Suc n. a = to_ptr + i * width) \<longleftrightarrow> a = to_ptr \<or> (\<exists>i < n. a = to_ptr + width + i * width)" for a
    by (auto simp: less_Suc_eq_0_disj)
  have "to_ptr + width \<le> from_ptr + width \<and> width dvd from_ptr + width - (to_ptr + width) \<or>
      from_ptr + width + n * width \<le> to_ptr + width \<or> to_ptr + width + n * width \<le> from_ptr + width"
    using Suc.prems by auto
  note IH = Suc.IH [OF this, of "memory(to_ptr := convert (memory from_ptr))"]
  have later: "to_ptr \<noteq> from_ptr + width + i * width" if "i < n" for i
  proof -
    have "(i + 1) * width < Suc n * width" using that assms(1) by (simp only: mult_less_mono1)
    with Suc.prems assms(1) show ?thesis by auto
  qed
  show ?case
  proof
    fix a
    show "aligned_copy width convert from_ptr to_ptr (Suc n) memory a =
        (if \<exists>i < Suc n. a = to_ptr + i * width then convert (memory (from_ptr + (a - to_ptr))) else memory a)"
    proof (cases "\<exists>i < n. a = to_ptr + width + i * width")
      case True
      then obtain i where i: "i < n" "a = to_ptr + width + i * width" by blast
      then have "from_ptr + width + (a - (to_ptr + width)) = from_ptr + (a - to_ptr)" "from_ptr + (a - to_ptr) \<noteq> to_ptr"
        using later [OF i(1)] by (simp_all add: add.assoc)
      with True show ?thesis unfolding aligned_copy.simps IH split by (simp only: fun_upd_apply simp_thms if_True if_False)
    next
      case False
      then show ?thesis unfolding aligned_copy.simps IH split
        by (cases "a = to_ptr") (simp_all only: fun_upd_apply simp_thms if_True if_False diff_self_eq_0 add_0_right)
    qed
  qed
qed simp

section \<open>Properties\<close>

text \<open>
  C20: for any program that opens, reopens, moves, assigns (also to itself) and destroys dynamic
  libraries in any order, with libraries that fail to open: while it runs, the linker's count of open
  libraries is what it was before plus one for each handle held, so that when all objects are gone every
  library has been closed exactly as often as it was opened; the only fault is the assertion of a symbol
  looked up in an empty object or of a null file name.
\<close>

theorem dynamic_libraries_balanced:
  assumes "dl_contract dlopen dlclose opened"
  shows "case lib_run dlopen dlclose dlsym dlerror steps \<lparr>libs = [], lib_world = w\<rparr> of
      Inl f \<Rightarrow> f = Assertion_Failed
    | Inr s \<Rightarrow> opened (lib_world s) = opened w + mset (List.map_filter lib_handle (libs s))"
proof -
  have "all_held ls = mset (List.map_filter lib_handle ls)" for ls
    by (induction ls) (auto simp: held_eq map_filter_simps split: option.splits)
  moreover have "lib_inv opened (opened w) \<lparr>libs = [], lib_world = w\<rparr>" by (simp add: lib_inv_def)
  ultimately show ?thesis
    using lib_run_inv [OF assms, of "opened w" "\<lparr>libs = [], lib_world = w\<rparr>" dlsym dlerror steps]
    by (simp add: lib_inv_def split: sum.splits)
qed

lemma dynamic_libraries_balanced_witness:
  "case lib_run (\<lambda>w path. if path = ''a'' then (Some 7, add_mset 7 w) else (None, w)) (\<lambda>w h. (0, w - {#h#})) (\<lambda>w h name. None) (\<lambda>w. ''not found'')
      [Lib_Open_Ctor \<lparr>m_begin = Some ''a''\<rparr>, Lib_Default, Lib_Move_Assign 1 0, Lib_Open 1 \<lparr>m_begin = Some ''a''\<rparr>, Lib_Open 1 \<lparr>m_begin = Some ''b''\<rparr>]
      \<lparr>libs = [], lib_world = {#}\<rparr> of
    Inl f \<Rightarrow> False | Inr s \<Rightarrow> lib_world s = {#7#}"
proof -
  let ?open = "\<lambda>w path. if path = ''a'' then (Some 7, add_mset 7 w) else (None, w)"
  have "dl_contract ?open (\<lambda>w h. (0, w - {#h#})) (\<lambda>w. w)" by (simp add: dl_contract_def)
  from dynamic_libraries_balanced [OF this, where w = "{#}" and dlsym = "\<lambda>w h name. None" and dlerror = "\<lambda>w. ''not found''"
      and steps = "[Lib_Open_Ctor \<lparr>m_begin = Some ''a''\<rparr>, Lib_Default, Lib_Move_Assign 1 0, Lib_Open 1 \<lparr>m_begin = Some ''a''\<rparr>, Lib_Open 1 \<lparr>m_begin = Some ''b''\<rparr>]"]
  show ?thesis
    by (simp add: lib_open_ctor_def lib_open_def impl_open_def c_str_def lib_default_def lib_move_assign_def lib_dtor_def
        deleter_call_def impl_close_def map_filter_simps)
qed

text \<open>
  An \<open>owning_source\<close> must not be copied: the iterator of the copy still points into the container of
  the original, so that reading anything from the copy compares iterators of two containers.
\<close>

theorem owning_source_copy_dangles:
  assumes "own_next s = (own_buffer s, i)" "own_buffer s < next_buffer st" "0 < n"
    and "owning_copy_ctor s st = (copied, st')"
  shows "owning_object_copy_next st' copied n = Inl Out_Of_Range"
  using assms by (cases n) (auto simp: owning_copy_ctor_def new_buffer_def)

lemma owning_source_copy_dangles_witness:
  "case make_owning_source ''abc'' \<lparr>buffers = (\<lambda>_. []), next_buffer = 0\<rparr> of (s, st) \<Rightarrow>
   case owning_copy_ctor s st of (copied, st') \<Rightarrow> owning_object_copy_next st' copied 1 = Inl Out_Of_Range"
proof -
  obtain copied st' where "owning_copy_ctor \<lparr>own_buffer = 0, own_next = (0, 0)\<rparr> \<lparr>buffers = (\<lambda>_. [])(0 := ''abc''), next_buffer = Suc 0\<rparr> = (copied, st')"
    by fastforce
  with owning_source_copy_dangles [OF _ _ _ this, of 0 1] show ?thesis by (simp add: make_owning_source_def new_buffer_def)
qed

text \<open>
  Moving an \<open>owning_source\<close> is right exactly if moving the container keeps its elements where they
  are: then the new source hands out what the old one still had to deliver, and otherwise it reads
  through an iterator into the container it was moved from.
\<close>

theorem owning_source_moves:
  assumes "own_next s = (own_buffer s, i)" "i \<le> length (buffers st (own_buffer s))" "own_buffer s < next_buffer st" "0 < n"
    and "owning_move_ctor keeps_buffer s st = ((moved, other), st')"
  shows "if keeps_buffer
    then \<exists>s'. owning_object_copy_next st' moved n = Inr (take n (drop i (buffers st (own_buffer s))), s')
    else owning_object_copy_next st' moved n = Inl Out_Of_Range"
proof (cases keeps_buffer)
  case True
  with assms owning_object_take [of s i st' n] show ?thesis by (auto simp: owning_move_ctor_def new_buffer_def)
next
  case False
  with assms show ?thesis by (cases n) (auto simp: owning_move_ctor_def new_buffer_def)
qed

lemma owning_source_moves_witness:
  "case owning_move_ctor True \<lparr>own_buffer = 0, own_next = (0, 1)\<rparr> \<lparr>buffers = (\<lambda>_. ''abc''), next_buffer = 1\<rparr> of
     ((moved, other), st') \<Rightarrow> \<exists>s'. owning_object_copy_next st' moved 5 = Inr (''bc'', s')"
  using owning_source_moves [of "\<lparr>own_buffer = 0, own_next = (0, 1)\<rparr>" 1 "\<lparr>buffers = (\<lambda>_. ''abc''), next_buffer = 1\<rparr>" 5 True]
  by (auto split: prod.splits)

end
