(* ===== verification/Strings.thy ===== *)
theory Strings
  imports Files "HOL-Library.Word"
begin

text \<open>
  \<open>silicium/noexcept_string.hpp\<close> and \<open>os_string.hpp\<close>: conversions between the types of strings.  On POSIX
  the strings of the operating system are those of the program and a conversion copies the characters;
  on Windows they are UTF-16 and are converted by \<open>MultiByteToWideChar\<close> and \<open>WideCharToMultiByte\<close>,
  which are parameters that work on a world \<open>'w\<close>.  A \<open>char const *\<close> is what can be read from it on, of
  which a conversion takes the characters in front of the first NUL.
\<close>

abbreviation NUL :: char where "NUL \<equiv> CHR 0x00"

section \<open>noexcept_string and POSIX\<close>

definition to_noexcept_string :: "string \<Rightarrow> string" where
  "to_noexcept_string str = take (length str) str"

text \<open>\<open>detail::convert_range\<close>: the original itself if it has the type that is wanted, a copy otherwise.\<close>

definition convert_range :: "bool \<Rightarrow> 'c list \<Rightarrow> 'c list" where
  "convert_range is_same original_string = (if is_same then original_string else map (\<lambda>c. c) original_string)"

definition string_of_c_str :: "string \<Rightarrow> string" where
  "string_of_c_str p = before_first NUL p"

text \<open>\<open>to_os_string(char const *begin, char const *end)\<close>\<close>

definition posix_os_string :: "string \<Rightarrow> nat \<Rightarrow> nat \<Rightarrow> string" where
  "posix_os_string memory begin_at end_at = map (\<lambda>i. memory ! i) [begin_at ..< end_at]"

section \<open>Windows\<close>

text \<open>
  A call of the API gets the input and the room in the output (0: it only answers how much would be
  needed); it returns a number, which is 0 for a failure, and what it has written.
\<close>

type_synonym ('w, 'a, 'b) code_page_call = "'w \<Rightarrow> 'a list \<Rightarrow> nat \<Rightarrow> int \<times> 'b list \<times> 'w"

datatype conversion_error = Invalid_Argument | System_Error error_code

definition int_max :: nat where
  "int_max = 2 ^ 31 - 1"

definition utf8_to_winapi_string ::
    "('w, char, 16 word) code_page_call \<Rightarrow> ('w \<Rightarrow> int) \<Rightarrow> string \<Rightarrow> ('w, conversion_error, 16 word list) op" where
  "utf8_to_winapi_string multi_byte_to_wide_char errno original_string w =
     (if length original_string > int_max then Raise Invalid_Argument w
      else (case multi_byte_to_wide_char w original_string 0 of (output_size, _, w1) \<Rightarrow>
        (if \<not> 0 \<le> output_size then Fault Assertion_Failed
         else if 0 < length original_string \<and> output_size = 0
         then Raise (System_Error (get_last_error errno w1)) w1
         else (let result = replicate (nat output_size) 0
               in if result \<noteq> []
                  then (case multi_byte_to_wide_char w1 original_string (nat output_size) of (_, written, w2) \<Rightarrow>
                    Ok (written @ drop (length written) result) w2)
                  else Ok result w1))))"

definition to_utf8_string ::
    "('w, 16 word, char) code_page_call \<Rightarrow> ('w \<Rightarrow> int) \<Rightarrow> 16 word list \<Rightarrow> ('w, conversion_error, string) op" where
  "to_utf8_string wide_char_to_multi_byte errno utf16 w =
     (if length utf16 = 0 then Ok [] w
      else if length utf16 > int_max then Raise Invalid_Argument w
      else (case wide_char_to_multi_byte w utf16 0 of (destination_length, _, w1) \<Rightarrow>
        (if destination_length = 0 then Raise (System_Error (get_last_error errno w1)) w1
         else (let result = replicate (nat destination_length) NUL
               in case wide_char_to_multi_byte w1 utf16 (nat destination_length) of (n, written, w2) \<Rightarrow>
                 (if n = 0 then Raise (System_Error (get_last_error errno w2)) w2
                  else Ok (written @ drop (length written) result) w2)))))"

definition to_os_string_of_c_str ::
    "('w, char, 16 word) code_page_call \<Rightarrow> ('w \<Rightarrow> int) \<Rightarrow> string \<Rightarrow> ('w, conversion_error, 16 word list) op" where
  "to_os_string_of_c_str multi_byte_to_wide_char errno c_str =
     utf8_to_winapi_string multi_byte_to_wide_char errno (before_first NUL c_str)"

definition to_utf8_string_of_c_str ::
    "('w, 16 word, char) code_page_call \<Rightarrow> ('w \<Rightarrow> int) \<Rightarrow> 16 word list \<Rightarrow> ('w, conversion_error, string) op" where
  "to_utf8_string_of_c_str wide_char_to_multi_byte errno utf16 =
     to_utf8_string wide_char_to_multi_byte errno (before_first 0 utf16)"

text \<open>
  What is documented of both calls: they convert with \<open>convert\<close>, which is undefined where they fail (empty
  input, an output whose length is no \<open>int\<close>), and fail if the room is too small.
\<close>

definition code_page_contract :: "('w, 'a, 'b) code_page_call \<Rightarrow> ('a list \<Rightarrow> 'b list option) \<Rightarrow> bool" where
  "code_page_contract call convert \<longleftrightarrow>
     (\<forall>w input room. case call w input room of (n, written, w') \<Rightarrow> (case convert input of
         None \<Rightarrow> n = 0
       | Some out \<Rightarrow> input \<noteq> [] \<and> out \<noteq> [] \<and> length out \<le> int_max \<and>
           (if room = 0 then n = int (length out)
            else if length out \<le> room then n = int (length out) \<and> written = out
            else n = 0)))"

lemma code_page_contractD:
  assumes "code_page_contract call convert"
  shows "convert input = None \<Longrightarrow> fst (call w input room) = 0"
    and "convert input = Some out \<Longrightarrow> input \<noteq> [] \<and> out \<noteq> [] \<and> length out \<le> int_max"
    and "convert input = Some out \<Longrightarrow> fst (call w input 0) = int (length out)"
    and "convert input = Some out \<Longrightarrow> fst (call w input (length out)) = int (length out) \<and> fst (snd (call w input (length out))) = out"
proof -
  have c: "case call w input room of (n, written, w') \<Rightarrow> (case convert input of
         None \<Rightarrow> n = 0
       | Some out \<Rightarrow> input \<noteq> [] \<and> out \<noteq> [] \<and> length out \<le> int_max \<and>
           (if room = 0 then n = int (length out)
            else if length out \<le> room then n = int (length out) \<and> written = out
            else n = 0))" for w input room
    using assms unfolding code_page_contract_def by (elim allE)
  show "convert input = None \<Longrightarrow> fst (call w input room) = 0" using c [where w = w and input = input and room = room] by (auto split: prod.splits)
  assume out: "convert input = Some out"
  from c [where w = w and input = input and room = 0] out show *: "input \<noteq> [] \<and> out \<noteq> [] \<and> length out \<le> int_max" by (auto split: prod.splits)
  from c [where w = w and input = input and room = 0] out show "fst (call w input 0) = int (length out)" by (auto split: prod.splits)
  from c [where w = w and input = input and room = "length out"] out * show
    "fst (call w input (length out)) = int (length out) \<and> fst (snd (call w input (length out))) = out"
    by (auto split: prod.splits)
qed

lemma utf8_to_winapi_string_eq:
  assumes "code_page_contract multi_byte_to_wide_char decode" "length s \<le> int_max"
  shows "case decode s of
      None \<Rightarrow> (if s = [] then \<exists>w'. utf8_to_winapi_string multi_byte_to_wide_char errno s w = Ok [] w'
        else \<exists>w'. utf8_to_winapi_string multi_byte_to_wide_char errno s w = Raise (System_Error (get_last_error errno w')) w')
    | Some ws \<Rightarrow> \<exists>w'. utf8_to_winapi_string multi_byte_to_wide_char errno s w = Ok ws w'"
proof (cases "decode s")
  case None
  then have "fst (multi_byte_to_wide_char w s 0) = 0" by (rule code_page_contractD(1) [OF assms(1)])
  with None assms(2) show ?thesis
    by (cases "multi_byte_to_wide_char w s 0") (auto simp: utf8_to_winapi_string_def Let_def)
next
  case (Some ws)
  obtain x w1 where 1: "multi_byte_to_wide_char w s 0 = (int (length ws), x, w1)"
    using code_page_contractD(3) [OF assms(1) Some, where w = w] by (cases "multi_byte_to_wide_char w s 0") simp
  obtain w2 where "multi_byte_to_wide_char w1 s (length ws) = (int (length ws), ws, w2)"
    using code_page_contractD(4) [OF assms(1) Some, where w = w1] by (cases "multi_byte_to_wide_char w1 s (length ws)") simp
  with 1 Some code_page_contractD(2) [OF assms(1) Some] assms(2) show ?thesis
    by (simp add: utf8_to_winapi_string_def Let_def)
qed

lemma to_utf8_string_eq:
  assumes "code_page_contract wide_char_to_multi_byte encode" "length ws \<le> int_max" "ws \<noteq> []"
  shows "case encode ws of
      None \<Rightarrow> \<exists>w'. to_utf8_string wide_char_to_multi_byte errno ws w = Raise (System_Error (get_last_error errno w')) w'
    | Some s \<Rightarrow> \<exists>w'. to_utf8_string wide_char_to_multi_byte errno ws w = Ok s w'"
proof (cases "encode ws")
  case None
  then have "fst (wide_char_to_multi_byte w ws 0) = 0" by (rule code_page_contractD(1) [OF assms(1)])
  with None assms(2,3) show ?thesis
    by (cases "wide_char_to_multi_byte w ws 0") (auto simp: to_utf8_string_def)
next
  case (Some s)
  obtain x w1 where 1: "wide_char_to_multi_byte w ws 0 = (int (length s), x, w1)"
    using code_page_contractD(3) [OF assms(1) Some, where w = w] by (cases "wide_char_to_multi_byte w ws 0") simp
  obtain w2 where "wide_char_to_multi_byte w1 ws (length s) = (int (length s), s, w2)"
    using code_page_contractD(4) [OF assms(1) Some, where w = w1] by (cases "wide_char_to_multi_byte w1 ws (length s)") simp
  with 1 Some code_page_contractD(2) [OF assms(1) Some] assms(2,3) show ?thesis
    by (simp add: to_utf8_string_def Let_def)
qed

section \<open>Properties\<close>

text \<open>
  The conversion to UTF-16 gives what the API's code page gives, the empty string for the
  empty string, and throws exactly if the text is too long for an \<open>int\<close> or the API fails; its assertion
  holds.
\<close>

theorem utf8_to_winapi_string_decodes:
  assumes "code_page_contract multi_byte_to_wide_char decode"
  shows "case utf8_to_winapi_string multi_byte_to_wide_char errno s w of
      Ok ws _ \<Rightarrow> length s \<le> int_max \<and> (if s = [] then ws = [] else decode s = Some ws)
    | Raise Invalid_Argument _ \<Rightarrow> int_max < length s
    | Raise (System_Error e) w' \<Rightarrow> decode s = None \<and> s \<noteq> [] \<and> e = get_last_error errno w'
    | Fault _ \<Rightarrow> False"
proof (cases "int_max < length s")
  case True
  then show ?thesis by (simp add: utf8_to_winapi_string_def)
next
  case False
  then have "length s \<le> int_max" by simp
  from utf8_to_winapi_string_eq [OF assms this, of errno w] code_page_contractD(2) [OF assms, of "[]"] this show ?thesis
    by (cases "decode s"; cases s) auto
qed

text \<open>
  C40: text in UTF-16 that \<open>to_utf8_string\<close> converts comes back unchanged from \<open>to_os_string\<close>, in any later
  state of the world, if the code page encodes it without a loss (which it does not for unpaired
  surrogates).
\<close>

theorem winapi_string_round_trip:
  assumes "code_page_contract wide_char_to_multi_byte encode" "code_page_contract multi_byte_to_wide_char decode"
    and "\<And>s. encode ws = Some s \<Longrightarrow> decode s = Some ws"
    and "to_utf8_string wide_char_to_multi_byte errno ws w = Ok s w'"
  shows "\<exists>w''. utf8_to_winapi_string multi_byte_to_wide_char errno s w1 = Ok ws w''"
proof (cases "ws = []")
  case True
  with assms(4) have "s = []" by (simp add: to_utf8_string_def)
  with utf8_to_winapi_string_eq [OF assms(2), of "[]" errno w1] code_page_contractD(2) [OF assms(2), of "[]"] True show ?thesis
    by (cases "decode []") auto
next
  case False
  with assms(4) have len: "length ws \<le> int_max" by (auto simp: to_utf8_string_def split: if_splits)
  with to_utf8_string_eq [OF assms(1) this False, of errno w] assms(4) have s: "encode ws = Some s"
    by (cases "encode ws") auto
  from utf8_to_winapi_string_eq [OF assms(2), of s errno w1] code_page_contractD(2) [OF assms(1) s] assms(3) [OF s] show ?thesis
    by simp
qed

text \<open>A code page for ASCII.\<close>

definition page_call :: "('a list \<Rightarrow> 'b list option) \<Rightarrow> ('w, 'a, 'b) code_page_call" where
  "page_call convert w input room = (case convert input of
      None \<Rightarrow> (0, [], w)
    | Some out \<Rightarrow>
        (if room = 0 then (int (length out), [], w)
         else if length out \<le> room then (int (length out), out, w)
         else (0, [], w)))"

definition ascii :: "('a \<Rightarrow> nat) \<Rightarrow> (nat \<Rightarrow> 'b) \<Rightarrow> 'a list \<Rightarrow> 'b list option" where
  "ascii num char_for xs =
     (if xs \<noteq> [] \<and> length xs \<le> int_max \<and> list_all (\<lambda>x. num x < 128) xs then Some (map (char_for \<circ> num) xs) else None)"

lemma page_call_ascii: "code_page_contract (page_call (ascii num char_for)) (ascii num char_for)"
  by (auto simp: code_page_contract_def page_call_def ascii_def)

abbreviation widen :: "string \<Rightarrow> 16 word list option" where
  "widen \<equiv> ascii of_char word_of_nat"

abbreviation narrow :: "16 word list \<Rightarrow> string option" where
  "narrow \<equiv> ascii unat char_of"

lemma utf8_to_winapi_string_decodes_witness:
  "\<exists>w. utf8_to_winapi_string (page_call widen) (\<lambda>_. 87) ''Hi'' () = Ok [72, 105] w"
  using utf8_to_winapi_string_decodes [OF page_call_ascii [of of_char word_of_nat], where errno = "\<lambda>_. 87" and s = "''Hi''" and w = "()"]
  by (auto simp: ascii_def int_max_def split: outcome.splits conversion_error.splits)

lemma winapi_string_round_trip_witness:
  "\<exists>w. utf8_to_winapi_string (page_call widen) (\<lambda>_. 87) ''Hi'' () = Ok [72, 105] w"
proof (rule winapi_string_round_trip [OF page_call_ascii [of unat char_of] page_call_ascii [of of_char word_of_nat]])
  show "widen s = Some [72, 105]" if "narrow [72, 105] = Some s" for s
    using that by (auto simp: ascii_def int_max_def)
  show "to_utf8_string (page_call narrow) (\<lambda>_. 87) [72, 105] () = Ok ''Hi'' ()"
    by (simp add: to_utf8_string_def page_call_def ascii_def int_max_def char_of_def Let_def bit_0 bit_1_iff)
qed

end
