(* ===== verification/Windows.thy ===== *)
theory Windows
  imports Strings Ownership "HOL-Library.Word"
begin

text \<open>
  The branches of \<open>read.hpp\<close>, \<open>write.hpp\<close>, \<open>pipe.hpp\<close>, \<open>environment_variables.hpp\<close> for Windows, and
  \<open>win32/\<close>.  The calls of the Windows API are parameters that work on a world \<open>'w\<close>: they return whether
  they succeeded, and \<open>GetLastError\<close> is read from the world.  Handles are numbers,
  \<open>INVALID_HANDLE_VALUE\<close> is -1, and the characters of paths and variables are those of the POSIX model
  whatever their width.  \<open>write\<close>, which has a loop of its own here, is specified directly; each other
  operation is shown to be the one of the POSIX model over a system call made of the API's, so that
  what is proved of that one holds of it.
\<close>

section \<open>read and write\<close>

text \<open>
  \<open>WriteFile\<close> gets the memory from a pointer on and the number of bytes as a \<open>DWORD\<close>, and returns whether it succeeded and
  how many bytes it has written, a \<open>DWORD\<close> again.
\<close>

type_synonym 'w write_file_call = "'w \<Rightarrow> native_file_descriptor \<Rightarrow> char list \<Rightarrow> 32 word \<Rightarrow> bool \<times> 32 word \<times> 'w"

definition dword_max :: nat where
  "dword_max = 2 ^ 32 - 1"

function win_write_loop ::
    "'w write_file_call \<Rightarrow> ('w \<Rightarrow> int) \<Rightarrow> native_file_descriptor \<Rightarrow> char list \<Rightarrow> nat \<Rightarrow> 'w \<Rightarrow> nat error_or \<times> 'w" where
  "win_write_loop WriteFile last_error file data total_written w =
     (let piece = word_of_nat (min dword_max (length data - total_written)) :: 32 word
      in (case WriteFile w file (drop total_written data) piece of
        (ok, written, w') \<Rightarrow>
          (if \<not> ok then (eo_from_error (get_last_error last_error w'), w')
           else if written = 0 then (\<lparr>code = 0, members = Value_Member total_written\<rparr>, w')
           else if total_written + unat written < length data
             then win_write_loop WriteFile last_error file data (total_written + unat written) w'
             else (\<lparr>code = 0, members = Value_Member (total_written + unat written)\<rparr>, w'))))"
  by pat_completeness auto
termination
  by (relation "measure (\<lambda>(_, _, _, data, total_written, _). length data - total_written)")
     (auto intro!: diff_less_mono2 simp: unat_gt_0)

declare win_write_loop.simps [simp del]

definition win_write_file ::
    "'w write_file_call \<Rightarrow> ('w \<Rightarrow> int) \<Rightarrow> native_file_descriptor \<Rightarrow> char list \<Rightarrow> 'w \<Rightarrow> nat error_or \<times> 'w" where
  "win_write_file WriteFile last_error file data w = win_write_loop WriteFile last_error file data 0 w"

text \<open>\<open>ReadFile\<close> gets the size of the destination and returns what it has read.\<close>

definition error_broken_pipe :: int where
  "error_broken_pipe = 109"

definition win_read_file ::
    "('w \<Rightarrow> native_file_descriptor \<Rightarrow> 32 word \<Rightarrow> bool \<times> char list \<times> 'w) \<Rightarrow> ('w \<Rightarrow> int) \<Rightarrow>
     native_file_descriptor \<Rightarrow> nat \<Rightarrow> 'w \<Rightarrow> nat error_or \<times> char list \<times> 'w" where
  "win_read_file ReadFile last_error file destination_size w =
     (let reading = word_of_nat (min destination_size dword_max) :: 32 word
      in (case ReadFile w file reading of (ok, content, w') \<Rightarrow>
        (if \<not> ok
         then (let error = last_error w'
               in if error = error_broken_pipe then (\<lparr>code = 0, members = Value_Member 0\<rparr>, content, w')
                  else (eo_from_error (system_error error), content, w'))
         else if length content = 0 then (\<lparr>code = 0, members = Value_Member 0\<rparr>, content, w')
         else (\<lparr>code = 0, members = Value_Member (length content)\<rparr>, content, w'))))"

section \<open>Pipes, environment variables, libraries\<close>

definition win_make_pipe ::
    "('w \<Rightarrow> bool \<times> (int \<times> int) \<times> 'w) \<Rightarrow> ('w \<Rightarrow> int) \<Rightarrow> 'w \<Rightarrow> native_file_descriptor list \<Rightarrow>
     pipe_ends error_or \<times> 'w \<times> native_file_descriptor list" where
  "win_make_pipe CreatePipe last_error w trace = (case CreatePipe w of
      (ok, (read_end, write_end), w') \<Rightarrow>
        (if \<not> ok then (eo_from_error (get_last_error last_error w'), w', trace)
         else (let (r, tmp_r) = fh_move_assign (pipe_read pipe_default, fh_of read_end);
                   trace1 = fh_dtor tmp_r trace;
                   (wr, tmp_w) = fh_move_assign (pipe_write pipe_default, fh_of write_end);
                   trace2 = fh_dtor tmp_w trace1;
                   (moved, result) = pipe_move_ctor \<lparr>pipe_write = wr, pipe_read = r\<rparr>
               in (\<lparr>code = 0, members = Value_Member moved\<rparr>, w', pipe_dtor result trace2))))"

definition win_set_environment_variable ::
    "('w \<Rightarrow> string \<Rightarrow> string \<Rightarrow> bool \<times> 'w) \<Rightarrow> ('w \<Rightarrow> int) \<Rightarrow> c_string \<Rightarrow> c_string \<Rightarrow> 'w \<Rightarrow> fault + error_code \<times> 'w" where
  "win_set_environment_variable SetEnvironmentVariableW last_error key val w = (case (c_str key, c_str val) of
      (Inl f, _) \<Rightarrow> Inl f
    | (Inr _, Inl f) \<Rightarrow> Inl f
    | (Inr k, Inr v) \<Rightarrow> (case SetEnvironmentVariableW w k v of
          (ok, w') \<Rightarrow> if \<not> ok then Inr (get_last_error last_error w', w') else Inr (no_error, w')))"

definition win_impl_open ::
    "'w dlopen \<Rightarrow> ('w \<Rightarrow> int) \<Rightarrow> c_string \<Rightarrow> ('w, error_code, nat) op" where
  "win_impl_open LoadLibraryW last_error file w = (case c_str file of
      Inl f \<Rightarrow> Fault f
    | Inr path \<Rightarrow> (case LoadLibraryW w path of
          (None, w') \<Rightarrow> Raise (get_last_error last_error w') w'
        | (Some h, w') \<Rightarrow> Ok h w'))"

definition win_impl_close :: "'w dlclose \<Rightarrow> nat \<Rightarrow> 'w \<Rightarrow> 'w" where
  "win_impl_close FreeLibrary h w = snd (FreeLibrary w h)"

definition win_impl_find_symbol ::
    "('w \<Rightarrow> nat \<Rightarrow> string \<Rightarrow> nat option) \<Rightarrow> nat \<Rightarrow> c_string \<Rightarrow> 'w \<Rightarrow> fault + nat option" where
  "win_impl_find_symbol GetProcAddress h symbol w =
     (case c_str symbol of Inl f \<Rightarrow> Inl f | Inr text_of \<Rightarrow> Inr (GetProcAddress w h text_of))"

text \<open>\<open>unique_handle\<close>, a \<open>unique_ptr\<close> whose deleter is \<open>handle_closer\<close>: null is the empty state.\<close>

definition handle_closer :: "int \<Rightarrow> int list \<Rightarrow> int list" where
  "handle_closer h trace = trace @ [h]"

definition unique_handle_dtor :: "int option \<Rightarrow> int list \<Rightarrow> int list" where
  "unique_handle_dtor u trace = (case u of None \<Rightarrow> trace | Some h \<Rightarrow> handle_closer h trace)"

section \<open>Writing\<close>

text \<open>
  What is documented of \<open>WriteFile\<close> on a handle, if there is memory for as many bytes as it is told to write: it fails and
  writes nothing, or it writes at most as many, which may be none.
\<close>

definition write_file_contract :: "'w write_file_call \<Rightarrow> ('w \<Rightarrow> int) \<Rightarrow> native_file_descriptor \<Rightarrow> ('w \<Rightarrow> char list) \<Rightarrow> bool" where
  "write_file_contract WriteFile last_error file content \<longleftrightarrow> (\<forall>w bytes n. unat n \<le> length bytes \<longrightarrow>
     (case WriteFile w file bytes n of
      (False, _, w') \<Rightarrow> content w' = content w \<and> last_error w' \<noteq> 0
    | (True, k, w') \<Rightarrow> k \<le> n \<and> content w' = content w @ take (unat k) bytes))"

lemma piece_unat: "unat (word_of_nat (min dword_max n) :: 32 word) = min dword_max n"
  by (simp add: unat_of_nat dword_max_def)

text \<open>From \<open>i\<close> on: \<open>k\<close> bytes of the data have been written in the end.\<close>

definition win_written ::
    "'w write_file_call \<Rightarrow> native_file_descriptor \<Rightarrow> ('w \<Rightarrow> char list) \<Rightarrow> char list \<Rightarrow> nat \<Rightarrow> 'w \<Rightarrow> nat error_or \<times> 'w \<Rightarrow> bool" where
  "win_written WriteFile file content data i w out \<longleftrightarrow> (\<exists>k. i \<le> k \<and> k \<le> length data \<and> eo_inv (fst out) \<and>
     content (snd out) = content w @ take (k - i) (drop i data) \<and>
     (case eo_abs (fst out) of
        Inl e \<Rightarrow> is_set_error e
      | Inr t \<Rightarrow> t = k \<and> (t < length data \<longrightarrow> (\<exists>w1 n. 0 < n \<and> unat n \<le> length data - t \<and> WriteFile w1 file (drop t data) n = (True, 0, snd out)))))"

lemma win_write_loop_result:
  assumes contract: "write_file_contract WriteFile last_error file content"
  shows "i \<le> length data \<Longrightarrow> win_written WriteFile file content data i w (win_write_loop WriteFile last_error file data i w)"
proof (induction "length data - i" arbitrary: i w rule: less_induct)
  case less
  let ?n = "word_of_nat (min dword_max (length data - i)) :: 32 word"
  have n: "unat ?n = min dword_max (length data - i)" by (rule piece_unat)
  obtain ok k w' where call: "WriteFile w file (drop i data) ?n = (ok, k, w')" by (cases "WriteFile w file (drop i data) ?n")
  from contract have law: "case (ok, k, w') of
      (False, _, w') \<Rightarrow> content w' = content w \<and> last_error w' \<noteq> 0
    | (True, k, w') \<Rightarrow> k \<le> ?n \<and> content w' = content w @ take (unat k) (drop i data)"
    unfolding write_file_contract_def call [symmetric] by (simp add: n)
  note step = win_write_loop.simps [of WriteFile last_error "file" data i w] and written = win_written_def
  consider "\<not> ok" | "ok" "k = 0" | "ok" "k \<noteq> 0" "i + unat k < length data" | "ok" "k \<noteq> 0" "length data \<le> i + unat k" by linarith
  then show ?case
  proof cases
    case 1
    with law have "content w' = content w" "last_error w' \<noteq> 0" by auto
    moreover from this(2) obtain e where "eo_inv (eo_from_error (get_last_error last_error w') :: nat error_or)"
        "eo_abs (eo_from_error (get_last_error last_error w') :: nat error_or) = Inl e" "is_set_error e"
      by (auto simp: eo_from_error_def get_last_error_def system_error_def is_set_error_def eo_inv_def eo_abs_def)
    ultimately show ?thesis using 1 less.prems by (auto simp: written step Let_def call intro!: exI [of _ i])
  next
    case 2
    with law have w': "content w' = content w" by auto
    have "0 < ?n" "unat ?n \<le> length data - i" if "i < length data"
      using that n by (simp_all add: dword_max_def word_less_nat_alt)
    with 2 w' less.prems call show ?thesis
      by (auto simp: written step Let_def eo_inv_def eo_abs_def intro!: exI [of _ i])
  next
    case 3
    with law have k: "content w' = content w @ take (unat k) (drop i data)" by auto
    from 3 have "0 < unat k" by (simp add: unat_gt_0)
    with 3 have "length data - (i + unat k) < length data - i" "i + unat k \<le> length data" by auto
    from less.hyps [OF this, of w'] obtain m where m: "i + unat k \<le> m" "m \<le> length data"
      "win_written WriteFile file content data (i + unat k) w' (win_write_loop WriteFile last_error file data (i + unat k) w')"
      by (auto simp: written)
    have "take (unat k) (drop i data) @ take (m - (i + unat k)) (drop (i + unat k) data) = take (m - i) (drop i data)" if "i + unat k \<le> m" for m
      using that take_add_drop [of "unat k" "drop i data" "m - (i + unat k)"] by (simp add: add.commute)
    with m(3) k have "win_written WriteFile file content data i w (win_write_loop WriteFile last_error file data (i + unat k) w')"
      by (fastforce simp: written)
    with 3 show ?thesis by (simp add: step Let_def call)
  next
    case 4
    with law have k: "k \<le> ?n" "content w' = content w @ take (unat k) (drop i data)" by auto
    from k(1) n have "unat k \<le> length data - i" by (simp add: word_le_nat_alt)
    with 4(3) less.prems have "i + unat k = length data" by simp
    with 4 k(2) less.prems show ?thesis
      by (auto simp: written step Let_def call eo_inv_def eo_abs_def intro!: exI [of _ "length data"])
  qed
qed

section \<open>Properties\<close>

text \<open>
  C39: \<open>write\<close> on Windows, which hands the data to \<open>WriteFile\<close> in pieces whose sizes are \<open>DWORD\<close>s, returns for data of any
  size, also of 4 GiB and more, over any \<open>WriteFile\<close> that behaves as documented: after an error a prefix of the data
  has been written; otherwise as much as it returns has been written, and that is all of it unless
  \<open>WriteFile\<close> succeeded without writing any of the bytes that it was told to write.
\<close>

theorem win_write_delivers:
  assumes "write_file_contract WriteFile last_error file content"
  shows "case win_write_file WriteFile last_error file data w of (r, w') \<Rightarrow> eo_inv r \<and> (case eo_abs r of
      Inl e \<Rightarrow> is_set_error e \<and> (\<exists>k. content w' = content w @ take k data)
    | Inr t \<Rightarrow> t \<le> length data \<and> content w' = content w @ take t data \<and>
        (t < length data \<longrightarrow> (\<exists>w1 n. 0 < n \<and> unat n \<le> length data - t \<and> WriteFile w1 file (drop t data) n = (True, 0, w'))))"
proof -
  obtain r w' where out: "win_write_loop WriteFile last_error file data 0 w = (r, w')" by fastforce
  with win_write_loop_result [OF assms, of 0 data w] show ?thesis
    by (cases "eo_abs r") (auto simp: win_write_file_def win_written_def)
qed

text \<open>A disk with room for six bytes, which takes at most four at a time.\<close>

definition small_disk :: "string write_file_call" where
  "small_disk w file bytes n =
     (if 6 \<le> length w \<and> n \<noteq> 0 then (False, 0, w)
      else (let k = min (word_of_nat (min 4 (6 - length w))) n in (True, k, w @ take (unat k) bytes)))"

lemma small_disk_contract: "write_file_contract small_disk (\<lambda>_. 112) 7 id"
  by (auto simp: write_file_contract_def small_disk_def Let_def)

lemma win_write_delivers_witness:
  "case win_write_file small_disk (\<lambda>_. 112) 7 ''abcdef'' [] of (r, w') \<Rightarrow> w' = ''abcdef''"
proof -
  have "fst (win_write_file small_disk (\<lambda>_. 112) 7 ''abcdef'' []) = \<lparr>code = 0, members = Value_Member 6\<rparr>"
    by (simp add: win_write_file_def win_write_loop.simps small_disk_def Let_def dword_max_def)
  then show ?thesis using win_write_delivers [OF small_disk_contract, where data = "''abcdef''" and w = "[]"]
    by (auto simp: eo_abs_def split: prod.splits)
qed

text \<open>
  The Windows branches of \<open>make_pipe\<close>, \<open>set_environment_variable\<close> and the dynamic library are the POSIX
  operations over the corresponding calls; \<open>read\<close> is too, with the error for a closed pipe
  taken for the end of the file.
\<close>

theorem windows_refines_posix:
  "win_make_pipe CreatePipe last_error w trace =
      make_pipe (\<lambda>w. case CreatePipe w of (ok, ends, w') \<Rightarrow> (if ok then 0 else - 1, ends, w')) last_error w trace \<and>
    win_set_environment_variable SetEnvironmentVariableW last_error key val v =
      set_environment_variable (\<lambda>w k v _. case SetEnvironmentVariableW w k v of (ok, w') \<Rightarrow> (if ok then 0 else - 1, w')) last_error key val v \<and>
    win_impl_close FreeLibrary h w = impl_close FreeLibrary h w \<and>
    win_impl_find_symbol GetProcAddress h symbol w = impl_find_symbol GetProcAddress h symbol w \<and>
    win_read_file ReadFile last_error file n w =
      read_file (\<lambda>w file n. case ReadFile w file (word_of_nat (min n dword_max)) of (ok, content, w') \<Rightarrow>
        (if ok then int (length content) else if last_error w' = error_broken_pipe then 0 else - 1, content, w')) last_error file n w"
  by (auto simp: win_make_pipe_def make_pipe_def win_set_environment_variable_def set_environment_variable_def
      win_impl_close_def impl_close_def win_impl_find_symbol_def impl_find_symbol_def win_read_file_def read_file_def
      get_last_error_def Let_def split: prod.splits sum.splits)

end
