(* ===== verification/Delegators.thy ===== *)
theory Delegators
  imports Ownership
begin

text \<open>
  \<open>delegator/generate.hpp\<close>: from a list of methods an interface \<open>abstract_base\<close> is generated, an \<open>eraser\<close>
  that implements it on an object that it holds, and a \<open>fat_ref\<close>, which is a pointer to an object
  of any class and a table of functions for that class.  A method is a name \<open>'m\<close>; what the classes do
  is a parameter \<open>methods\<close>, by class and name; the objects that are pointed to are in a store.
\<close>

section \<open>Objects and their methods\<close>

type_synonym ('k, 'm, 'a, 'o, 'x, 'r) method_table = "'k \<Rightarrow> 'm \<Rightarrow> 'a \<Rightarrow> ('o, 'x, 'r) op"

type_synonym 'o object_store = "nat \<Rightarrow> 'o option"

text \<open>A call of the member function of the object at an address.\<close>

definition call_at :: "('m \<Rightarrow> 'a \<Rightarrow> ('o, 'x, 'r) op) \<Rightarrow> 'm \<Rightarrow> nat \<Rightarrow> 'a \<Rightarrow> ('o object_store, 'x, 'r) op" where
  "call_at implementation m p args st = (case st p of
      None \<Rightarrow> Fault Dead_Object
    | Some obj \<Rightarrow> (case implementation m args obj of
        Ok r obj' \<Rightarrow> Ok r (st(p := Some obj')) | Raise e obj' \<Rightarrow> Raise e (st(p := Some obj')) | Fault f \<Rightarrow> Fault f))"

section \<open>abstract_base and eraser\<close>

text \<open>An \<open>eraser<Impl>\<close> is an object of a class derived from \<open>abstract_base\<close>: its class selects the methods.\<close>

record ('k, 'o) dg_eraser =
  dg_class :: 'k
  dg_impl :: 'o

text \<open>
  The constructor takes its argument by value and moves it into the member; \<open>T\<close> are the special member functions of the
  class, which may throw.
\<close>

definition dg_eraser_ctor :: "('o, 'x) element_type \<Rightarrow> 'k \<Rightarrow> 'o \<Rightarrow> 'x + ('k, 'o) dg_eraser" where
  "dg_eraser_ctor T k impl = (case move_construct T impl of
      Inl (e, _) \<Rightarrow> Inl e
    | Inr (member, _) \<Rightarrow> Inr \<lparr>dg_class = k, dg_impl = member\<rparr>)"

text \<open>
  \<open>erase(impl)\<close>: the parameter of the constructor is copied from an lvalue and moved from an rvalue.  The eraser
  that is returned is not moved again.
\<close>

definition dg_erase :: "('o, 'x) element_type \<Rightarrow> bool \<Rightarrow> 'k \<Rightarrow> ('o, 'x, ('k, 'o) dg_eraser) op" where
  "dg_erase T is_rvalue k impl =
     (case (if is_rvalue then move_construct T impl
            else case copy_construct T impl of Inl e \<Rightarrow> Inl (e, impl) | Inr new \<Rightarrow> Inr (new, impl)) of
        Inl (e, impl') \<Rightarrow> Raise e impl'
      | Inr (parameter, impl') \<Rightarrow> (case dg_eraser_ctor T k parameter of Inl e \<Rightarrow> Raise e impl' | Inr eraser \<Rightarrow> Ok eraser impl'))"

definition dg_virtual_call ::
    "('k, 'm, 'a, 'o, 'x, 'r) method_table \<Rightarrow> 'm \<Rightarrow> 'a \<Rightarrow> (('k, 'o) dg_eraser, 'x, 'r) op" where
  "dg_virtual_call methods m args e = (case methods (dg_class e) m args (dg_impl e) of
      Ok r obj \<Rightarrow> Ok r (e\<lparr>dg_impl := obj\<rparr>) | Raise x obj \<Rightarrow> Raise x (e\<lparr>dg_impl := obj\<rparr>) | Fault f \<Rightarrow> Fault f)"

section \<open>fat_ref\<close>

text \<open>
  The struct \<open>vtable\<close> has a pointer to a function for each method of the interface \<open>ms\<close>, in this order.
\<close>

type_synonym ('a, 'o, 'x, 'r) vtable = "(nat \<Rightarrow> 'a \<Rightarrow> ('o object_store, 'x, 'r) op) list"

record ('a, 'o, 'x, 'r) fat_ref =
  fat_impl :: nat
  fat_virtuals :: "('a, 'o, 'x, 'r) vtable"

text \<open>
  The static table of a class is initialised with functions that cast the pointer back to the class and call its
  method, one after the other.
\<close>

definition vtable_instance :: "('k, 'm, 'a, 'o, 'x, 'r) method_table \<Rightarrow> 'm list \<Rightarrow> 'k \<Rightarrow> ('a, 'o, 'x, 'r) vtable" where
  "vtable_instance methods ms k = map (\<lambda>m impl args. call_at (methods k) m impl args) ms"

definition fat_ref_ctor :: "('k, 'm, 'a, 'o, 'x, 'r) method_table \<Rightarrow> 'm list \<Rightarrow> 'k \<Rightarrow> nat \<Rightarrow> ('a, 'o, 'x, 'r) fat_ref" where
  "fat_ref_ctor methods ms k p = \<lparr>fat_impl = p, fat_virtuals = vtable_instance methods ms k\<rparr>"

text \<open>\<open>m_virtuals->name(m_impl, ...)\<close>; a name that is not in the interface does not compile.\<close>

definition fat_call :: "'m list \<Rightarrow> ('a, 'o, 'x, 'r) fat_ref \<Rightarrow> 'm \<Rightarrow> 'a \<Rightarrow> ('o object_store, 'x, 'r) op" where
  "fat_call ms f m args st = (case map_of (zip ms (fat_virtuals f)) m of
      None \<Rightarrow> Fault Bad_Index
    | Some function_pointer \<Rightarrow> function_pointer (fat_impl f) args st)"

section \<open>Programs\<close>

text \<open>
  A program calls methods through erasers and references, which it also makes and copies; an object is erased by copying
  or by moving it (\<open>True\<close>).  It catches what is thrown, and logs it.  Objects are named by their addresses, \<open>class_of p\<close> is the class of the object at \<open>p\<close>.
\<close>

record ('k, 'a, 'o, 'x, 'r) dg_program =
  dg_refs :: "('a, 'o, 'x, 'r) fat_ref list"
  dg_erasers :: "('k, 'o) dg_eraser list"
  dg_store :: "'o object_store"
  dg_log :: "('x + 'r) list"

datatype ('m, 'a) dg_step = Make_Ref nat | Copy_Ref nat | Erase bool nat | Call_Object nat 'm 'a | Call_Through_Ref nat 'm 'a | Call_Eraser nat 'm 'a

definition dg_finish :: "('s \<Rightarrow> 's') \<Rightarrow> ('x + 'r \<Rightarrow> 's' \<Rightarrow> 's') \<Rightarrow> ('s, 'x, 'r) outcome \<Rightarrow> fault + 's'" where
  "dg_finish put log_result out = (case out of
      Ok r t \<Rightarrow> Inr (log_result (Inr r) (put t)) | Raise e t \<Rightarrow> Inr (log_result (Inl e) (put t)) | Fault f \<Rightarrow> Inl f)"

definition dg_log_result :: "'x + 'r \<Rightarrow> ('k, 'a, 'o, 'x, 'r) dg_program \<Rightarrow> ('k, 'a, 'o, 'x, 'r) dg_program" where
  "dg_log_result r s = s\<lparr>dg_log := dg_log s @ [r]\<rparr>"

text \<open>\<open>T\<close> are the special member functions by class, \<open>ms\<close> is the interface.\<close>

fun dg_exec ::
    "('k, 'm, 'a, 'o, 'x, 'r) method_table \<Rightarrow> ('k \<Rightarrow> ('o, 'x) element_type) \<Rightarrow> 'm list \<Rightarrow> (nat \<Rightarrow> 'k) \<Rightarrow> ('m, 'a) dg_step \<Rightarrow>
     ('k, 'a, 'o, 'x, 'r) dg_program \<Rightarrow> fault + ('k, 'a, 'o, 'x, 'r) dg_program" where
  "dg_exec methods T ms class_of (Make_Ref p) s = Inr (s\<lparr>dg_refs := dg_refs s @ [fat_ref_ctor methods ms (class_of p) p]\<rparr>)"
| "dg_exec methods T ms class_of (Copy_Ref i) s = Inr (if i < length (dg_refs s) then s\<lparr>dg_refs := dg_refs s @ [dg_refs s ! i]\<rparr> else s)"
| "dg_exec methods T ms class_of (Erase is_rvalue p) s = (case dg_store s p of
      None \<Rightarrow> Inl Dead_Object
    | Some obj \<Rightarrow> (case dg_erase (T (class_of p)) is_rvalue (class_of p) obj of
          Ok eraser obj' \<Rightarrow> Inr (s\<lparr>dg_erasers := dg_erasers s @ [eraser], dg_store := (dg_store s)(p \<mapsto> obj')\<rparr>)
        | Raise e obj' \<Rightarrow> Inr (dg_log_result (Inl e) (s\<lparr>dg_store := (dg_store s)(p \<mapsto> obj')\<rparr>))
        | Fault f \<Rightarrow> Inl f))"
| "dg_exec methods T ms class_of (Call_Object p m args) s =
     dg_finish (\<lambda>st. s\<lparr>dg_store := st\<rparr>) dg_log_result (call_at (methods (class_of p)) m p args (dg_store s))"
| "dg_exec methods T ms class_of (Call_Through_Ref i m args) s =
     (if i < length (dg_refs s)
      then dg_finish (\<lambda>st. s\<lparr>dg_store := st\<rparr>) dg_log_result (fat_call ms (dg_refs s ! i) m args (dg_store s))
      else Inr s)"
| "dg_exec methods T ms class_of (Call_Eraser i m args) s =
     (if i < length (dg_erasers s)
      then dg_finish (\<lambda>e. s\<lparr>dg_erasers := (dg_erasers s)[i := e]\<rparr>) dg_log_result (dg_virtual_call methods m args (dg_erasers s ! i))
      else Inr s)"

fun dg_run ::
    "('k, 'm, 'a, 'o, 'x, 'r) method_table \<Rightarrow> ('k \<Rightarrow> ('o, 'x) element_type) \<Rightarrow> 'm list \<Rightarrow> (nat \<Rightarrow> 'k) \<Rightarrow> ('m, 'a) dg_step list \<Rightarrow>
     ('k, 'a, 'o, 'x, 'r) dg_program \<Rightarrow> fault + ('k, 'a, 'o, 'x, 'r) dg_program" where
  "dg_run methods T ms class_of [] s = Inr s"
| "dg_run methods T ms class_of (c # cs) s = (case dg_exec methods T ms class_of c s of
      Inl f \<Rightarrow> Inl f | Inr s' \<Rightarrow> dg_run methods T ms class_of cs s')"

text \<open>A program compiles if it calls the methods of the interface only.\<close>

fun dg_step_ok :: "'m list \<Rightarrow> ('m, 'a) dg_step \<Rightarrow> bool" where
  "dg_step_ok ms (Call_Through_Ref i m args) \<longleftrightarrow> m \<in> set ms"
| "dg_step_ok ms (Call_Eraser i m args) \<longleftrightarrow> m \<in> set ms"
| "dg_step_ok ms _ \<longleftrightarrow> True"

section \<open>The abstract programs\<close>

text \<open>
  Specification: a reference is the name of an object, an eraser is a new object.  The abstract program
  has no tables, only objects (those of the store, then the erased copies) with their classes.
\<close>

record ('k, 'o, 'x, 'r) dg_spec =
  spec_refs :: "nat list"
  spec_copies :: "('k \<times> 'o) list"
  spec_store :: "'o object_store"
  spec_log :: "('x + 'r) list"

definition spec_log_result :: "'x + 'r \<Rightarrow> ('k, 'o, 'x, 'r) dg_spec \<Rightarrow> ('k, 'o, 'x, 'r) dg_spec" where
  "spec_log_result r s = s\<lparr>spec_log := spec_log s @ [r]\<rparr>"

definition spec_call ::
    "('k, 'm, 'a, 'o, 'x, 'r) method_table \<Rightarrow> (nat \<Rightarrow> 'k) \<Rightarrow> nat \<Rightarrow> 'm \<Rightarrow> 'a \<Rightarrow> ('k, 'o, 'x, 'r) dg_spec \<Rightarrow> fault + ('k, 'o, 'x, 'r) dg_spec" where
  "spec_call methods class_of p m args s =
     dg_finish (\<lambda>st. s\<lparr>spec_store := st\<rparr>) spec_log_result (call_at (methods (class_of p)) m p args (spec_store s))"

text \<open>
  Erasing an object: if nothing throws, there is a new object with its value.  A copy leaves the object alone, also when
  copying or the move that follows throws; a move leaves of it what it leaves.
\<close>

definition spec_erase :: "('o, 'x) element_type \<Rightarrow> bool \<Rightarrow> 'k \<Rightarrow> nat \<Rightarrow> 'o \<Rightarrow> ('k, 'o, 'x, 'r) dg_spec \<Rightarrow> ('k, 'o, 'x, 'r) dg_spec" where
  "spec_erase T is_rvalue k p obj s =
     (case (if is_rvalue then None else case copy_construct T obj of Inl e \<Rightarrow> Some e | Inr _ \<Rightarrow> None, move_construct T obj) of
        (Some e, _) \<Rightarrow> spec_log_result (Inl e) s
      | (None, Inl (e, moved)) \<Rightarrow>
          spec_log_result (Inl e) (if is_rvalue then s\<lparr>spec_store := (spec_store s)(p \<mapsto> moved)\<rparr> else s)
      | (None, Inr (_, moved)) \<Rightarrow>
          (if is_rvalue then s\<lparr>spec_store := (spec_store s)(p \<mapsto> moved)\<rparr> else s)\<lparr>spec_copies := spec_copies s @ [(k, obj)]\<rparr>)"

fun spec_exec ::
    "('k, 'm, 'a, 'o, 'x, 'r) method_table \<Rightarrow> ('k \<Rightarrow> ('o, 'x) element_type) \<Rightarrow> (nat \<Rightarrow> 'k) \<Rightarrow> ('m, 'a) dg_step \<Rightarrow>
     ('k, 'o, 'x, 'r) dg_spec \<Rightarrow> fault + ('k, 'o, 'x, 'r) dg_spec" where
  "spec_exec methods T class_of (Make_Ref p) s = Inr (s\<lparr>spec_refs := spec_refs s @ [p]\<rparr>)"
| "spec_exec methods T class_of (Copy_Ref i) s = Inr (if i < length (spec_refs s) then s\<lparr>spec_refs := spec_refs s @ [spec_refs s ! i]\<rparr> else s)"
| "spec_exec methods T class_of (Erase is_rvalue p) s = (case spec_store s p of
      None \<Rightarrow> Inl Dead_Object | Some obj \<Rightarrow> Inr (spec_erase (T (class_of p)) is_rvalue (class_of p) p obj s))"
| "spec_exec methods T class_of (Call_Object p m args) s = spec_call methods class_of p m args s"
| "spec_exec methods T class_of (Call_Through_Ref i m args) s =
     (if i < length (spec_refs s) then spec_call methods class_of (spec_refs s ! i) m args s else Inr s)"
| "spec_exec methods T class_of (Call_Eraser i m args) s =
     (if i < length (spec_copies s)
      then dg_finish (\<lambda>obj. s\<lparr>spec_copies := (spec_copies s)[i := (fst (spec_copies s ! i), obj)]\<rparr>) spec_log_result
        (methods (fst (spec_copies s ! i)) m args (snd (spec_copies s ! i)))
      else Inr s)"

fun spec_run ::
    "('k, 'm, 'a, 'o, 'x, 'r) method_table \<Rightarrow> ('k \<Rightarrow> ('o, 'x) element_type) \<Rightarrow> (nat \<Rightarrow> 'k) \<Rightarrow> ('m, 'a) dg_step list \<Rightarrow>
     ('k, 'o, 'x, 'r) dg_spec \<Rightarrow> fault + ('k, 'o, 'x, 'r) dg_spec" where
  "spec_run methods T class_of [] s = Inr s"
| "spec_run methods T class_of (c # cs) s = (case spec_exec methods T class_of c s of
      Inl f \<Rightarrow> Inl f | Inr s' \<Rightarrow> spec_run methods T class_of cs s')"

definition dg_abs :: "('k, 'a, 'o, 'x, 'r) dg_program \<Rightarrow> ('k, 'o, 'x, 'r) dg_spec" where
  "dg_abs s = \<lparr>spec_refs = map fat_impl (dg_refs s), spec_copies = map (\<lambda>e. (dg_class e, dg_impl e)) (dg_erasers s),
     spec_store = dg_store s, spec_log = dg_log s\<rparr>"

text \<open>Every reference has the table of the class of its object.\<close>

definition dg_inv :: "('k, 'm, 'a, 'o, 'x, 'r) method_table \<Rightarrow> 'm list \<Rightarrow> (nat \<Rightarrow> 'k) \<Rightarrow> ('k, 'a, 'o, 'x, 'r) dg_program \<Rightarrow> bool" where
  "dg_inv methods ms class_of s \<longleftrightarrow> (\<forall>f \<in> set (dg_refs s). f = fat_ref_ctor methods ms (class_of (fat_impl f)) (fat_impl f))"

lemma fat_call_eq: "m \<in> set ms \<Longrightarrow> fat_call ms (fat_ref_ctor methods ms k p) m args st = call_at (methods k) m p args st"
  by (simp add: fat_call_def fat_ref_ctor_def vtable_instance_def map_of_zip_map)

text \<open>With regular copies and moves an eraser has the value of the object it was made from.\<close>

lemma dg_erase_eq:
  assumes "regular T"
  shows "dg_erase T is_rvalue k obj = (case (if is_rvalue then None else case copy_construct T obj of Inl e \<Rightarrow> Some e | Inr _ \<Rightarrow> None, move_construct T obj) of
      (Some e, _) \<Rightarrow> Raise e obj
    | (None, Inl (e, moved)) \<Rightarrow> Raise e (if is_rvalue then moved else obj)
    | (None, Inr (_, moved)) \<Rightarrow> Ok \<lparr>dg_class = k, dg_impl = obj\<rparr> (if is_rvalue then moved else obj))"
proof -
  have copied: "copy_construct T obj = Inr y \<Longrightarrow> y = obj" for y using assms by (rule regular_copy_construct)
  show ?thesis
  proof (cases "move_construct T obj")
    case (Inl p)
    then show ?thesis by (cases p) (auto simp: dg_erase_def dg_eraser_ctor_def dest: copied split: sum.splits)
  next
    case (Inr p)
    then obtain moved where "move_construct T obj = Inr (obj, moved)"
      using regular_move_construct [OF assms] by (cases p) auto
    then show ?thesis by (auto simp: dg_erase_def dg_eraser_ctor_def dest: copied split: sum.splits)
  qed
qed

lemma dg_exec_refines:
  assumes "dg_inv methods ms class_of s" "dg_step_ok ms c" "\<forall>k. regular (T k)"
  shows "case dg_exec methods T ms class_of c s of
      Inl f \<Rightarrow> spec_exec methods T class_of c (dg_abs s) = Inl f
    | Inr s' \<Rightarrow> spec_exec methods T class_of c (dg_abs s) = Inr (dg_abs s') \<and> dg_inv methods ms class_of s'"
proof (cases c)
  case (Call_Through_Ref i m args)
  have "fat_call ms (dg_refs s ! i) m args st = call_at (methods (class_of (fat_impl (dg_refs s ! i)))) m (fat_impl (dg_refs s ! i)) args st"
    if "i < length (dg_refs s)" for st
  proof -
    from assms(1) that have "dg_refs s ! i = fat_ref_ctor methods ms (class_of (fat_impl (dg_refs s ! i))) (fat_impl (dg_refs s ! i))"
      by (auto simp: dg_inv_def)
    with Call_Through_Ref assms(2) fat_call_eq [of m ms methods "class_of (fat_impl (dg_refs s ! i))" "fat_impl (dg_refs s ! i)" args st]
    show ?thesis by simp
  qed
  with Call_Through_Ref assms(1) show ?thesis
    by (auto simp: dg_abs_def dg_inv_def spec_call_def dg_finish_def dg_log_result_def spec_log_result_def split: outcome.splits)
next
  case (Call_Eraser i m args)
  with assms show ?thesis
    by (auto simp: dg_abs_def dg_inv_def dg_virtual_call_def dg_finish_def dg_log_result_def spec_log_result_def map_update split: outcome.splits)
next
  case (Erase is_rvalue p)
  show ?thesis
  proof (cases "dg_store s p")
    case (Some obj)
    then have "(dg_store s)(p \<mapsto> obj) = dg_store s" by auto
    with Erase Some assms dg_erase_eq [of "T (class_of p)" is_rvalue "class_of p" obj] show ?thesis
      by (auto simp: dg_abs_def dg_inv_def spec_erase_def dg_log_result_def spec_log_result_def split: sum.splits option.splits prod.splits)
  qed (use Erase in \<open>simp add: dg_abs_def\<close>)
qed (use assms in \<open>auto simp: dg_abs_def dg_inv_def spec_call_def dg_finish_def dg_log_result_def spec_log_result_def fat_ref_ctor_def
    split: outcome.splits option.splits\<close>)

lemma dg_run_refines:
  assumes "\<forall>k. regular (T k)"
  shows "dg_inv methods ms class_of s \<Longrightarrow> \<forall>c \<in> set cs. dg_step_ok ms c \<Longrightarrow>
    map_sum id dg_abs (dg_run methods T ms class_of cs s) = spec_run methods T class_of cs (dg_abs s)"
proof (induction cs arbitrary: s)
  case (Cons c cs)
  from dg_exec_refines [OF Cons.prems(1) _ assms, of c] Cons.IH Cons.prems(2) show ?case
    by (cases "dg_exec methods T ms class_of c s") auto
qed simp

section \<open>Properties\<close>

text \<open>
  C38: delegators are transparent: for classes whose copies and moves transport the value and may throw, any
  program that makes and copies references, erases objects by copying or moving them and calls the methods of
  the interface on objects, through references and on erasers does what the program without tables does, in
  which a reference is another name of its object and an eraser is an object of its own with the value
  of the one it was made from, with the same results, exceptions and faults.  Erasing a copy leaves the object
  alone whatever throws.
\<close>

theorem delegators_refine_objects:
  assumes "dg_refs s = []" and "\<forall>k. regular (T k)" and "\<forall>c \<in> set cs. dg_step_ok ms c"
  shows "map_sum id dg_abs (dg_run methods T ms class_of cs s) = spec_run methods T class_of cs (dg_abs s)"
  using assms(2) by (rule dg_run_refines) (simp_all add: dg_inv_def assms(1,3))

text \<open>Two classes of counters with two methods, of which the second counts down; a counter at 9 cannot be copied.\<close>

definition counters :: "(bool, bool, int, int, string, int) method_table" where
  "counters k m n x = (let y = (if k = m then x + n else x - n) in if 0 \<le> y then Ok y y else Raise ''negative'' x)"

definition counter_type :: "bool \<Rightarrow> (int, string) element_type" where
  "counter_type k = \<lparr>copy_construct = (\<lambda>x. if x = 9 then Inl ''copy'' else Inr x), move_construct = (\<lambda>x. Inr (x, 0)),
     copy_assign = (\<lambda>d x. Inr x), move_assign = (\<lambda>d x. Inr (x, 0))\<rparr>"

lemma counter_type_simps:
  "copy_construct (counter_type k) x = (if x = 9 then Inl ''copy'' else Inr x)" "move_construct (counter_type k) x = Inr (x, 0)"
  by (simp_all add: counter_type_def)

lemma delegators_refine_objects_witness:
  "\<exists>s'. map_sum id dg_abs (dg_run counters counter_type [True, False] (\<lambda>p. p = 0) [Make_Ref 1, Copy_Ref 0, Call_Through_Ref 1 False 4, Erase False 1,
        Erase True 1, Call_Eraser 0 True 1, Call_Object 1 True 5]
      \<lparr>dg_refs = [], dg_erasers = [], dg_store = [1 \<mapsto> 5], dg_log = []\<rparr>) = Inr s' \<and>
    spec_store s' 1 = Some 0 \<and> spec_copies s' = [(False, 8)] \<and> spec_log s' = [Inr 9, Inl ''copy'', Inr 8, Inl ''negative'']"
proof -
  have "\<forall>k. regular (counter_type k)" by (simp add: counter_type_def regular_def)
  from delegators_refine_objects [where s = "\<lparr>dg_refs = [], dg_erasers = [], dg_store = [1 \<mapsto> 5], dg_log = []\<rparr>" and methods = counters
      and class_of = "\<lambda>p. p = 0" and ms = "[True, False]" and cs = "[Make_Ref 1, Copy_Ref 0, Call_Through_Ref 1 False 4, Erase False 1,
        Erase True 1, Call_Eraser 0 True 1, Call_Object 1 True 5]", OF _ this]
  show ?thesis
    by (simp del: dg_run.simps add: dg_abs_def counters_def counter_type_simps call_at_def spec_call_def spec_erase_def dg_finish_def spec_log_result_def Let_def)
qed

end
