(* ===== verification/Compact_Optional.thy ===== *)
theory Compact_Optional
  imports Silicium_Prelude "HOL-Library.Word"
begin

text \<open>
  \<open>test/compact_optional.cpp\<close>: \<open>compact_optional\<close>, an optional without a flag, whose policy says which of the
  values of the stored type stand for none.  The constructors and accessors assert what they rely on;
  reading operations return \<open>fault + 'a\<close>.
\<close>

section \<open>Operations\<close>

record 'v co_policy =
  is_none :: "'v \<Rightarrow> bool"
  get_none :: 'v

record 'v compact_optional =
  co_storage :: 'v

definition co_not :: "'v co_policy \<Rightarrow> 'v compact_optional \<Rightarrow> bool" where
  "co_not P x \<longleftrightarrow> is_none P (co_storage x)"

definition co_default :: "'v co_policy \<Rightarrow> fault + 'v compact_optional" where
  "co_default P = (let x = \<lparr>co_storage = get_none P\<rparr> in if co_not P x then Inr x else Inl Assertion_Failed)"

definition co_of_none :: "'v co_policy \<Rightarrow> fault + 'v compact_optional" where
  "co_of_none P = (let x = \<lparr>co_storage = get_none P\<rparr> in if co_not P x then Inr x else Inl Assertion_Failed)"

text \<open>\<open>compact_optional(some, args...)\<close>, with the value that the arguments construct.\<close>

definition co_of_some :: "'v co_policy \<Rightarrow> 'v \<Rightarrow> fault + 'v compact_optional" where
  "co_of_some P v = (let x = \<lparr>co_storage = v\<rparr> in if \<not> co_not P x then Inr x else Inl Assertion_Failed)"

definition co_of_value :: "'v co_policy \<Rightarrow> 'v \<Rightarrow> fault + 'v compact_optional" where
  "co_of_value P v = (let x = \<lparr>co_storage = v\<rparr> in if \<not> co_not P x then Inr x else Inl Assertion_Failed)"

text \<open>\<open>operator*\<close> gives access to the storage, to read it and to assign to it.\<close>

definition co_deref :: "'v co_policy \<Rightarrow> 'v compact_optional \<Rightarrow> fault + 'v" where
  "co_deref P x = (if \<not> co_not P x then Inr (co_storage x) else Inl Assertion_Failed)"

definition co_deref_assign :: "'v co_policy \<Rightarrow> 'v \<Rightarrow> 'v compact_optional \<Rightarrow> fault + 'v compact_optional" where
  "co_deref_assign P v x = (if \<not> co_not P x then Inr (x\<lparr>co_storage := v\<rparr>) else Inl Assertion_Failed)"

definition co_equal :: "'v co_policy \<Rightarrow> 'v compact_optional \<Rightarrow> 'v compact_optional \<Rightarrow> fault + bool" where
  "co_equal P l r =
     (if \<not> co_not P l
      then (if \<not> co_not P r then read2 (=) (co_deref P l) (co_deref P r) else Inr False)
      else (if \<not> co_not P r then Inr False else Inr True))"

definition co_equal_value :: "'v co_policy \<Rightarrow> 'v compact_optional \<Rightarrow> 'v \<Rightarrow> fault + bool" where
  "co_equal_value P l v = (if \<not> co_not P l then read1 (\<lambda>x. x = v) (co_deref P l) else Inr False)"

definition co_value_equal :: "'v co_policy \<Rightarrow> 'v \<Rightarrow> 'v compact_optional \<Rightarrow> fault + bool" where
  "co_value_equal P v r = (if \<not> co_not P r then read1 (\<lambda>x. v = x) (co_deref P r) else Inr False)"

definition co_equal_none :: "'v co_policy \<Rightarrow> 'v compact_optional \<Rightarrow> bool" where
  "co_equal_none P x = co_not P x"

definition co_not_equal :: "'v co_policy \<Rightarrow> 'v compact_optional \<Rightarrow> 'v compact_optional \<Rightarrow> fault + bool" where
  "co_not_equal P l r = read1 Not (co_equal P l r)"

definition co_not_equal_none :: "'v co_policy \<Rightarrow> 'v compact_optional \<Rightarrow> bool" where
  "co_not_equal_none P x = (\<not> co_not P x)"

definition co_print :: "'v co_policy \<Rightarrow> ('v \<Rightarrow> string) \<Rightarrow> string \<Rightarrow> 'v compact_optional \<Rightarrow> fault + string" where
  "co_print P show_value none_text x = (if \<not> co_not P x then read1 show_value (co_deref P x) else Inr none_text)"

section \<open>Policies\<close>

definition positive_number :: "'w::len word co_policy" where
  "positive_number = \<lparr>is_none = (\<lambda>v. v <s 0), get_none = - 1\<rparr>"

definition non_empty_string :: "string co_policy" where
  "non_empty_string = \<lparr>is_none = (\<lambda>v. v = []), get_none = []\<rparr>"

text \<open>The address of the static dummy stands for none, null is a value.\<close>

definition pointer_policy :: "nat \<Rightarrow> nat co_policy" where
  "pointer_policy none_dummy = \<lparr>is_none = (\<lambda>v. v = none_dummy), get_none = none_dummy\<rparr>"

definition policy_valid :: "'v co_policy \<Rightarrow> bool" where
  "policy_valid P \<longleftrightarrow> is_none P (get_none P)"

lemma policies_valid [simp]:
  "policy_valid (positive_number :: 'w::len word co_policy)" "policy_valid non_empty_string" "policy_valid (pointer_policy d)"
  by (simp_all add: policy_valid_def positive_number_def non_empty_string_def pointer_policy_def word_sless_alt)

section \<open>Refinement of option\<close>

definition co_abs :: "'v co_policy \<Rightarrow> 'v compact_optional \<Rightarrow> 'v option" where
  "co_abs P x = (if is_none P (co_storage x) then None else Some (co_storage x))"

text \<open>An assignment to the stored value through \<open>operator*\<close>, or of a new optional.\<close>

datatype 'v co_step = Assign_None | Assign_Value 'v | Assign_Through 'v

fun co_exec :: "'v co_policy \<Rightarrow> 'v co_step \<Rightarrow> 'v compact_optional \<Rightarrow> fault + 'v compact_optional" where
  "co_exec P Assign_None x = co_of_none P"
| "co_exec P (Assign_Value v) x = co_of_value P v"
| "co_exec P (Assign_Through v) x = co_deref_assign P v x"

fun co_run :: "'v co_policy \<Rightarrow> 'v co_step list \<Rightarrow> 'v compact_optional \<Rightarrow> fault + 'v compact_optional" where
  "co_run P [] x = Inr x"
| "co_run P (c # cs) x = (case co_exec P c x of Inl f \<Rightarrow> Inl f | Inr x' \<Rightarrow> co_run P cs x')"

text \<open>The same on options; \<open>ok v\<close> says that \<open>v\<close> does not stand for none.\<close>

fun option_exec :: "('v \<Rightarrow> bool) \<Rightarrow> 'v co_step \<Rightarrow> 'v option \<Rightarrow> fault + 'v option" where
  "option_exec ok Assign_None x = Inr None"
| "option_exec ok (Assign_Value v) x = (if ok v then Inr (Some v) else Inl Assertion_Failed)"
| "option_exec ok (Assign_Through v) x = (if x = None then Inl Assertion_Failed else if ok v then Inr (Some v) else Inr None)"

fun option_run :: "('v \<Rightarrow> bool) \<Rightarrow> 'v co_step list \<Rightarrow> 'v option \<Rightarrow> fault + 'v option" where
  "option_run ok [] x = Inr x"
| "option_run ok (c # cs) x = (case option_exec ok c x of Inl f \<Rightarrow> Inl f | Inr x' \<Rightarrow> option_run ok cs x')"

lemma co_exec_refines:
  "policy_valid P \<Longrightarrow> map_sum id (co_abs P) (co_exec P c x) = option_exec (\<lambda>v. \<not> is_none P v) c (co_abs P x)"
  by (cases c) (auto simp: co_of_none_def co_of_value_def co_deref_assign_def co_not_def co_abs_def policy_valid_def Let_def)

lemma co_run_refines:
  "policy_valid P \<Longrightarrow> map_sum id (co_abs P) (co_run P cs x) = option_run (\<lambda>v. \<not> is_none P v) cs (co_abs P x)"
proof (induction cs arbitrary: x)
  case (Cons c cs)
  note step = co_exec_refines [OF Cons.prems, of c x, symmetric]
  show ?case
    by (cases "co_exec P c x") (simp_all add: step Cons.IH [OF Cons.prems, unfolded id_def])
qed simp

lemma co_equal_abs: "co_equal P l r = Inr (co_abs P l = co_abs P r)"
  by (simp add: co_equal_def co_deref_def co_abs_def co_not_def)

text \<open>
  C9: \<open>compact_optional\<close> is an optional for every policy whose none is none: any sequence of assignments
  gives what it gives on an option.  The assertions fail exactly where a value that stands for none is
  put in by a construction or an assignment from a value, or an empty object is dereferenced; a value
  that stands for none and is assigned through \<open>operator*\<close> empties the object without an assertion.
  Equality is that of options although none has many representations, and the accessors agree.
\<close>

theorem compact_optional_refines_option:
  assumes "policy_valid P"
  shows "map_sum id (co_abs P) (co_default P) = Inr None \<and>
    map_sum id (co_abs P) (co_run P cs x) = option_run (\<lambda>v. \<not> is_none P v) cs (co_abs P x) \<and>
    co_equal P x y = Inr (co_abs P x = co_abs P y) \<and> co_not_equal P x y = Inr (co_abs P x \<noteq> co_abs P y) \<and>
    co_equal_value P x v = Inr (co_abs P x = Some v) \<and> co_value_equal P v x = Inr (co_abs P x = Some v) \<and>
    co_equal_none P x = (co_abs P x = None) \<and> co_not_equal_none P x = (co_abs P x \<noteq> None) \<and>
    co_deref P x = (case co_abs P x of None \<Rightarrow> Inl Assertion_Failed | Some u \<Rightarrow> Inr u)"
  using assms
  by (auto simp: co_run_refines co_equal_abs co_not_equal_def co_equal_value_def co_value_equal_def co_equal_none_def
      co_not_equal_none_def co_deref_def co_abs_def co_not_def co_default_def policy_valid_def)

lemma compact_optional_refines_option_witness:
  "map_sum id (co_abs positive_number) (co_run positive_number [Assign_Value 5, Assign_Through (- 7), Assign_Value (6 :: 32 word)] \<lparr>co_storage = - 1\<rparr>) = Inr (Some 6)"
  using compact_optional_refines_option [OF policies_valid(1), where cs = "[Assign_Value 5, Assign_Through (- 7), Assign_Value (6 :: 32 word)]" and x = "\<lparr>co_storage = - 1\<rparr>"]
  by (simp add: positive_number_def word_sless_alt)

end
