(* ===== verification/Destructive_Move.thy ===== *)
theory Destructive_Move
  imports Silicium_Prelude "HOL-Library.Multiset"
begin

text \<open>
  \<open>test/move3.cpp\<close>: destructive moves.  A \<open>val<T>\<close> holds an object of a type that cannot be copied and is moved
  by copying its bytes and forgetting the original; \<open>unique_ref\<close>, \<open>dynamic_array\<close> and \<open>tuple\<close> are made for it.
  The heap is explicit, so that a second \<open>delete\<close>, a \<open>free\<close> of what \<open>new\<close> made and a leak are visible.  What
  a \<open>val\<close> relies on of its type is the locale \<open>destructible\<close>, which the three types interpret.
\<close>

section \<open>The heap\<close>

text \<open>A cell holds an object made by \<open>new\<close>, or a block of pointers made by \<open>calloc\<close>.\<close>

datatype 'a dm_cell = Object 'a | Block "nat list"

record 'a dm_heap =
  dm_cells :: "nat \<Rightarrow> 'a dm_cell option"
  dm_next :: nat

definition dm_empty_heap :: "'a dm_heap" where
  "dm_empty_heap = \<lparr>dm_cells = (\<lambda>_. None), dm_next = 0\<rparr>"

definition new_cell :: "'a dm_cell \<Rightarrow> 'a dm_heap \<Rightarrow> nat \<times> 'a dm_heap" where
  "new_cell c h = (dm_next h, \<lparr>dm_cells = (dm_cells h)(dm_next h := Some c), dm_next = Suc (dm_next h)\<rparr>)"

definition clear_cell :: "nat \<Rightarrow> 'a dm_heap \<Rightarrow> 'a dm_heap" where
  "clear_cell p h = h\<lparr>dm_cells := (dm_cells h)(p := None)\<rparr>"

text \<open>\<open>new_deleter\<close> and \<open>malloc_deleter\<close>\<close>

definition delete_object :: "nat \<Rightarrow> 'a dm_heap \<Rightarrow> fault + 'a dm_heap" where
  "delete_object p h = (case dm_cells h p of
      Some (Object _) \<Rightarrow> Inr (clear_cell p h) | Some (Block _) \<Rightarrow> Inl Wrong_Alternative | None \<Rightarrow> Inl Dead_Object)"

definition free_block :: "nat \<Rightarrow> 'a dm_heap \<Rightarrow> fault + 'a dm_heap" where
  "free_block p h = (case dm_cells h p of
      Some (Block _) \<Rightarrow> Inr (clear_cell p h) | Some (Object _) \<Rightarrow> Inl Wrong_Alternative | None \<Rightarrow> Inl Dead_Object)"

section \<open>val\<close>

text \<open>The storage is \<open>None\<close> as long as nothing has been written to it.\<close>

record 'r val =
  v_is_set :: bool
  v_storage :: "'r option"

definition val_default :: "'r val" where
  "val_default = \<lparr>v_is_set = False, v_storage = None\<rparr>"

definition val_new :: "'r \<Rightarrow> 'r val" where
  "val_new r = \<lparr>v_is_set = True, v_storage = Some r\<rparr>"

definition val_get :: "'r val \<Rightarrow> fault + 'r" where
  "val_get v = (case v_storage v of None \<Rightarrow> Inl Dead_Object | Some r \<Rightarrow> Inr r)"

definition val_dtor :: "('r \<Rightarrow> 'h \<Rightarrow> fault + 'h) \<Rightarrow> 'r val \<Rightarrow> 'h \<Rightarrow> fault + 'h" where
  "val_dtor destroy v h =
     (if \<not> v_is_set v then Inr h else (case val_get v of Inl f \<Rightarrow> Inl f | Inr r \<Rightarrow> destroy r h))"

definition val_move_ctor :: "'r val \<Rightarrow> 'r val \<times> 'r val" where
  "val_move_ctor other =
     (let this = \<lparr>v_is_set = v_is_set other, v_storage = None\<rparr>
      in if v_is_set this then (this\<lparr>v_storage := v_storage other\<rparr>, other\<lparr>v_is_set := False\<rparr>) else (this, other))"

definition val_release :: "'r val \<Rightarrow> 'r val" where
  "val_release v = v\<lparr>v_is_set := False\<rparr>"

definition val_require :: "('r val, string, 'r) op" where
  "val_require v =
     (if \<not> v_is_set v then Raise ''expected non-empty val'' v
      else (case val_get v of Inl f \<Rightarrow> Fault f | Inr r \<Rightarrow> Ok r v))"

text \<open>\<open>transfer\<close>: the result is what is copied into the destination.\<close>

definition val_transfer :: "('r val, string, 'r) op" where
  "val_transfer = noexcept (bind_op val_require (\<lambda>r. then_op (modify val_release) (ret r)))"

definition val_steal :: "'r \<Rightarrow> 'r val" where
  "val_steal original_object =
     (let result = val_default; result = result\<lparr>v_storage := Some original_object\<rparr> in result\<lparr>v_is_set := True\<rparr>)"

text \<open>The move assignment of the values \<open>i\<close> and \<open>j\<close> of a program, which may be the same.\<close>

definition val_move_assign ::
    "('r \<Rightarrow> 'h \<Rightarrow> fault + 'h) \<Rightarrow> nat \<Rightarrow> nat \<Rightarrow> 'r val list \<Rightarrow> 'h \<Rightarrow> fault + 'r val list \<times> 'h" where
  "val_move_assign destroy i j vals h =
     (let copy = (\<lambda>vals. vals[i := (vals ! i)\<lparr>v_storage := v_storage (vals ! j)\<rparr>]);
          set_flag = (\<lambda>k b vals. vals[k := (vals ! k)\<lparr>v_is_set := b\<rparr>])
      in if v_is_set (vals ! i)
         then (case val_get (vals ! i) of Inl f \<Rightarrow> Inl f | Inr r \<Rightarrow> (case destroy r h of Inl f \<Rightarrow> Inl f | Inr h' \<Rightarrow>
                (if v_is_set (vals ! j)
                 then Inr (set_flag j False (copy vals), h')
                 else Inr (set_flag i False vals, h'))))
         else if v_is_set (vals ! j) then Inr (set_flag i True (set_flag j False (copy vals)), h)
         else Inr (vals, h))"

section \<open>unique_ref, dynamic_array and tuple\<close>

text \<open>
  The bytes of a \<open>unique_ref\<close> are a pointer.  Each type has a constructor from a \<open>val\<close> of it, which is
  \<open>noexcept\<close> and takes it by value.
\<close>

definition make_unique_ref :: "'a \<Rightarrow> 'a dm_heap \<Rightarrow> nat \<times> 'a dm_heap" where
  "make_unique_ref v h = new_cell (Object v) h"

definition unique_ref_from_val :: "('r val, string, 'r) op" where
  "unique_ref_from_val = noexcept val_transfer"

record dynamic_array =
  da_length :: nat
  da_elements :: nat

definition allocate_array_storage :: "nat \<Rightarrow> 'a dm_heap \<Rightarrow> nat \<times> 'a dm_heap" where
  "allocate_array_storage n h = new_cell (Block (replicate n 0)) h"

definition store_element :: "nat \<Rightarrow> nat \<Rightarrow> nat \<Rightarrow> 'a dm_heap \<Rightarrow> 'a dm_heap" where
  "store_element block i p h = (case dm_cells h block of
      Some (Block ps) \<Rightarrow> h\<lparr>dm_cells := (dm_cells h)(block := Some (Block (ps[i := p])))\<rparr> | _ \<Rightarrow> h)"

text \<open>The generator of the elements makes a new object with the next value.\<close>

fun generate_elements :: "nat \<Rightarrow> nat \<Rightarrow> 'a list \<Rightarrow> 'a dm_heap \<Rightarrow> 'a dm_heap" where
  "generate_elements block i [] h = h"
| "generate_elements block i (v # vs) h = (case make_unique_ref v h of
      (p, h1) \<Rightarrow> generate_elements block (Suc i) vs (store_element block i p h1))"

definition make_dynamic_array :: "'a list \<Rightarrow> 'a dm_heap \<Rightarrow> dynamic_array \<times> 'a dm_heap" where
  "make_dynamic_array vs h = (case allocate_array_storage (length vs) h of
      (block, h1) \<Rightarrow> (\<lparr>da_length = length vs, da_elements = block\<rparr>, generate_elements block 0 vs h1))"

text \<open>The destructor: the elements from the last to the first, then the block.\<close>

fun destroy_elements :: "nat list \<Rightarrow> nat \<Rightarrow> 'a dm_heap \<Rightarrow> fault + 'a dm_heap" where
  "destroy_elements ps 0 h = Inr h"
| "destroy_elements ps (Suc k) h = (case delete_object (ps ! k) h of Inl f \<Rightarrow> Inl f | Inr h' \<Rightarrow> destroy_elements ps k h')"

definition dynamic_array_dtor :: "dynamic_array \<Rightarrow> 'a dm_heap \<Rightarrow> fault + 'a dm_heap" where
  "dynamic_array_dtor d h = (case dm_cells h (da_elements d) of
      Some (Block ps) \<Rightarrow> (case destroy_elements ps (da_length d) h of Inl f \<Rightarrow> Inl f | Inr h' \<Rightarrow> free_block (da_elements d) h')
    | _ \<Rightarrow> Inl Dead_Object)"

definition dynamic_array_from_val :: "(dynamic_array val, string, dynamic_array) op" where
  "dynamic_array_from_val = noexcept (bind_op val_require (\<lambda>l. bind_op val_require (\<lambda>d.
     bind_op (\<lambda>other. case val_transfer (val_steal (da_elements d)) of
         Ok block _ \<Rightarrow> Ok block other | Raise e _ \<Rightarrow> Raise e other | Fault f \<Rightarrow> Fault f)
       (\<lambda>block. then_op (modify val_release) (ret \<lparr>da_length = da_length l, da_elements = block\<rparr>)))))"

text \<open>A tuple of \<open>unique_ref\<close>s: the head is a member, the tail a base, so that the head is destroyed first.\<close>

fun make_tuple :: "'a list \<Rightarrow> 'a dm_heap \<Rightarrow> nat list \<times> 'a dm_heap" where
  "make_tuple [] h = ([], h)"
| "make_tuple (v # vs) h = (case make_unique_ref v h of (p, h1) \<Rightarrow> (case make_tuple vs h1 of (ps, h2) \<Rightarrow> (p # ps, h2)))"

fun tuple_dtor :: "nat list \<Rightarrow> 'a dm_heap \<Rightarrow> fault + 'a dm_heap" where
  "tuple_dtor [] h = Inr h"
| "tuple_dtor (p # ps) h = (case delete_object p h of Inl f \<Rightarrow> Inl f | Inr h' \<Rightarrow> tuple_dtor ps h')"

fun tuple_steal :: "'r list \<Rightarrow> fault + 'r list" where
  "tuple_steal [] = Inr []"
| "tuple_steal (p # ps) = (case tuple_steal ps of Inl f \<Rightarrow> Inl f | Inr qs \<Rightarrow>
     (case unique_ref_from_val (val_steal p) of Ok q _ \<Rightarrow> Inr (q # qs) | Raise e _ \<Rightarrow> Inl Terminated | Fault f \<Rightarrow> Inl f))"

definition tuple_from_val :: "('r list val, string, 'r list) op" where
  "tuple_from_val = noexcept (bind_op val_require (\<lambda>ps. case tuple_steal ps of
      Inl f \<Rightarrow> (\<lambda>_. Fault f) | Inr qs \<Rightarrow> then_op (modify val_release) (ret qs)))"

fun tuple_get :: "nat \<Rightarrow> 'r list \<Rightarrow> 'r option" where
  "tuple_get i [] = None"
| "tuple_get 0 (p # ps) = Some p"
| "tuple_get (Suc i) (p # ps) = tuple_get i ps"

section \<open>Programs\<close>

text \<open>
  The variables of a program are values and objects; a function that \<open>require\<close>s catches its exception.
  A step on variables that do not exist is not part of a program and does nothing.
\<close>

record ('a, 'r) dm_program =
  dm_vals :: "'r val list"
  dm_objects :: "'r list"
  dm_heap :: "'a dm_heap"

datatype 'p dm_step = Dm_Default | Dm_Make 'p | Dm_Move_Ctor nat | Dm_Move_Assign nat nat | Dm_Construct nat
  | Dm_Require nat | Dm_Destroy_Val | Dm_Destroy_Object

fun dm_exec ::
    "('p \<Rightarrow> 'a dm_heap \<Rightarrow> 'r \<times> 'a dm_heap) \<Rightarrow> ('r \<Rightarrow> 'a dm_heap \<Rightarrow> fault + 'a dm_heap) \<Rightarrow> ('r val, string, 'r) op \<Rightarrow>
     'p dm_step \<Rightarrow> ('a, 'r) dm_program \<Rightarrow> fault + ('a, 'r) dm_program" where
  "dm_exec construct destroy from_val Dm_Default s = Inr (s\<lparr>dm_vals := dm_vals s @ [val_default]\<rparr>)"
| "dm_exec construct destroy from_val (Dm_Make p) s = (case construct p (dm_heap s) of
     (r, h) \<Rightarrow> Inr (s\<lparr>dm_vals := dm_vals s @ [val_new r], dm_heap := h\<rparr>))"
| "dm_exec construct destroy from_val (Dm_Move_Ctor i) s =
     (if i < length (dm_vals s)
      then (case val_move_ctor (dm_vals s ! i) of (this, other) \<Rightarrow> Inr (s\<lparr>dm_vals := (dm_vals s)[i := other] @ [this]\<rparr>))
      else Inr s)"
| "dm_exec construct destroy from_val (Dm_Move_Assign i j) s =
     (if i < length (dm_vals s) \<and> j < length (dm_vals s)
      then (case val_move_assign destroy i j (dm_vals s) (dm_heap s) of
         Inl f \<Rightarrow> Inl f | Inr (vals, h) \<Rightarrow> Inr (s\<lparr>dm_vals := vals, dm_heap := h\<rparr>))
      else Inr s)"
| "dm_exec construct destroy from_val (Dm_Construct i) s =
     (if i < length (dm_vals s)
      then (case val_move_ctor (dm_vals s ! i) of (parameter, other) \<Rightarrow> (case from_val parameter of
          Fault f \<Rightarrow> Inl f
        | Raise e _ \<Rightarrow> Inl Terminated
        | Ok r parameter' \<Rightarrow> (case val_dtor destroy parameter' (dm_heap s) of
            Inl f \<Rightarrow> Inl f
          | Inr h \<Rightarrow> Inr (s\<lparr>dm_vals := (dm_vals s)[i := other], dm_objects := dm_objects s @ [r], dm_heap := h\<rparr>))))
      else Inr s)"
| "dm_exec construct destroy from_val (Dm_Require i) s =
     (if i < length (dm_vals s) then (case val_require (dm_vals s ! i) of Fault f \<Rightarrow> Inl f | _ \<Rightarrow> Inr s) else Inr s)"
| "dm_exec construct destroy from_val Dm_Destroy_Val s =
     (if dm_vals s = [] then Inr s
      else (case val_dtor destroy (last (dm_vals s)) (dm_heap s) of
         Inl f \<Rightarrow> Inl f | Inr h \<Rightarrow> Inr (s\<lparr>dm_vals := butlast (dm_vals s), dm_heap := h\<rparr>)))"
| "dm_exec construct destroy from_val Dm_Destroy_Object s =
     (if dm_objects s = [] then Inr s
      else (case destroy (last (dm_objects s)) (dm_heap s) of
         Inl f \<Rightarrow> Inl f | Inr h \<Rightarrow> Inr (s\<lparr>dm_objects := butlast (dm_objects s), dm_heap := h\<rparr>)))"

fun dm_run ::
    "('p \<Rightarrow> 'a dm_heap \<Rightarrow> 'r \<times> 'a dm_heap) \<Rightarrow> ('r \<Rightarrow> 'a dm_heap \<Rightarrow> fault + 'a dm_heap) \<Rightarrow> ('r val, string, 'r) op \<Rightarrow>
     'p dm_step list \<Rightarrow> ('a, 'r) dm_program \<Rightarrow> fault + ('a, 'r) dm_program" where
  "dm_run construct destroy from_val [] s = Inr s"
| "dm_run construct destroy from_val (c # cs) s = (case dm_exec construct destroy from_val c s of
     Inl f \<Rightarrow> Inl f | Inr s' \<Rightarrow> dm_run construct destroy from_val cs s')"

definition dm_start :: "('a, 'r) dm_program" where
  "dm_start = \<lparr>dm_vals = [], dm_objects = [], dm_heap = dm_empty_heap\<rparr>"

text \<open>A whole program: in the end everything that still exists is destroyed.\<close>

definition dm_program_run ::
    "('p \<Rightarrow> 'a dm_heap \<Rightarrow> 'r \<times> 'a dm_heap) \<Rightarrow> ('r \<Rightarrow> 'a dm_heap \<Rightarrow> fault + 'a dm_heap) \<Rightarrow> ('r val, string, 'r) op \<Rightarrow>
     'p dm_step list \<Rightarrow> fault + ('a, 'r) dm_program" where
  "dm_program_run construct destroy from_val cs = (case dm_run construct destroy from_val cs dm_start of
      Inl f \<Rightarrow> Inl f
    | Inr s \<Rightarrow> dm_run construct destroy from_val
        (replicate (length (dm_objects s)) Dm_Destroy_Object @ replicate (length (dm_vals s)) Dm_Destroy_Val) s)"

section \<open>What a val relies on\<close>

text \<open>
  \<open>owned r h\<close> are the cells that the object with the bytes \<open>r\<close> owns; \<open>heap_inv\<close>: the objects \<open>R\<close> own every
  living cell, each exactly once.
\<close>

definition heap_wf :: "'a dm_heap \<Rightarrow> bool" where
  "heap_wf h \<longleftrightarrow> (\<forall>a. dm_next h \<le> a \<longrightarrow> dm_cells h a = None)"

definition heap_inv ::
    "('r \<Rightarrow> 'a dm_heap \<Rightarrow> bool) \<Rightarrow> ('r \<Rightarrow> 'a dm_heap \<Rightarrow> nat multiset) \<Rightarrow> 'a dm_heap \<Rightarrow> 'r multiset \<Rightarrow> bool" where
  "heap_inv valid owned h R \<longleftrightarrow> heap_wf h \<and> (\<forall>r \<in># R. valid r h) \<and>
     (\<forall>a. count (\<Sum>\<^sub># (image_mset (\<lambda>r. owned r h) R)) a = (if dm_cells h a = None then 0 else 1))"

definition val_root :: "'r val \<Rightarrow> 'r multiset" where
  "val_root v = (if v_is_set v then (case v_storage v of None \<Rightarrow> {#} | Some r \<Rightarrow> {#r#}) else {#})"

definition val_roots :: "'r val list \<Rightarrow> 'r multiset" where
  "val_roots vals = \<Sum>\<^sub># (image_mset val_root (mset vals))"

definition vals_ok :: "'r val list \<Rightarrow> bool" where
  "vals_ok vals \<longleftrightarrow> (\<forall>v \<in> set vals. v_is_set v \<longrightarrow> v_storage v \<noteq> None)"

definition dm_inv ::
    "('r \<Rightarrow> 'a dm_heap \<Rightarrow> bool) \<Rightarrow> ('r \<Rightarrow> 'a dm_heap \<Rightarrow> nat multiset) \<Rightarrow> ('a, 'r) dm_program \<Rightarrow> bool" where
  "dm_inv valid owned s \<longleftrightarrow> vals_ok (dm_vals s) \<and> heap_inv valid owned (dm_heap s) (mset (dm_objects s) + val_roots (dm_vals s))"

lemma val_roots_simps [simp]:
  "val_roots [] = {#}" "val_roots (v # vs) = val_root v + val_roots vs" "val_roots (vs @ ws) = val_roots vs + val_roots ws"
  by (simp_all add: val_roots_def)

lemma val_root_simps [simp]: "val_root val_default = {#}" "val_root (val_new r) = {#r#}" "val_root (v\<lparr>v_is_set := False\<rparr>) = {#}"
  by (simp_all add: val_root_def val_default_def val_new_def)

lemma val_roots_update: "i < length vs \<Longrightarrow> val_roots (vs[i := v]) + val_root (vs ! i) = val_roots vs + val_root v"
proof (induction vs arbitrary: i)
  case (Cons w vs)
  then show ?case by (cases i) (simp_all add: ac_simps)
qed simp

lemma val_roots_remove: "i < length vs \<Longrightarrow> val_roots vs = val_root (vs ! i) + val_roots (vs[i := (vs ! i)\<lparr>v_is_set := False\<rparr>])"
  using val_roots_update [of i vs "(vs ! i)\<lparr>v_is_set := False\<rparr>"] by (simp add: ac_simps)

lemma vals_ok_simps [simp]:
  "vals_ok []" "vals_ok (v # vs) \<longleftrightarrow> (v_is_set v \<longrightarrow> v_storage v \<noteq> None) \<and> vals_ok vs" "vals_ok (vs @ ws) \<longleftrightarrow> vals_ok vs \<and> vals_ok ws"
  by (auto simp: vals_ok_def)

lemma vals_ok_update: "vals_ok vs \<Longrightarrow> (v_is_set v \<Longrightarrow> v_storage v \<noteq> None) \<Longrightarrow> vals_ok (vs[i := v])"
  by (auto simp: vals_ok_def dest: set_update_subset_insert [THEN subsetD])

lemma vals_ok_unset: "vals_ok vs \<Longrightarrow> vals_ok (vs[i := (vs ! i)\<lparr>v_is_set := False\<rparr>])"
  by (rule vals_ok_update) simp_all

lemma vals_ok_nth: "vals_ok vs \<Longrightarrow> i < length vs \<Longrightarrow> v_is_set (vs ! i) \<Longrightarrow> \<exists>r. v_storage (vs ! i) = Some r"
  by (auto simp: vals_ok_def)

lemma val_root_set: "v_is_set v \<Longrightarrow> v_storage v = Some r \<Longrightarrow> val_root v = {#r#}" "\<not> v_is_set v \<Longrightarrow> val_root v = {#}"
  by (simp_all add: val_root_def)

locale destructible =
  fixes construct :: "'p \<Rightarrow> 'a dm_heap \<Rightarrow> 'r \<times> 'a dm_heap"
    and destroy :: "'r \<Rightarrow> 'a dm_heap \<Rightarrow> fault + 'a dm_heap"
    and from_val :: "('r val, string, 'r) op"
    and valid :: "'r \<Rightarrow> 'a dm_heap \<Rightarrow> bool"
    and owned :: "'r \<Rightarrow> 'a dm_heap \<Rightarrow> nat multiset"
  assumes destroy_valid: "valid r h \<Longrightarrow> destroy r h = Inr (h\<lparr>dm_cells := \<lambda>a. if a \<in># owned r h then None else dm_cells h a\<rparr>)"
    and stays_valid: "valid r h \<Longrightarrow> (\<And>a. a \<in># owned r h \<Longrightarrow> dm_cells h' a = dm_cells h a) \<Longrightarrow> valid r h' \<and> owned r h' = owned r h"
    and construct_valid: "heap_wf h \<Longrightarrow> construct p h = (r, h') \<Longrightarrow> heap_wf h' \<and> valid r h' \<and>
      (\<forall>a. dm_cells h a \<noteq> None \<longrightarrow> dm_cells h' a = dm_cells h a) \<and>
      (\<forall>a. count (owned r h') a = (if dm_cells h a = None \<and> dm_cells h' a \<noteq> None then 1 else 0))"
    and from_val_set: "v_is_set v \<Longrightarrow> v_storage v = Some r \<Longrightarrow> from_val v = Ok r (v\<lparr>v_is_set := False\<rparr>)"
    and from_val_empty: "\<not> v_is_set v \<Longrightarrow> from_val v = Fault Terminated"
begin

lemma owned_elsewhere:
  assumes "q \<in># R" "a \<in># owned q h"
  shows "0 < count (\<Sum>\<^sub># (image_mset (\<lambda>r. owned r h) R)) a"
proof -
  from assms(1) obtain S where "R = add_mset q S" by (metis insert_DiffM)
  with assms(2) show ?thesis by (simp add: count_greater_zero_iff)
qed

lemma same_owned:
  assumes "\<And>r. r \<in># R \<Longrightarrow> owned r h' = owned r h"
  shows "image_mset (\<lambda>r. owned r h') R = image_mset (\<lambda>r. owned r h) R"
  by (rule image_mset_cong) (rule assms)

lemma heap_inv_destroy:
  assumes "heap_inv valid owned h (add_mset r R)"
  shows "\<exists>h'. destroy r h = Inr h' \<and> heap_inv valid owned h' R"
proof -
  let ?h = "h\<lparr>dm_cells := \<lambda>a. if a \<in># owned r h then None else dm_cells h a\<rparr>"
  have total: "count (owned r h) a + count (\<Sum>\<^sub># (image_mset (\<lambda>r. owned r h) R)) a = (if dm_cells h a = None then 0 else 1)" for a
    using assms by (simp add: heap_inv_def)
  have keep: "valid q ?h \<and> owned q ?h = owned q h" if q: "q \<in># R" for q
  proof (rule stays_valid)
    show "valid q h" using assms q by (simp add: heap_inv_def)
    fix a assume "a \<in># owned q h"
    from owned_elsewhere [OF q this] total [of a] have "count (owned r h) a = 0" by (simp del: count_greater_zero_iff split: if_splits)
    then show "dm_cells ?h a = dm_cells h a" by (simp add: count_eq_zero_iff)
  qed
  have "count (\<Sum>\<^sub># (image_mset (\<lambda>r. owned r h) R)) a = (if dm_cells ?h a = None then 0 else 1)" for a
    using total [of a] by (auto simp: count_greater_zero_iff [symmetric] simp del: count_greater_zero_iff split: if_splits)
  moreover have "heap_wf ?h" "valid r h" using assms by (auto simp: heap_inv_def heap_wf_def)
  moreover have "image_mset (\<lambda>r. owned r ?h) R = image_mset (\<lambda>r. owned r h) R" using keep by (intro same_owned) blast
  ultimately have "heap_inv valid owned ?h R" unfolding heap_inv_def using keep by simp
  with destroy_valid [of r h] assms show ?thesis by (auto simp: heap_inv_def)
qed

lemma heap_inv_construct:
  assumes i: "heap_inv valid owned h R" and c: "construct p h = (r, h')"
  shows "heap_inv valid owned h' (add_mset r R)"
proof -
  have total: "count (\<Sum>\<^sub># (image_mset (\<lambda>r. owned r h) R)) a = (if dm_cells h a = None then 0 else 1)" for a
    using i by (simp add: heap_inv_def)
  from i have "heap_wf h" by (simp add: heap_inv_def)
  note new = construct_valid [OF this c]
  have keep: "valid q h' \<and> owned q h' = owned q h" if q: "q \<in># R" for q
  proof (rule stays_valid)
    show "valid q h" using i q by (simp add: heap_inv_def)
    fix a assume "a \<in># owned q h"
    from owned_elsewhere [OF q this] total [of a] new show "dm_cells h' a = dm_cells h a" by (auto split: if_splits)
  qed
  have "count (owned r h') a + count (\<Sum>\<^sub># (image_mset (\<lambda>r. owned r h) R)) a = (if dm_cells h' a = None then 0 else 1)" for a
    using total [of a] new by (cases "dm_cells h a = None") auto
  moreover have "image_mset (\<lambda>r. owned r h') R = image_mset (\<lambda>r. owned r h) R" using keep by (intro same_owned) blast
  ultimately show ?thesis unfolding heap_inv_def using new keep by simp
qed

end

context destructible
begin

lemma val_dtor_inv:
  assumes "heap_inv valid owned h (val_root v + R)" "v_is_set v \<longrightarrow> v_storage v \<noteq> None"
  shows "\<exists>h'. val_dtor destroy v h = Inr h' \<and> heap_inv valid owned h' R"
proof (cases "v_is_set v")
  case True
  with assms(2) obtain r where r: "v_storage v = Some r" by auto
  from heap_inv_destroy [of h r R] assms(1) True r show ?thesis by (simp add: val_root_def val_dtor_def val_get_def)
qed (use assms(1) in \<open>simp add: val_root_def val_dtor_def\<close>)

lemma val_move_assign_set:
  assumes i: "i < length vals" and j: "j < length vals" and ok: "vals_ok vals"
    and set: "v_is_set (vals ! i)" and h: "heap_inv valid owned h (R + val_roots vals)"
  shows "\<exists>vals' h'. val_move_assign destroy i j vals h = Inr (vals', h') \<and> vals_ok vals' \<and> heap_inv valid owned h' (R + val_roots vals')"
proof -
  let ?unset = "\<lambda>k vals. vals[k := (vals ! k)\<lparr>v_is_set := False\<rparr>]"
  let ?copy = "vals[i := (vals ! i)\<lparr>v_storage := v_storage (vals ! j)\<rparr>]"
  from vals_ok_nth [OF ok i] set obtain r where r: "v_storage (vals ! i) = Some r" by blast
  with val_roots_remove [OF i] val_root_set(1) [OF set r] h have "heap_inv valid owned h (add_mset r (R + val_roots (?unset i vals)))"
    by simp
  from heap_inv_destroy [OF this] obtain h' where h': "destroy r h = Inr h'" "heap_inv valid owned h' (R + val_roots (?unset i vals))" by blast
  show ?thesis
  proof (cases "v_is_set (vals ! j)")
    case False
    with set r h' vals_ok_unset [OF ok, of i] show ?thesis by (simp add: val_move_assign_def val_get_def Let_def)
  next
    case set_j: True
    have copy: "vals_ok ?copy" "length ?copy = length vals" "val_root (?copy ! j) = val_root (vals ! j)"
      using ok i j set_j vals_ok_nth [OF ok j] by (auto intro!: vals_ok_update simp: val_root_def nth_list_update)
    have a: "val_roots ?copy + val_root (vals ! i) = val_roots vals + val_root (vals ! j)"
      using val_roots_update [OF i, of "(vals ! i)\<lparr>v_storage := v_storage (vals ! j)\<rparr>"] set set_j by (simp add: val_root_def)
    have b: "val_roots ?copy = val_root (vals ! j) + val_roots (?unset j ?copy)"
      using val_roots_remove [of j ?copy] j copy by simp
    from a [unfolded b val_roots_remove [OF i]] have "val_roots (?unset j ?copy) = val_roots (?unset i vals)"
      by (simp only: ac_simps add_left_cancel)
    then have "heap_inv valid owned h' (R + val_roots (?unset j ?copy))" using h'(2) by simp
    moreover have "val_move_assign destroy i j vals h = Inr (?unset j ?copy, h')"
      using set r h'(1) set_j by (simp add: val_move_assign_def val_get_def Let_def)
    ultimately show ?thesis using vals_ok_unset [OF copy(1), of j] by blast
  qed
qed

lemma val_move_assign_unset:
  assumes i: "i < length vals" and j: "j < length vals" and ok: "vals_ok vals" and unset: "\<not> v_is_set (vals ! i)"
  shows "\<exists>vals'. val_move_assign destroy i j vals h = Inr (vals', h) \<and> vals_ok vals' \<and> val_roots vals' = val_roots vals"
proof (cases "v_is_set (vals ! j)")
  case False
  with unset ok show ?thesis by (simp add: val_move_assign_def Let_def)
next
  case set_j: True
  let ?vals = "vals[j := (vals ! j)\<lparr>v_is_set := False\<rparr>]"
    and ?new = "(vals ! i)\<lparr>v_storage := v_storage (vals ! j), v_is_set := True\<rparr>"
  from unset set_j have ij: "i \<noteq> j" by auto
  have "val_move_assign destroy i j vals h = Inr (?vals[i := ?new], h)"
    using unset set_j ij i j by (simp add: val_move_assign_def Let_def nth_list_update list_update_swap)
  moreover have "vals_ok (?vals[i := ?new])"
    by (rule vals_ok_update [OF vals_ok_unset [OF ok]]) (use vals_ok_nth [OF ok j set_j] in auto)
  moreover have "val_roots (?vals[i := ?new]) = val_roots vals"
    using val_roots_update [of i ?vals ?new] val_roots_remove [OF j] unset set_j ij i
    by (simp add: val_root_def ac_simps)
  ultimately show ?thesis by blast
qed

lemma val_move_assign_inv:
  assumes i: "i < length vals" and j: "j < length vals" and ok: "vals_ok vals"
    and h: "heap_inv valid owned h (R + val_roots vals)"
  shows "\<exists>vals' h'. val_move_assign destroy i j vals h = Inr (vals', h') \<and> vals_ok vals' \<and> heap_inv valid owned h' (R + val_roots vals')"
proof (cases "v_is_set (vals ! i)")
  case True
  show ?thesis by (rule val_move_assign_set [OF i j ok True h])
next
  case False
  from val_move_assign_unset [OF i j ok False] h show ?thesis by fastforce
qed

end

lemma val_roots_butlast: "vs \<noteq> [] \<Longrightarrow> val_roots vs = val_root (last vs) + val_roots (butlast vs)"
  using val_roots_simps(3) [of "butlast vs" "[last vs]"] by (simp add: ac_simps)

lemma vals_ok_butlast: "vals_ok vs \<Longrightarrow> vals_ok (butlast vs)"
  by (auto simp: vals_ok_def dest: in_set_butlastD)

lemma val_move_ctor_eq:
  "val_move_ctor other = (if v_is_set other then (\<lparr>v_is_set = True, v_storage = v_storage other\<rparr>, other\<lparr>v_is_set := False\<rparr>)
     else (\<lparr>v_is_set = False, v_storage = None\<rparr>, other))"
  by (simp add: val_move_ctor_def Let_def)

context destructible
begin

text \<open>What a step that moves out of the \<open>i\<close>-th value leaves of it.\<close>

lemma dm_inv_take:
  assumes inv: "dm_inv valid owned s" and i: "i < length (dm_vals s)" and set: "v_is_set (dm_vals s ! i)"
  shows "\<exists>r. v_storage (dm_vals s ! i) = Some r \<and> vals_ok ((dm_vals s)[i := (dm_vals s ! i)\<lparr>v_is_set := False\<rparr>]) \<and>
    val_roots (dm_vals s) = add_mset r (val_roots ((dm_vals s)[i := (dm_vals s ! i)\<lparr>v_is_set := False\<rparr>]))"
proof -
  from inv have ok: "vals_ok (dm_vals s)" by (simp add: dm_inv_def)
  from vals_ok_nth [OF ok i set] obtain r where r: "v_storage (dm_vals s ! i) = Some r" by blast
  with val_roots_remove [OF i] val_root_set(1) [OF set r] vals_ok_unset [OF ok] show ?thesis by auto
qed

lemma dm_move_ctor_inv:
  assumes inv: "dm_inv valid owned s"
  shows "\<exists>s'. dm_exec construct destroy from_val (Dm_Move_Ctor i) s = Inr s' \<and> dm_inv valid owned s'"
proof (cases "i < length (dm_vals s) \<and> v_is_set (dm_vals s ! i)")
  case True
  with dm_inv_take [OF inv] obtain r where "v_storage (dm_vals s ! i) = Some r"
      "vals_ok ((dm_vals s)[i := (dm_vals s ! i)\<lparr>v_is_set := False\<rparr>])"
      "val_roots (dm_vals s) = add_mset r (val_roots ((dm_vals s)[i := (dm_vals s ! i)\<lparr>v_is_set := False\<rparr>]))" by blast
  with True inv show ?thesis by (simp add: val_move_ctor_eq dm_inv_def val_root_def)
next
  case False
  with inv show ?thesis by (simp add: val_move_ctor_eq dm_inv_def val_root_def list_update_id)
qed

lemma dm_construct_inv:
  assumes inv: "dm_inv valid owned s"
  shows "case dm_exec construct destroy from_val (Dm_Construct i) s of Inl f \<Rightarrow> f = Terminated | Inr s' \<Rightarrow> dm_inv valid owned s'"
proof (cases "i < length (dm_vals s) \<and> v_is_set (dm_vals s ! i)")
  case True
  with dm_inv_take [OF inv] obtain r where "v_storage (dm_vals s ! i) = Some r"
      "vals_ok ((dm_vals s)[i := (dm_vals s ! i)\<lparr>v_is_set := False\<rparr>])"
      "val_roots (dm_vals s) = add_mset r (val_roots ((dm_vals s)[i := (dm_vals s ! i)\<lparr>v_is_set := False\<rparr>]))" by blast
  with True inv show ?thesis
    by (simp add: val_move_ctor_eq dm_inv_def from_val_set [of "\<lparr>v_is_set = True, v_storage = Some r\<rparr>"] val_dtor_def)
next
  case False
  with inv show ?thesis by (simp add: val_move_ctor_eq from_val_empty)
qed

lemma dm_destroy_inv:
  assumes inv: "dm_inv valid owned s" and c: "c \<in> {Dm_Destroy_Val, Dm_Destroy_Object}"
  shows "\<exists>s'. dm_exec construct destroy from_val c s = Inr s' \<and> dm_inv valid owned s'"
proof (cases "dm_vals s = [] \<and> c = Dm_Destroy_Val \<or> dm_objects s = [] \<and> c = Dm_Destroy_Object")
  case False
  note inv = inv [unfolded dm_inv_def]
  show ?thesis
  proof (cases "c = Dm_Destroy_Val")
    case True
    with False have v: "dm_vals s \<noteq> []" by simp
    then have "v_is_set (last (dm_vals s)) \<longrightarrow> v_storage (last (dm_vals s)) \<noteq> None" using inv by (auto simp: vals_ok_def)
    with val_dtor_inv [of "dm_heap s" "last (dm_vals s)" "mset (dm_objects s) + val_roots (butlast (dm_vals s))"] inv
    obtain h where "val_dtor destroy (last (dm_vals s)) (dm_heap s) = Inr h"
        "heap_inv valid owned h (mset (dm_objects s) + val_roots (butlast (dm_vals s)))"
      by (auto simp: val_roots_butlast [OF v] ac_simps)
    with vals_ok_butlast [OF conjunct1 [OF inv]] v True show ?thesis by (simp add: dm_inv_def)
  next
    case o: False
    with False c have "dm_objects s \<noteq> []" by simp
    then have "mset (dm_objects s) = add_mset (last (dm_objects s)) (mset (butlast (dm_objects s)))"
      by (metis append_butlast_last_id mset_append mset.simps(1,2) add_mset_add_single)
    with heap_inv_destroy [of "dm_heap s" "last (dm_objects s)" "mset (butlast (dm_objects s)) + val_roots (dm_vals s)"]
      inv o c \<open>dm_objects s \<noteq> []\<close>
    show ?thesis by (auto simp: dm_inv_def)
  qed
qed (use inv in auto)

lemma dm_exec_inv:
  assumes inv: "dm_inv valid owned s"
  shows "case dm_exec construct destroy from_val c s of
      Inl f \<Rightarrow> f = Terminated \<and> (\<exists>i. c = Dm_Construct i) | Inr s' \<Rightarrow> dm_inv valid owned s'"
proof (cases c)
  case Dm_Default
  with inv show ?thesis by (simp add: dm_inv_def, simp add: val_default_def)
next
  case (Dm_Make p)
  obtain r h where c: "construct p (dm_heap s) = (r, h)" by fastforce
  from heap_inv_construct [OF _ c] inv Dm_Make c show ?thesis by (simp add: dm_inv_def, simp add: val_new_def)
next
  case (Dm_Move_Assign i j)
  with val_move_assign_inv [of i "dm_vals s" j "dm_heap s" "mset (dm_objects s)"] inv show ?thesis
    by (cases "i < length (dm_vals s) \<and> j < length (dm_vals s)") (auto simp: dm_inv_def)
next
  case (Dm_Require i)
  have "val_require (dm_vals s ! i) \<noteq> Fault f" if "i < length (dm_vals s)" for f
    using inv vals_ok_nth [OF _ that] by (auto simp: dm_inv_def val_require_def val_get_def)
  with Dm_Require inv show ?thesis by (auto split: outcome.splits)
next
  case (Dm_Move_Ctor i)
  with dm_move_ctor_inv [OF inv, of i] show ?thesis by (auto simp del: dm_exec.simps)
next
  case (Dm_Construct i)
  with dm_construct_inv [OF inv, of i] show ?thesis by (simp add: sum.case_eq_if del: dm_exec.simps)
next
  case Dm_Destroy_Val
  with dm_destroy_inv [OF inv, of c] show ?thesis by (auto simp del: dm_exec.simps)
next
  case Dm_Destroy_Object
  with dm_destroy_inv [OF inv, of c] show ?thesis by (auto simp del: dm_exec.simps)
qed

lemma dm_run_inv:
  "dm_inv valid owned s \<Longrightarrow> case dm_run construct destroy from_val cs s of
      Inl f \<Rightarrow> f = Terminated \<and> (\<exists>i. Dm_Construct i \<in> set cs) | Inr s' \<Rightarrow> dm_inv valid owned s'"
proof (induction cs arbitrary: s)
  case (Cons c cs)
  from dm_exec_inv [OF Cons.prems, of c] Cons.IH show ?case
    by (cases "dm_exec construct destroy from_val c s") (fastforce split: sum.splits)+
qed simp

end

lemma dm_run_append:
  "dm_run construct destroy from_val (cs @ ds) s = (case dm_run construct destroy from_val cs s of
     Inl f \<Rightarrow> Inl f | Inr s' \<Rightarrow> dm_run construct destroy from_val ds s')"
  by (induction cs arbitrary: s) (auto split: sum.splits)

context destructible
begin

lemma dm_destroy_objects:
  "dm_inv valid owned s \<Longrightarrow> length (dm_objects s) = n \<Longrightarrow>
   \<exists>s'. dm_run construct destroy from_val (replicate n Dm_Destroy_Object) s = Inr s' \<and> dm_inv valid owned s' \<and>
     dm_objects s' = [] \<and> dm_vals s' = dm_vals s"
proof (induction n arbitrary: s)
  case (Suc n)
  then have ne: "dm_objects s \<noteq> []" by auto
  then obtain s1 where s1: "dm_exec construct destroy from_val Dm_Destroy_Object s = Inr s1"
      "dm_inv valid owned s1" using dm_exec_inv [OF Suc.prems(1), of Dm_Destroy_Object]
    by (auto split: sum.splits)
  from s1(1) ne have "dm_objects s1 = butlast (dm_objects s)" "dm_vals s1 = dm_vals s" by (auto split: sum.splits)
  with Suc.IH [OF s1(2)] Suc.prems(2) s1(1) show ?case by simp
qed simp

lemma dm_destroy_vals:
  "dm_inv valid owned s \<Longrightarrow> length (dm_vals s) = n \<Longrightarrow>
   \<exists>s'. dm_run construct destroy from_val (replicate n Dm_Destroy_Val) s = Inr s' \<and> dm_inv valid owned s' \<and>
     dm_vals s' = [] \<and> dm_objects s' = dm_objects s"
proof (induction n arbitrary: s)
  case (Suc n)
  then have ne: "dm_vals s \<noteq> []" by auto
  then obtain s1 where s1: "dm_exec construct destroy from_val Dm_Destroy_Val s = Inr s1"
      "dm_inv valid owned s1" using dm_exec_inv [OF Suc.prems(1), of Dm_Destroy_Val]
    by (auto split: sum.splits)
  from s1(1) ne have "dm_vals s1 = butlast (dm_vals s)" "dm_objects s1 = dm_objects s" by (auto split: sum.splits)
  with Suc.IH [OF s1(2)] Suc.prems(2) s1(1) show ?case by simp
qed simp

lemma dm_start_inv: "dm_inv valid owned dm_start"
  by (simp add: dm_inv_def dm_start_def dm_empty_heap_def heap_inv_def heap_wf_def)

lemma dm_program_run_balanced:
  "case dm_program_run construct destroy from_val cs of
      Inl f \<Rightarrow> f = Terminated \<and> (\<exists>i. Dm_Construct i \<in> set cs) | Inr s \<Rightarrow> \<forall>a. dm_cells (dm_heap s) a = None"
proof (cases "dm_run construct destroy from_val cs dm_start")
  case (Inl f)
  with dm_run_inv [OF dm_start_inv, of cs] show ?thesis by (simp add: dm_program_run_def)
next
  case (Inr s)
  with dm_run_inv [OF dm_start_inv, of cs] have s: "dm_inv valid owned s" by simp
  from dm_destroy_objects [OF s refl] obtain s1 where
    s1: "dm_run construct destroy from_val (replicate (length (dm_objects s)) Dm_Destroy_Object) s = Inr s1"
      "dm_inv valid owned s1" "dm_objects s1 = []" "dm_vals s1 = dm_vals s" by blast
  from dm_destroy_vals [OF s1(2) refl] obtain s2 where
    s2: "dm_run construct destroy from_val (replicate (length (dm_vals s1)) Dm_Destroy_Val) s1 = Inr s2"
      "dm_inv valid owned s2" "dm_vals s2 = []" "dm_objects s2 = dm_objects s1" by blast
  from Inr s1(1,4) s2(1) have "dm_program_run construct destroy from_val cs = Inr s2"
    by (simp add: dm_program_run_def dm_run_append)
  moreover have "dm_cells (dm_heap s2) a = None" for a
    using s2(2-4) s1(3) by (simp add: dm_inv_def heap_inv_def split: if_splits)
  ultimately show ?thesis by simp
qed

end

section \<open>The three types\<close>

lemma unique_ref_from_val_eq:
  "v_is_set v \<Longrightarrow> v_storage v = Some r \<Longrightarrow> unique_ref_from_val v = Ok r (v\<lparr>v_is_set := False\<rparr>)"
  "\<not> v_is_set v \<Longrightarrow> unique_ref_from_val v = Fault Terminated"
  by (simp_all add: unique_ref_from_val_def val_transfer_def val_require_def val_get_def val_release_def outcome_defs)

definition unique_ref_valid :: "nat \<Rightarrow> 'a dm_heap \<Rightarrow> bool" where
  "unique_ref_valid p h \<longleftrightarrow> (\<exists>v. dm_cells h p = Some (Object v))"

definition unique_ref_owned :: "nat \<Rightarrow> 'a dm_heap \<Rightarrow> nat multiset" where
  "unique_ref_owned p h = {#p#}"

interpretation unique_ref: destructible make_unique_ref delete_object unique_ref_from_val unique_ref_valid unique_ref_owned
proof
  show "unique_ref_valid r h \<Longrightarrow> delete_object r h = Inr (h\<lparr>dm_cells := \<lambda>a. if a \<in># unique_ref_owned r h then None else dm_cells h a\<rparr>)"
    for r and h :: "'a dm_heap"
    by (auto simp: unique_ref_valid_def unique_ref_owned_def delete_object_def clear_cell_def fun_upd_def)
  show "unique_ref_valid r h \<Longrightarrow> (\<And>a. a \<in># unique_ref_owned r h \<Longrightarrow> dm_cells h' a = dm_cells h a) \<Longrightarrow>
      unique_ref_valid r h' \<and> unique_ref_owned r h' = unique_ref_owned r h" for r and h h' :: "'a dm_heap"
    by (simp add: unique_ref_valid_def unique_ref_owned_def)
  show "heap_wf h \<Longrightarrow> make_unique_ref p h = (r, h') \<Longrightarrow> heap_wf h' \<and> unique_ref_valid r h' \<and>
      (\<forall>a. dm_cells h a \<noteq> None \<longrightarrow> dm_cells h' a = dm_cells h a) \<and>
      (\<forall>a. count (unique_ref_owned r h') a = (if dm_cells h a = None \<and> dm_cells h' a \<noteq> None then 1 else 0))"
    for p r and h h' :: "'a dm_heap"
    by (auto simp: make_unique_ref_def new_cell_def heap_wf_def unique_ref_valid_def unique_ref_owned_def)
qed (simp_all add: unique_ref_from_val_eq)

text \<open>A group of new objects lies behind each other.\<close>

definition new_objects :: "'a list \<Rightarrow> 'a dm_heap \<Rightarrow> 'a dm_heap" where
  "new_objects vs h = \<lparr>dm_cells = (\<lambda>a. if dm_next h \<le> a \<and> a < dm_next h + length vs then Some (Object (vs ! (a - dm_next h))) else dm_cells h a),
     dm_next = dm_next h + length vs\<rparr>"

lemma new_objects_next [simp]: "dm_next (new_objects vs h) = dm_next h + length vs"
  by (simp add: new_objects_def)

lemma new_objects_Nil [simp]: "new_objects [] h = h"
  by (rule dm_heap.equality) (auto simp: new_objects_def fun_eq_iff)

lemma new_objects_Cons: "new_objects (v # vs) h = new_objects vs (snd (new_cell (Object v) h))"
  by (rule dm_heap.equality) (auto simp: new_objects_def new_cell_def fun_eq_iff nth_Cons' diff_Suc split: nat.splits)

lemma new_objects_wf: "heap_wf h \<Longrightarrow> heap_wf (new_objects vs h)"
  by (simp add: heap_wf_def new_objects_def)

lemma make_tuple_eq: "make_tuple vs h = ([dm_next h ..< dm_next h + length vs], new_objects vs h)"
proof (induction vs arbitrary: h)
  case (Cons v vs)
  have "[dm_next h ..< dm_next h + length (v # vs)] = dm_next h # [Suc (dm_next h) ..< Suc (dm_next h) + length vs]"
    by (subst upt_conv_Cons) simp_all
  moreover obtain h1 where "new_cell (Object v) h = (dm_next h, h1)" "dm_next h1 = Suc (dm_next h)"
    by (simp add: new_cell_def)
  ultimately show ?case by (simp only: make_tuple.simps make_unique_ref_def new_objects_Cons Cons.IH prod.case snd_conv)
qed simp

definition tuple_valid :: "nat list \<Rightarrow> 'a dm_heap \<Rightarrow> bool" where
  "tuple_valid ps h \<longleftrightarrow> distinct ps \<and> (\<forall>p \<in> set ps. \<exists>v. dm_cells h p = Some (Object v))"

definition tuple_owned :: "nat list \<Rightarrow> 'a dm_heap \<Rightarrow> nat multiset" where
  "tuple_owned ps h = mset ps"

lemma delete_object_valid: "dm_cells h p = Some (Object v) \<Longrightarrow> delete_object p h = Inr (clear_cell p h)"
  by (simp add: delete_object_def)

lemma tuple_dtor_eq:
  "tuple_valid ps h \<Longrightarrow> tuple_dtor ps h = Inr (h\<lparr>dm_cells := \<lambda>a. if a \<in> set ps then None else dm_cells h a\<rparr>)"
proof (induction ps arbitrary: h)
  case (Cons p ps)
  then obtain v where "dm_cells h p = Some (Object v)" by (auto simp: tuple_valid_def)
  moreover have "tuple_valid ps (clear_cell p h)" using Cons.prems by (auto simp: tuple_valid_def clear_cell_def)
  ultimately show ?case using Cons.IH [of "clear_cell p h"]
    by (auto simp: delete_object_def) (auto simp: clear_cell_def fun_eq_iff intro!: dm_heap.equality)
qed simp

lemma tuple_steal_eq: "tuple_steal ps = Inr ps"
  by (induction ps) (simp_all add: unique_ref_from_val_eq val_steal_def Let_def)

lemma tuple_from_val_eq:
  "v_is_set v \<Longrightarrow> v_storage v = Some ps \<Longrightarrow> tuple_from_val v = Ok ps (v\<lparr>v_is_set := False\<rparr>)"
  "\<not> v_is_set v \<Longrightarrow> tuple_from_val v = Fault Terminated"
  by (simp_all add: tuple_from_val_def tuple_steal_eq val_require_def val_get_def val_release_def outcome_defs)

lemma count_upt: "count (mset_set {i ..< j}) a = (if i \<le> a \<and> a < (j :: nat) then 1 else 0)"
  by (simp add: count_mset_set')

interpretation tuple: destructible make_tuple tuple_dtor tuple_from_val tuple_valid tuple_owned
proof
  show "tuple_valid r h \<Longrightarrow> tuple_dtor r h = Inr (h\<lparr>dm_cells := \<lambda>a. if a \<in># tuple_owned r h then None else dm_cells h a\<rparr>)"
    for r and h :: "'a dm_heap" by (simp add: tuple_dtor_eq tuple_owned_def)
  show "tuple_valid r h \<Longrightarrow> (\<And>a. a \<in># tuple_owned r h \<Longrightarrow> dm_cells h' a = dm_cells h a) \<Longrightarrow>
      tuple_valid r h' \<and> tuple_owned r h' = tuple_owned r h" for r and h h' :: "'a dm_heap"
    by (simp add: tuple_valid_def tuple_owned_def)
  show "heap_wf h \<Longrightarrow> make_tuple p h = (r, h') \<Longrightarrow> heap_wf h' \<and> tuple_valid r h' \<and>
      (\<forall>a. dm_cells h a \<noteq> None \<longrightarrow> dm_cells h' a = dm_cells h a) \<and>
      (\<forall>a. count (tuple_owned r h') a = (if dm_cells h a = None \<and> dm_cells h' a \<noteq> None then 1 else 0))"
    for p r and h h' :: "'a dm_heap"
    using new_objects_wf [of h p]
    by (auto simp: make_tuple_eq tuple_valid_def tuple_owned_def count_upt new_objects_def heap_wf_def split: if_splits)
qed (simp_all add: tuple_from_val_eq)

definition array_heap :: "nat \<Rightarrow> nat list \<Rightarrow> 'a list \<Rightarrow> 'a dm_heap \<Rightarrow> 'a dm_heap" where
  "array_heap block ps vs h = (let h' = new_objects vs h
     in h'\<lparr>dm_cells := (dm_cells h')(block := Some (Block (ps @ [dm_next h ..< dm_next h + length vs])))\<rparr>)"

lemma generate_elements_eq:
  "dm_cells h block = Some (Block ps) \<Longrightarrow> block < dm_next h \<Longrightarrow> length ps = i + length vs \<Longrightarrow>
   generate_elements block i vs h = array_heap block (take i ps) vs h"
proof (induction vs arbitrary: i ps h)
  case Nil
  then show ?case by (auto simp: array_heap_def fun_upd_idem intro!: dm_heap.equality)
next
  case (Cons v vs)
  let ?n = "dm_next h"
  let ?h1 = "\<lparr>dm_cells = (dm_cells h)(?n := Some (Object v)), dm_next = Suc ?n\<rparr>"
  let ?h2 = "?h1\<lparr>dm_cells := (dm_cells ?h1)(block := Some (Block (ps[i := ?n])))\<rparr>"
  from Cons.prems have i: "i < length ps" by simp
  have "generate_elements block i (v # vs) h = generate_elements block (Suc i) vs ?h2"
    using Cons.prems by (simp add: make_unique_ref_def new_cell_def store_element_def)
  also have "\<dots> = array_heap block (take (Suc i) (ps[i := ?n])) vs ?h2"
    using Cons.prems by (intro Cons.IH) simp_all
  also have "take (Suc i) (ps[i := ?n]) = take i ps @ [?n]"
    using i by (simp add: take_Suc_conv_app_nth)
  also have "array_heap block (take i ps @ [?n]) vs ?h2 = array_heap block (take i ps) (v # vs) h"
  proof -
    have "[?n ..< ?n + length (v # vs)] = ?n # [Suc ?n ..< Suc ?n + length vs]" by (subst upt_conv_Cons) simp_all
    then show ?thesis
      using Cons.prems(2)
      by (auto simp: array_heap_def Let_def new_objects_def fun_eq_iff nth_Cons' simp del: upt_Suc intro!: dm_heap.equality)
  qed
  finally show ?case .
qed

lemma make_dynamic_array_eq:
  "make_dynamic_array vs h = (let b = dm_next h; h1 = snd (new_cell (Block (replicate (length vs) 0)) h)
     in (\<lparr>da_length = length vs, da_elements = b\<rparr>, array_heap b [] vs h1))"
  using generate_elements_eq [of "snd (new_cell (Block (replicate (length vs) 0)) h)" "dm_next h" "replicate (length vs) 0" 0 vs]
  by (simp add: make_dynamic_array_def allocate_array_storage_def new_cell_def Let_def)

definition array_valid :: "dynamic_array \<Rightarrow> 'a dm_heap \<Rightarrow> bool" where
  "array_valid d h \<longleftrightarrow> (\<exists>ps. dm_cells h (da_elements d) = Some (Block ps) \<and> length ps = da_length d \<and> tuple_valid ps h)"

definition array_owned :: "dynamic_array \<Rightarrow> 'a dm_heap \<Rightarrow> nat multiset" where
  "array_owned d h = (case dm_cells h (da_elements d) of Some (Block ps) \<Rightarrow> add_mset (da_elements d) (mset ps) | _ \<Rightarrow> {#})"

lemma destroy_elements_eq:
  "k \<le> length ps \<Longrightarrow> tuple_valid (take k ps) h \<Longrightarrow>
   destroy_elements ps k h = Inr (h\<lparr>dm_cells := \<lambda>a. if a \<in> set (take k ps) then None else dm_cells h a\<rparr>)"
proof (induction k arbitrary: h)
  case (Suc k)
  then have t: "take (Suc k) ps = take k ps @ [ps ! k]" by (simp add: take_Suc_conv_app_nth)
  with Suc.prems obtain v where v: "dm_cells h (ps ! k) = Some (Object v)" by (auto simp: tuple_valid_def)
  have "tuple_valid (take k ps) (clear_cell (ps ! k) h)" using Suc.prems t by (auto simp: tuple_valid_def clear_cell_def)
  with Suc.IH [of "clear_cell (ps ! k) h"] Suc.prems(1) v t show ?case
    by (auto simp: delete_object_valid) (auto simp: clear_cell_def fun_eq_iff intro!: dm_heap.equality)
qed simp

lemma dynamic_array_from_val_eq:
  "v_is_set v \<Longrightarrow> v_storage v = Some d \<Longrightarrow> dynamic_array_from_val v = Ok d (v\<lparr>v_is_set := False\<rparr>)"
  "\<not> v_is_set v \<Longrightarrow> dynamic_array_from_val v = Fault Terminated"
  by (simp_all add: dynamic_array_from_val_def val_transfer_def val_steal_def val_require_def val_get_def val_release_def outcome_defs Let_def)

interpretation dynamic_array: destructible make_dynamic_array dynamic_array_dtor dynamic_array_from_val array_valid array_owned
proof
  show "dynamic_array_dtor r h = Inr (h\<lparr>dm_cells := \<lambda>a. if a \<in># array_owned r h then None else dm_cells h a\<rparr>)"
    if "array_valid r h" for r and h :: "'a dm_heap"
  proof -
    from that obtain ps where ps: "dm_cells h (da_elements r) = Some (Block ps)" "length ps = da_length r" "tuple_valid ps h"
      by (auto simp: array_valid_def)
    then have "da_elements r \<notin> set ps" by (auto simp: tuple_valid_def)
    with ps destroy_elements_eq [of "da_length r" ps h] show ?thesis
      by (auto simp: dynamic_array_dtor_def free_block_def array_owned_def clear_cell_def fun_eq_iff intro!: dm_heap.equality)
  qed
  show "array_valid r h' \<and> array_owned r h' = array_owned r h"
    if "array_valid r h" "\<And>a. a \<in># array_owned r h \<Longrightarrow> dm_cells h' a = dm_cells h a" for r and h h' :: "'a dm_heap"
  proof -
    from that(1) obtain ps where ps: "dm_cells h (da_elements r) = Some (Block ps)" "length ps = da_length r" "tuple_valid ps h"
      by (auto simp: array_valid_def)
    with that(2) show ?thesis by (auto simp: array_valid_def array_owned_def tuple_valid_def)
  qed
  show "heap_wf h' \<and> array_valid r h' \<and>
      (\<forall>a. dm_cells h a \<noteq> None \<longrightarrow> dm_cells h' a = dm_cells h a) \<and>
      (\<forall>a. count (array_owned r h') a = (if dm_cells h a = None \<and> dm_cells h' a \<noteq> None then 1 else 0))"
    if "heap_wf h" "make_dynamic_array p h = (r, h')" for p r and h h' :: "'a dm_heap"
    using that
    by (auto simp: make_dynamic_array_eq array_heap_def new_objects_def new_cell_def Let_def heap_wf_def array_valid_def
        tuple_valid_def array_owned_def count_upt Suc_le_eq split: if_splits)
qed (simp_all add: dynamic_array_from_val_eq)

section \<open>Properties\<close>

text \<open>
  C8: any program that makes, moves, assigns (also to itself), requires, converts and destroys values of
  destructively moved objects destroys each object and frees each block exactly once: it never
  touches a dead cell, and nothing is left when its variables are gone.  The only fault is the termination
  when an object is constructed from an empty value.  This holds for \<open>unique_ref\<close>, for a \<open>dynamic_array\<close> and for a
  \<open>tuple\<close> of them.
\<close>

theorem destructive_moves_balanced:
  "(case dm_program_run make_unique_ref delete_object unique_ref_from_val cs of
      Inl f \<Rightarrow> f = Terminated \<and> (\<exists>i. Dm_Construct i \<in> set cs) | Inr s \<Rightarrow> \<forall>a. dm_cells (dm_heap s) a = None) \<and>
   (case dm_program_run make_dynamic_array dynamic_array_dtor dynamic_array_from_val ds of
      Inl f \<Rightarrow> f = Terminated \<and> (\<exists>i. Dm_Construct i \<in> set ds) | Inr s \<Rightarrow> \<forall>a. dm_cells (dm_heap s) a = None) \<and>
   (case dm_program_run make_tuple tuple_dtor tuple_from_val es of
      Inl f \<Rightarrow> f = Terminated \<and> (\<exists>i. Dm_Construct i \<in> set es) | Inr s \<Rightarrow> \<forall>a. dm_cells (dm_heap s) a = None)"
  using unique_ref.dm_program_run_balanced [of cs] dynamic_array.dm_program_run_balanced [of ds] tuple.dm_program_run_balanced [of es]
  by blast

text \<open>What \<open>get<i>\<close> of a tuple that was made of values refers to is the object with the value \<open>i\<close>.\<close>

theorem tuple_get_made:
  assumes "make_tuple vs h = (ps, h')" "i < length vs"
  shows "\<exists>p. tuple_get i ps = Some p \<and> dm_cells h' p = Some (Object (vs ! i))"
proof -
  have "tuple_get i ps = Some (ps ! i)" if "i < length ps" for i and ps :: "nat list"
    using that by (induction i ps rule: tuple_get.induct) auto
  with assms show ?thesis by (auto simp: make_tuple_eq new_objects_def)
qed

lemma tuple_get_made_witness: "\<exists>p. tuple_get 1 [0, 1] = Some p \<and> dm_cells (snd (make_tuple ''ab'' dm_empty_heap)) p = Some (Object (CHR ''b''))"
proof -
  have "make_tuple ''ab'' dm_empty_heap = ([0, 1], snd (make_tuple ''ab'' dm_empty_heap))"
    by (simp add: make_tuple_eq dm_empty_heap_def numeral_2_eq_2)
  from tuple_get_made [OF this, of 1] show ?thesis by simp
qed

end
