(* ===== verification/Dsl.thy ===== *)
theory Dsl
  imports Main
begin

text \<open>
  \<open>test/dsl.cpp\<close>: a language of calls on one variable, whose C++ types keep track of whether the variable still
  has its value, so that its use after a move does not compile.  What the compiler computes on types is a
  function here, \<open>None\<close> where a static assertion fails or no specialisation fits.
\<close>

section \<open>Types\<close>

record dsl_variable =
  var_name :: string
  has_value :: bool

text \<open>An argument, \<open>ref(x)\<close> or \<open>move(x)\<close>.\<close>

datatype dsl_argument = Ref_Expression string | Move_Expression string

fun evaluate_argument :: "dsl_variable \<Rightarrow> dsl_argument \<Rightarrow> dsl_variable option" where
  "evaluate_argument v (Move_Expression x) = (if var_name v = x \<and> has_value v then Some (v\<lparr>has_value := False\<rparr>) else None)"
| "evaluate_argument v (Ref_Expression x) = (if var_name v = x \<and> has_value v then Some v else None)"

section \<open>Programs\<close>

text \<open>
  A function that takes a reference works on the variable, which is \<open>None\<close> after it was moved from; one
  that takes a value gets it.  \<open>'w\<close> is what else the functions work on.
\<close>

datatype ('v, 'w) dsl_call =
    Call_Ref "'v option \<Rightarrow> 'w \<Rightarrow> 'v option \<times> 'w" string
  | Call_Move "'v option \<Rightarrow> 'w \<Rightarrow> 'w" string

fun call_argument :: "('v, 'w) dsl_call \<Rightarrow> dsl_argument" where
  "call_argument (Call_Ref f x) = Ref_Expression x"
| "call_argument (Call_Move f x) = Move_Expression x"

datatype ('v, 'w) entry_point = Null_Statement | Sequence "('v, 'w) entry_point" "('v, 'w) dsl_call"

record ('v, 'w) dsl_program =
  variables_of :: dsl_variable
  entry :: "('v, 'w) entry_point"

definition declare_variable :: "string \<Rightarrow> ('v, 'w) dsl_program" where
  "declare_variable x = \<lparr>variables_of = \<lparr>var_name = x, has_value = True\<rparr>, entry = Null_Statement\<rparr>"

text \<open>The operator comma.\<close>

definition dsl_comma :: "('v, 'w) dsl_program \<Rightarrow> ('v, 'w) dsl_call \<Rightarrow> ('v, 'w) dsl_program option" where
  "dsl_comma p c = (case evaluate_argument (variables_of p) (call_argument c) of
      None \<Rightarrow> None
    | Some v \<Rightarrow> Some \<lparr>variables_of = v, entry = Sequence (entry p) c\<rparr>)"

fun dsl_commas :: "('v, 'w) dsl_program \<Rightarrow> ('v, 'w) dsl_call list \<Rightarrow> ('v, 'w) dsl_program option" where
  "dsl_commas p [] = Some p"
| "dsl_commas p (c # cs) = (case dsl_comma p c of None \<Rightarrow> None | Some q \<Rightarrow> dsl_commas q cs)"

text \<open>
  \<open>evaluate\<close>: the memory is a reference to the argument of the program.  What the functions were
  called with is recorded in order.
\<close>

fun evaluate_call :: "('v, 'w) dsl_call \<Rightarrow> 'v option \<Rightarrow> 'w \<Rightarrow> 'v option \<times> 'v option \<times> 'w" where
  "evaluate_call (Call_Ref f x) location w = (case f location w of (location', w') \<Rightarrow> (location, location', w'))"
| "evaluate_call (Call_Move f x) location w = (location, None, f location w)"

fun evaluate :: "('v, 'w) entry_point \<Rightarrow> 'v option \<Rightarrow> 'w \<Rightarrow> 'v option list \<times> 'v option \<times> 'w" where
  "evaluate Null_Statement location w = ([], location, w)"
| "evaluate (Sequence e c) location w = (case evaluate e location w of
      (got, location1, w1) \<Rightarrow> (case evaluate_call c location1 w1 of
        (got1, location2, w2) \<Rightarrow> (got @ [got1], location2, w2)))"

text \<open>
  \<open>program::operator()\<close>: an empty program does not access the memory, any other one needs it to be that of the
  variable, or it does not compile.
\<close>

definition run_dsl_program :: "('v, 'w) dsl_program \<Rightarrow> string \<Rightarrow> 'v \<Rightarrow> 'w \<Rightarrow> ('v option list \<times> 'v option \<times> 'w) option" where
  "run_dsl_program p x argument w =
     (if var_name (variables_of p) = x \<or> (case entry p of Null_Statement \<Rightarrow> True | Sequence e c \<Rightarrow> False)
      then Some (evaluate (entry p) (Some argument) w) else None)"

section \<open>Soundness\<close>

fun is_move :: "('v, 'w) dsl_call \<Rightarrow> bool" where
  "is_move (Call_Ref f x) = False"
| "is_move (Call_Move f x) = True"

fun call_name :: "('v, 'w) dsl_call \<Rightarrow> string" where
  "call_name (Call_Ref f x) = x"
| "call_name (Call_Move f x) = x"

text \<open>The functions that take a reference leave a value there.\<close>

fun keeps_value :: "('v, 'w) dsl_call \<Rightarrow> bool" where
  "keeps_value (Call_Ref f x) = (\<forall>v w. fst (f (Some v) w) \<noteq> None)"
| "keeps_value (Call_Move f x) = True"

fun entry_calls :: "('v, 'w) entry_point \<Rightarrow> ('v, 'w) dsl_call list" where
  "entry_calls Null_Statement = []"
| "entry_calls (Sequence e c) = entry_calls e @ [c]"

lemma dsl_comma_eq:
  "dsl_comma p c = (if call_name c = var_name (variables_of p) \<and> has_value (variables_of p)
     then Some \<lparr>variables_of = \<lparr>var_name = var_name (variables_of p), has_value = \<not> is_move c\<rparr>, entry = Sequence (entry p) c\<rparr>
     else None)"
  by (cases c) (auto simp: dsl_comma_def)

text \<open>Which sequences of calls compile.\<close>

fun no_use_after_move :: "('v, 'w) dsl_call list \<Rightarrow> bool" where
  "no_use_after_move [] = True"
| "no_use_after_move (c # cs) = ((is_move c \<longrightarrow> cs = []) \<and> no_use_after_move cs)"

lemma dsl_commas_compiles:
  "dsl_commas p cs \<noteq> None \<longleftrightarrow> (\<forall>c \<in> set cs. call_name c = var_name (variables_of p)) \<and>
     (cs = [] \<or> has_value (variables_of p) \<and> no_use_after_move cs)"
proof (induction cs arbitrary: p)
  case (Cons c cs)
  let ?q = "\<lparr>variables_of = \<lparr>var_name = var_name (variables_of p), has_value = \<not> is_move c\<rparr>, entry = Sequence (entry p) c\<rparr>"
  show ?case
  proof (cases "call_name c = var_name (variables_of p) \<and> has_value (variables_of p)")
    case True
    then have "dsl_commas p (c # cs) = dsl_commas ?q cs" by (simp add: dsl_comma_eq)
    with Cons.IH [of ?q] True show ?thesis by auto
  qed (auto simp: dsl_comma_eq)
qed simp

lemma dsl_commas_entry: "dsl_commas p cs = Some q \<Longrightarrow> entry_calls (entry q) = entry_calls (entry p) @ cs \<and> var_name (variables_of q) = var_name (variables_of p)"
  by (induction cs arbitrary: p) (auto simp: dsl_comma_eq split: if_splits)

text \<open>
  The meaning of a list of calls: each function is called once, in the order of the list, on what is in the variable and
  on what the functions before it have left of the rest.
\<close>

fun calls_in_order :: "('v, 'w) dsl_call list \<Rightarrow> 'v option \<Rightarrow> 'w \<Rightarrow> 'v option list \<times> 'v option \<times> 'w" where
  "calls_in_order [] location w = ([], location, w)"
| "calls_in_order (Call_Ref f x # cs) location w =
     (let (got, result) = calls_in_order cs (fst (f location w)) (snd (f location w)) in (location # got, result))"
| "calls_in_order (Call_Move f x # cs) location w =
     (let (got, result) = calls_in_order cs None (f location w) in (location # got, result))"

lemma calls_in_order_append:
  "calls_in_order (cs @ ds) location w = (case calls_in_order cs location w of
     (got, location1, w1) \<Rightarrow> (case calls_in_order ds location1 w1 of (got1, result) \<Rightarrow> (got @ got1, result)))"
  by (induction cs location w rule: calls_in_order.induct) (auto simp: Let_def split: prod.splits)

lemma evaluate_eq: "evaluate e location w = calls_in_order (entry_calls e) location w"
proof (induction e arbitrary: location w)
  case (Sequence e c)
  then show ?case by (cases c) (auto simp: calls_in_order_append Let_def split: prod.splits)
qed simp

text \<open>Typing: the variable has a value as long as the type says so.\<close>

lemma evaluate_sound:
  "evaluate e (Some v) w = (got, location, w') \<Longrightarrow> list_all keeps_value (entry_calls e) \<Longrightarrow> no_use_after_move (entry_calls e) \<Longrightarrow>
   None \<notin> set got \<and> length got = length (entry_calls e) \<and> (list_all (\<lambda>c. \<not> is_move c) (entry_calls e) \<longrightarrow> location \<noteq> None)"
proof (induction e arbitrary: got location w')
  case (Sequence e c)
  have butlast: "no_use_after_move (cs @ [c]) \<Longrightarrow> no_use_after_move cs \<and> list_all (\<lambda>c. \<not> is_move c) cs" for cs
    by (induction cs) auto
  obtain got1 l1 w1 where e: "evaluate e (Some v) w = (got1, l1, w1)" by (cases "evaluate e (Some v) w")
  from Sequence.IH [OF e] Sequence.prems butlast have "None \<notin> set got1" "length got1 = length (entry_calls e)" "l1 \<noteq> None" by auto
  with Sequence.prems e show ?case by (cases c) (auto split: prod.splits, metis fst_conv)
qed simp

text \<open>
  C10: a program in the language compiles exactly if every call names the declared variable and no call
  follows one that moves it; running such a program calls its functions once each in the order in which they
  are written, each on the world that the one before it has left, and each finds the value, provided that the
  functions which take a reference leave one there.
\<close>

theorem dsl_type_sound:
  "(dsl_commas (declare_variable x) cs \<noteq> None \<longleftrightarrow> (\<forall>c \<in> set cs. call_name c = x) \<and> no_use_after_move cs) \<and>
   (dsl_commas (declare_variable x) cs = Some p \<longrightarrow>
     run_dsl_program p x v w = Some (calls_in_order cs (Some v) w) \<and>
     (list_all keeps_value cs \<longrightarrow> None \<notin> set (fst (calls_in_order cs (Some v) w))))"
proof (intro conjI impI)
  show "dsl_commas (declare_variable x) cs \<noteq> None \<longleftrightarrow> (\<forall>c \<in> set cs. call_name c = x) \<and> no_use_after_move cs"
    using dsl_commas_compiles [of "declare_variable x" cs] by (auto simp: declare_variable_def)
  assume p: "dsl_commas (declare_variable x) cs = Some p"
  then have calls: "entry_calls (entry p) = cs" "var_name (variables_of p) = x"
    using dsl_commas_entry [OF p] by (simp_all add: declare_variable_def)
  then show "run_dsl_program p x v w = Some (calls_in_order cs (Some v) w)"
    by (simp add: run_dsl_program_def evaluate_eq)
  assume "list_all keeps_value cs"
  moreover have "no_use_after_move cs" using dsl_commas_compiles [of "declare_variable x" cs] p by auto
  ultimately show "None \<notin> set (fst (calls_in_order cs (Some v) w))"
    using evaluate_sound [of "entry p" v w] calls
    by (cases "calls_in_order cs (Some v) w") (auto simp: evaluate_eq)
qed

lemma dsl_type_sound_witness:
  "dsl_commas (declare_variable ''x'') [Call_Move (\<lambda>v w. w + 1) ''x'', Call_Ref (\<lambda>v w. (v, w)) ''x'' :: (int, int) dsl_call] = None \<and>
   (\<exists>p. dsl_commas (declare_variable ''x'') [Call_Ref (\<lambda>v w. (v, w + 1)) ''x'', Call_Move (\<lambda>v w. 2 * w) ''x''] = Some p \<and>
     run_dsl_program p ''x'' (123 :: int) (5 :: int) = Some ([Some 123, Some 123], None, 12))"
proof -
  let ?bad = "[Call_Move (\<lambda>v w. w + 1) ''x'', Call_Ref (\<lambda>v w. (v, w)) ''x''] :: (int, int) dsl_call list"
  let ?good = "[Call_Ref (\<lambda>v w. (v, w + 1)) ''x'', Call_Move (\<lambda>v w. 2 * w) ''x''] :: (int, int) dsl_call list"
  from dsl_type_sound [of "''x''" ?bad] have "dsl_commas (declare_variable ''x'') ?bad = None" by simp
  moreover have "dsl_commas (declare_variable ''x'') ?good \<noteq> None"
    using dsl_type_sound [of "''x''" ?good] by (simp del: dsl_commas.simps not_None_eq)
  then obtain p where "dsl_commas (declare_variable ''x'') ?good = Some p" by blast
  moreover note dsl_type_sound [of "''x''" ?good p 123 5]
  ultimately show ?thesis by (auto simp del: dsl_commas.simps simp: Let_def)
qed

end
