(* ===== verification/Trait_Boxes.thy ===== *)
theory Trait_Boxes
  imports Silicium_Prelude "HOL-Library.Multiset"
begin

text \<open>
  \<open>trait.hpp\<close>: what the macro \<open>SILICIUM_TRAIT\<close> generates for a list of methods.  An \<open>eraser\<close> holds an object and
  forwards the methods to it; a \<open>box\<close> owns an eraser on the heap through a \<open>std::unique_ptr\<close> and forwards
  to that.  The methods are one parameter, \<open>invoke\<close>, a function of the call (the method and its
  arguments) and the object, which may throw; \<open>specifier\<close> says which calls are of a method that has been
  declared \<open>noexcept\<close>.  The preprocessor loops that paste one method after the other are not modelled.
\<close>

section \<open>Erasers\<close>

record 'o eraser =
  er_original :: 'o

text \<open>
  The constructor moves its parameter into the member.  \<open>erase\<close> constructs that parameter from its argument, by
  moving an rvalue or by copying, before.
\<close>

definition eraser_ctor :: "('o, 'e) element_type \<Rightarrow> 'o \<Rightarrow> 'e + 'o eraser" where
  "eraser_ctor t obj = (case move_construct t obj of Inl (e, _) \<Rightarrow> Inl e | Inr (obj', _) \<Rightarrow> Inr \<lparr>er_original = obj'\<rparr>)"

definition erase :: "('o, 'e) element_type \<Rightarrow> bool \<Rightarrow> 'o \<Rightarrow> 'e + 'o eraser" where
  "erase t is_rvalue obj =
     (if is_rvalue then (case move_construct t obj of Inl (e, _) \<Rightarrow> Inl e | Inr (parameter, _) \<Rightarrow> eraser_ctor t parameter)
      else (case copy_construct t obj of Inl e \<Rightarrow> Inl e | Inr parameter \<Rightarrow> eraser_ctor t parameter))"

text \<open>The defaulted move operations: the new object and what is left of the other, or an exception.\<close>

definition eraser_move_ctor :: "('o, 'e) element_type \<Rightarrow> 'o eraser \<Rightarrow> ('e \<times> 'o eraser) + ('o eraser \<times> 'o eraser)" where
  "eraser_move_ctor t other = (case move_construct t (er_original other) of
      Inl (e, old) \<Rightarrow> Inl (e, other\<lparr>er_original := old\<rparr>)
    | Inr (obj, old) \<Rightarrow> Inr (\<lparr>er_original = obj\<rparr>, other\<lparr>er_original := old\<rparr>))"

definition eraser_move_assign ::
    "('o, 'e) element_type \<Rightarrow> 'o eraser \<Rightarrow> 'o eraser \<Rightarrow> ('e \<times> 'o eraser \<times> 'o eraser) + ('o eraser \<times> 'o eraser)" where
  "eraser_move_assign t this other = (case move_assign t (er_original this) (er_original other) of
      Inl (e, obj, old) \<Rightarrow> Inl (e, this\<lparr>er_original := obj\<rparr>, other\<lparr>er_original := old\<rparr>)
    | Inr (obj, old) \<Rightarrow> Inr (this\<lparr>er_original := obj\<rparr>, other\<lparr>er_original := old\<rparr>))"

text \<open>A method.\<close>

definition specified :: "('a \<Rightarrow> bool) \<Rightarrow> 'a \<Rightarrow> ('s, 'x, 'r) op \<Rightarrow> ('s, 'x, 'r) op" where
  "specified specifier call m = (if specifier call then noexcept m else m)"

definition eraser_call :: "('a \<Rightarrow> bool) \<Rightarrow> ('a \<Rightarrow> ('o, 'x, 'r) op) \<Rightarrow> 'a \<Rightarrow> ('o eraser, 'x, 'r) op" where
  "eraser_call specifier invoke call = specified specifier call (\<lambda>e. case invoke call (er_original e) of
      Ok r obj \<Rightarrow> Ok r (e\<lparr>er_original := obj\<rparr>)
    | Raise x obj \<Rightarrow> Raise x (e\<lparr>er_original := obj\<rparr>)
    | Fault f \<Rightarrow> Fault f)"

section \<open>Boxes\<close>

text \<open>The heap of erasers; a box is a pointer into it that may be null.\<close>

record 'o eraser_heap =
  erasers :: "nat \<Rightarrow> 'o eraser option"
  next_eraser :: nat

record trait_box =
  box_original :: "nat option"

definition box_default :: trait_box where
  "box_default = \<lparr>box_original = None\<rparr>"

definition box_ctor :: "nat option \<Rightarrow> trait_box" where
  "box_ctor original = \<lparr>box_original = original\<rparr>"

text \<open>\<open>to_unique\<close> moves the eraser to the heap; if that throws the memory is given back.\<close>

definition box_to_unique :: "('o, 'e) element_type \<Rightarrow> 'o eraser \<Rightarrow> 'o eraser_heap \<Rightarrow> 'e + nat \<times> 'o eraser_heap" where
  "box_to_unique t e h = (case eraser_move_ctor t e of
      Inl (x, _) \<Rightarrow> Inl x
    | Inr (e', _) \<Rightarrow> Inr (next_eraser h, \<lparr>erasers = (erasers h)(next_eraser h := Some e'), next_eraser = Suc (next_eraser h)\<rparr>))"

definition make_box :: "('o, 'e) element_type \<Rightarrow> bool \<Rightarrow> 'o \<Rightarrow> 'o eraser_heap \<Rightarrow> 'e + trait_box \<times> 'o eraser_heap" where
  "make_box t is_rvalue obj h = (case erase t is_rvalue obj of
      Inl x \<Rightarrow> Inl x
    | Inr e \<Rightarrow> (case box_to_unique t e h of Inl x \<Rightarrow> Inl x | Inr (p, h') \<Rightarrow> Inr (box_ctor (Some p), h')))"

definition delete_eraser :: "nat \<Rightarrow> 'o eraser_heap \<Rightarrow> fault + 'o eraser_heap" where
  "delete_eraser p h = (case erasers h p of None \<Rightarrow> Inl Dead_Object | Some _ \<Rightarrow> Inr (h\<lparr>erasers := (erasers h)(p := None)\<rparr>))"

text \<open>The moves and the destructor are those of \<open>std::unique_ptr\<close>; an assignment is \<open>reset(other.release())\<close>.\<close>

definition box_move_ctor :: "trait_box \<Rightarrow> trait_box \<times> trait_box" where
  "box_move_ctor other = (other, other\<lparr>box_original := None\<rparr>)"

definition box_move_assign :: "nat \<Rightarrow> nat \<Rightarrow> trait_box list \<Rightarrow> 'o eraser_heap \<Rightarrow> fault + trait_box list \<times> 'o eraser_heap" where
  "box_move_assign this other boxes h =
     (let p = box_original (boxes ! other);
          boxes1 = boxes[other := (boxes ! other)\<lparr>box_original := None\<rparr>];
          old = box_original (boxes1 ! this);
          boxes2 = boxes1[this := (boxes1 ! this)\<lparr>box_original := p\<rparr>]
      in case old of
          None \<Rightarrow> Inr (boxes2, h)
        | Some q \<Rightarrow> (case delete_eraser q h of Inl f \<Rightarrow> Inl f | Inr h' \<Rightarrow> Inr (boxes2, h')))"

definition box_dtor :: "trait_box \<Rightarrow> 'o eraser_heap \<Rightarrow> fault + 'o eraser_heap" where
  "box_dtor b h = (case box_original b of None \<Rightarrow> Inr h | Some p \<Rightarrow> delete_eraser p h)"

definition box_call :: "('a \<Rightarrow> bool) \<Rightarrow> ('a \<Rightarrow> ('o, 'x, 'r) op) \<Rightarrow> 'a \<Rightarrow> trait_box \<Rightarrow> ('o eraser_heap, 'x, 'r) op" where
  "box_call specifier invoke call b = specified specifier call (\<lambda>h. case box_original b of
      None \<Rightarrow> Fault Assertion_Failed
    | Some p \<Rightarrow> (case erasers h p of
          None \<Rightarrow> Fault Dead_Object
        | Some e \<Rightarrow> (case eraser_call specifier invoke call e of
              Ok r e' \<Rightarrow> Ok r (h\<lparr>erasers := (erasers h)(p := Some e')\<rparr>)
            | Raise x e' \<Rightarrow> Raise x (h\<lparr>erasers := (erasers h)(p := Some e')\<rparr>)
            | Fault f \<Rightarrow> Fault f)))"

section \<open>Programs\<close>

text \<open>
  Boxes are made, moved, assigned, called and destroyed, the youngest first.  A program catches what is
  thrown and goes on; a step for a box that does not exist does nothing.
\<close>

datatype ('o, 'a) box_step = Box_Default | Box_Make bool 'o | Box_Move nat | Box_Assign nat nat | Box_Call nat 'a | Box_Destroy

type_synonym 'o box_state = "trait_box list \<times> 'o eraser_heap"

fun box_exec ::
    "('o, 'e) element_type \<Rightarrow> ('a \<Rightarrow> bool) \<Rightarrow> ('a \<Rightarrow> ('o, 'x, 'r) op) \<Rightarrow> ('o, 'a) box_step \<Rightarrow> 'o box_state \<Rightarrow> fault + 'o box_state" where
  "box_exec t specifier invoke Box_Default (boxes, h) = Inr (boxes @ [box_default], h)"
| "box_exec t specifier invoke (Box_Make is_rvalue obj) (boxes, h) = (case make_box t is_rvalue obj h of
      Inl _ \<Rightarrow> Inr (boxes, h) | Inr (b, h') \<Rightarrow> Inr (boxes @ [b], h'))"
| "box_exec t specifier invoke (Box_Move i) (boxes, h) =
     (if i < length boxes then (case box_move_ctor (boxes ! i) of (b, other) \<Rightarrow> Inr (boxes[i := other] @ [b], h)) else Inr (boxes, h))"
| "box_exec t specifier invoke (Box_Assign i j) (boxes, h) =
     (if i < length boxes \<and> j < length boxes then box_move_assign i j boxes h else Inr (boxes, h))"
| "box_exec t specifier invoke (Box_Call i call) (boxes, h) =
     (if i < length boxes then (case box_call specifier invoke call (boxes ! i) h of
          Ok _ h' \<Rightarrow> Inr (boxes, h') | Raise _ h' \<Rightarrow> Inr (boxes, h') | Fault f \<Rightarrow> Inl f)
      else Inr (boxes, h))"
| "box_exec t specifier invoke Box_Destroy (boxes, h) =
     (if boxes = [] then Inr (boxes, h)
      else (case box_dtor (last boxes) h of Inl f \<Rightarrow> Inl f | Inr h' \<Rightarrow> Inr (butlast boxes, h')))"

fun box_run ::
    "('o, 'e) element_type \<Rightarrow> ('a \<Rightarrow> bool) \<Rightarrow> ('a \<Rightarrow> ('o, 'x, 'r) op) \<Rightarrow> ('o, 'a) box_step list \<Rightarrow> 'o box_state \<Rightarrow> fault + 'o box_state" where
  "box_run t specifier invoke [] w = Inr w"
| "box_run t specifier invoke (c # cs) w = (case box_exec t specifier invoke c w of
      Inl f \<Rightarrow> Inl f | Inr w' \<Rightarrow> box_run t specifier invoke cs w')"

definition box_start :: "'o box_state" where
  "box_start = ([], \<lparr>erasers = (\<lambda>_. None), next_eraser = 0\<rparr>)"

text \<open>The end of the program, where the boxes that are left go out of scope.\<close>

definition box_program ::
    "('o, 'e) element_type \<Rightarrow> ('a \<Rightarrow> bool) \<Rightarrow> ('a \<Rightarrow> ('o, 'x, 'r) op) \<Rightarrow> ('o, 'a) box_step list \<Rightarrow> fault + 'o box_state" where
  "box_program t specifier invoke cs = (case box_run t specifier invoke cs box_start of
      Inl f \<Rightarrow> Inl f
    | Inr (boxes, h) \<Rightarrow> box_run t specifier invoke (replicate (length boxes) Box_Destroy) (boxes, h))"

text \<open>Every eraser on the heap belongs to exactly one box, and no box points to anything else.\<close>

definition box_pointer :: "trait_box \<Rightarrow> nat multiset" where
  "box_pointer b = (case box_original b of None \<Rightarrow> {#} | Some p \<Rightarrow> {#p#})"

definition box_pointers :: "trait_box list \<Rightarrow> nat multiset" where
  "box_pointers boxes = (\<Sum>b \<leftarrow> boxes. box_pointer b)"

definition heap_owned :: "nat multiset \<Rightarrow> 'o eraser_heap \<Rightarrow> bool" where
  "heap_owned P h \<longleftrightarrow> (\<forall>p. count P p = (if erasers h p = None then 0 else 1)) \<and> (\<forall>p. next_eraser h \<le> p \<longrightarrow> erasers h p = None)"

text \<open>What a call may fault with: an empty box, or an exception that leaves a \<open>noexcept\<close> method.\<close>

definition call_fault :: "('a \<Rightarrow> bool) \<Rightarrow> ('o, 'a) box_step \<Rightarrow> fault \<Rightarrow> bool" where
  "call_fault specifier step f \<longleftrightarrow> (\<exists>i call. step = Box_Call i call \<and> (f = Assertion_Failed \<or> f = Terminated \<and> specifier call))"

section \<open>Lemmas\<close>

lemma box_pointer_simps:
  "box_original b = None \<Longrightarrow> box_pointer b = {#}"
  "box_original b = Some p \<Longrightarrow> box_pointer b = {#p#}"
  by (simp_all add: box_pointer_def)

lemma box_pointers_simps:
  "box_pointers [] = {#}" "box_pointers (b # bs) = box_pointer b + box_pointers bs"
  "box_pointers (bs @ cs) = box_pointers bs + box_pointers cs"
  by (simp_all add: box_pointers_def)

lemma box_pointers_update:
  "i < length boxes \<Longrightarrow> box_pointers (boxes[i := b]) + box_pointer (boxes ! i) = box_pointers boxes + box_pointer b"
proof (induction boxes arbitrary: i)
  case (Cons c boxes)
  then show ?case by (cases i) (auto simp: box_pointers_simps ac_simps)
qed simp

lemma box_pointers_nth:
  assumes "i < length boxes" "box_original (boxes ! i) = Some p"
  shows "p \<in># box_pointers boxes"
  using box_pointers_update [OF assms(1), of "\<lparr>box_original = None\<rparr>"] assms(2)
  by (simp add: box_pointer_simps) (metis union_single_eq_member)

lemma box_pointers_butlast: "boxes \<noteq> [] \<Longrightarrow> box_pointers boxes = box_pointers (butlast boxes) + box_pointer (last boxes)"
  using box_pointers_simps(3) [of "butlast boxes" "[last boxes]"] by (simp add: box_pointers_simps)

lemma heap_owned_alive: "heap_owned P h \<Longrightarrow> p \<in># P \<Longrightarrow> \<exists>e. erasers h p = Some e"
  unfolding heap_owned_def by (metis count_eq_zero_iff not_None_eq)

lemma delete_eraser_owned:
  assumes "heap_owned (add_mset p P) h"
  shows "\<exists>h'. delete_eraser p h = Inr h' \<and> heap_owned P h'"
proof -
  from heap_owned_alive [OF assms, of p] obtain e where e: "erasers h p = Some e" by auto
  have c: "count (add_mset p P) q = (if erasers h q = None then 0 else 1)" for q using assms by (simp add: heap_owned_def)
  have "count P p = 0" using c [of p] e by simp
  moreover have "count P q = (if erasers h q = None then 0 else 1)" if "q \<noteq> p" for q using c [of q] that by simp
  ultimately show ?thesis using assms e by (auto simp: delete_eraser_def heap_owned_def)
qed

lemma make_box_owned:
  assumes "heap_owned P h"
  shows "case make_box t is_rvalue obj h of Inl _ \<Rightarrow> True | Inr (b, h') \<Rightarrow> heap_owned (P + box_pointer b) h'"
proof -
  have "count P (next_eraser h) = 0" "erasers h (next_eraser h) = None" using assms by (simp_all add: heap_owned_def)
  with assms show ?thesis
    by (auto simp: make_box_def box_to_unique_def box_ctor_def box_pointer_def heap_owned_def split: sum.splits)
qed

lemma box_move_assign_owned:
  assumes ij: "i < length boxes" "j < length boxes" and h: "heap_owned (box_pointers boxes) h"
  shows "\<exists>boxes' h'. box_move_assign i j boxes h = Inr (boxes', h') \<and> heap_owned (box_pointers boxes') h'"
proof -
  let ?p = "box_original (boxes ! j)" and ?boxes1 = "boxes[j := (boxes ! j)\<lparr>box_original := None\<rparr>]"
  let ?boxes2 = "?boxes1[i := (?boxes1 ! i)\<lparr>box_original := ?p\<rparr>]"
  have 1: "box_pointers ?boxes1 + box_pointer (boxes ! j) = box_pointers boxes"
    using box_pointers_update [OF ij(2), of "(boxes ! j)\<lparr>box_original := None\<rparr>"] by (simp add: box_pointer_def)
  have 2: "box_pointers ?boxes2 + box_pointer (?boxes1 ! i) = box_pointers ?boxes1 + box_pointer (boxes ! j)"
    using box_pointers_update [of i ?boxes1 "(?boxes1 ! i)\<lparr>box_original := ?p\<rparr>"] ij by (simp add: box_pointer_def)
  from 1 2 have sum: "box_pointers ?boxes2 + box_pointer (?boxes1 ! i) = box_pointers boxes" by simp
  show ?thesis
  proof (cases "box_original (?boxes1 ! i)")
    case None
    with sum h show ?thesis by (simp add: box_move_assign_def Let_def box_pointer_simps)
  next
    case (Some q)
    with sum h have "heap_owned (add_mset q (box_pointers ?boxes2)) h" by (simp add: box_pointer_simps)
    from delete_eraser_owned [OF this] Some show ?thesis by (auto simp: box_move_assign_def Let_def)
  qed
qed

lemma box_call_owned:
  assumes h: "heap_owned P h" "box_pointer b \<subseteq># P" and m: "\<forall>call obj f. invoke call obj \<noteq> Fault f"
  shows "case box_call specifier invoke call b h of
      Ok _ h' \<Rightarrow> heap_owned P h' | Raise _ h' \<Rightarrow> heap_owned P h' | Fault f \<Rightarrow> f = Assertion_Failed \<or> f = Terminated \<and> specifier call"
proof (cases "box_original b")
  case None
  then show ?thesis by (simp add: box_call_def specified_def noexcept_def)
next
  case (Some p)
  with h(2) have "p \<in># P" by (simp add: box_pointer_simps)
  with heap_owned_alive [OF h(1)] obtain e where e: "erasers h p = Some e" by blast
  then have keep: "heap_owned P (h\<lparr>erasers := (erasers h)(p := Some e')\<rparr>)" for e' using h(1) by (auto simp: heap_owned_def)
  show ?thesis
    using Some e keep m
    by (cases "invoke call (er_original e)") (auto simp: box_call_def eraser_call_def specified_def noexcept_def)
qed

lemma box_exec_owned:
  assumes h: "heap_owned (box_pointers boxes) h" and m: "\<forall>call obj f. invoke call obj \<noteq> Fault f"
  shows "case box_exec t specifier invoke step (boxes, h) of
      Inl f \<Rightarrow> call_fault specifier step f | Inr (boxes', h') \<Rightarrow> heap_owned (box_pointers boxes') h'"
proof (cases step)
  case Box_Default
  with h show ?thesis by (simp add: box_pointers_simps box_default_def box_pointer_def)
next
  case (Box_Make is_rvalue obj)
  with h make_box_owned [OF h, of t is_rvalue obj] show ?thesis by (auto simp: box_pointers_simps split: sum.splits)
next
  case (Box_Move i)
  then show ?thesis
    using h box_pointers_update [of i boxes "(boxes ! i)\<lparr>box_original := None\<rparr>"]
    by (auto simp: box_move_ctor_def box_pointers_simps box_pointer_simps(1))
next
  case (Box_Assign i j)
  with h box_move_assign_owned [OF _ _ h, of i j] show ?thesis by auto
next
  case (Box_Call i call)
  show ?thesis
  proof (cases "i < length boxes")
    case True
    have "box_pointer (boxes ! i) \<subseteq># box_pointers boxes"
      using box_pointers_nth [OF True] by (cases "box_original (boxes ! i)") (simp_all add: box_pointer_simps)
    from box_call_owned [OF h this m, where specifier = specifier and call = call] Box_Call True show ?thesis
      by (auto simp: call_fault_def split: outcome.splits)
  qed (use Box_Call h in simp)
next
  case Box_Destroy
  show ?thesis
  proof (cases "boxes = []")
    case False
    show ?thesis
    proof (cases "box_original (last boxes)")
      case None
      with False Box_Destroy h box_pointers_butlast [OF False] show ?thesis by (simp add: box_dtor_def box_pointer_simps)
    next
      case (Some p)
      with h box_pointers_butlast [OF False] have "heap_owned (add_mset p (box_pointers (butlast boxes))) h"
        by (simp add: box_pointer_simps)
      from delete_eraser_owned [OF this] False Some Box_Destroy show ?thesis by (auto simp: box_dtor_def)
    qed
  qed (use Box_Destroy h in simp)
qed

lemma box_run_owned:
  assumes m: "\<forall>call obj f. invoke call obj \<noteq> Fault f"
  shows "heap_owned (box_pointers boxes) h \<Longrightarrow> case box_run t specifier invoke cs (boxes, h) of
      Inl f \<Rightarrow> \<exists>step \<in> set cs. call_fault specifier step f | Inr (boxes', h') \<Rightarrow> heap_owned (box_pointers boxes') h'"
proof (induction cs arbitrary: boxes h)
  case (Cons step cs)
  note exec = box_exec_owned [where t = t and specifier = specifier and step = step, OF Cons.prems m]
  show ?case
  proof (cases "box_exec t specifier invoke step (boxes, h)")
    case (Inr w)
    obtain boxes1 h1 where w: "w = (boxes1, h1)" by (cases w)
    with exec Inr have "heap_owned (box_pointers boxes1) h1" by simp
    from Cons.IH [OF this] Inr w show ?thesis by (auto split: sum.splits)
  qed (use exec in auto)
qed simp

lemma box_destroy_eq:
  "box_exec t specifier invoke Box_Destroy (boxes, h) = Inr (boxes', h') \<Longrightarrow> boxes' = butlast boxes"
  by (auto split: if_splits sum.splits)

lemma box_run_destroy_all:
  "box_run t specifier invoke (replicate n Box_Destroy) (boxes, h) = Inr (boxes', h') \<Longrightarrow> n = length boxes \<Longrightarrow> boxes' = []"
proof (induction n arbitrary: boxes h)
  case (Suc n)
  from Suc.prems(1) obtain w where
    w: "box_exec t specifier invoke Box_Destroy (boxes, h) = Inr w" "box_run t specifier invoke (replicate n Box_Destroy) w = Inr (boxes', h')"
    by (auto simp del: box_exec.simps split: sum.splits)
  obtain boxes1 h1 where "w = (boxes1, h1)" by (cases w)
  with w box_destroy_eq have "w = (butlast boxes, h1)" by blast
  with Suc.IH [of "butlast boxes" h1] w(2) Suc.prems(2) show ?case by (metis length_butlast diff_Suc_1)
qed simp

section \<open>Properties\<close>

text \<open>
  C33: Any program that makes, moves, assigns, calls and destroys boxes, with objects whose copies, moves and methods may
  throw: it never touches a dead object; it can only stop at a call through an empty box, which is an
  assertion, or when an exception leaves a method that was declared \<open>noexcept\<close>; and when it ends no
  eraser is left on the heap.
\<close>

theorem boxes_memory_safe:
  assumes "\<forall>call obj f. invoke call obj \<noteq> Fault f"
  shows "case box_program t specifier invoke cs of
      Inl f \<Rightarrow> \<exists>step \<in> set cs. call_fault specifier step f
    | Inr (boxes, h) \<Rightarrow> boxes = [] \<and> erasers h = (\<lambda>_. None)"
proof -
  have "heap_owned (box_pointers []) \<lparr>erasers = (\<lambda>_. None), next_eraser = 0\<rparr>"
    by (simp add: heap_owned_def box_pointers_simps)
  note run = box_run_owned [where t = t and specifier = specifier and cs = cs, OF assms this, folded box_start_def]
  show ?thesis
  proof (cases "box_run t specifier invoke cs box_start")
    case (Inl f)
    with run show ?thesis by (simp add: box_program_def)
  next
    case (Inr w)
    obtain boxes h where w: "w = (boxes, h)" by (cases w)
    from run Inr w have "heap_owned (box_pointers boxes) h" by simp
    note last = box_run_owned [where t = t and specifier = specifier and cs = "replicate (length boxes) Box_Destroy", OF assms this]
    show ?thesis
    proof (cases "box_run t specifier invoke (replicate (length boxes) Box_Destroy) (boxes, h)")
      case (Inl f)
      with last show ?thesis by (auto simp: call_fault_def)
    next
      case (Inr w')
      obtain boxes' h' where w': "w' = (boxes', h')" by (cases w')
      with Inr box_run_destroy_all [OF _ refl] have "boxes' = []" by blast
      with last Inr w' have "\<forall>p. erasers h' p = None" by (auto simp: heap_owned_def box_pointers_simps split: if_splits)
      with \<open>boxes' = []\<close> Inr w w' \<open>box_run t specifier invoke cs box_start = Inr w\<close> show ?thesis
        by (auto simp: box_program_def)
    qed
  qed
qed

text \<open>A counter with one method that counts and one that throws.\<close>

lemma boxes_memory_safe_witness:
  "\<exists>h. box_program (trivial_type :: (nat, unit) element_type) (\<lambda>_. False) (\<lambda>call n. if call then Ok n (n + 1) else Raise () n)
     [Box_Make False (3 :: nat), Box_Move 0, Box_Call 1 True, Box_Call 1 False, Box_Default, Box_Assign 2 1] = Inr ([], h) \<and> erasers h = (\<lambda>_. None)"
proof -
  let ?invoke = "\<lambda>call n. if call then Ok n (n + 1) else Raise () n :: (nat, unit, nat) outcome"
  let ?steps = "[Box_Make False 3, Box_Move 0, Box_Call 1 True, Box_Call 1 False, Box_Default, Box_Assign 2 1]"
  have "\<exists>h. box_program (trivial_type :: (nat, unit) element_type) (\<lambda>_. False) ?invoke ?steps = Inr ([], h)"
    by (simp add: box_program_def box_start_def make_box_def erase_def eraser_ctor_def trivial_type_def box_to_unique_def
        eraser_move_ctor_def box_ctor_def box_move_ctor_def box_call_def eraser_call_def specified_def box_default_def
        box_move_assign_def Let_def delete_eraser_def box_dtor_def eval_nat_numeral)
  moreover have "\<forall>call obj f. ?invoke call obj \<noteq> Fault f" by simp
  note boxes_memory_safe [where t = "trivial_type :: (nat, unit) element_type" and specifier = "\<lambda>_. False" and cs = ?steps, OF this]
  ultimately show ?thesis by (elim exE) simp
qed

end
