(* ===== verification/Lua_Pins.thy ===== *)
theory Lua_Pins
  imports Silicium_Prelude
begin

text \<open>
  \<open>test/lua/lua.cpp\<close>: \<open>pinned_value\<close>, which keeps a Lua value alive in the registry under its own address,
  and \<open>lua_thread\<close>, which turns a Lua coroutine into a stream of elements.  The functions of Lua are
  parameters (\<open>lua_api\<close>); \<open>lua_contract\<close> states what its manual says of them.  An object is identified
  by its address, a \<open>lua_State\<close> by a number; the threads of one Lua state have a stack each and share
  the registry.  A Lua function that runs out of memory leaves with a \<open>longjmp\<close>; that is not modelled.
\<close>

section \<open>Lua\<close>

text \<open>What a value is as far as the code can tell; \<open>Object\<close> stands for all the others.\<close>

datatype 'o lua_value = Nil_Value | Light nat | Thread nat | Object 'o

text \<open>The functions that are called; the two for tables are only called for the registry.\<close>

record 's lua_api =
  lua_pushlightuserdata :: "nat \<Rightarrow> nat \<Rightarrow> 's \<Rightarrow> 's"
  lua_pushvalue :: "nat \<Rightarrow> int \<Rightarrow> 's \<Rightarrow> 's"
  lua_pushnil :: "nat \<Rightarrow> 's \<Rightarrow> 's"
  lua_pushthread :: "nat \<Rightarrow> 's \<Rightarrow> 's"
  lua_remove :: "nat \<Rightarrow> int \<Rightarrow> 's \<Rightarrow> 's"
  lua_pop :: "nat \<Rightarrow> nat \<Rightarrow> 's \<Rightarrow> 's"
  lua_settable_registry :: "nat \<Rightarrow> 's \<Rightarrow> 's"
  lua_gettable_registry :: "nat \<Rightarrow> 's \<Rightarrow> 's"

text \<open>
  A stack is a list with its top first.  A positive index counts from the bottom, a negative one from
  the top.
\<close>

definition valid_index :: "int \<Rightarrow> 'v list \<Rightarrow> bool" where
  "valid_index i xs \<longleftrightarrow> 0 < i \<and> i \<le> int (length xs) \<or> i < 0 \<and> - i \<le> int (length xs)"

definition stack_position :: "int \<Rightarrow> 'v list \<Rightarrow> nat" where
  "stack_position i xs = (if 0 < i then length xs - nat i else nat (- i) - 1)"

definition at_index :: "int \<Rightarrow> 'v list \<Rightarrow> 'v" where
  "at_index i xs = xs ! stack_position i xs"

definition remove_index :: "int \<Rightarrow> 'v list \<Rightarrow> 'v list" where
  "remove_index i xs = take (stack_position i xs) xs @ drop (Suc (stack_position i xs)) xs"

text \<open>A call that leaves the stack \<open>xs\<close> of \<open>L\<close> and the registry \<open>r\<close>, and the other stacks alone.\<close>

definition lua_changes ::
    "(nat \<Rightarrow> 's \<Rightarrow> 'o lua_value list) \<Rightarrow> ('s \<Rightarrow> 'o lua_value \<Rightarrow> 'o lua_value) \<Rightarrow> nat \<Rightarrow> 's \<Rightarrow> 's \<Rightarrow>
     'o lua_value list \<Rightarrow> ('o lua_value \<Rightarrow> 'o lua_value) \<Rightarrow> bool" where
  "lua_changes stack registry L s s' xs r \<longleftrightarrow> stack L s' = xs \<and> registry s' = r \<and> (\<forall>M. M \<noteq> L \<longrightarrow> stack M s' = stack M s)"

text \<open>
  The manual: \<open>limit\<close> is the number of slots that may be used without \<open>lua_checkstack\<close>; a table maps the keys
  that it does not have to nil; nil is not a key.
\<close>

definition lua_contract ::
    "'s lua_api \<Rightarrow> (nat \<Rightarrow> 's \<Rightarrow> 'o lua_value list) \<Rightarrow> ('s \<Rightarrow> 'o lua_value \<Rightarrow> 'o lua_value) \<Rightarrow> nat \<Rightarrow> bool" where
  "lua_contract api stack registry limit \<longleftrightarrow>
     (\<forall>L s xs. stack L s = xs \<longrightarrow> length xs < limit \<longrightarrow>
        (\<forall>p. lua_changes stack registry L s (lua_pushlightuserdata api L p s) (Light p # xs) (registry s)) \<and>
        (\<forall>i. valid_index i xs \<longrightarrow> lua_changes stack registry L s (lua_pushvalue api L i s) (at_index i xs # xs) (registry s)) \<and>
        lua_changes stack registry L s (lua_pushnil api L s) (Nil_Value # xs) (registry s) \<and>
        lua_changes stack registry L s (lua_pushthread api L s) (Thread L # xs) (registry s)) \<and>
     (\<forall>L s xs i. stack L s = xs \<longrightarrow> valid_index i xs \<longrightarrow>
        lua_changes stack registry L s (lua_remove api L i s) (remove_index i xs) (registry s)) \<and>
     (\<forall>L s xs n. stack L s = xs \<longrightarrow> n \<le> length xs \<longrightarrow> lua_changes stack registry L s (lua_pop api L n s) (drop n xs) (registry s)) \<and>
     (\<forall>L s v k xs. stack L s = v # k # xs \<longrightarrow> k \<noteq> Nil_Value \<longrightarrow>
        lua_changes stack registry L s (lua_settable_registry api L s) xs ((registry s)(k := v))) \<and>
     (\<forall>L s k xs. stack L s = k # xs \<longrightarrow>
        lua_changes stack registry L s (lua_gettable_registry api L s) (registry s k # xs) (registry s))"

section \<open>pinned_value\<close>

text \<open>The member \<open>lua\<close>, a pointer that may be null.\<close>

record pinned_value =
  pin_lua :: "nat option"

definition push_key :: "'s lua_api \<Rightarrow> nat \<Rightarrow> nat \<Rightarrow> 's \<Rightarrow> 's" where
  "push_key api L pin = lua_pushlightuserdata api L pin"

definition swap_top :: "'s lua_api \<Rightarrow> nat \<Rightarrow> 's \<Rightarrow> 's" where
  "swap_top api L s = lua_remove api L (- 3) (lua_pushvalue api L (- 2) s)"

definition remove_this :: "'s lua_api \<Rightarrow> nat \<Rightarrow> nat \<Rightarrow> 's \<Rightarrow> 's" where
  "remove_this api L this s = lua_settable_registry api L (lua_pushnil api L (push_key api L this s))"

definition pin_default :: pinned_value where
  "pin_default = \<lparr>pin_lua = None\<rparr>"

definition pin_ctor :: "'s lua_api \<Rightarrow> nat \<Rightarrow> nat \<Rightarrow> int \<Rightarrow> 's \<Rightarrow> pinned_value \<times> 's" where
  "pin_ctor api this L idx s =
     (\<lparr>pin_lua = Some L\<rparr>, lua_settable_registry api L (lua_pushvalue api L idx (push_key api L this s)))"

definition pin_dtor :: "'s lua_api \<Rightarrow> nat \<Rightarrow> pinned_value \<Rightarrow> 's \<Rightarrow> 's" where
  "pin_dtor api this p s = (case pin_lua p of None \<Rightarrow> s | Some L \<Rightarrow> remove_this api L this s)"

text \<open>\<open>this\<close> and \<open>other\<close> are the addresses of \<open>p\<close> and \<open>q\<close>.\<close>

definition pin_move_assign ::
    "'s lua_api \<Rightarrow> nat \<Rightarrow> pinned_value \<Rightarrow> nat \<Rightarrow> pinned_value \<Rightarrow> 's \<Rightarrow> fault + pinned_value \<times> 's" where
  "pin_move_assign api this p other q s =
     (let (p1, s1) = (case pin_lua p of
          Some L \<Rightarrow> (p, remove_this api L this s)
        | None \<Rightarrow> (p\<lparr>pin_lua := pin_lua q\<rparr>, s))
      in case pin_lua q of
          None \<Rightarrow> Inr (p1\<lparr>pin_lua := None\<rparr>, s1)
        | Some M \<Rightarrow> (if pin_lua p1 \<noteq> Some M then Inl Assertion_Failed
            else Inr (p1, lua_settable_registry api M (swap_top api M (push_key api M this
              (lua_gettable_registry api M (push_key api M other s1)))))))"

definition pin_move_ctor :: "'s lua_api \<Rightarrow> nat \<Rightarrow> nat \<Rightarrow> pinned_value \<Rightarrow> 's \<Rightarrow> fault + pinned_value \<times> 's" where
  "pin_move_ctor api this other q s = pin_move_assign api this \<lparr>pin_lua = pin_lua q\<rparr> other q s"

section \<open>lua_thread\<close>

text \<open>
  What the constructor of its \<open>state\<close> does to pin the thread: \<open>temporary\<close> is the address of the object on the
  right of the assignment to \<open>thread_pin\<close>.
\<close>

definition pin_thread :: "'s lua_api \<Rightarrow> nat \<Rightarrow> nat \<Rightarrow> nat \<Rightarrow> 's \<Rightarrow> fault + pinned_value \<times> 's" where
  "pin_thread api thread_pin temporary L s =
     (case pin_ctor api temporary L (- 1) (lua_pushthread api L s) of (p, s1) \<Rightarrow>
       (case pin_move_assign api thread_pin pin_default temporary p s1 of
          Inl f \<Rightarrow> Inl f
        | Inr (q, s2) \<Rightarrow> Inr (q, lua_pop api L 1 (pin_dtor api temporary p s2))))"

text \<open>
  A resumed coroutine calls the function \<open>yield\<close> that it was given, yields in another way, returns, or
  fails.  An observer, identified by its address, gets an element or is told that there are no more;
  what it does then is not modelled.
\<close>

datatype 'v resumed = Calls_Yield 'v | Yields_Otherwise | Returns | Fails

datatype 'e observed = Got nat 'e | Ended nat

record lua_thread =
  was_resumed :: bool
  receiver :: "nat option"

text \<open>The function \<open>yield\<close>, while the state that it is bound to is alive.\<close>

definition lua_yield :: "('v \<Rightarrow> 'e) \<Rightarrow> 'v \<Rightarrow> lua_thread \<Rightarrow> 'e observed list \<Rightarrow> fault + lua_thread \<times> 'e observed list" where
  "lua_yield from_lua v t notified = (case receiver t of
      None \<Rightarrow> Inl Assertion_Failed
    | Some r \<Rightarrow> Inr (t\<lparr>receiver := None\<rparr>, notified @ [Got r (from_lua v)]))"

text \<open>\<open>bind\<close> stands for the calls that give the coroutine its function \<open>yield\<close>; the error is \<open>std::logic_error\<close>.\<close>

definition async_get_one ::
    "('v \<Rightarrow> 'e) \<Rightarrow> ('s \<Rightarrow> 's) \<Rightarrow> ('s \<Rightarrow> 'v resumed \<times> 's) \<Rightarrow> nat \<Rightarrow> (lua_thread \<times> 's \<times> 'e observed list, unit, unit) op" where
  "async_get_one from_lua bind resume r = (\<lambda>(t, s, notified).
     let t1 = t\<lparr>receiver := Some r, was_resumed := True\<rparr>;
         (rc, s1) = resume (if was_resumed t then s else bind s)
     in case rc of
          Calls_Yield v \<Rightarrow> (case lua_yield from_lua v t1 notified of
              Inl f \<Rightarrow> Fault f
            | Inr (t2, notified') \<Rightarrow> Ok () (t2, s1, notified'))
        | Yields_Otherwise \<Rightarrow> Ok () (t1, s1, notified)
        | Returns \<Rightarrow> (case receiver t1 of
              Some r' \<Rightarrow> Ok () (t1\<lparr>receiver := None\<rparr>, s1, notified @ [Ended r'])
            | None \<Rightarrow> Ok () (t1, s1, notified))
        | Fails \<Rightarrow> Raise () (t1, s1, notified))"

fun get_each ::
    "('v \<Rightarrow> 'e) \<Rightarrow> ('s \<Rightarrow> 's) \<Rightarrow> ('s \<Rightarrow> 'v resumed \<times> 's) \<Rightarrow> nat list \<Rightarrow> (lua_thread \<times> 's \<times> 'e observed list, unit, unit) op" where
  "get_each from_lua bind resume [] = ret ()"
| "get_each from_lua bind resume (r # rs) = then_op (async_get_one from_lua bind resume r) (get_each from_lua bind resume rs)"

text \<open>A coroutine that yields \<open>vs\<close> through its function and returns.\<close>

fun generates :: "('s \<Rightarrow> 'v resumed \<times> 's) \<Rightarrow> 's \<Rightarrow> 'v list \<Rightarrow> bool" where
  "generates resume s [] \<longleftrightarrow> fst (resume s) = Returns"
| "generates resume s (v # vs) \<longleftrightarrow> fst (resume s) = Calls_Yield v \<and> generates resume (snd (resume s)) vs"

section \<open>Programs of pinned values\<close>

text \<open>The objects at their addresses; a step that needs a dead or a living object does nothing without one.\<close>

datatype pin_step = Pin_Default nat | Pin_New nat nat int | Pin_Move_Ctor nat nat | Pin_Move_Assign nat nat | Pin_Drop nat

fun pin_exec :: "'s lua_api \<Rightarrow> pin_step \<Rightarrow> (nat \<Rightarrow> pinned_value option) \<times> 's \<Rightarrow> fault + (nat \<Rightarrow> pinned_value option) \<times> 's" where
  "pin_exec api (Pin_Default a) (pins, s) = Inr (if pins a = None then pins(a := Some pin_default) else pins, s)"
| "pin_exec api (Pin_New a L i) (pins, s) = (case pins a of
      None \<Rightarrow> (case pin_ctor api a L i s of (p, s') \<Rightarrow> Inr (pins(a := Some p), s'))
    | Some _ \<Rightarrow> Inr (pins, s))"
| "pin_exec api (Pin_Move_Ctor a b) (pins, s) = (case (pins a, pins b) of
      (None, Some q) \<Rightarrow> (case pin_move_ctor api a b q s of Inl f \<Rightarrow> Inl f | Inr (p, s') \<Rightarrow> Inr (pins(a := Some p), s'))
    | _ \<Rightarrow> Inr (pins, s))"
| "pin_exec api (Pin_Move_Assign a b) (pins, s) = (case (pins a, pins b) of
      (Some p, Some q) \<Rightarrow> (case pin_move_assign api a p b q s of Inl f \<Rightarrow> Inl f | Inr (p', s') \<Rightarrow> Inr (pins(a := Some p'), s'))
    | _ \<Rightarrow> Inr (pins, s))"
| "pin_exec api (Pin_Drop a) (pins, s) = (case pins a of
      Some p \<Rightarrow> Inr (pins(a := None), pin_dtor api a p s)
    | None \<Rightarrow> Inr (pins, s))"

fun pin_run :: "'s lua_api \<Rightarrow> pin_step list \<Rightarrow> (nat \<Rightarrow> pinned_value option) \<times> 's \<Rightarrow> fault + (nat \<Rightarrow> pinned_value option) \<times> 's" where
  "pin_run api [] w = Inr w"
| "pin_run api (c # cs) w = (case pin_exec api c w of Inl f \<Rightarrow> Inl f | Inr w' \<Rightarrow> pin_run api cs w')"

text \<open>
  What the objects are meant to hold: nothing or a value.  An index is that of the stack with the key
  already on it.  A move is a copy; a value that is assigned to itself is lost.
\<close>

fun pin_spec :: "'o lua_value list \<Rightarrow> pin_step \<Rightarrow> (nat \<Rightarrow> 'o lua_value option option) \<Rightarrow> nat \<Rightarrow> 'o lua_value option option" where
  "pin_spec xs (Pin_Default a) m = (if m a = None then m(a := Some None) else m)"
| "pin_spec xs (Pin_New a L i) m = (if m a = None then m(a := Some (Some (at_index i (Light a # xs)))) else m)"
| "pin_spec xs (Pin_Move_Ctor a b) m = (case (m a, m b) of (None, Some v) \<Rightarrow> m(a := Some v) | _ \<Rightarrow> m)"
| "pin_spec xs (Pin_Move_Assign a b) m = (case (m a, m b) of
      (Some _, Some v) \<Rightarrow> m(a := Some (if a = b then map_option (\<lambda>_. Nil_Value) v else v)) | _ \<Rightarrow> m)"
| "pin_spec xs (Pin_Drop a) m = m(a := None)"

fun pin_step_ok :: "nat \<Rightarrow> 'o lua_value list \<Rightarrow> pin_step \<Rightarrow> bool" where
  "pin_step_ok L xs (Pin_New a M i) \<longleftrightarrow> M = L \<and> valid_index i (Light a # xs)"
| "pin_step_ok L xs _ \<longleftrightarrow> True"

text \<open>The registry that belongs to what the objects hold, and the objects themselves.\<close>

definition pin_registry :: "('o lua_value \<Rightarrow> 'o lua_value) \<Rightarrow> (nat \<Rightarrow> 'o lua_value option option) \<Rightarrow> 'o lua_value \<Rightarrow> 'o lua_value" where
  "pin_registry r m k = (case k of Light a \<Rightarrow> (case m a of Some (Some v) \<Rightarrow> v | _ \<Rightarrow> Nil_Value) | _ \<Rightarrow> r k)"

definition pin_objects :: "nat \<Rightarrow> (nat \<Rightarrow> 'o lua_value option option) \<Rightarrow> nat \<Rightarrow> pinned_value option" where
  "pin_objects L m a = map_option (\<lambda>v. \<lparr>pin_lua = map_option (\<lambda>_. L) v\<rparr>) (m a)"

section \<open>Single operations\<close>

lemma lua_changes_trans:
  "lua_changes stack registry L s s1 xs r \<Longrightarrow> lua_changes stack registry L s1 s2 ys r' \<Longrightarrow> lua_changes stack registry L s s2 ys r'"
  by (simp add: lua_changes_def)

lemma lua_changesD:
  assumes "lua_changes stack registry L s s' xs r"
  shows "stack L s' = xs" "registry s' = r"
  using assms by (simp_all add: lua_changes_def)

lemma lua_pushes:
  assumes "lua_contract api stack registry limit" "stack L s = xs" "length xs < limit"
  shows "lua_changes stack registry L s (lua_pushlightuserdata api L p s) (Light p # xs) (registry s)"
    and "valid_index i xs \<Longrightarrow> lua_changes stack registry L s (lua_pushvalue api L i s) (at_index i xs # xs) (registry s)"
    and "lua_changes stack registry L s (lua_pushnil api L s) (Nil_Value # xs) (registry s)"
    and "lua_changes stack registry L s (lua_pushthread api L s) (Thread L # xs) (registry s)"
  using conjunct1 [OF assms(1) [unfolded lua_contract_def], rule_format, of L s] assms(2,3) by simp_all

lemma lua_pops:
  assumes "lua_contract api stack registry limit"
  shows "stack L s = xs \<Longrightarrow> valid_index i xs \<Longrightarrow> lua_changes stack registry L s (lua_remove api L i s) (remove_index i xs) (registry s)"
    and "stack L s = xs \<Longrightarrow> n \<le> length xs \<Longrightarrow> lua_changes stack registry L s (lua_pop api L n s) (drop n xs) (registry s)"
    and "stack L s = v # k # xs \<Longrightarrow> k \<noteq> Nil_Value \<Longrightarrow>
      lua_changes stack registry L s (lua_settable_registry api L s) xs ((registry s)(k := v))"
    and "stack L s = k # xs \<Longrightarrow> lua_changes stack registry L s (lua_gettable_registry api L s) (registry s k # xs) (registry s)"
  using conjunct2 [OF assms [unfolded lua_contract_def]] by blast+

lemmas lua_contractD = lua_pushes lua_pops

lemma push_key_changes:
  "lua_contract api stack registry limit \<Longrightarrow> stack L s = xs \<Longrightarrow> length xs < limit \<Longrightarrow>
   lua_changes stack registry L s (push_key api L a s) (Light a # xs) (registry s)"
  unfolding push_key_def by (rule lua_contractD(1))

lemma remove_this_changes:
  assumes c: "lua_contract api stack registry limit" and s: "stack L s = xs" "length xs + 1 < limit"
  shows "lua_changes stack registry L s (remove_this api L a s) xs ((registry s)(Light a := Nil_Value))"
proof -
  let ?s1 = "push_key api L a s" and ?s2 = "lua_pushnil api L (push_key api L a s)"
  have 1: "lua_changes stack registry L s ?s1 (Light a # xs) (registry s)"
    using push_key_changes [OF c s(1)] s(2) by simp
  have 2: "lua_changes stack registry L ?s1 ?s2 (Nil_Value # Light a # xs) (registry ?s1)"
    using lua_contractD(3) [OF c lua_changesD(1) [OF 1]] s(2) by simp
  have "lua_changes stack registry L ?s2 (remove_this api L a s) xs ((registry ?s2)(Light a := Nil_Value))"
    unfolding remove_this_def using lua_contractD(7) [OF c lua_changesD(1) [OF 2]] by simp
  with lua_changes_trans [OF lua_changes_trans [OF 1 2]] lua_changesD(2) [OF 1] lua_changesD(2) [OF 2] show ?thesis by simp
qed

lemma swap_top_changes:
  assumes c: "lua_contract api stack registry limit" and s: "stack L s = x # y # xs" "length xs + 2 < limit"
  shows "lua_changes stack registry L s (swap_top api L s) (y # x # xs) (registry s)"
proof -
  let ?s1 = "lua_pushvalue api L (- 2) s"
  have 1: "lua_changes stack registry L s ?s1 (y # x # y # xs) (registry s)"
    using lua_contractD(2) [OF c s(1), of "- 2"] s(2) by (simp add: valid_index_def at_index_def stack_position_def)
  have "lua_changes stack registry L ?s1 (swap_top api L s) (y # x # xs) (registry ?s1)"
    unfolding swap_top_def using lua_contractD(5) [OF c lua_changesD(1) [OF 1], of "- 3"]
    by (simp add: valid_index_def remove_index_def stack_position_def)
  with lua_changes_trans [OF 1] lua_changesD(2) [OF 1] show ?thesis by simp
qed

lemma pin_ctor_changes:
  assumes c: "lua_contract api stack registry limit" and s: "stack L s = xs" "length xs + 1 < limit" "valid_index i (Light a # xs)"
  shows "\<exists>s'. pin_ctor api a L i s = (\<lparr>pin_lua = Some L\<rparr>, s') \<and>
    lua_changes stack registry L s s' xs ((registry s)(Light a := at_index i (Light a # xs)))"
proof -
  let ?s1 = "push_key api L a s" and ?s2 = "lua_pushvalue api L i (push_key api L a s)"
  have 1: "lua_changes stack registry L s ?s1 (Light a # xs) (registry s)"
    using push_key_changes [OF c s(1)] s(2) by simp
  have 2: "lua_changes stack registry L ?s1 ?s2 (at_index i (Light a # xs) # Light a # xs) (registry ?s1)"
    using lua_contractD(2) [OF c lua_changesD(1) [OF 1] _ s(3)] s(2) by simp
  from lua_contractD(7) [OF c lua_changesD(1) [OF 2]] lua_changes_trans [OF lua_changes_trans [OF 1 2]]
    lua_changesD(2) [OF 1] lua_changesD(2) [OF 2] show ?thesis
    by (simp add: pin_ctor_def)
qed

lemma pin_copy_changes:
  assumes c: "lua_contract api stack registry limit" and s: "stack L s = xs" "length xs + 2 < limit"
  shows "lua_changes stack registry L s (lua_settable_registry api L (swap_top api L (push_key api L this
    (lua_gettable_registry api L (push_key api L other s))))) xs ((registry s)(Light this := registry s (Light other)))"
proof -
  let ?s1 = "push_key api L other s" and ?v = "registry s (Light other)"
  let ?s2 = "lua_gettable_registry api L ?s1"
  let ?s3 = "push_key api L this ?s2"
  let ?s4 = "swap_top api L ?s3"
  have 1: "lua_changes stack registry L s ?s1 (Light other # xs) (registry s)"
    using push_key_changes [OF c s(1)] s(2) by simp
  have 2: "lua_changes stack registry L s ?s2 (?v # xs) (registry s)"
    using lua_changes_trans [OF 1] lua_contractD(8) [OF c lua_changesD(1) [OF 1]] lua_changesD(2) [OF 1] by simp
  have 3: "lua_changes stack registry L s ?s3 (Light this # ?v # xs) (registry s)"
    using lua_changes_trans [OF 2] push_key_changes [OF c lua_changesD(1) [OF 2]] s(2) lua_changesD(2) [OF 2] by simp
  have 4: "lua_changes stack registry L s ?s4 (?v # Light this # xs) (registry s)"
    using lua_changes_trans [OF 3] swap_top_changes [OF c lua_changesD(1) [OF 3]] s(2) lua_changesD(2) [OF 3] by simp
  show ?thesis
    using lua_changes_trans [OF 4] lua_contractD(7) [OF c lua_changesD(1) [OF 4]] lua_changesD(2) [OF 4] by simp
qed

lemma pin_move_assign_changes:
  fixes L :: nat and u v :: "'v option"
  defines "pin \<equiv> \<lambda>w :: 'v option. \<lparr>pin_lua = map_option (\<lambda>_. L) w\<rparr>"
  assumes c: "lua_contract api stack registry limit" and s: "stack L s = xs" "length xs + 2 < limit"
    and r: "r1 = (if u = None then registry s else (registry s)(Light a := Nil_Value))"
  shows "\<exists>s'. pin_move_assign api a (pin u) b (pin v) s = Inr (pin v, s') \<and>
    lua_changes stack registry L s s' xs (if v = None then r1 else r1(Light a := r1 (Light b)))"
proof -
  let ?s1 = "if u = None then s else remove_this api L a s"
  have 1: "lua_changes stack registry L s ?s1 xs r1"
    using r s remove_this_changes [OF c s(1), of a] by (auto simp: lua_changes_def)
  show ?thesis
  proof (cases v)
    case None
    with 1 show ?thesis by (cases u) (auto simp: pin_move_assign_def pin_def)
  next
    case (Some w)
    with lua_changes_trans [OF 1] pin_copy_changes [OF c lua_changesD(1) [OF 1] s(2), of a b] lua_changesD(2) [OF 1]
    show ?thesis by (cases u) (auto simp: pin_move_assign_def pin_def)
  qed
qed

section \<open>Properties\<close>

lemma pin_registry_simps:
  "(pin_registry r m)(Light a := v) = pin_registry r (m(a := Some (Some v)))"
  "pin_registry r (m(a := Some (Some Nil_Value))) = pin_registry r (m(a := None))"
  "pin_registry r (m(a := Some None)) = pin_registry r (m(a := None))"
  "pin_registry r m (Light b) = (case m b of Some (Some w) \<Rightarrow> w | _ \<Rightarrow> Nil_Value)"
  "m a = None \<or> m a = Some None \<Longrightarrow> pin_registry r (m(a := None)) = pin_registry r m"
  by (auto simp: pin_registry_def fun_eq_iff split: lua_value.splits)

lemma pin_objects_simps:
  "m a = None \<Longrightarrow> pin_objects L m a = None"
  "m a = Some v \<Longrightarrow> pin_objects L m a = Some \<lparr>pin_lua = map_option (\<lambda>_. L) v\<rparr>"
  "pin_objects L (m(a := Some v)) = (pin_objects L m)(a := Some \<lparr>pin_lua = map_option (\<lambda>_. L) v\<rparr>)"
  "pin_objects L (m(a := None)) = (pin_objects L m)(a := None)"
  by (auto simp: pin_objects_def fun_eq_iff)

lemma pin_exec_refines:
  assumes c: "lua_contract api stack registry limit" and s: "stack L s = xs" "length xs + 2 < limit"
    and r: "registry s = pin_registry r m" and ok: "pin_step_ok L xs step"
  shows "\<exists>s'. pin_exec api step (pin_objects L m, s) = Inr (pin_objects L (pin_spec xs step m), s') \<and>
    lua_changes stack registry L s s' xs (pin_registry r (pin_spec xs step m))"
proof (cases step)
  case (Pin_Default a)
  then show ?thesis
    using s(1) r pin_objects_simps(3) [of L m a None]
    by (cases "m a") (auto simp: pin_objects_simps(1,2) pin_default_def lua_changes_def pin_registry_simps(3,5))
next
  case (Pin_New a M i)
  with ok have i: "M = L" "valid_index i (Light a # xs)" by simp_all
  from pin_ctor_changes [OF c s(1) _ i(2)] s(2) obtain s' where "pin_ctor api a L i s = (\<lparr>pin_lua = Some L\<rparr>, s')"
    "lua_changes stack registry L s s' xs ((registry s)(Light a := at_index i (Light a # xs)))" by auto
  with Pin_New i(1) s(1) r pin_objects_simps(3) [of L m a "Some (at_index i (Light a # xs))"] show ?thesis
    by (cases "m a") (auto simp: pin_objects_simps(1,2) pin_registry_simps(1) lua_changes_def)
next
  case (Pin_Move_Ctor a b)
  show ?thesis
  proof (cases "m a = None \<and> (\<exists>v. m b = Some v)")
    case True
    then obtain v where ab: "m a = None" "m b = Some v" by blast
    then have "a \<noteq> b" by auto
    with pin_move_assign_changes [where u = v and v = v and a = a and b = b, OF c s refl] ab r Pin_Move_Ctor show ?thesis
      by (auto simp: pin_move_ctor_def pin_objects_simps pin_registry_simps split: if_splits)
  next
    case False
    with Pin_Move_Ctor s(1) r show ?thesis by (auto simp: pin_objects_def lua_changes_def split: option.splits)
  qed
next
  case (Pin_Move_Assign a b)
  show ?thesis
  proof (cases "(\<exists>u. m a = Some u) \<and> (\<exists>v. m b = Some v)")
    case True
    then obtain u v where ab: "m a = Some u" "m b = Some v" by blast
    with pin_move_assign_changes [where u = u and v = v and a = a and b = b, OF c s refl] r Pin_Move_Assign show ?thesis
      by (auto simp: pin_objects_simps pin_registry_simps split: if_splits)
  next
    case False
    with Pin_Move_Assign s(1) r show ?thesis by (auto simp: pin_objects_def lua_changes_def split: option.splits)
  qed
next
  case (Pin_Drop a)
  show ?thesis
  proof (cases "m a")
    case None
    then have "m(a := None) = m" by auto
    with None Pin_Drop s(1) r show ?thesis by (simp add: pin_objects_simps(1) lua_changes_def)
  next
    case (Some v)
    with Pin_Drop remove_this_changes [OF c s(1), of a] s r show ?thesis
      by (cases v) (auto simp: pin_objects_simps pin_dtor_def pin_registry_simps lua_changes_def)
  qed
qed

lemma pin_run_refines:
  assumes c: "lua_contract api stack registry limit" and lim: "length xs + 2 < limit"
  shows "stack L s = xs \<Longrightarrow> registry s = pin_registry r m \<Longrightarrow> \<forall>c \<in> set cs. pin_step_ok L xs c \<Longrightarrow>
    \<exists>s'. pin_run api cs (pin_objects L m, s) = Inr (pin_objects L (fold (pin_spec xs) cs m), s') \<and>
      lua_changes stack registry L s s' xs (pin_registry r (fold (pin_spec xs) cs m))"
proof (induction cs arbitrary: m s)
  case Nil
  then show ?case by (simp add: lua_changes_def)
next
  case (Cons step cs)
  from pin_exec_refines [OF c Cons.prems(1) lim Cons.prems(2), of step] Cons.prems(3) obtain s1 where
    s1: "pin_exec api step (pin_objects L m, s) = Inr (pin_objects L (pin_spec xs step m), s1)"
      "lua_changes stack registry L s s1 xs (pin_registry r (pin_spec xs step m))" by auto
  from Cons.IH [OF lua_changesD [OF s1(2)]] Cons.prems(3) s1(1) lua_changes_trans [OF s1(2)] show ?case by auto
qed

text \<open>
  C34: Programs of constructions, moves and destructions of pinned values that all belong to one \<open>lua_State\<close>, over
  any Lua that behaves as its manual says and has room for three more values on the stack, from a registry with
  nothing under a light userdata: the assertion in the move assignment, which demands just that one
  \<open>lua_State\<close>, never fails, the stack is left as it was, and the registry keeps under the address of each object
  just the value that it is meant to hold.  When all objects are gone, it is as it was before.  (With pins of two
  threads of one Lua a move assignment between them fails the assertion.)
\<close>

theorem pins_refine_values:
  assumes "lua_contract api stack registry limit" and "stack L s = xs" "length xs + 2 < limit"
    and "\<forall>a. registry s (Light a) = Nil_Value" and "\<forall>c \<in> set cs. pin_step_ok L xs c"
  shows "\<exists>m s'. m = fold (pin_spec xs) cs (\<lambda>_. None) \<and> pin_run api cs (\<lambda>_. None, s) = Inr (pin_objects L m, s') \<and>
    lua_changes stack registry L s s' xs (pin_registry (registry s) m) \<and> (m = (\<lambda>_. None) \<longrightarrow> registry s' = registry s)"
proof -
  have start: "pin_objects L (\<lambda>_. None) = (\<lambda>_. None)" "pin_registry (registry s) (\<lambda>_. None) = registry s"
    using assms(4) by (auto simp: pin_objects_def pin_registry_def fun_eq_iff split: lua_value.splits)
  from pin_run_refines [OF assms(1,3,2) _ assms(5), of "registry s" "\<lambda>_. None"] show ?thesis
    by (auto simp: start lua_changes_def)
qed

text \<open>A Lua with a stack of values per thread and a function as its registry.\<close>

definition list_lua :: "((nat \<Rightarrow> 'o lua_value list) \<times> ('o lua_value \<Rightarrow> 'o lua_value)) lua_api" where
  "list_lua = \<lparr>
     lua_pushlightuserdata = (\<lambda>L p (st, r). (st(L := Light p # st L), r)),
     lua_pushvalue = (\<lambda>L i (st, r). (st(L := at_index i (st L) # st L), r)),
     lua_pushnil = (\<lambda>L (st, r). (st(L := Nil_Value # st L), r)),
     lua_pushthread = (\<lambda>L (st, r). (st(L := Thread L # st L), r)),
     lua_remove = (\<lambda>L i (st, r). (st(L := remove_index i (st L)), r)),
     lua_pop = (\<lambda>L n (st, r). (st(L := drop n (st L)), r)),
     lua_settable_registry = (\<lambda>L (st, r). (st(L := drop 2 (st L)), r(st L ! 1 := st L ! 0))),
     lua_gettable_registry = (\<lambda>L (st, r). (st(L := r (hd (st L)) # tl (st L)), r))\<rparr>"

lemma list_lua_contract: "lua_contract list_lua (\<lambda>L (st, r). st L) snd limit"
  by (auto simp: lua_contract_def lua_changes_def list_lua_def)

lemma pins_refine_values_witness:
  "\<exists>pins s'. pin_run list_lua [Pin_New 0 1 1, Pin_Move_Ctor 1 0, Pin_Drop 0] (\<lambda>_. None, (\<lambda>_. [Object ''value'']), \<lambda>_. Nil_Value) =
     Inr (pins, s') \<and> snd s' (Light 1) = Object ''value'' \<and> snd s' (Light 0) = Nil_Value \<and> pins 0 = None"
proof -
  let ?s = "(\<lambda>_ :: nat. [Object ''value''], \<lambda>_ :: string lua_value. Nil_Value :: string lua_value)"
    and ?steps = "[Pin_New 0 1 1, Pin_Move_Ctor 1 0, Pin_Drop 0]"
  have "\<forall>c \<in> set ?steps. pin_step_ok 1 [Object ''value''] c" by (simp add: valid_index_def)
  with pins_refine_values [OF list_lua_contract, of 1 ?s "[Object ''value'']" 20 ?steps] show ?thesis
    by (auto simp: lua_changes_def pin_registry_def pin_objects_def at_index_def stack_position_def)
qed

text \<open>
  The constructor of the state of a \<open>lua_thread\<close> does not pin the thread: the index -1 is that of the key, which
  has been pushed by then.  The registry gets the address of a dead object under the address of
  \<open>thread_pin\<close>, and nothing else; a thread that was not in it can be collected.
\<close>

theorem thread_is_not_pinned:
  assumes c: "lua_contract api stack registry limit" and s: "stack L s = xs" "length xs + 3 < limit"
    and ab: "thread_pin \<noteq> temporary"
  shows "\<exists>s'. pin_thread api thread_pin temporary L s = Inr (\<lparr>pin_lua = Some L\<rparr>, s') \<and>
    lua_changes stack registry L s s' xs ((registry s)(Light thread_pin := Light temporary, Light temporary := Nil_Value))"
proof -
  let ?s1 = "lua_pushthread api L s"
  have 1: "lua_changes stack registry L s ?s1 (Thread L # xs) (registry s)" using lua_contractD(4) [OF c s(1)] s(2) by simp
  have "valid_index (- 1) (Light temporary # Thread L # xs)" by (simp add: valid_index_def)
  from pin_ctor_changes [OF c lua_changesD(1) [OF 1] _ this] s(2) obtain s2 where
    s2: "pin_ctor api temporary L (- 1) ?s1 = (\<lparr>pin_lua = Some L\<rparr>, s2)"
      "lua_changes stack registry L ?s1 s2 (Thread L # xs) ((registry s)(Light temporary := Light temporary))"
    by (auto simp: lua_changesD(2) [OF 1] at_index_def stack_position_def)
  from pin_move_assign_changes [where u = None and v = "Some ()" and a = thread_pin and b = temporary,
      OF c lua_changesD(1) [OF s2(2)] _ refl] s(2) obtain s3 where
    s3: "pin_move_assign api thread_pin pin_default temporary \<lparr>pin_lua = Some L\<rparr> s2 = Inr (\<lparr>pin_lua = Some L\<rparr>, s3)"
      "lua_changes stack registry L s2 s3 (Thread L # xs)
        ((registry s)(Light temporary := Light temporary, Light thread_pin := Light temporary))"
    by (auto simp: lua_changesD(2) [OF s2(2)] pin_default_def)
  let ?s4 = "pin_dtor api temporary \<lparr>pin_lua = Some L\<rparr> s3"
  have 4: "lua_changes stack registry L s3 ?s4 (Thread L # xs)
      ((registry s)(Light thread_pin := Light temporary, Light temporary := Nil_Value))"
    using remove_this_changes [OF c lua_changesD(1) [OF s3(2)], of temporary] s(2) ab
    by (auto simp: pin_dtor_def lua_changesD(2) [OF s3(2)] lua_changes_def fun_upd_twist)
  from lua_contractD(6) [OF c lua_changesD(1) [OF 4], of 1] lua_changesD(2) [OF 4] s2(1) s3(1)
    lua_changes_trans [OF lua_changes_trans [OF lua_changes_trans [OF lua_changes_trans [OF 1 s2(2)] s3(2)] 4]] show ?thesis
    by (auto simp: pin_thread_def)
qed

lemma thread_is_not_pinned_witness:
  "\<exists>p s'. pin_thread list_lua 5 6 0 (\<lambda>_. [], \<lambda>_. Nil_Value :: string lua_value) = Inr (p, s') \<and> snd s' (Light 5) = Light 6 \<and>
     (\<forall>k. snd s' k \<noteq> Thread 0)"
  using thread_is_not_pinned [OF list_lua_contract, of 0 "(\<lambda>_. [], \<lambda>_. Nil_Value :: string lua_value)" "[]" 20 5 6]
  by (auto simp: lua_changes_def)

text \<open>
  The observers that are passed to \<open>async_get_one\<close> one after the other get the elements that the coroutine
  yields, in order, each exactly one, and the last is told that it has returned; afterwards no observer
  is kept.
\<close>

theorem lua_thread_delivers:
  assumes "generates resume (if was_resumed t then s else bind s) vs" "length rs = Suc (length vs)"
  shows "\<exists>s'. get_each from_lua bind resume rs (t, s, notified) =
    Ok () (\<lparr>was_resumed = True, receiver = None\<rparr>, s', notified @ map2 (\<lambda>r v. Got r (from_lua v)) rs vs @ [Ended (last rs)])"
  using assms
proof (induction vs arbitrary: t s rs notified)
  case Nil
  then obtain r where rs: "rs = [r]" by (auto simp: length_Suc_conv)
  let ?s = "if was_resumed t then s else bind s"
  from Nil.prems(1) have g: "resume ?s = (Returns, snd (resume ?s))" by (auto simp: prod_eq_iff)
  have "async_get_one from_lua bind resume r (t, s, notified) =
      Ok () (\<lparr>was_resumed = True, receiver = None\<rparr>, snd (resume ?s), notified @ [Ended r])"
    unfolding async_get_one_def prod.case by (subst g) (cases t, simp)
  with rs show ?case by (simp add: then_op_def ret_def)
next
  case (Cons v vs)
  then obtain r rs' where rs: "rs = r # rs'" "length rs' = Suc (length vs)" by (auto simp: length_Suc_conv)
  let ?s = "if was_resumed t then s else bind s"
  from Cons.prems(1) have g: "resume ?s = (Calls_Yield v, snd (resume ?s))" "generates resume (snd (resume ?s)) vs"
    by (auto simp: prod_eq_iff)
  let ?t = "\<lparr>was_resumed = True, receiver = None\<rparr>"
  from g(2) have "generates resume (if was_resumed ?t then snd (resume ?s) else bind (snd (resume ?s))) vs" by simp
  from Cons.IH [OF this rs(2), of "notified @ [Got r (from_lua v)]"] obtain s' where
    "get_each from_lua bind resume rs' (?t, snd (resume ?s), notified @ [Got r (from_lua v)]) =
      Ok () (?t, s', (notified @ [Got r (from_lua v)]) @ map2 (\<lambda>r v. Got r (from_lua v)) rs' vs @ [Ended (last rs')])" by blast
  moreover have "async_get_one from_lua bind resume r (t, s, notified) = Ok () (?t, snd (resume ?s), notified @ [Got r (from_lua v)])"
    unfolding async_get_one_def prod.case by (subst g(1)) (cases t, simp add: lua_yield_def)
  moreover have "last rs = last rs'" using rs by (cases rs') auto
  ultimately show ?case using rs(1) by (simp add: then_op_def)
qed

lemma lua_thread_delivers_witness:
  "\<exists>s'. get_each int (\<lambda>s. s) (\<lambda>n. if n < 2 then (Calls_Yield (n + 4), n + 1) else (Returns, n)) [7, 8, 9] (\<lparr>was_resumed = False, receiver = None\<rparr>, 0, []) =
     Ok () (\<lparr>was_resumed = True, receiver = None\<rparr>, s', [Got 7 4, Got 8 5, Ended 9])"
  using lua_thread_delivers [where resume = "\<lambda>n :: nat. if n < 2 then (Calls_Yield (n + 4), n + 1) else (Returns, n)" and vs = "[4, 5]"
      and rs = "[7, 8, 9]" and t = "\<lparr>was_resumed = False, receiver = None\<rparr>" and s = 0 and bind = "\<lambda>s. s" and from_lua = int and notified = "[]"]
  by simp

end
