(* ===== verification/Lua_Threads.thy ===== *)
theory Lua_Threads
  imports Lua_Pins
begin

text \<open>
  The rest of \<open>test/lua/lua.cpp\<close>: opening a Lua state, making the Lua thread of a \<open>lua_thread\<close>, and the function
  \<open>yield\<close> that the thread gets when it is resumed for the first time.  The functions of Lua 5.1 that are called here
  are parameters as well; \<open>lua_objects_contract\<close> states what the manual says of them.  An object has a name,
  which is not used again when it has been collected.
\<close>

section \<open>Lua\<close>

datatype c_function = Thread_Yield | Garbage_Collect_Weak_State

text \<open>
  What an object contains: the memory of a userdatum, of some size, a weak pointer to the state of a
  \<open>lua_thread\<close> that has been constructed there, the fields of a table, or a C function with its upvalues.
\<close>

datatype 'o lua_content =
    Memory nat
  | Weak_State nat
  | Table "string \<Rightarrow> 'o lua_value"
  | C_Function c_function "'o lua_value list"

record ('s, 'o) lua_objects_api = "'s lua_api" +
  lua_newthread :: "nat \<Rightarrow> 's \<Rightarrow> nat \<times> 's"
  lua_xmove :: "nat \<Rightarrow> nat \<Rightarrow> nat \<Rightarrow> 's \<Rightarrow> 's"
  lua_newuserdata :: "nat \<Rightarrow> nat \<Rightarrow> 's \<Rightarrow> 'o \<times> 's"
  construct_weak_state :: "'o \<Rightarrow> nat \<Rightarrow> 's \<Rightarrow> 's"
  lua_newtable :: "nat \<Rightarrow> 's \<Rightarrow> 's"
  lua_pushcfunction :: "nat \<Rightarrow> c_function \<Rightarrow> 's \<Rightarrow> 's"
  lua_setfield :: "nat \<Rightarrow> int \<Rightarrow> string \<Rightarrow> 's \<Rightarrow> 's"
  lua_setmetatable :: "nat \<Rightarrow> int \<Rightarrow> 's \<Rightarrow> 's"
  lua_pushcclosure :: "nat \<Rightarrow> c_function \<Rightarrow> nat \<Rightarrow> 's \<Rightarrow> 's"

text \<open>What can be seen of a state: the stacks, the registry, the objects with their metatables, and the names in use.\<close>

record ('s, 'o) lua_view =
  stack_of :: "nat \<Rightarrow> 's \<Rightarrow> 'o lua_value list"
  registry_of :: "'s \<Rightarrow> 'o lua_value \<Rightarrow> 'o lua_value"
  objects_of :: "'s \<Rightarrow> 'o \<Rightarrow> 'o lua_content \<times> 'o lua_value"
  names_of :: "'s \<Rightarrow> 'o set"
  threads_of :: "'s \<Rightarrow> nat set"

definition stack_changes :: "('s, 'o) lua_view \<Rightarrow> nat \<Rightarrow> 's \<Rightarrow> 's \<Rightarrow> 'o lua_value list \<Rightarrow> bool" where
  "stack_changes v L s s' xs \<longleftrightarrow> lua_changes (stack_of v) (registry_of v) L s s' xs (registry_of v s)"

text \<open>An object is new, or an old one is changed; the others stay as they are.\<close>

definition allocates :: "('s, 'o) lua_view \<Rightarrow> 's \<Rightarrow> 's \<Rightarrow> 'o \<Rightarrow> 'o lua_content \<times> 'o lua_value \<Rightarrow> bool" where
  "allocates v s s' x c \<longleftrightarrow> x \<notin> names_of v s \<and> names_of v s' = insert x (names_of v s) \<and> objects_of v s' = (objects_of v s)(x := c)"

definition writes :: "('s, 'o) lua_view \<Rightarrow> 's \<Rightarrow> 's \<Rightarrow> 'o \<Rightarrow> 'o lua_content \<times> 'o lua_value \<Rightarrow> bool" where
  "writes v s s' x c \<longleftrightarrow> names_of v s' = names_of v s \<and> objects_of v s' = (objects_of v s)(x := c)"

definition lua_allocation_contract :: "('s, 'o) lua_objects_api \<Rightarrow> ('s, 'o) lua_view \<Rightarrow> nat \<Rightarrow> bool" where
  "lua_allocation_contract api v limit \<longleftrightarrow>
     (\<forall>L s xs. stack_of v L s = xs \<longrightarrow> length xs < limit \<longrightarrow>
        (\<forall>n. \<exists>x s'. lua_newuserdata api L n s = (x, s') \<and> stack_changes v L s s' (Object x # xs) \<and> allocates v s s' x (Memory n, Nil_Value)) \<and>
        (\<exists>x. stack_changes v L s (lua_newtable api L s) (Object x # xs) \<and>
           allocates v s (lua_newtable api L s) x (Table (\<lambda>_. Nil_Value), Nil_Value)) \<and>
        (\<forall>f. \<exists>x. stack_changes v L s (lua_pushcfunction api L f s) (Object x # xs) \<and>
           allocates v s (lua_pushcfunction api L f s) x (C_Function f [], Nil_Value))) \<and>
     (\<forall>L s xs f n. stack_of v L s = xs \<longrightarrow> 0 < n \<longrightarrow> n \<le> length xs \<longrightarrow>
        (\<exists>x. stack_changes v L s (lua_pushcclosure api L f n s) (Object x # drop n xs) \<and>
           allocates v s (lua_pushcclosure api L f n s) x (C_Function f (rev (take n xs)), Nil_Value)))"

definition lua_write_contract :: "('s, 'o) lua_objects_api \<Rightarrow> ('s, 'o) lua_view \<Rightarrow> nat \<Rightarrow> bool" where
  "lua_write_contract api v weak_state_size \<longleftrightarrow>
     (\<forall>L s x n m w. objects_of v s x = (Memory n, m) \<longrightarrow> weak_state_size \<le> n \<longrightarrow>
        stack_changes v L s (construct_weak_state api x w s) (stack_of v L s) \<and> writes v s (construct_weak_state api x w s) x (Weak_State w, m)) \<and>
     (\<forall>L s i k x xs t m. stack_of v L s = x # xs \<longrightarrow> valid_index i (x # xs) \<longrightarrow> at_index i (x # xs) = Object t \<longrightarrow>
        objects_of v s t = (Table m, Nil_Value) \<longrightarrow>
        stack_changes v L s (lua_setfield api L i k s) xs \<and> writes v s (lua_setfield api L i k s) t (Table (m(k := x)), Nil_Value)) \<and>
     (\<forall>L s i x xs t c m. stack_of v L s = Object t # xs \<longrightarrow> valid_index i (Object t # xs) \<longrightarrow> at_index i (Object t # xs) = Object x \<longrightarrow>
        objects_of v s x = (c, m) \<longrightarrow>
        stack_changes v L s (lua_setmetatable api L i s) xs \<and> writes v s (lua_setmetatable api L i s) x (c, Object t))"

definition lua_thread_contract :: "('s, 'o) lua_objects_api \<Rightarrow> ('s, 'o) lua_view \<Rightarrow> nat \<Rightarrow> bool" where
  "lua_thread_contract api v limit \<longleftrightarrow>
     (\<forall>L s xs. stack_of v L s = xs \<longrightarrow> length xs < limit \<longrightarrow> L \<in> threads_of v s \<longrightarrow>
        (\<exists>M s'. lua_newthread api L s = (M, s') \<and> M \<notin> threads_of v s \<and> threads_of v s' = insert M (threads_of v s) \<and>
           stack_of v L s' = Thread M # xs \<and> stack_of v M s' = [] \<and> registry_of v s' = registry_of v s \<and>
           (\<forall>N. N \<noteq> L \<longrightarrow> N \<noteq> M \<longrightarrow> stack_of v N s' = stack_of v N s))) \<and>
     (\<forall>L M s n xs ys. L \<noteq> M \<longrightarrow> stack_of v L s = xs \<longrightarrow> stack_of v M s = ys \<longrightarrow> n \<le> length xs \<longrightarrow> length ys + n \<le> limit \<longrightarrow>
        stack_of v L (lua_xmove api L M n s) = drop n xs \<and> stack_of v M (lua_xmove api L M n s) = take n xs @ ys \<and>
        threads_of v (lua_xmove api L M n s) = threads_of v s \<and> registry_of v (lua_xmove api L M n s) = registry_of v s \<and>
        (\<forall>N. N \<noteq> L \<longrightarrow> N \<noteq> M \<longrightarrow> stack_of v N (lua_xmove api L M n s) = stack_of v N s))"

definition lua_objects_contract :: "('s, 'o) lua_objects_api \<Rightarrow> ('s, 'o) lua_view \<Rightarrow> nat \<Rightarrow> nat \<Rightarrow> bool" where
  "lua_objects_contract api v limit weak_state_size \<longleftrightarrow>
     lua_allocation_contract api v limit \<and> lua_write_contract api v weak_state_size \<and> lua_thread_contract api v limit"

section \<open>The code\<close>

text \<open>\<open>luaL_newstate\<close> and \<open>lua_close\<close> are parameters.\<close>

datatype open_error = Bad_Alloc

definition open_lua :: "('s \<Rightarrow> nat option \<times> 's) \<Rightarrow> ('s, open_error, nat) op" where
  "open_lua newstate s = (case newstate s of
      (None, s') \<Rightarrow> Raise Bad_Alloc s'
    | (Some L, s') \<Rightarrow> Ok L s')"

definition lua_deleter :: "(nat \<Rightarrow> 's \<Rightarrow> 's) \<Rightarrow> nat \<Rightarrow> 's \<Rightarrow> 's" where
  "lua_deleter close L = close L"

text \<open>The state of a new \<open>lua_thread\<close>: the Lua thread it resumes, its pin, and what \<open>async_get_one\<close> works on.\<close>

record made_thread =
  resumed_state :: nat
  thread_pin_of :: pinned_value
  initial_state :: lua_thread

definition lua_thread_ctor :: "('s, 'z) lua_api_scheme \<Rightarrow> nat \<Rightarrow> nat \<Rightarrow> nat \<Rightarrow> 's \<Rightarrow> fault + made_thread \<times> 's" where
  "lua_thread_ctor api thread_pin temporary L s =
     (case pin_thread (lua_api.truncate api) thread_pin temporary L s of
        Inl f \<Rightarrow> Inl f
      | Inr (p, s') \<Rightarrow> Inr (\<lparr>resumed_state = L, thread_pin_of = p, initial_state = \<lparr>was_resumed = False, receiver = None\<rparr>\<rparr>, s'))"

definition make_lua_thread :: "('s, 'o) lua_objects_api \<Rightarrow> nat \<Rightarrow> nat \<Rightarrow> nat \<Rightarrow> 's \<Rightarrow> fault + made_thread \<times> 's" where
  "make_lua_thread api thread_pin temporary parent s =
     (case lua_newthread api parent s of (coro, s1) \<Rightarrow>
        lua_thread_ctor api thread_pin temporary parent (lua_xmove api parent coro 1 s1))"

text \<open>The calls before the first \<open>lua_resume\<close>; \<open>w\<close> is the state of the \<open>lua_thread\<close>.\<close>

definition bind_yield :: "('s, 'o) lua_objects_api \<Rightarrow> nat \<Rightarrow> nat \<Rightarrow> nat \<Rightarrow> 's \<Rightarrow> 's" where
  "bind_yield api weak_state_size L w s =
     (case lua_newuserdata api L weak_state_size s of (bound_state, s1) \<Rightarrow>
      let s2 = construct_weak_state api bound_state w s1;
          s3 = lua_newtable api L s2;
          s4 = lua_pushcfunction api L Garbage_Collect_Weak_State s3;
          s5 = lua_setfield api L (- 2) ''__gc'' s4;
          s6 = lua_setmetatable api L (- 2) s5
      in lua_pushcclosure api L Thread_Yield 1 s6)"

text \<open>
  The function \<open>yield\<close>: \<open>upvalue\<close> is the content of its first upvalue, \<open>locked\<close> what locking a weak pointer gives.  The
  result says whether it yields; if not, it returns no values.
\<close>

definition thread_yield ::
    "('v \<Rightarrow> 'e) \<Rightarrow> 'o lua_content \<Rightarrow> (nat \<Rightarrow> lua_thread option) \<Rightarrow> 'v \<Rightarrow> 'e observed list \<Rightarrow>
     fault + bool \<times> (nat \<Rightarrow> lua_thread option) \<times> 'e observed list" where
  "thread_yield from_lua upvalue locked x notified = (case upvalue of
      Weak_State w \<Rightarrow> (case locked w of
          None \<Rightarrow> Inr (False, locked, notified)
        | Some t \<Rightarrow> (case lua_yield from_lua x t notified of
              Inl f \<Rightarrow> Inl f
            | Inr (t', notified') \<Rightarrow> Inr (True, locked(w := Some t'), notified')))
    | _ \<Rightarrow> Inl Wrong_Alternative)"

text \<open>The destructor of the weak pointer leaves raw memory behind.\<close>

definition garbage_collect_weak_state :: "nat \<Rightarrow> 'o lua_content \<Rightarrow> fault + 'o lua_content" where
  "garbage_collect_weak_state weak_state_size argument = (case argument of
      Weak_State w \<Rightarrow> Inr (Memory weak_state_size)
    | _ \<Rightarrow> Inl Wrong_Alternative)"

section \<open>Lemmas\<close>

lemma lua_allocates:
  assumes "lua_objects_contract api v limit sz" "stack_of v L s = xs" "length xs < limit"
  shows "\<exists>x s'. lua_newuserdata api L n s = (x, s') \<and> stack_changes v L s s' (Object x # xs) \<and> allocates v s s' x (Memory n, Nil_Value)"
    and "\<exists>x. stack_changes v L s (lua_newtable api L s) (Object x # xs) \<and>
      allocates v s (lua_newtable api L s) x (Table (\<lambda>_. Nil_Value), Nil_Value)"
    and "\<exists>x. stack_changes v L s (lua_pushcfunction api L f s) (Object x # xs) \<and>
      allocates v s (lua_pushcfunction api L f s) x (C_Function f [], Nil_Value)"
  using assms unfolding lua_objects_contract_def lua_allocation_contract_def by blast+

lemma lua_closes:
  assumes "lua_objects_contract api v limit sz" "stack_of v L s = xs" "0 < n" "n \<le> length xs"
  shows "\<exists>x. stack_changes v L s (lua_pushcclosure api L f n s) (Object x # drop n xs) \<and>
    allocates v s (lua_pushcclosure api L f n s) x (C_Function f (rev (take n xs)), Nil_Value)"
  using assms unfolding lua_objects_contract_def lua_allocation_contract_def by blast

lemma lua_writes:
  assumes "lua_objects_contract api v limit sz"
  shows "objects_of v s x = (Memory n, m) \<Longrightarrow> sz \<le> n \<Longrightarrow>
      stack_changes v L s (construct_weak_state api x w s) (stack_of v L s) \<and> writes v s (construct_weak_state api x w s) x (Weak_State w, m)"
    and "stack_of v L s = y # xs \<Longrightarrow> valid_index i (y # xs) \<Longrightarrow> at_index i (y # xs) = Object t \<Longrightarrow> objects_of v s t = (Table f, Nil_Value) \<Longrightarrow>
      stack_changes v L s (lua_setfield api L i k s) xs \<and> writes v s (lua_setfield api L i k s) t (Table (f(k := y)), Nil_Value)"
    and "stack_of v L s = Object t # xs \<Longrightarrow> valid_index i (Object t # xs) \<Longrightarrow> at_index i (Object t # xs) = Object x \<Longrightarrow>
      objects_of v s x = (c, m) \<Longrightarrow>
      stack_changes v L s (lua_setmetatable api L i s) xs \<and> writes v s (lua_setmetatable api L i s) x (c, Object t)"
  using assms unfolding lua_objects_contract_def lua_write_contract_def by metis+

lemma lua_new_thread:
  assumes "lua_objects_contract api v limit sz" "stack_of v L s = xs" "length xs < limit" "L \<in> threads_of v s"
  shows "\<exists>M s'. lua_newthread api L s = (M, s') \<and> M \<notin> threads_of v s \<and> stack_of v L s' = Thread M # xs \<and> stack_of v M s' = [] \<and>
    registry_of v s' = registry_of v s"
proof -
  from assms(1) have "lua_thread_contract api v limit" by (simp add: lua_objects_contract_def)
  from conjunct1 [OF this [unfolded lua_thread_contract_def], rule_format, OF assms(2,3,4)] show ?thesis by fast
qed

lemma lua_moves:
  assumes "lua_objects_contract api v limit sz" "L \<noteq> M" "stack_of v L s = xs" "stack_of v M s = ys" "n \<le> length xs" "length ys + n \<le> limit"
  shows "stack_of v L (lua_xmove api L M n s) = drop n xs \<and> stack_of v M (lua_xmove api L M n s) = take n xs @ ys \<and>
    registry_of v (lua_xmove api L M n s) = registry_of v s"
proof -
  from assms(1) have "lua_thread_contract api v limit" by (simp add: lua_objects_contract_def)
  from conjunct2 [OF this [unfolded lua_thread_contract_def], rule_format, OF assms(2-6)] show ?thesis by simp
qed

lemma stack_changesD: "stack_changes v L s s' xs \<Longrightarrow> stack_of v L s' = xs \<and> registry_of v s' = registry_of v s"
  by (simp add: stack_changes_def lua_changes_def)

lemma stack_changes_trans: "stack_changes v L s s1 xs \<Longrightarrow> stack_changes v L s1 s2 ys \<Longrightarrow> stack_changes v L s s2 ys"
  by (simp add: stack_changes_def lua_changes_def)

lemma at_second: "valid_index (- 2) (x # y # xs) \<and> at_index (- 2) (x # y # xs) = y"
  by (simp add: valid_index_def at_index_def stack_position_def)

section \<open>Properties\<close>

text \<open>
  Before the coroutine runs for the first time it gets the function \<open>yield\<close> on top of its stack, with one
  upvalue: a userdatum that holds a weak pointer to the state of the \<open>lua_thread\<close> and whose metatable has the
  destructor of it as \<open>__gc\<close>.  Nothing else on the stack, in the registry or among the other objects changes.
\<close>

theorem bind_yield_binds:
  assumes c: "lua_objects_contract api v limit sz" and s: "stack_of v L s = xs" "length xs + 2 < limit"
  shows "\<exists>s' c x t g f. bind_yield api sz L w s = s' \<and> stack_changes v L s s' (Object c # xs) \<and>
    fst (objects_of v s' c) = C_Function Thread_Yield [Object x] \<and> objects_of v s' x = (Weak_State w, Object t) \<and>
    fst (objects_of v s' t) = Table f \<and> f ''__gc'' = Object g \<and> fst (objects_of v s' g) = C_Function Garbage_Collect_Weak_State [] \<and>
    (\<forall>y \<in> names_of v s. objects_of v s' y = objects_of v s y)"
proof -
  obtain x s1 where 1: "lua_newuserdata api L sz s = (x, s1)" "stack_changes v L s s1 (Object x # xs)"
      "allocates v s s1 x (Memory sz, Nil_Value)"
    using lua_allocates(1) [OF c s(1)] s(2) by force
  let ?s2 = "construct_weak_state api x w s1"
  have 2: "stack_changes v L s1 ?s2 (Object x # xs)" "writes v s1 ?s2 x (Weak_State w, Nil_Value)"
    using lua_writes(1) [OF c, of s1 x sz Nil_Value L w] 1(3) stack_changesD [OF 1(2)] by (simp_all add: allocates_def)
  let ?s3 = "lua_newtable api L ?s2"
  obtain t where 3: "stack_changes v L ?s2 ?s3 (Object t # Object x # xs)" "allocates v ?s2 ?s3 t (Table (\<lambda>_. Nil_Value), Nil_Value)"
    using lua_allocates(2) [OF c conjunct1 [OF stack_changesD [OF 2(1)]]] s(2) by auto
  let ?s4 = "lua_pushcfunction api L Garbage_Collect_Weak_State ?s3"
  obtain g where 4: "stack_changes v L ?s3 ?s4 (Object g # Object t # Object x # xs)"
      "allocates v ?s3 ?s4 g (C_Function Garbage_Collect_Weak_State [], Nil_Value)"
    using lua_allocates(3) [OF c conjunct1 [OF stack_changesD [OF 3(1)]]] s(2) by auto
  have new: "x \<notin> names_of v s" "t \<notin> names_of v s" "g \<notin> names_of v s" "t \<noteq> x" "g \<noteq> t" "g \<noteq> x"
    using 1(3) 2(2) 3(2) 4(2) by (auto simp: allocates_def writes_def)
  let ?s5 = "lua_setfield api L (- 2) ''__gc'' ?s4"
  have 5: "stack_changes v L ?s4 ?s5 (Object t # Object x # xs)" "writes v ?s4 ?s5 t (Table ((\<lambda>_. Nil_Value)(''__gc'' := Object g)), Nil_Value)"
    using lua_writes(2) [OF c conjunct1 [OF stack_changesD [OF 4(1)]], of "- 2" t] at_second [of "Object g" "Object t" "Object x # xs"] 3(2) 4(2) new
    by (simp_all add: allocates_def)
  let ?s6 = "lua_setmetatable api L (- 2) ?s5"
  have 6: "stack_changes v L ?s5 ?s6 (Object x # xs)" "writes v ?s5 ?s6 x (Weak_State w, Object t)"
    using lua_writes(3) [OF c conjunct1 [OF stack_changesD [OF 5(1)]], of "- 2" x] at_second [of "Object t" "Object x" xs] 2(2) 3(2) 4(2) 5(2) new
    by (simp_all add: allocates_def writes_def)
  let ?s7 = "lua_pushcclosure api L Thread_Yield 1 ?s6"
  obtain c' where 7: "stack_changes v L ?s6 ?s7 (Object c' # xs)" "allocates v ?s6 ?s7 c' (C_Function Thread_Yield [Object x], Nil_Value)"
    using lua_closes [OF c conjunct1 [OF stack_changesD [OF 6(1)]], of 1 Thread_Yield] by auto
  have c': "c' \<notin> insert g (insert t (insert x (names_of v s)))"
    using 1(3) 2(2) 3(2) 4(2) 5(2) 6(2) 7(2) by (auto simp: allocates_def writes_def)
  have B: "bind_yield api sz L w s = ?s7" by (simp add: bind_yield_def 1(1) Let_def)
  have objects: "objects_of v (bind_yield api sz L w s) = (objects_of v s)(x := (Weak_State w, Object t),
      t := (Table ((\<lambda>_. Nil_Value)(''__gc'' := Object g)), Nil_Value), g := (C_Function Garbage_Collect_Weak_State [], Nil_Value),
      c' := (C_Function Thread_Yield [Object x], Nil_Value))"
    unfolding B using 1(3) 2(2) 3(2) 4(2) 5(2) 6(2) 7(2) new c' by (auto simp: allocates_def writes_def fun_eq_iff)
  have "stack_changes v L s (bind_yield api sz L w s) (Object c' # xs)"
    unfolding B
    by (rule stack_changes_trans [OF _ 7(1)], rule stack_changes_trans [OF _ 6(1)], rule stack_changes_trans [OF _ 5(1)],
        rule stack_changes_trans [OF _ 4(1)], rule stack_changes_trans [OF _ 3(1)], rule stack_changes_trans [OF 1(2) 2(1)])
  then show ?thesis
    using new c'
    by (intro exI [of _ "bind_yield api sz L w s"] exI [of _ c'] exI [of _ x] exI [of _ t] exI [of _ g]
        exI [of _ "(\<lambda>_. Nil_Value)(''__gc'' := Object g)"]) (auto simp: objects)
qed

text \<open>
  \<open>make_lua_thread\<close> makes a new Lua thread, but \<open>lua_xmove\<close> moves that thread onto its own stack instead of the
  function of its caller, which stays where it is, and the \<open>lua_thread\<close> is constructed over the parent: it
  resumes the parent, and the new thread is not referred to by anything but itself.
\<close>

theorem make_lua_thread_resumes_parent:
  assumes c: "lua_objects_contract api v limit weak_state_size" "lua_contract (lua_api.truncate api) (stack_of v) (registry_of v) limit"
    and s: "stack_of v parent s = f # xs" "length xs + 4 < limit" "parent \<in> threads_of v s" and ab: "thread_pin \<noteq> temporary"
  shows "\<exists>coro t s'. make_lua_thread api thread_pin temporary parent s = Inr (t, s') \<and> resumed_state t = parent \<and>
    coro \<notin> threads_of v s \<and> stack_of v coro s' = [Thread coro] \<and> stack_of v parent s' = f # xs \<and>
    registry_of v s' = (registry_of v s)(Light thread_pin := Light temporary, Light temporary := Nil_Value)"
proof -
  obtain coro s1 where 1: "lua_newthread api parent s = (coro, s1)" "coro \<notin> threads_of v s"
      "stack_of v parent s1 = Thread coro # f # xs" "stack_of v coro s1 = []" "registry_of v s1 = registry_of v s"
    using lua_new_thread [OF c(1) s(1) _ s(3)] s(2) by auto
  let ?s2 = "lua_xmove api parent coro 1 s1"
  from 1(2) s(3) have "parent \<noteq> coro" by auto
  then have 2: "stack_of v parent ?s2 = f # xs" "stack_of v coro ?s2 = [Thread coro]" "registry_of v ?s2 = registry_of v s"
    using lua_moves [OF c(1) _ 1(3,4), of 1] s(2) 1(5) by simp_all
  from thread_is_not_pinned [OF c(2) 2(1) _ ab] s(2) obtain s' where
    "pin_thread (lua_api.truncate api) thread_pin temporary parent ?s2 = Inr (\<lparr>pin_lua = Some parent\<rparr>, s')"
    "lua_changes (stack_of v) (registry_of v) parent ?s2 s' (f # xs)
      ((registry_of v s)(Light thread_pin := Light temporary, Light temporary := Nil_Value))"
    by (auto simp: 2(3) [simplified])
  with 1 2 \<open>parent \<noteq> coro\<close> show ?thesis
    by (intro exI [of _ coro]) (auto simp: make_lua_thread_def lua_thread_ctor_def lua_changes_def)
qed

text \<open>A Lua with lists as stacks, functions as registry and objects, and counters for the names and the threads.\<close>

record lua_model =
  model_stacks :: "nat \<Rightarrow> nat lua_value list"
  model_registry :: "nat lua_value \<Rightarrow> nat lua_value"
  model_objects :: "nat \<Rightarrow> nat lua_content \<times> nat lua_value"
  model_names :: nat
  model_threads :: nat

definition model_stack :: "nat \<Rightarrow> (nat lua_value list \<Rightarrow> nat lua_value list) \<Rightarrow> lua_model \<Rightarrow> lua_model" where
  "model_stack L f s = s\<lparr>model_stacks := (model_stacks s)(L := f (model_stacks s L))\<rparr>"

definition model_new :: "nat \<Rightarrow> nat \<Rightarrow> nat lua_content \<Rightarrow> lua_model \<Rightarrow> lua_model" where
  "model_new L n c s = (model_stack L (\<lambda>xs. Object (model_names s) # drop n xs) s)\<lparr>
     model_objects := (model_objects s)(model_names s := (c, Nil_Value)), model_names := Suc (model_names s)\<rparr>"

definition model_object :: "nat \<Rightarrow> int \<Rightarrow> lua_model \<Rightarrow> nat" where
  "model_object L i s = (case at_index i (model_stacks s L) of Object x \<Rightarrow> x | _ \<Rightarrow> 0)"

definition model_lua :: "(lua_model, nat) lua_objects_api" where
  "model_lua = \<lparr>
     lua_pushlightuserdata = (\<lambda>L p. model_stack L ((#) (Light p))),
     lua_pushvalue = (\<lambda>L i. model_stack L (\<lambda>xs. at_index i xs # xs)),
     lua_pushnil = (\<lambda>L. model_stack L ((#) Nil_Value)),
     lua_pushthread = (\<lambda>L. model_stack L ((#) (Thread L))),
     lua_remove = (\<lambda>L i. model_stack L (remove_index i)),
     lua_pop = (\<lambda>L n. model_stack L (drop n)),
     lua_settable_registry = (\<lambda>L s. (model_stack L (drop 2) s)\<lparr>
       model_registry := (model_registry s)(model_stacks s L ! 1 := model_stacks s L ! 0)\<rparr>),
     lua_gettable_registry = (\<lambda>L s. model_stack L (\<lambda>xs. model_registry s (hd xs) # tl xs) s),
     lua_newthread = (\<lambda>L s. (model_threads s, (model_stack (model_threads s) (\<lambda>_. [])
       (model_stack L ((#) (Thread (model_threads s))) s))\<lparr>model_threads := Suc (model_threads s)\<rparr>)),
     lua_xmove = (\<lambda>L M n s. model_stack L (drop n) (model_stack M ((@) (take n (model_stacks s L))) s)),
     lua_newuserdata = (\<lambda>L n s. (model_names s, model_new L 0 (Memory n) s)),
     construct_weak_state = (\<lambda>x w s. s\<lparr>model_objects := (model_objects s)(x := (Weak_State w, snd (model_objects s x)))\<rparr>),
     lua_newtable = (\<lambda>L. model_new L 0 (Table (\<lambda>_. Nil_Value))),
     lua_pushcfunction = (\<lambda>L f. model_new L 0 (C_Function f [])),
     lua_setfield = (\<lambda>L i k s. (model_stack L tl s)\<lparr>model_objects := (model_objects s)(model_object L i s :=
       (case model_objects s (model_object L i s) of
          (Table m, t) \<Rightarrow> (Table (m(k := hd (model_stacks s L))), t) | c \<Rightarrow> c))\<rparr>),
     lua_setmetatable = (\<lambda>L i s. (model_stack L tl s)\<lparr>model_objects := (model_objects s)(model_object L i s :=
       (fst (model_objects s (model_object L i s)), hd (model_stacks s L)))\<rparr>),
     lua_pushcclosure = (\<lambda>L f n s. model_new L n (C_Function f (rev (take n (model_stacks s L)))) s)\<rparr>"

definition model_view :: "(lua_model, nat) lua_view" where
  "model_view = \<lparr>stack_of = (\<lambda>L s. model_stacks s L), registry_of = model_registry, objects_of = model_objects,
     names_of = (\<lambda>s. {..< model_names s}), threads_of = (\<lambda>s. {..< model_threads s})\<rparr>"

lemma model_lua_contract: "lua_contract (lua_api.truncate model_lua) (stack_of model_view) (registry_of model_view) limit"
  by (auto simp: lua_contract_def lua_changes_def model_lua_def model_view_def model_stack_def lua_api.truncate_def)

lemma model_objects_contract: "lua_objects_contract model_lua model_view limit sz"
  unfolding lua_objects_contract_def
proof (intro conjI)
  show "lua_allocation_contract model_lua model_view limit"
    by (auto simp: lua_allocation_contract_def stack_changes_def lua_changes_def allocates_def model_lua_def model_view_def
        model_new_def model_stack_def)
  show "lua_write_contract model_lua model_view sz"
    by (auto simp: lua_write_contract_def stack_changes_def lua_changes_def writes_def model_lua_def model_view_def
        model_stack_def model_object_def)
  show "lua_thread_contract model_lua model_view limit"
    by (auto simp: lua_thread_contract_def model_lua_def model_view_def model_stack_def)
qed

definition model_start :: lua_model where
  "model_start = \<lparr>model_stacks = (\<lambda>_. [])(0 := [Object 0]), model_registry = (\<lambda>_. Nil_Value),
     model_objects = (\<lambda>_. (Memory 0, Nil_Value)), model_names = 1, model_threads = 1\<rparr>"

lemma bind_yield_binds_witness:
  "\<exists>c x. model_stacks (bind_yield model_lua 16 0 7 model_start) 0 = [Object c, Object 0] \<and>
     fst (model_objects (bind_yield model_lua 16 0 7 model_start) c) = C_Function Thread_Yield [Object x] \<and>
     fst (model_objects (bind_yield model_lua 16 0 7 model_start) x) = Weak_State 7"
proof -
  have "stack_of model_view 0 model_start = [Object 0]" by (simp add: model_view_def model_start_def)
  from bind_yield_binds [OF model_objects_contract [of 20 16] this, of 7] obtain c x t where
    "stack_changes model_view 0 model_start (bind_yield model_lua 16 0 7 model_start) [Object c, Object 0]"
    "fst (objects_of model_view (bind_yield model_lua 16 0 7 model_start) c) = C_Function Thread_Yield [Object x]"
    "objects_of model_view (bind_yield model_lua 16 0 7 model_start) x = (Weak_State 7, Object t)" by auto
  then show ?thesis by (intro exI [of _ c] exI [of _ x]) (simp add: model_view_def stack_changes_def lua_changes_def)
qed

lemma make_lua_thread_resumes_parent_witness:
  "\<exists>coro t s'. make_lua_thread model_lua 5 6 0 model_start = Inr (t, s') \<and> resumed_state t = 0 \<and> coro \<noteq> 0 \<and>
     model_stacks s' coro = [Thread coro] \<and> model_stacks s' 0 = [Object 0]"
proof -
  have "stack_of model_view 0 model_start = [Object 0]" "0 \<in> threads_of model_view model_start"
    by (simp_all add: model_view_def model_start_def)
  from make_lua_thread_resumes_parent [OF model_objects_contract [of 20 16] model_lua_contract this(1) _ this(2), of 5 6]
  obtain coro t s' where "make_lua_thread model_lua 5 6 0 model_start = Inr (t, s')" "resumed_state t = 0"
    "coro \<notin> threads_of model_view model_start" "stack_of model_view coro s' = [Thread coro]" "stack_of model_view 0 s' = [Object 0]" by auto
  then show ?thesis by (intro exI [of _ coro] exI [of _ t] exI [of _ s']) (simp add: model_view_def model_start_def)
qed

text \<open>What \<open>yield\<close> does with the upvalue that it has been given.\<close>

lemma thread_yield_result:
  "locked w = Some t \<Longrightarrow> receiver t = Some r \<Longrightarrow>
     thread_yield from_lua (Weak_State w) locked x notified = Inr (True, locked(w := Some (t\<lparr>receiver := None\<rparr>)), notified @ [Got r (from_lua x)])"
  "locked w = None \<Longrightarrow> thread_yield from_lua (Weak_State w) locked x notified = Inr (False, locked, notified)"
  by (simp_all add: thread_yield_def lua_yield_def)

end
