(* ===== verification/Integer_Sequence.thy ===== *)
theory Integer_Sequence
  imports Silicium_Prelude
begin

text \<open>
  \<open>detail/integer_sequence.hpp\<close>: the sequence 0, ..., N - 1 as a type that is computed while compiling.  A pack of
  integers is a list; a class template with a member \<open>type\<close> is a function.  The compiler instantiates a
  template once for each argument, so that its work is the number of different arguments.
\<close>

definition concat_integer_sequence :: "nat list \<Rightarrow> nat list \<Rightarrow> nat list" where
  "concat_integer_sequence xs ys = xs @ map (\<lambda>n. length xs + n) ys"

fun make_integer_sequence :: "nat \<Rightarrow> nat list" where
  "make_integer_sequence n =
     (if n = 0 then [] else if n = 1 then [0]
      else concat_integer_sequence (make_integer_sequence (n div 2)) (make_integer_sequence (n - n div 2)))"

declare make_integer_sequence.simps [simp del]

text \<open>The arguments that \<open>make_integer_sequence\<close> is instantiated with on the way.\<close>

fun instantiated :: "nat \<Rightarrow> nat set" where
  "instantiated n = insert n (if n \<le> 1 then {} else instantiated (n div 2) \<union> instantiated (n - n div 2))"

declare instantiated.simps [simp del]

lemma make_integer_sequence_upt: "make_integer_sequence n = [0..<n]"
proof (induction n rule: less_induct)
  case (less n)
  show ?case
  proof (cases "n \<le> 1")
    case True
    then have "n = 0 \<or> n = 1" by auto
    then show ?thesis by (subst make_integer_sequence.simps) (elim disjE; simp)
  next
    case False
    then have "n div 2 < n" "n - n div 2 < n" by auto
    note IH = less.IH [OF this(1)] less.IH [OF this(2)]
    have "map (\<lambda>k. n div 2 + k) [0..<n - n div 2] = [n div 2..<n]"
      using map_add_upt [of "n div 2" "n - n div 2"] by (simp add: add.commute)
    then show ?thesis
      using False upt_add_eq_append [of 0 "n div 2" "n - n div 2"]
      by (subst make_integer_sequence.simps) (simp add: concat_integer_sequence_def IH)
  qed
qed

text \<open>After \<open>j\<close> steps an argument is \<open>n\<close> divided by the \<open>j\<close>-th power of two, rounded down or up by one.\<close>

lemma halves_of_level:
  assumes "m = q \<or> m = Suc q"
  shows "m div 2 \<in> {q div 2, Suc (q div 2)}" "m - m div 2 \<in> {q div 2, Suc (q div 2)}"
  using assms by auto

lemma instantiated_levels:
  "n < 2 ^ k \<Longrightarrow> j \<le> k \<Longrightarrow> m \<in> {n div 2 ^ j, Suc (n div 2 ^ j)} \<Longrightarrow>
   instantiated m \<subseteq> (\<Union>i \<in> {j..k}. {n div 2 ^ i, Suc (n div 2 ^ i)})"
proof (induction "k - j" arbitrary: j m)
  case 0
  then have "m \<le> 1" by auto
  with 0 show ?case by (subst instantiated.simps) auto
next
  case (Suc d)
  let ?levels = "\<lambda>j. \<Union>i \<in> {j..k}. {n div 2 ^ i, Suc (n div 2 ^ i)}"
  have "n div 2 ^ Suc j = n div 2 ^ j div 2" by (simp add: div_mult2_eq [symmetric] mult.commute)
  with halves_of_level [of m "n div 2 ^ j"] Suc.prems(3)
  have "m div 2 \<in> {n div 2 ^ Suc j, Suc (n div 2 ^ Suc j)}" "m - m div 2 \<in> {n div 2 ^ Suc j, Suc (n div 2 ^ Suc j)}" by simp_all
  with Suc.hyps(1) [of "Suc j"] Suc.hyps(2) Suc.prems(1)
  have "instantiated (m div 2) \<subseteq> ?levels (Suc j)" "instantiated (m - m div 2) \<subseteq> ?levels (Suc j)" by auto
  moreover have "?levels (Suc j) \<subseteq> ?levels j" by (intro UN_mono) auto
  moreover have "m \<in> ?levels j" using Suc.prems(2,3) by auto
  ultimately show ?case by (subst instantiated.simps) auto
qed

text \<open>
  \<open>make_integer_sequence<N>\<close> is the sequence from 0 to N - 1, and the compiler gets there with a logarithmic number
  of different instantiations, as the comment says: at most \<open>2 * k + 2\<close> for an N of \<open>k\<close> bits.
\<close>

theorem integer_sequence_logarithmic:
  assumes "n < 2 ^ k"
  shows "make_integer_sequence n = [0..<n] \<and> finite (instantiated n) \<and> card (instantiated n) \<le> 2 * k + 2"
proof -
  let ?levels = "\<lambda>i. {n div 2 ^ i, Suc (n div 2 ^ i)}"
  have sub: "instantiated n \<subseteq> (\<Union>i \<in> {0..k}. ?levels i)" using instantiated_levels [OF assms, of 0 n] by simp
  have "card (\<Union>i \<in> {0..k}. ?levels i) \<le> (\<Sum>i \<in> {0..k}. card (?levels i))" by (rule card_UN_le) simp
  also have "\<dots> = 2 * k + 2" by simp
  finally have "card (\<Union>i \<in> {0..k}. ?levels i) \<le> 2 * k + 2" .
  moreover have "finite (\<Union>i \<in> {0..k}. ?levels i)" by simp
  ultimately show ?thesis
    using card_mono [OF _ sub] finite_subset [OF sub] make_integer_sequence_upt by (meson le_trans)
qed

lemma integer_sequence_logarithmic_witness: "make_integer_sequence 5 = [0, 1, 2, 3, 4] \<and> card (instantiated 5) \<le> 8"
  using integer_sequence_logarithmic [of 5 3] by (simp add: upt_rec)

end
