(* ===== verification/Examples.thy ===== *)
theory Examples
  imports Server Html "HOL-Library.Word"
begin

text \<open>
  The other examples: \<open>examples/trivialhttp.cpp\<close>, a server with a thread for each visitor, and the document of
  \<open>examples/html.cpp\<close>.  The socket is a world \<open>'w\<close> with Boost.Asio's functions as parameters;
  \<open>boost::format\<close> prints a number in decimal.
\<close>

section \<open>trivialhttp\<close>

definition digit :: "nat \<Rightarrow> char" where
  "digit n = char_of (48 + n)"

fun decimal :: "nat \<Rightarrow> string" where
  "decimal n = (if n < 10 then [digit n] else decimal (n div 10) @ [digit (n mod 10)])"

declare decimal.simps [simp del]

definition trivial_response :: "64 word \<Rightarrow> string" where
  "trivial_response visitor_id = ''HTTP/1.0 200 OK'' @ [CR, LF] @ ''Content-Length: 9'' @ [CR, LF] @
     ''Connection: close'' @ [CR, LF] @ [CR, LF] @ decimal (unat visitor_id)"

text \<open>The last loop of a thread: receive until there is an error.\<close>

partial_function (option) drain :: "('w \<Rightarrow> bool \<times> 'w) \<Rightarrow> 'w \<Rightarrow> 'w option" where
  "drain receive w = (case receive w of (ec, w') \<Rightarrow> if ec then Some w' else drain receive w')"

text \<open>
  The thread of a visitor; the result is what it prints to \<open>std::cerr\<close>.  \<open>shutdown\<close> is called without an
  \<open>error_code\<close> and throws, which terminates the program since nothing catches it.
\<close>

definition trivial_visitor ::
    "('w \<Rightarrow> bool \<times> 'w) \<Rightarrow> ('w \<Rightarrow> string \<Rightarrow> bool \<times> nat \<times> 'w) \<Rightarrow> ('w \<Rightarrow> ('x + unit) \<times> 'w) \<Rightarrow> ('w \<Rightarrow> bool \<times> 'w) \<Rightarrow>
     64 word \<Rightarrow> 'w \<Rightarrow> ('w, 'x, string) outcome option" where
  "trivial_visitor read_some send shutdown receive visitor_id w = (case read_some w of (ec, w1) \<Rightarrow>
     (if ec then Some (Ok [] w1)
      else (let response_string = trivial_response visitor_id
            in (case send w1 response_string of (ec, sent, w2) \<Rightarrow>
              (if ec \<or> sent \<noteq> length response_string then Some (Ok ''Could not send'' w2)
               else (case shutdown w2 of
                  (Inl e, w3) \<Rightarrow> Some (Fault Terminated)
                | (Inr _, w3) \<Rightarrow> Option.bind (drain receive w3) (\<lambda>w4. Some (Ok [] w4))))))))"

text \<open>
  The loop of \<open>main\<close>: each client that is accepted gets the next number and a thread; \<open>accept\<close> ends it by
  throwing.  The result is the exception and the clients with their numbers.
\<close>

partial_function (option) trivial_main :: "('w \<Rightarrow> ('x + 'c) \<times> 'w) \<Rightarrow> 64 word \<Rightarrow> 'w \<Rightarrow> ('x \<times> ('c \<times> 64 word) list) option" where
  "trivial_main accept visitor_count w = (case accept w of
      (Inl e, w1) \<Rightarrow> Some (e, [])
    | (Inr client, w1) \<Rightarrow> (let visitor_id = visitor_count + 1
        in Option.bind (trivial_main accept visitor_id w1) (\<lambda>(e, visitors). Some (e, (client, visitor_id) # visitors))))"

lemma length_decimal_lower: "10 ^ k \<le> n \<Longrightarrow> k < length (decimal n)"
proof (induction k arbitrary: n)
  case 0
  then show ?case by (subst decimal.simps) simp
next
  case (Suc k)
  then have "10 ^ k \<le> n div 10" "\<not> n < 10" by (auto simp: less_eq_div_iff_mult_less_eq)
       (metis less_le_trans not_less one_le_numeral one_le_power mult_le_mono2 mult.right_neutral)
  with Suc.IH [of "n div 10"] show ?case by (subst decimal.simps) simp
qed

lemma length_decimal_upper: "n < 10 ^ Suc k \<Longrightarrow> length (decimal n) \<le> Suc k"
proof (induction k arbitrary: n)
  case 0
  then show ?case by (subst decimal.simps) simp
next
  case (Suc k)
  then have "n div 10 < 10 ^ Suc k" by (auto simp: div_less_iff_less_mult)
  with Suc.IH [of "n div 10"] show ?case by (subst decimal.simps) simp
qed

lemma trivial_main_eq:
  "accepts_until accept e cs w \<Longrightarrow>
   trivial_main accept n w = Some (e, zip cs (map (\<lambda>k. n + 1 + of_nat k) [0 ..< length cs]))"
proof (induction cs arbitrary: n w)
  case Nil
  then show ?case by (subst trivial_main.simps) (auto split: prod.splits sum.splits)
next
  case (Cons c cs)
  then obtain w1 where w1: "accept w = (Inr c, w1)" "accepts_until accept e cs w1" by (cases "accept w") auto
  have "map (\<lambda>k. n + 1 + of_nat k) [0 ..< length (c # cs)] = (n + 1) # map (\<lambda>k. n + 1 + 1 + of_nat k) [0 ..< length cs]"
    by (simp add: upt_conv_Cons map_Suc_upt [symmetric] del: upt_Suc)
  with Cons.IH [OF w1(2), of "n + 1"] w1(1) show ?case by (subst trivial_main.simps) simp
qed

lemma trivial_response_parsed:
  assumes "cast_unsigned ''200'' = Some 200"
  shows "parse_response_string cast_unsigned (trivial_response visitor_id) =
    Inr (Some \<lparr>resp_version = ''HTTP/1.0'', resp_status = 200, resp_status_text = ''OK'',
      resp_arguments = Some [(''Connection'', ''close''), (''Content-Length'', ''9'')]\<rparr>, decimal (unat visitor_id))"
proof -
  let ?d = "decimal (unat visitor_id)"
  have lines: "split_line (l @ CR # LF # r) = Some (l, r)" if "CR \<notin> set l" "LF \<notin> set l" for l r
    using that by (rule split_line_plain)
  note line1 = lines [of "''HTTP/1.0 200 OK''"] and line2 = lines [of "''Content-Length: 9''"] and line3 = lines [of "''Connection: close''"] and line4 = lines [of "[]"]
  show ?thesis
    using assms line1 line2 line3 line4
    by (simp add: parse_response_string_def trivial_response_def parse_status_line_def unsigned_to_int_def
      read_arguments_string.simps split_value_line_def less_list_code)
qed

section \<open>The document of html.cpp\<close>

text \<open>\<open>fixed_length<5>\<close> is not a function of the trees as syntax and is written out.\<close>

definition html_document :: "(string, char, 'x) append_function \<Rightarrow> string html_element" where
  "html_document app =
     tag_without_attributes app ''html''
       (plus_element
         (tag_without_attributes app ''head'' (tag_without_attributes app ''title'' (text_literal app ''Title'')))
         (tag_without_attributes app ''body''
           (plus_element (plus_element (text_literal app ''Hello, '') (raw_element app ''<b>world</b>''))
             (fixed_length 5 (\<lambda>t. unpaired_element app (C_Str ''br'') t)))))"
section \<open>Properties\<close>

text \<open>
  The main loop of trivialhttp numbers the clients in the order in which they are accepted, and a client that
  reads the response with \<open>parse_response\<close> over any source gets status 200 and a \<open>Content-Length\<close> of 9 in front
  of its number; that length is right exactly for the first 899,999,999 visitors (of fewer than \<open>2 ^ 63\<close>).
\<close>

theorem trivial_server_responses:
  fixes accept :: "'w \<Rightarrow> ('x + 'c) \<times> 'w"
  assumes "accepts_until accept e cs w" "k < length cs" "k < 2 ^ 63"
    and "element_source cn pending invar" "invar s" "cast_unsigned ''200'' = Some 200"
    and "pending s = trivial_response (100000001 + of_nat k)"
  shows "\<exists>visitors. trivial_main accept 100000000 w = Some (e, visitors) \<and> map fst visitors = cs \<and>
    visitors ! k = (cs ! k, 100000001 + of_nat k) \<and>
    (\<exists>u. parse_response cast_unsigned cn s = Some (Ok (Some \<lparr>resp_version = ''HTTP/1.0'', resp_status = 200, resp_status_text = ''OK'',
        resp_arguments = Some [(''Connection'', ''close''), (''Content-Length'', ''9'')]\<rparr>) u) \<and>
      (length (pending u) = 9 \<longleftrightarrow> k < 899999999))"
proof -
  from assms(4) have c: "char_source cn pending invar" by (simp add: char_source_def)
  from char_source.parse_response_agrees [OF c assms(5), of cast_unsigned] trivial_response_parsed [where cast_unsigned = cast_unsigned, OF assms(6)] assms(7)
  obtain u where u: "parse_response cast_unsigned cn s = Some (Ok (Some \<lparr>resp_version = ''HTTP/1.0'', resp_status = 200, resp_status_text = ''OK'',
        resp_arguments = Some [(''Connection'', ''close''), (''Content-Length'', ''9'')]\<rparr>) u)"
      "pending u = decimal (unat (100000001 + of_nat k :: 64 word))" by (auto simp: agrees_def)
  have "unat (of_nat (100000001 + k) :: 64 word) = 100000001 + k"
    using assms(3) by (simp only: unat_of_nat) simp
  then have n: "unat (100000001 + of_nat k :: 64 word) = 100000001 + k" by simp
  have "length (decimal (100000001 + k)) = 9 \<longleftrightarrow> k < 899999999"
    using length_decimal_lower [of 8 "100000001 + k"] length_decimal_lower [of 9 "100000001 + k"] length_decimal_upper [of "100000001 + k" 8]
    by (cases "k < 899999999") auto
  moreover have "map fst (zip cs (map (\<lambda>k. 100000000 + 1 + of_nat k :: 64 word) [0 ..< length cs])) = cs" by simp
  ultimately show ?thesis
    using trivial_main_eq [OF assms(1), of 100000000] assms(2) u n by (intro exI [of _ "zip cs (map (\<lambda>k. 100000000 + 1 + of_nat k) [0 ..< length cs])"]) auto
qed

lemma trivial_server_responses_witness:
  "\<exists>visitors u. trivial_main accept_from 100000000 [''a'', ''b''] = Some (''operation aborted'', visitors) \<and>
    visitors ! 1 = (''b'', 100000002) \<and>
    parse_response cast_small memory_copy_next (trivial_response 100000002) = Some (Ok (Some \<lparr>resp_version = ''HTTP/1.0'', resp_status = 200,
      resp_status_text = ''OK'', resp_arguments = Some [(''Connection'', ''close''), (''Content-Length'', ''9'')]\<rparr>) u) \<and> length u = 9"
  using trivial_server_responses [OF _ _ _ memory.element_source_axioms, where accept = accept_from and e = "''operation aborted''"
      and cs = "[''a'', ''b'']" and w = "[''a'', ''b'']" and k = 1 and s = "trivial_response 100000002" and cast_unsigned = cast_small]
  by (auto simp: cast_small_def)

text \<open>
  A visitor that sends a request and has closed the connection when the answer has been sent can
  terminate the server: \<open>shutdown\<close> then throws in a thread that catches nothing.
\<close>

theorem trivial_visitor_terminates:
  assumes "read_some w = (False, w1)" "send w1 (trivial_response i) = (False, length (trivial_response i), w2)"
    and "shutdown w2 = (Inl not_connected, w3)"
  shows "trivial_visitor read_some send shutdown receive i w = Some (Fault Terminated)"
  using assms by (simp add: trivial_visitor_def)

lemma trivial_visitor_terminates_witness:
  "trivial_visitor (\<lambda>w. (False, w)) (\<lambda>w text. (False, length text, w)) (\<lambda>w. (Inl ''not connected'', w)) (\<lambda>w. (True, w)) 100000001 () =
   Some (Fault Terminated)"
  by (rule trivial_visitor_terminates) simp_all

text \<open>The document of \<open>html.cpp\<close>, generated into a container, is this text, and its type knows its exact length.\<close>

theorem html_document_text:
  "generate (html_document container_append) [] =
     ''<html><head><title>Title</title></head><body>Hello, <b>world</b><br/></body></html>'' \<and>
   length_of (html_document container_append) = Min_Length (length (generate (html_document container_append) []))"
  by (simp add: html_document_def tag_without_attributes_def tag_def no_attributes_def plus_element_def text_literal_def raw_element_def
    fixed_length_def make_element_def container_chars.html_written escape_def escape_char.simps)

end
