(* ===== verification/Async_Pipe.thy ===== *)
theory Async_Pipe
  imports Silicium_Prelude "HOL-Library.Multiset" "HOL-Library.Sublist"
begin

text \<open>
  \<open>test/async_pipe.cpp\<close>: a pipe with a bounded buffer.  Its reader and its writer share a state; each may leave
  one callback that the other end posts to the dispatcher.  A callback is a value of a type of its own; an
  empty \<open>function\<close> is \<open>None\<close>.  The dispatcher is known by what has been posted to it and not been called; it calls
  each posted function once, in any order, and not two at the same time, as the unprotected shared state demands.  Copying an element out of the buffer may throw (\<open>throws\<close>); copying into it does not.
\<close>

section \<open>The pipe\<close>

record ('e, 'c) async_pipe =
  pipe_buffer :: "'e list"
  buffer_capacity :: nat
  readable_callback :: "'c option"
  writeable_callback :: "'c option"
  posted :: "'c list"

definition make_async_pipe :: "nat \<Rightarrow> ('e, 'c) async_pipe" where
  "make_async_pipe buffered_elements =
     \<lparr>pipe_buffer = [], buffer_capacity = buffered_elements, readable_callback = None, writeable_callback = None, posted = []\<rparr>"

text \<open>\<open>async_wait\<close> of the two awaitables.\<close>

definition async_wait_readable :: "'c option \<Rightarrow> ('e, 'c) async_pipe \<Rightarrow> fault + ('e, 'c) async_pipe" where
  "async_wait_readable callback p =
     (if readable_callback p \<noteq> None then Inl Assertion_Failed else Inr (p\<lparr>readable_callback := callback\<rparr>))"

definition async_wait_writable :: "'c option \<Rightarrow> ('e, 'c) async_pipe \<Rightarrow> fault + ('e, 'c) async_pipe" where
  "async_wait_writable callback p =
     (if writeable_callback p \<noteq> None then Inl Assertion_Failed else Inr (p\<lparr>writeable_callback := callback\<rparr>))"

text \<open>\<open>Si::exchange\<close> with an empty function, and \<open>post\<close> unless the old one was empty.\<close>

definition post_readable :: "('e, 'c) async_pipe \<Rightarrow> ('e, 'c) async_pipe" where
  "post_readable p = (case readable_callback p of
      None \<Rightarrow> p
    | Some c \<Rightarrow> p\<lparr>readable_callback := None, posted := posted p @ [c]\<rparr>)"

definition post_writeable :: "('e, 'c) async_pipe \<Rightarrow> ('e, 'c) async_pipe" where
  "post_writeable p = (case writeable_callback p of
      None \<Rightarrow> p
    | Some c \<Rightarrow> p\<lparr>writeable_callback := None, posted := posted p @ [c]\<rparr>)"

definition free_space :: "('e, 'c) async_pipe \<Rightarrow> nat" where
  "free_space p = buffer_capacity p - length (pipe_buffer p)"

text \<open>\<open>append\<close> of the sink, which always reports success.\<close>

definition async_pipe_append :: "'e list \<Rightarrow> ('e, 'c) async_pipe \<Rightarrow> ('e, 'c) async_pipe" where
  "async_pipe_append elements p =
     (let copied = min (length elements) (free_space p)
      in post_readable (p\<lparr>pipe_buffer := pipe_buffer p @ take copied elements\<rparr>))"

text \<open>The loop of \<open>copy_next\<close>: what has been copied, and the buffer that is left.\<close>

fun copy_front :: "('e \<Rightarrow> 'x option) \<Rightarrow> nat \<Rightarrow> 'e list \<Rightarrow> 'x option \<times> 'e list \<times> 'e list" where
  "copy_front throws 0 xs = (None, [], xs)"
| "copy_front throws (Suc n) [] = (None, [], [])"
| "copy_front throws (Suc n) (x # xs) = (case throws x of
      Some e \<Rightarrow> (Some e, [], x # xs)
    | None \<Rightarrow> (case copy_front throws n xs of (r, ys, zs) \<Rightarrow> (r, x # ys, zs)))"

definition async_pipe_copy_next :: "('e \<Rightarrow> 'x option) \<Rightarrow> nat \<Rightarrow> (('e, 'c) async_pipe, 'x, 'e list) op" where
  "async_pipe_copy_next throws n p = (case copy_front throws n (pipe_buffer p) of
      (Some e, _, left) \<Rightarrow> Raise e (p\<lparr>pipe_buffer := left\<rparr>)
    | (None, copied, left) \<Rightarrow>
        (let p1 = p\<lparr>pipe_buffer := left\<rparr> in Ok copied (if copied \<noteq> [] then post_writeable p1 else p1)))"

definition async_pipe_map_next :: "nat \<Rightarrow> ('e, 'c) async_pipe \<Rightarrow> 'e list" where
  "async_pipe_map_next n p = []"

section \<open>Any use of it\<close>

text \<open>
  The pipe with the history of its use: what writers passed to \<open>append\<close>, what of that was put into the buffer, what was
  taken out and what of that a reader has received, the callbacks that have been left there and those that have been called.
\<close>

record ('e, 'c) pipe_world =
  pipe :: "('e, 'c) async_pipe"
  offered :: "'e list"
  accepted :: "'e list"
  removed :: "'e list"
  received :: "'e list"
  registered :: "'c list"
  called :: "'c list"

text \<open>
  A \<open>patient\<close> reader only waits while the buffer is empty, a patient writer only while it is full, and it appends
  only what there is room for; then copying an element does not throw either.
\<close>

inductive pipe_step :: "bool \<Rightarrow> ('e, 'c) pipe_world \<Rightarrow> ('e, 'c) pipe_world \<Rightarrow> bool" where
  Append: "(patient \<longrightarrow> length xs \<le> free_space (pipe w)) \<Longrightarrow>
    pipe_step patient w (w\<lparr>pipe := async_pipe_append xs (pipe w), offered := offered w @ xs, accepted := accepted w @ take (free_space (pipe w)) xs\<rparr>)"
| Copy: "async_pipe_copy_next (throws :: 'e \<Rightarrow> unit option) n (pipe w) = Ok ys p \<Longrightarrow>
    pipe_step patient w (w\<lparr>pipe := p, removed := removed w @ ys, received := received w @ ys\<rparr>)"
| Copy_Throws: "async_pipe_copy_next throws n (pipe w) = Raise () p \<Longrightarrow> \<not> patient \<Longrightarrow>
    pipe_step patient w (w\<lparr>pipe := p, removed := removed w @ take (length (pipe_buffer (pipe w)) - length (pipe_buffer p)) (pipe_buffer (pipe w))\<rparr>)"
| Wait_Readable: "async_wait_readable (Some c) (pipe w) = Inr p \<Longrightarrow> (patient \<longrightarrow> pipe_buffer (pipe w) = []) \<Longrightarrow>
    pipe_step patient w (w\<lparr>pipe := p, registered := registered w @ [c]\<rparr>)"
| Wait_Writable: "async_wait_writable (Some c) (pipe w) = Inr p \<Longrightarrow> (patient \<longrightarrow> free_space (pipe w) = 0) \<Longrightarrow>
    pipe_step patient w (w\<lparr>pipe := p, registered := registered w @ [c]\<rparr>)"
| Dispatch: "posted (pipe w) = before @ c # behind \<Longrightarrow>
    pipe_step patient w (w\<lparr>pipe := (pipe w)\<lparr>posted := before @ behind\<rparr>, called := called w @ [c]\<rparr>)"

inductive pipe_reachable :: "bool \<Rightarrow> nat \<Rightarrow> ('e, 'c) pipe_world \<Rightarrow> bool" where
  Reach_Start: "pipe_reachable patient n
    \<lparr>pipe = make_async_pipe n, offered = [], accepted = [], removed = [], received = [], registered = [], called = []\<rparr>"
| Reach_Step: "pipe_reachable patient n w \<Longrightarrow> pipe_step patient w w' \<Longrightarrow> pipe_reachable patient n w'"

definition waiting :: "'c option \<Rightarrow> 'c multiset" where
  "waiting callback = (case callback of None \<Rightarrow> {#} | Some c \<Rightarrow> {#c#})"

definition pipe_inv :: "nat \<Rightarrow> ('e, 'c) pipe_world \<Rightarrow> bool" where
  "pipe_inv n w \<longleftrightarrow> buffer_capacity (pipe w) = n \<and> length (pipe_buffer (pipe w)) \<le> n \<and>
     accepted w = removed w @ pipe_buffer (pipe w) \<and> subseq (received w) (removed w) \<and>
     mset (registered w) = mset (called w) + mset (posted (pipe w)) + waiting (readable_callback (pipe w)) + waiting (writeable_callback (pipe w))"

text \<open>Nobody waits for what is already there.\<close>

definition awake_inv :: "('e, 'c) pipe_world \<Rightarrow> bool" where
  "awake_inv w \<longleftrightarrow> received w = removed w \<and> offered w = accepted w \<and>
     (readable_callback (pipe w) \<noteq> None \<longrightarrow> pipe_buffer (pipe w) = []) \<and>
     (writeable_callback (pipe w) \<noteq> None \<longrightarrow> free_space (pipe w) = 0)"

section \<open>A session\<close>

text \<open>
  A writer with pieces of data: its callback appends one piece and waits until there is room again.  A reader whose
  callback reads up to \<open>n\<close> elements and waits for more.  The dispatcher runs until nothing is posted, and \<open>pick\<close> takes
  the posted function that is called next.
\<close>

datatype endpoint = Reader | Writer

record 'e pipe_session =
  session_pipe :: "('e, endpoint) async_pipe"
  todo :: "'e list list"
  read_so_far :: "'e list"

fun on_writable :: "'e pipe_session \<Rightarrow> fault + 'e pipe_session" where
  "on_writable s = (case todo s of
      [] \<Rightarrow> Inr s
    | xs # pieces \<Rightarrow> (case async_wait_writable (Some Writer) (async_pipe_append xs (session_pipe s)) of
          Inl f \<Rightarrow> Inl f
        | Inr p \<Rightarrow> Inr (s\<lparr>session_pipe := p, todo := pieces\<rparr>)))"

fun on_readable :: "nat \<Rightarrow> 'e pipe_session \<Rightarrow> fault + 'e pipe_session" where
  "on_readable n s = (case async_pipe_copy_next (\<lambda>_. None :: unit option) n (session_pipe s) of
      Ok ys p \<Rightarrow> (case async_wait_readable (Some Reader) p of
          Inl f \<Rightarrow> Inl f
        | Inr p' \<Rightarrow> Inr (s\<lparr>session_pipe := p', read_so_far := read_so_far s @ ys\<rparr>))
    | Raise e p \<Rightarrow> Inr (s\<lparr>session_pipe := p\<rparr>)
    | Fault f \<Rightarrow> Inl f)"

partial_function (option) dispatch_all ::
    "(endpoint list \<Rightarrow> nat) \<Rightarrow> nat \<Rightarrow> 'e pipe_session \<Rightarrow> (fault + 'e pipe_session) option" where
  "dispatch_all pick n s =
     (let cs = posted (session_pipe s);
          i = pick cs mod length cs;
          s1 = s\<lparr>session_pipe := (session_pipe s)\<lparr>posted := take i cs @ drop (Suc i) cs\<rparr>\<rparr>
      in if cs = [] then Some (Inr s)
         else case (if cs ! i = Reader then on_readable n s1 else on_writable s1) of
              Inl f \<Rightarrow> Some (Inl f)
            | Inr s2 \<Rightarrow> dispatch_all pick n s2)"

definition run_session ::
    "(endpoint list \<Rightarrow> nat) \<Rightarrow> nat \<Rightarrow> nat \<Rightarrow> 'e list list \<Rightarrow> (fault + 'e pipe_session) option" where
  "run_session pick capacity n pieces =
     (let s = \<lparr>session_pipe = make_async_pipe capacity, todo = pieces, read_so_far = []\<rparr>
      in case async_wait_readable (Some Reader) (session_pipe s) of
          Inl f \<Rightarrow> Some (Inl f)
        | Inr p \<Rightarrow> (case on_writable (s\<lparr>session_pipe := p\<rparr>) of
              Inl f \<Rightarrow> Some (Inl f)
            | Inr s' \<Rightarrow> dispatch_all pick n s'))"

section \<open>Lemmas\<close>

lemma copy_front_split: "copy_front throws n xs = (r, ys, zs) \<Longrightarrow> xs = ys @ zs \<and> length ys \<le> n"
  by (induction throws n xs arbitrary: r ys zs rule: copy_front.induct) (auto split: option.splits prod.splits)

lemma copy_front_returns: "copy_front (\<lambda>_. None) n xs = (None, take n xs, drop n xs)"
proof (induction n arbitrary: xs)
  case (Suc n)
  then show ?case by (cases xs) auto
qed simp

lemma post_simps [simp]:
  "pipe_buffer (post_readable p) = pipe_buffer p" "buffer_capacity (post_readable p) = buffer_capacity p"
  "readable_callback (post_readable p) = None" "writeable_callback (post_readable p) = writeable_callback p"
  "pipe_buffer (post_writeable p) = pipe_buffer p" "buffer_capacity (post_writeable p) = buffer_capacity p"
  "writeable_callback (post_writeable p) = None" "readable_callback (post_writeable p) = readable_callback p"
  by (simp_all add: post_readable_def post_writeable_def split: option.splits)

lemma waiting_simps [simp]: "waiting None = {#}" "waiting (Some c) = {#c#}"
  by (simp_all add: waiting_def)

lemma post_posted:
  "mset (posted (post_readable p)) = mset (posted p) + waiting (readable_callback p)"
  "mset (posted (post_writeable p)) = mset (posted p) + waiting (writeable_callback p)"
  by (simp_all add: post_readable_def post_writeable_def split: option.splits)

lemma append_simps [simp]:
  "pipe_buffer (async_pipe_append xs p) = pipe_buffer p @ take (free_space p) xs"
  "buffer_capacity (async_pipe_append xs p) = buffer_capacity p"
  "readable_callback (async_pipe_append xs p) = None"
  "writeable_callback (async_pipe_append xs p) = writeable_callback p"
  "mset (posted (async_pipe_append xs p)) = mset (posted p) + waiting (readable_callback p)"
  by (simp_all add: async_pipe_append_def Let_def post_posted min_def)

lemma copy_next_ok:
  assumes "async_pipe_copy_next throws n p = Ok ys q"
  shows "pipe_buffer p = ys @ pipe_buffer q" "buffer_capacity q = buffer_capacity p" "readable_callback q = readable_callback p"
    "mset (posted q) + waiting (writeable_callback q) = mset (posted p) + waiting (writeable_callback p)"
    "writeable_callback q \<noteq> None \<Longrightarrow> ys = [] \<and> writeable_callback p \<noteq> None"
  using assms
  by (auto simp: async_pipe_copy_next_def Let_def post_posted dest!: copy_front_split split: prod.splits option.splits if_splits)

lemma copy_next_raise:
  assumes "async_pipe_copy_next throws n p = Raise e q"
  shows "\<exists>ys. pipe_buffer p = ys @ pipe_buffer q" "buffer_capacity q = buffer_capacity p" "readable_callback q = readable_callback p"
    "posted q = posted p" "writeable_callback q = writeable_callback p"
  using assms
  by (auto simp: async_pipe_copy_next_def Let_def dest!: copy_front_split split: prod.splits option.splits if_splits)

lemma pipe_step_inv:
  assumes "pipe_step patient w w'" "pipe_inv n w"
  shows "pipe_inv n w'"
  using assms(1)
proof cases
  case (Append xs)
  with assms(2) show ?thesis by (auto simp: pipe_inv_def free_space_def)
next
  case (Copy throws k ys p)
  from copy_next_ok [OF Copy(2)] Copy(1) assms(2) show ?thesis
    by (auto simp: pipe_inv_def list_emb_append_mono ac_simps)
next
  case (Copy_Throws throws k p)
  from copy_next_raise [OF Copy_Throws(2)] Copy_Throws(1) assms(2) show ?thesis
    by (auto simp: pipe_inv_def intro: subseq_rev_drop_many)
next
  case (Wait_Readable c p)
  with assms(2) show ?thesis by (auto simp: pipe_inv_def async_wait_readable_def split: if_splits)
next
  case (Wait_Writable c p)
  with assms(2) show ?thesis by (auto simp: pipe_inv_def async_wait_writable_def split: if_splits)
next
  case (Dispatch before c behind)
  with assms(2) show ?thesis by (auto simp: pipe_inv_def)
qed

lemma pipe_step_awake:
  assumes "pipe_step True w w'" "awake_inv w"
  shows "awake_inv w'"
  using assms(1)
proof cases
  case (Append xs)
  with assms(2) show ?thesis by (auto simp: awake_inv_def free_space_def)
next
  case (Copy throws k ys p)
  from copy_next_ok [OF Copy(2)] Copy(1) assms(2) show ?thesis by (auto simp: awake_inv_def free_space_def)
next
  case (Wait_Readable c p)
  with assms(2) show ?thesis by (auto simp: awake_inv_def free_space_def async_wait_readable_def split: if_splits)
next
  case (Wait_Writable c p)
  with assms(2) show ?thesis by (auto simp: awake_inv_def free_space_def async_wait_writable_def split: if_splits)
next
  case (Dispatch before c behind)
  with assms(2) show ?thesis by (auto simp: awake_inv_def free_space_def)
qed simp

section \<open>Properties\<close>

text \<open>
  Whatever readers and writers do, with exceptions in between: the buffer never grows beyond its capacity, what
  was put into it comes out in the same order, without a repetition, and every callback that was left
  there is in exactly one place: still waiting, posted, or called.
\<close>

theorem async_pipe_fifo:
  assumes "pipe_reachable patient n w"
  shows "length (pipe_buffer (pipe w)) \<le> n \<and> accepted w = removed w @ pipe_buffer (pipe w) \<and> subseq (received w) (removed w) \<and>
    mset (registered w) = mset (called w) + mset (posted (pipe w)) + waiting (readable_callback (pipe w)) + waiting (writeable_callback (pipe w))"
proof -
  from assms have "pipe_inv n w"
    by induction (simp_all add: pipe_step_inv, simp add: pipe_inv_def make_async_pipe_def)
  then show ?thesis by (simp add: pipe_inv_def)
qed

text \<open>
  C28: A pipe with room for at least one element whose readers only wait while it is empty and whose writers only wait
  while it is full and append only what there is room for, where copying an element does not throw, over a
  dispatcher that calls each posted callback once, in any order: whatever
  was passed to \<open>append\<close> has been received or is in the buffer, in order, and there is no deadlock: in every
  state the two ends do not wait both, a reader does not wait for elements that are there, nor a
  writer for space that is free.
\<close>

theorem async_pipe_no_deadlock:
  assumes "pipe_reachable patient n w" "patient" "0 < n"
  shows "offered w = received w @ pipe_buffer (pipe w) \<and> (readable_callback (pipe w) = None \<or> writeable_callback (pipe w) = None) \<and>
    (pipe_buffer (pipe w) \<noteq> [] \<longrightarrow> readable_callback (pipe w) = None) \<and>
    (free_space (pipe w) \<noteq> 0 \<longrightarrow> writeable_callback (pipe w) = None)"
proof -
  from assms(1) have "pipe_inv n w"
    by induction (simp_all add: pipe_step_inv, simp add: pipe_inv_def make_async_pipe_def)
  moreover from assms(1,2) have "awake_inv w"
    by induction (auto simp: pipe_step_awake, simp add: awake_inv_def make_async_pipe_def)
  ultimately show ?thesis using assms(3) by (auto simp: pipe_inv_def awake_inv_def free_space_def)
qed

lemma async_pipe_fifo_witness:
  "\<exists>w. pipe_reachable False 2 w \<and> accepted w = [1, 2 :: nat] \<and> called w = [''read''] \<and>
     accepted w = removed w @ pipe_buffer (pipe w) \<and> length (pipe_buffer (pipe w)) \<le> 2"
proof -
  let ?w0 = "\<lparr>pipe = make_async_pipe 2, offered = [], accepted = [], removed = [], received = [], registered = [], called = []\<rparr> :: (nat, string) pipe_world"
  let ?p1 = "(make_async_pipe 2)\<lparr>readable_callback := Some ''read''\<rparr> :: (nat, string) async_pipe"
  let ?w1 = "?w0\<lparr>pipe := ?p1, registered := [''read'']\<rparr>"
  let ?w2 = "?w1\<lparr>pipe := async_pipe_append [1, 2, 3] ?p1, offered := [1, 2, 3], accepted := [1, 2]\<rparr>"
  let ?w3 = "?w2\<lparr>pipe := (pipe ?w2)\<lparr>posted := []\<rparr>, called := [''read'']\<rparr>"
  have "pipe_step False ?w0 ?w1"
    using pipe_step.Wait_Readable [of "''read''" ?w0 ?p1 False] by (simp add: async_wait_readable_def make_async_pipe_def)
  moreover have "pipe_step False ?w1 ?w2"
    using pipe_step.Append [of False "[1, 2, 3]" ?w1] by (simp add: free_space_def make_async_pipe_def)
  moreover have "pipe_step False ?w2 ?w3"
    using pipe_step.Dispatch [of ?w2 "[]" "''read''" "[]" False]
    by (simp add: async_pipe_append_def Let_def post_readable_def make_async_pipe_def)
  ultimately have "pipe_reachable False 2 ?w3" by (meson Reach_Start Reach_Step)
  with async_pipe_fifo [OF this] show ?thesis by (intro exI [of _ ?w3]) simp
qed

lemma async_pipe_no_deadlock_witness:
  "\<exists>w :: (nat, string) pipe_world. pipe_reachable True 2 w \<and> offered w = [7] \<and> pipe_buffer (pipe w) = [7] \<and> received w = [] \<and>
     readable_callback (pipe w) = None \<and> writeable_callback (pipe w) = None"
proof -
  let ?w0 = "\<lparr>pipe = make_async_pipe 2, offered = [], accepted = [], removed = [], received = [], registered = [], called = []\<rparr> :: (nat, string) pipe_world"
  let ?p1 = "(make_async_pipe 2)\<lparr>readable_callback := Some ''read''\<rparr> :: (nat, string) async_pipe"
  let ?w1 = "?w0\<lparr>pipe := ?p1, registered := [''read'']\<rparr>"
  let ?w2 = "?w1\<lparr>pipe := async_pipe_append [7] ?p1, offered := [7], accepted := [7]\<rparr>"
  have "pipe_step True ?w0 ?w1"
    using pipe_step.Wait_Readable [of "''read''" ?w0 _ True] by (simp add: async_wait_readable_def make_async_pipe_def)
  moreover have "pipe_step True ?w1 ?w2"
    using pipe_step.Append [of True "[7]" ?w1] by (simp add: free_space_def make_async_pipe_def)
  ultimately have "pipe_reachable True 2 ?w2" by (meson Reach_Start Reach_Step)
  with async_pipe_no_deadlock [OF this] show ?thesis by (intro exI [of _ ?w2]) (simp add: make_async_pipe_def free_space_def)
qed

text \<open>One turn of a session, in which the reader takes a piece that it can take at once.\<close>

lemma dispatch_all_delivers:
  assumes "\<forall>c \<in> set cs. c \<noteq> [] \<and> length c \<le> capacity \<and> length c \<le> n"
  shows "dispatch_all pick n \<lparr>session_pipe = \<lparr>pipe_buffer = [], buffer_capacity = capacity, readable_callback = Some Reader,
      writeable_callback = None, posted = [Writer]\<rparr>, todo = cs, read_so_far = xs\<rparr> =
    Some (Inr \<lparr>session_pipe = \<lparr>pipe_buffer = [], buffer_capacity = capacity, readable_callback = Some Reader,
      writeable_callback = None, posted = []\<rparr>, todo = [], read_so_far = xs @ concat cs\<rparr>)"
  using assms
proof (induction cs arbitrary: xs)
  case Nil
  show ?case by (simp add: dispatch_all.simps)
next
  case (Cons c cs)
  then have "n \<noteq> 0" by (cases c) auto
  with Cons show ?case
    by (subst dispatch_all.simps, simp add: async_wait_writable_def async_pipe_append_def free_space_def post_readable_def Let_def)
       (subst dispatch_all.simps, simp add: async_pipe_copy_next_def copy_front_returns async_wait_readable_def post_writeable_def Let_def)
qed

text \<open>
  C29: A writer with pieces that are not empty and fit into the buffer, and a reader that can take a whole piece: the
  session ends whatever the dispatcher chooses, no assertion fails, and the reader has received everything, in
  order.  An empty piece would stall it.
\<close>

theorem async_pipe_session_delivers:
  assumes "\<forall>c \<in> set pieces. c \<noteq> [] \<and> length c \<le> capacity \<and> length c \<le> n"
  shows "\<exists>s. run_session pick capacity n pieces = Some (Inr s) \<and> todo s = [] \<and> read_so_far s = concat pieces"
proof (cases pieces)
  case Nil
  then show ?thesis
    by (simp add: run_session_def Let_def async_wait_readable_def make_async_pipe_def dispatch_all.simps)
next
  case (Cons c cs)
  with assms have "n \<noteq> 0" by (cases c) auto
  with Cons assms dispatch_all_delivers [of cs capacity n pick c] show ?thesis
    by (simp add: run_session_def Let_def async_wait_readable_def make_async_pipe_def async_wait_writable_def async_pipe_append_def
        free_space_def post_readable_def)
       (subst dispatch_all.simps, simp add: async_pipe_copy_next_def copy_front_returns async_wait_readable_def post_writeable_def Let_def)
qed

lemma async_pipe_session_delivers_witness:
  "\<exists>s. run_session (\<lambda>_. 0) 4 3 [''ab'', ''cde'', ''f''] = Some (Inr s) \<and> todo s = [] \<and> read_so_far s = ''abcdef''"
  using async_pipe_session_delivers [of "[''ab'', ''cde'', ''f'']" 4 3 "\<lambda>_. 0"] by simp

text \<open>
  A reader that reads less than a piece leaves the rest in the buffer and waits, and nobody ever calls it again:
  \<open>async_wait\<close> does not look into the buffer.  The session is over with elements in it.
\<close>

theorem async_pipe_session_stalls:
  assumes "0 < n" "n < length piece" "length piece \<le> capacity"
  shows "\<exists>s. run_session pick capacity n [piece] = Some (Inr s) \<and> read_so_far s = take n piece \<and>
    pipe_buffer (session_pipe s) = drop n piece \<and> readable_callback (session_pipe s) = Some Reader \<and> posted (session_pipe s) = []"
proof -
  have "piece \<noteq> []" "take n piece \<noteq> []" using assms by auto
  with assms show ?thesis
    by (simp add: run_session_def Let_def async_wait_readable_def make_async_pipe_def async_wait_writable_def async_pipe_append_def
        free_space_def post_readable_def)
       (subst dispatch_all.simps, simp add: async_pipe_copy_next_def copy_front_returns async_wait_readable_def post_writeable_def Let_def,
        subst dispatch_all.simps, simp add: Let_def, simp add: dispatch_all.simps)
qed

lemma async_pipe_session_stalls_witness:
  "\<exists>s. run_session (\<lambda>_. 0) 4 1 [''abc''] = Some (Inr s) \<and> read_so_far s = ''a'' \<and> pipe_buffer (session_pipe s) = ''bc''"
  using async_pipe_session_stalls [of 1 "''abc''" 4 "\<lambda>_. 0"] by auto

text \<open>
  An exception in the middle of \<open>copy_next\<close>: what has been copied is not in the buffer any more and has not been
  returned, and a waiting writer is not called although there is room now.
\<close>

theorem async_pipe_keeps_callback_of_writer:
  assumes "pipe_buffer p = x # y # zs" "throws x = None" "throws y = Some e" "1 < n"
  shows "async_pipe_copy_next throws n p = Raise e (p\<lparr>pipe_buffer := y # zs\<rparr>)"
proof -
  from assms(4) obtain m where "n = Suc (Suc m)" by (metis One_nat_def less_imp_Suc_add add_Suc)
  with assms(1-3) show ?thesis by (simp add: async_pipe_copy_next_def)
qed

end
