(* ===== verification/Generate_Sources.thy ===== *)
theory Generate_Sources
  imports Silicium_Prelude "HOL-Library.Sublist" "HOL-Library.Char_ord" "HOL-Library.List_Lexorder"
begin

text \<open>
  \<open>test_includes/generate_sources.cpp\<close>: the tool that writes, for every public header, a source file that does
  nothing but include it.  The headers are a tree of directory entries, as \<open>directory_iterator\<close> lists them.  The file
  system the tool writes to maps the paths below \<open>test_includes\<close> to their nodes.  A \<open>device\<close> says which directories can be
  made, which files can be opened for writing, and how many characters get into a file.  Nobody catches
  the exceptions of \<open>main\<close>.  The model is that of Linux.
\<close>

section \<open>Files and paths\<close>

datatype entry = Regular_File | Directory "(string \<times> entry) list" | Unreadable_Directory | Other_File

datatype node = Dir | File string

type_synonym file_system = "string list \<Rightarrow> node option"

datatype generate_error = Filesystem_Error | Cannot_Open "string list" | Could_Not_Write "string list"

record device =
  may_create :: "string list \<Rightarrow> bool"
  may_open :: "string list \<Rightarrow> bool"
  room :: "string list \<Rightarrow> nat option"

record generator =
  files :: file_system
  all_headers :: "string list"

text \<open>\<open>path::extension\<close>, \<open>path::stem\<close> and \<open>path::string\<close>.\<close>

definition path_extension :: "string \<Rightarrow> string" where
  "path_extension leaf = (if CHR ''.'' \<in> set leaf then CHR ''.'' # rev (takeWhile (\<lambda>c. c \<noteq> CHR ''.'') (rev leaf)) else [])"

definition path_stem :: "string \<Rightarrow> string" where
  "path_stem leaf = (if CHR ''.'' \<in> set leaf then rev (tl (dropWhile (\<lambda>c. c \<noteq> CHR ''.'') (rev leaf))) else leaf)"

fun path_string :: "string list \<Rightarrow> string" where
  "path_string [] = []"
| "path_string [x] = x"
| "path_string (x # xs) = x @ ''/'' @ path_string xs"

text \<open>\<open>create_directories\<close> makes what is missing, from the outside in.\<close>

definition make_directory :: "device \<Rightarrow> string list \<Rightarrow> (file_system, generate_error, unit) op" where
  "make_directory dev p fs = (case fs p of
      Some Dir \<Rightarrow> Ok () fs
    | Some (File _) \<Rightarrow> Raise Filesystem_Error fs
    | None \<Rightarrow> (if may_create dev p then Ok () (fs(p \<mapsto> Dir)) else Raise Filesystem_Error fs))"

primrec make_directories :: "device \<Rightarrow> string list list \<Rightarrow> (file_system, generate_error, unit) op" where
  "make_directories dev [] = ret ()"
| "make_directories dev (p # ps) = then_op (make_directory dev p) (make_directories dev ps)"

definition create_directories :: "device \<Rightarrow> string list \<Rightarrow> (file_system, generate_error, unit) op" where
  "create_directories dev p = make_directories dev (prefixes p)"

text \<open>The constructor of \<open>std::ofstream\<close>, which truncates, and the state of the stream after \<open>text\<close> has been written.\<close>

definition open_output :: "device \<Rightarrow> string list \<Rightarrow> file_system \<Rightarrow> file_system option" where
  "open_output dev p fs =
     (if fs (butlast p) = Some Dir \<and> fs p \<noteq> Some Dir \<and> may_open dev p then Some (fs(p \<mapsto> File [])) else None)"

definition written_text :: "device \<Rightarrow> string list \<Rightarrow> string \<Rightarrow> string" where
  "written_text dev p t = (case room dev p of None \<Rightarrow> t | Some n \<Rightarrow> take n t)"

section \<open>The tool\<close>

definition header_name :: "string list \<Rightarrow> string" where
  "header_name relative = ''<silicium/'' @ map (\<lambda>c. if c = CHR 0x5C then CHR ''/'' else c) (path_string relative) @ ''>''"

definition source_text :: "string \<Rightarrow> string" where
  "source_text name = ''#include '' @ name @ [CHR 0x0A] @
     ''#ifdef _MSC_VER'' @ [CHR 0x0A] @ ''namespace {'' @ [CHR 0x0A, CHR 0x09] @ ''//'' @ [CHR 0x22] @
     ''This object file does not define any previously undefined public symbols, '' @
     ''so it will not be used by any link operation that consumes this library'' @ [CHR 0x22, CHR 0x0A, CHR 0x09] @
     ''int dummy_to_avoid_msvc_linker_warning_LNK4221;'' @ [CHR 0x0A] @ ''}'' @ [CHR 0x0A] @ ''#endif'' @ [CHR 0x0A]"

text \<open>\<open>std::set::insert\<close>\<close>

definition add_header :: "string \<Rightarrow> string list \<Rightarrow> string list" where
  "add_header name names = (if name \<in> set names then names else insort name names)"

text \<open>The \<open>case\<close> of a regular file.\<close>

definition generate_source :: "device \<Rightarrow> string list \<Rightarrow> string list \<Rightarrow> string \<Rightarrow> (generator, generate_error, unit) op" where
  "generate_source dev sources relative leaf g =
     (if path_extension leaf \<noteq> ''.hpp'' then Ok () g
      else case create_directories dev sources (files g) of
          Fault f \<Rightarrow> Fault f
        | Raise e fs \<Rightarrow> Raise e (g\<lparr>files := fs\<rparr>)
        | Ok _ fs \<Rightarrow>
            (let source = sources @ [path_stem leaf @ ''.cpp''];
                 name = header_name (relative @ [leaf]);
                 g1 = g\<lparr>files := fs, all_headers := add_header name (all_headers g)\<rparr>;
                 t = source_text name
             in if fs source \<noteq> None then Ok () g1
                else case open_output dev source fs of
                    None \<Rightarrow> Raise (Cannot_Open source) g1
                  | Some fs1 \<Rightarrow>
                      (let g2 = g1\<lparr>files := fs1(source \<mapsto> File (written_text dev source t))\<rparr>
                       in if written_text dev source t = t then Ok () g2 else Raise (Could_Not_Write source) g2)))"

fun generate_sources_recursively ::
  "device \<Rightarrow> (string \<Rightarrow> bool) \<Rightarrow> string list \<Rightarrow> string list \<Rightarrow> (string \<times> entry) list \<Rightarrow> (generator, generate_error, unit) op" where
  "generate_sources_recursively dev relevant sources relative [] g = Ok () g"
| "generate_sources_recursively dev relevant sources relative ((leaf, Directory es) # entries) g =
     (case (if relevant leaf then generate_sources_recursively dev relevant (sources @ [leaf]) (relative @ [leaf]) es g else Ok () g) of
        Ok _ g1 \<Rightarrow> generate_sources_recursively dev relevant sources relative entries g1
      | Raise e g1 \<Rightarrow> Raise e g1
      | Fault f \<Rightarrow> Fault f)"
| "generate_sources_recursively dev relevant sources relative ((leaf, Unreadable_Directory) # entries) g =
     (if relevant leaf then Raise Filesystem_Error g
      else generate_sources_recursively dev relevant sources relative entries g)"
| "generate_sources_recursively dev relevant sources relative ((leaf, Regular_File) # entries) g =
     (case generate_source dev sources relative leaf g of
        Ok _ g1 \<Rightarrow> generate_sources_recursively dev relevant sources relative entries g1
      | Raise e g1 \<Rightarrow> Raise e g1
      | Fault f \<Rightarrow> Fault f)"
| "generate_sources_recursively dev relevant sources relative ((leaf, Other_File) # entries) g =
     generate_sources_recursively dev relevant sources relative entries g"

text \<open>\<open>main\<close> on Linux.\<close>

definition blacklist :: "string list" where
  "blacklist = List.insert ''delegator'' (removeAll ''linux'' (List.insert ''linux'' (List.insert ''win32'' [])))"

definition is_relevant_directory :: "string \<Rightarrow> bool" where
  "is_relevant_directory leaf \<longleftrightarrow> leaf \<notin> set blacklist"

definition all_headers_file_name :: "string list" where
  "all_headers_file_name = [''sources'', ''linux'', ''_all_headers_.cpp'']"

definition include_lines :: "string list \<Rightarrow> string" where
  "include_lines names = concat (map (\<lambda>name. ''#include '' @ name @ [CHR 0x0A]) names)"

definition generate_main :: "device \<Rightarrow> (string \<times> entry) list \<Rightarrow> (file_system, generate_error, unit) op" where
  "generate_main dev headers fs =
     (case generate_sources_recursively dev is_relevant_directory [''sources''] [] headers \<lparr>files = fs, all_headers = []\<rparr> of
        Fault f \<Rightarrow> Fault f
      | Raise e g \<Rightarrow> Raise e (files g)
      | Ok _ g \<Rightarrow> (case open_output dev all_headers_file_name (files g) of
            None \<Rightarrow> Raise (Cannot_Open all_headers_file_name) (files g)
          | Some fs1 \<Rightarrow> Ok () (fs1(all_headers_file_name \<mapsto>
                File (written_text dev all_headers_file_name (include_lines (all_headers g)))))))"

section \<open>What it promises\<close>

text \<open>The headers the tool sees, in the order in which it comes across them: their directory and their name.\<close>

fun headers_of :: "(string \<Rightarrow> bool) \<Rightarrow> string list \<Rightarrow> (string \<times> entry) list \<Rightarrow> (string list \<times> string) list" where
  "headers_of relevant relative [] = []"
| "headers_of relevant relative ((leaf, Directory es) # entries) =
     (if relevant leaf then headers_of relevant (relative @ [leaf]) es else []) @ headers_of relevant relative entries"
| "headers_of relevant relative ((leaf, Regular_File) # entries) =
     (if path_extension leaf = ''.hpp'' then [(relative, leaf)] else []) @ headers_of relevant relative entries"
| "headers_of relevant relative (_ # entries) = headers_of relevant relative entries"

fun readable :: "(string \<Rightarrow> bool) \<Rightarrow> (string \<times> entry) list \<Rightarrow> bool" where
  "readable relevant [] = True"
| "readable relevant ((leaf, Directory es) # entries) = ((relevant leaf \<longrightarrow> readable relevant es) \<and> readable relevant entries)"
| "readable relevant ((leaf, Unreadable_Directory) # entries) = (\<not> relevant leaf \<and> readable relevant entries)"
| "readable relevant (_ # entries) = readable relevant entries"

definition source_of :: "string list \<times> string \<Rightarrow> string list" where
  "source_of h = ''sources'' # fst h @ [path_stem (snd h) @ ''.cpp'']"

definition name_of :: "string list \<times> string \<Rightarrow> string" where
  "name_of h = header_name (fst h @ [snd h])"

definition header_of_source :: "string list \<Rightarrow> string list \<times> string" where
  "header_of_source p = (tl (butlast p), take (length (last p) - 4) (last p) @ ''.hpp'')"

text \<open>
  The files after a run, as a function of the set of the headers \<open>H\<close> and of the files before.  What is there
  stays; only the list of all headers is written anew.
\<close>

definition generated_files :: "device \<Rightarrow> (string list \<times> string) set \<Rightarrow> file_system \<Rightarrow> file_system" where
  "generated_files dev H fs p =
     (if p = all_headers_file_name then Some (File (written_text dev p (include_lines (sorted_list_of_set (name_of ` H)))))
      else if fs p \<noteq> None then fs p
      else if p \<in> source_of ` H then Some (File (source_text (name_of (header_of_source p))))
      else if \<exists>h \<in> H. prefix p (''sources'' # fst h) then Some Dir
      else None)"

text \<open>
  Every directory can be made and every file can be opened; all of the sources can be written, the list of all headers
  perhaps not.  No file or directory is in the way, and there is a directory for the list.
\<close>

definition no_device_errors :: "device \<Rightarrow> bool" where
  "no_device_errors dev \<longleftrightarrow> (\<forall>p. may_create dev p \<and> may_open dev p) \<and> (\<forall>p. p \<noteq> all_headers_file_name \<longrightarrow> room dev p = None)"

definition fits :: "file_system \<Rightarrow> string list \<times> string \<Rightarrow> bool" where
  "fits fs h \<longleftrightarrow> (\<forall>p. prefix p (''sources'' # fst h) \<longrightarrow> fs p = None \<or> fs p = Some Dir)"

definition nothing_in_the_way :: "(string list \<times> string) set \<Rightarrow> file_system \<Rightarrow> bool" where
  "nothing_in_the_way H fs \<longleftrightarrow>
     (\<forall>h \<in> H. fits fs h) \<and> (\<forall>h \<in> H. \<forall>h' \<in> H. \<not> prefix (source_of h) (''sources'' # fst h')) \<and>
     fs all_headers_file_name \<noteq> Some Dir \<and>
     (\<forall>h \<in> H. source_of h \<noteq> all_headers_file_name \<and> \<not> prefix all_headers_file_name (''sources'' # fst h)) \<and>
     (fs [''sources'', ''linux''] = Some Dir \<or> (\<exists>h \<in> H. prefix [''linux''] (fst h)))"

section \<open>Lemmas\<close>

lemma path_extension_stem: "path_extension leaf = ''.hpp'' \<Longrightarrow> leaf = path_stem leaf @ ''.hpp''"
proof -
  assume *: "path_extension leaf = ''.hpp''"
  then have dot: "CHR ''.'' \<in> set (rev leaf)" by (simp add: path_extension_def split: if_splits)
  have "takeWhile (\<lambda>c. c \<noteq> CHR ''.'') (rev leaf) @ dropWhile (\<lambda>c. c \<noteq> CHR ''.'') (rev leaf) = rev leaf" by simp
  moreover have "takeWhile (\<lambda>c. c \<noteq> CHR ''.'') (rev leaf) = rev ''hpp''"
    using * dot by (simp add: path_extension_def rev_swap)
  moreover from dot have "dropWhile (\<lambda>c. c \<noteq> CHR ''.'') (rev leaf) \<noteq> []" "hd (dropWhile (\<lambda>c. c \<noteq> CHR ''.'') (rev leaf)) = CHR ''.''"
    by (auto simp: dropWhile_eq_Nil_conv intro: hd_dropWhile [of "\<lambda>c. c \<noteq> CHR ''.''", simplified])
  then obtain r where "dropWhile (\<lambda>c. c \<noteq> CHR ''.'') (rev leaf) = CHR ''.'' # r" by (cases "dropWhile (\<lambda>c. c \<noteq> CHR ''.'') (rev leaf)") auto
  ultimately have "rev leaf = rev ''hpp'' @ CHR ''.'' # r" "path_stem leaf = rev r"
    using dot by (simp_all add: path_stem_def)
  then show ?thesis by (simp add: rev_swap)
qed

lemma header_of_source_of:
  "path_extension (snd h) = ''.hpp'' \<Longrightarrow> header_of_source (source_of h) = h"
  using path_extension_stem [of "snd h"] by (cases h) (simp add: header_of_source_def source_of_def)

lemma make_directories_result:
  assumes "\<forall>p. may_create dev p" "\<forall>p \<in> set ps. fs p = None \<or> fs p = Some Dir"
  shows "make_directories dev ps fs = Ok () (\<lambda>p. if fs p = None \<and> p \<in> set ps then Some Dir else fs p)"
  using assms(2)
proof (induction ps arbitrary: fs)
  case Nil
  then show ?case by (simp add: ret_def)
next
  case (Cons q ps)
  show ?case
  proof (cases "fs q")
    case None
    with assms(1) have "make_directory dev q fs = Ok () (fs(q \<mapsto> Dir))" by (simp add: make_directory_def)
    moreover have "make_directories dev ps (fs(q \<mapsto> Dir)) = Ok () (\<lambda>p. if (fs(q \<mapsto> Dir)) p = None \<and> p \<in> set ps then Some Dir else (fs(q \<mapsto> Dir)) p)"
      by (rule Cons(1)) (use Cons(2) in auto)
    moreover have "(\<lambda>p. if (fs(q \<mapsto> Dir)) p = None \<and> p \<in> set ps then Some Dir else (fs(q \<mapsto> Dir)) p) =
        (\<lambda>p. if fs p = None \<and> p \<in> set (q # ps) then Some Dir else fs p)"
      using None by auto
    ultimately show ?thesis by (simp add: then_op_def)
  next
    case (Some n)
    with Cons(2) have "make_directory dev q fs = Ok () fs" by (simp add: make_directory_def)
    moreover have "(\<lambda>p. if fs p = None \<and> p \<in> set ps then Some Dir else fs p) =
        (\<lambda>p. if fs p = None \<and> p \<in> set (q # ps) then Some Dir else fs p)"
      using Some by (auto simp: fun_eq_iff)
    ultimately show ?thesis using Cons(1) [of fs] Cons(2) by (simp add: then_op_def)
  qed
qed

lemma create_directories_result:
  assumes "\<forall>p. may_create dev p" "\<forall>p. prefix p q \<longrightarrow> fs p = None \<or> fs p = Some Dir"
  shows "create_directories dev q fs = Ok () (\<lambda>p. if fs p = None \<and> prefix p q then Some Dir else fs p)"
  using make_directories_result [of dev "prefixes q" fs] assms by (simp add: create_directories_def)

text \<open>What one header adds.\<close>

definition add_files :: "string list \<times> string \<Rightarrow> file_system \<Rightarrow> file_system" where
  "add_files h fs p =
     (if fs p \<noteq> None then fs p
      else if p = source_of h then Some (File (source_text (name_of h)))
      else if prefix p (''sources'' # fst h) then Some Dir
      else None)"

definition step_of :: "device \<Rightarrow> string list \<times> string \<Rightarrow> (generator, generate_error, unit) op" where
  "step_of dev h = generate_source dev (''sources'' # fst h) (fst h) (snd h)"

primrec each_header :: "device \<Rightarrow> (string list \<times> string) list \<Rightarrow> (generator, generate_error, unit) op" where
  "each_header dev [] = ret ()"
| "each_header dev (h # hs) = then_op (step_of dev h) (each_header dev hs)"

lemma each_header_append: "each_header dev (hs @ hs') g = then_op (each_header dev hs) (each_header dev hs') g"
  by (induction hs arbitrary: g) (auto simp: then_op_def ret_def split: outcome.splits)

lemma generate_as_list:
  assumes "sources = ''sources'' # relative" "readable relevant entries"
  shows "generate_sources_recursively dev relevant sources relative entries g = each_header dev (headers_of relevant relative entries) g"
  using assms
  by (induction dev relevant sources relative entries g rule: generate_sources_recursively.induct)
     (auto simp: ret_def each_header_append then_op_def step_of_def generate_source_def [where leaf = l for l] split: outcome.splits)

lemma headers_of_extension: "h \<in> set (headers_of relevant relative entries) \<Longrightarrow> path_extension (snd h) = ''.hpp''"
  by (induction relevant relative entries rule: headers_of.induct) (auto split: if_splits)

lemma step_of_result:
  assumes "no_device_errors dev" "path_extension (snd h) = ''.hpp''" "fits (files g) h" "source_of h \<noteq> all_headers_file_name"
  shows "step_of dev h g = Ok () (g\<lparr>files := add_files h (files g), all_headers := add_header (name_of h) (all_headers g)\<rparr>)"
proof -
  let ?fs = "\<lambda>p. if files g p = None \<and> prefix p (''sources'' # fst h) then Some Dir else files g p"
  have "create_directories dev (''sources'' # fst h) (files g) = Ok () ?fs"
    using create_directories_result [of dev "''sources'' # fst h" "files g"] assms(1,3)
    by (simp add: no_device_errors_def fits_def)
  moreover have "?fs (butlast (source_of h)) = Some Dir"
    using assms(3) by (auto simp: fits_def source_of_def butlast_append)
  moreover have "\<not> prefix (source_of h) (''sources'' # fst h)"
    by (auto simp: source_of_def dest: prefix_length_le)
  moreover have "written_text dev (source_of h) t = t" for t
    using assms(1,4) by (simp add: written_text_def no_device_errors_def)
  ultimately show ?thesis
    using assms(1,2)
    by (auto simp: step_of_def generate_source_def source_of_def [symmetric] name_of_def [symmetric] Let_def open_output_def no_device_errors_def
        add_files_def fun_eq_iff split: if_splits)
qed

lemma add_files_keeps: "fs p = Some n \<Longrightarrow> add_files h fs p = Some n"
  by (simp add: add_files_def)

lemma fits_add_files:
  "fits fs h' \<Longrightarrow> \<not> prefix (source_of h) (''sources'' # fst h') \<Longrightarrow> fits (add_files h fs) h'"
  by (auto simp: fits_def add_files_def)

lemma add_header_set: "sorted names \<Longrightarrow> distinct names \<Longrightarrow> add_header name names = sorted_list_of_set (insert name (set names))"
proof (cases "name \<in> set names")
  case True
  moreover assume "sorted names" "distinct names"
  ultimately show ?thesis
    by (metis add_header_def insert_absorb sorted_list_of_set.idem_if_sorted_distinct)
qed (simp add: add_header_def sorted_list_of_set.idem_if_sorted_distinct)

lemma fold_add_header:
  "fold (\<lambda>h. add_header (name_of h)) hs (sorted_list_of_set S) = sorted_list_of_set (S \<union> name_of ` set hs)" if "finite S"
  using that
proof (induction hs arbitrary: S)
  case (Cons h hs)
  have "add_header (name_of h) (sorted_list_of_set S) = sorted_list_of_set (insert (name_of h) S)"
    using Cons.prems by (simp add: add_header_set)
  with Cons.IH [of "insert (name_of h) S"] Cons.prems show ?case by simp
qed simp

lemma each_header_result:
  assumes "no_device_errors dev"
    and "\<forall>h \<in> set hs. path_extension (snd h) = ''.hpp'' \<and> fits (files g) h \<and> source_of h \<noteq> all_headers_file_name"
    and "\<forall>h \<in> set hs. \<forall>h' \<in> set hs. \<not> prefix (source_of h) (''sources'' # fst h')"
  shows "each_header dev hs g = Ok ()
    (g\<lparr>files := fold add_files hs (files g), all_headers := fold (\<lambda>h. add_header (name_of h)) hs (all_headers g)\<rparr>)"
  using assms(2,3)
proof (induction hs arbitrary: g)
  case Nil
  then show ?case by (simp add: ret_def)
next
  case (Cons h hs)
  have "step_of dev h g = Ok () (g\<lparr>files := add_files h (files g), all_headers := add_header (name_of h) (all_headers g)\<rparr>)"
    using Cons.prems by (intro step_of_result assms(1)) auto
  moreover have "\<forall>h' \<in> set hs. fits (add_files h (files g)) h'"
    using Cons.prems by (auto intro!: fits_add_files)
  ultimately show ?case using Cons.prems by (simp add: then_op_def Cons.IH)
qed

lemma fold_add_files:
  assumes "\<forall>h \<in> set hs. path_extension (snd h) = ''.hpp''"
    and "\<forall>h \<in> set hs. \<forall>h' \<in> set hs. \<not> prefix (source_of h) (''sources'' # fst h')"
  shows "fold add_files hs fs p =
    (if fs p \<noteq> None then fs p
     else if p \<in> source_of ` set hs then Some (File (source_text (name_of (header_of_source p))))
     else if \<exists>h \<in> set hs. prefix p (''sources'' # fst h) then Some Dir
     else None)"
  using assms
proof (induction hs arbitrary: fs)
  case (Cons h hs)
  have IH: "fold add_files hs (add_files h fs) p =
    (if add_files h fs p \<noteq> None then add_files h fs p
     else if p \<in> source_of ` set hs then Some (File (source_text (name_of (header_of_source p))))
     else if \<exists>h \<in> set hs. prefix p (''sources'' # fst h) then Some Dir
     else None)"
    using Cons.prems by (intro Cons.IH) auto
  consider "fs p \<noteq> None" | "fs p = None" "p = source_of h" | "fs p = None" "p \<noteq> source_of h" "prefix p (''sources'' # fst h)"
    | "fs p = None" "p \<noteq> source_of h" "\<not> prefix p (''sources'' # fst h)" by blast
  then show ?case
  proof cases
    case 2
    with IH Cons.prems show ?thesis unfolding add_files_def [of h fs p] by (simp add: header_of_source_of)
  next
    case 3
    with Cons.prems have "p \<notin> source_of ` set hs" by auto
    with 3 IH show ?thesis unfolding add_files_def [of h fs p] by simp
  qed (use IH [unfolded add_files_def [of h fs p]] in auto)
qed simp

lemma generate_main_result:
  assumes "no_device_errors dev" "readable is_relevant_directory headers"
    "nothing_in_the_way (set (headers_of is_relevant_directory [] headers)) fs"
  shows "generate_main dev headers fs = Ok () (generated_files dev (set (headers_of is_relevant_directory [] headers)) fs)"
proof -
  let ?hs = "headers_of is_relevant_directory [] headers"
  let ?fs = "fold add_files ?hs fs"
  have ext: "\<forall>h \<in> set ?hs. path_extension (snd h) = ''.hpp''" by (blast dest: headers_of_extension)
  have run: "each_header dev ?hs \<lparr>files = fs, all_headers = []\<rparr> =
      Ok () \<lparr>files = ?fs, all_headers = sorted_list_of_set (name_of ` set ?hs)\<rparr>"
    using each_header_result [of dev ?hs "\<lparr>files = fs, all_headers = []\<rparr>"] fold_add_header [of "{}" ?hs] assms ext
    by (simp add: nothing_in_the_way_def)
  have fs: "?fs p = (if fs p \<noteq> None then fs p
     else if p \<in> source_of ` set ?hs then Some (File (source_text (name_of (header_of_source p))))
     else if \<exists>h \<in> set ?hs. prefix p (''sources'' # fst h) then Some Dir
     else None)" for p
    using assms(3) ext by (intro fold_add_files) (auto simp: nothing_in_the_way_def)
  have "?fs [''sources'', ''linux''] = Some Dir"
  proof (cases "fs [''sources'', ''linux''] = Some Dir")
    case False
    with assms(3) obtain h where h: "h \<in> set ?hs" "prefix [''sources'', ''linux''] (''sources'' # fst h)"
      by (auto simp: nothing_in_the_way_def)
    from h(1) assms(3) have "fits fs h" by (simp add: nothing_in_the_way_def)
    with h(2) False have "fs [''sources'', ''linux''] = None" unfolding fits_def by blast
    moreover have "[''sources'', ''linux''] \<notin> source_of ` set ?hs"
    proof
      assume "[''sources'', ''linux''] \<in> source_of ` set ?hs"
      then obtain h' where "h' \<in> set ?hs" "source_of h' = [''sources'', ''linux'']" by fastforce
      with h assms(3) show False unfolding nothing_in_the_way_def by metis
    qed
    ultimately show ?thesis using h by (auto simp: fs)
  qed (simp add: fs)
  moreover have "?fs all_headers_file_name \<noteq> Some Dir"
    using assms(3) by (auto simp: fs nothing_in_the_way_def)
  ultimately show ?thesis
    using assms(1) by (auto simp: generate_main_def generate_as_list [OF _ assms(2)] run open_output_def no_device_errors_def
        all_headers_file_name_def fs generated_files_def fun_eq_iff)
qed

lemma generated_files_again:
  assumes "nothing_in_the_way H fs"
  shows "nothing_in_the_way H (generated_files dev H fs)" "generated_files dev H (generated_files dev H fs) = generated_files dev H fs"
proof -
  have "generated_files dev H fs p = None \<or> generated_files dev H fs p = Some Dir"
    if h: "h \<in> H" and p: "prefix p (''sources'' # fst h)" for h p
  proof -
    from assms h have "fits fs h" by (simp add: nothing_in_the_way_def)
    with p have "fs p = None \<or> fs p = Some Dir" by (simp add: fits_def)
    moreover from assms h p have "p \<noteq> all_headers_file_name" "p \<notin> source_of ` H" by (auto simp: nothing_in_the_way_def)
    ultimately show ?thesis using h p by (auto simp: generated_files_def)
  qed
  then have "\<forall>h \<in> H. fits (generated_files dev H fs) h" by (simp add: fits_def)
  moreover have "generated_files dev H fs all_headers_file_name \<noteq> Some Dir" by (simp add: generated_files_def)
  moreover have "generated_files dev H fs [''sources'', ''linux''] = Some Dir" if "fs [''sources'', ''linux''] = Some Dir"
    using that by (simp add: generated_files_def all_headers_file_name_def)
  ultimately show "nothing_in_the_way H (generated_files dev H fs)"
    using assms by (auto simp: nothing_in_the_way_def)
  show "generated_files dev H (generated_files dev H fs) = generated_files dev H fs"
    by (simp add: generated_files_def fun_eq_iff)
qed

text \<open>On any device: what is there stays, and a source that could not be written is there, cut off.\<close>

definition keeps_files :: "file_system \<Rightarrow> file_system \<Rightarrow> bool" where
  "keeps_files fs fs' \<longleftrightarrow> (\<forall>p n. fs p = Some n \<longrightarrow> fs' p = Some n)"

lemma keeps_files_intros:
  "keeps_files fs fs" "fs p = None \<Longrightarrow> keeps_files fs (fs(p \<mapsto> n))"
  "keeps_files fs1 fs2 \<Longrightarrow> keeps_files fs2 fs3 \<Longrightarrow> keeps_files fs1 fs3"
  by (auto simp: keeps_files_def)

lemma make_directory_keeps: "leaves (make_directory dev p fs) (keeps_files fs)"
  by (auto simp: make_directory_def keeps_files_intros split: option.splits node.splits)

lemma make_directories_keeps: "leaves (make_directories dev ps fs) (keeps_files fs)"
proof (induction ps arbitrary: fs)
  case Nil
  then show ?case by (simp add: ret_def keeps_files_intros)
next
  case (Cons p ps)
  show ?case
  proof (cases "make_directory dev p fs")
    case (Ok r fs1)
    with make_directory_keeps [of dev p fs] Cons [of fs1] show ?thesis
      by (auto simp: then_op_def intro: leaves_mono keeps_files_intros(3))
  qed (use make_directory_keeps [of dev p fs] in \<open>simp_all add: then_op_def\<close>)
qed

lemma make_directories_raise: "make_directories dev ps fs = Raise e fs' \<Longrightarrow> e = Filesystem_Error"
  by (induction ps arbitrary: fs)
     (auto simp: ret_def then_op_def make_directory_def split: outcome.splits option.splits node.splits if_splits)

definition cut_off :: "string list \<Rightarrow> file_system \<Rightarrow> bool" where
  "cut_off source fs \<longleftrightarrow> (\<exists>name t. fs source = Some (File t) \<and> strict_prefix t (source_text name))"

fun raised_well :: "(generator, generate_error, unit) outcome \<Rightarrow> bool" where
  "raised_well (Raise (Could_Not_Write source) g) = cut_off source (files g)"
| "raised_well _ = True"

lemma written_prefix: "prefix (written_text dev p t) t"
  by (simp add: written_text_def take_is_prefix split: option.splits)

lemma cut_off_written:
  "written_text dev p (source_text name) \<noteq> source_text name \<Longrightarrow> cut_off p (fs(p \<mapsto> File (written_text dev p (source_text name))))"
  unfolding cut_off_def
  by (intro exI [of _ name] exI [of _ "written_text dev p (source_text name)"]) (simp add: strict_prefix_def written_prefix)

lemma leaves_keeps_trans:
  "leaves x (\<lambda>g'. keeps_files (files g1) (files g')) \<Longrightarrow> keeps_files (files g) (files g1) \<Longrightarrow>
   leaves x (\<lambda>g'. keeps_files (files g) (files g'))"
  by (auto intro: leaves_mono keeps_files_intros(3))

lemma generate_source_keeps:
  "leaves (generate_source dev sources relative leaf g) (\<lambda>g'. keeps_files (files g) (files g')) \<and>
   raised_well (generate_source dev sources relative leaf g)"
proof (cases "path_extension leaf = ''.hpp''")
  case True
  have keeps: "leaves (create_directories dev sources (files g)) (keeps_files (files g))"
    by (simp add: create_directories_def make_directories_keeps)
  show ?thesis
  proof (cases "create_directories dev sources (files g)")
    case (Ok r fs)
    then show ?thesis using True keeps
      by (auto simp: generate_source_def Let_def open_output_def cut_off_written
          intro: keeps_files_intros split: option.splits if_splits)
  next
    case (Raise e fs)
    then show ?thesis using True keeps make_directories_raise [of dev "prefixes sources" "files g" e fs]
      by (auto simp: generate_source_def create_directories_def)
  qed (use keeps in simp)
qed (simp add: generate_source_def keeps_files_intros)

lemma generate_recursively_keeps:
  "leaves (generate_sources_recursively dev relevant sources relative entries g) (\<lambda>g'. keeps_files (files g) (files g')) \<and>
   raised_well (generate_sources_recursively dev relevant sources relative entries g)"
proof (induction dev relevant sources relative entries g rule: generate_sources_recursively.induct)
  case (4 dev relevant sources relative leaf entries g)
  with generate_source_keeps [of dev sources relative leaf g] show ?case
    by (auto split: outcome.splits intro: leaves_keeps_trans)
qed (auto split: outcome.splits intro: leaves_keeps_trans keeps_files_intros(1))

section \<open>Properties\<close>

text \<open>
  C35: When the device does its part, the tool writes every header's source, whatever the order in which the directories
  list their entries: the files after the run are those of the specification, a function of the set of
  headers, and running it again, with another order, changes nothing.
\<close>

theorem generate_main_idempotent:
  assumes "no_device_errors dev" "readable is_relevant_directory headers" "readable is_relevant_directory headers'"
    and "nothing_in_the_way (set (headers_of is_relevant_directory [] headers)) fs"
    and "set (headers_of is_relevant_directory [] headers') = set (headers_of is_relevant_directory [] headers)"
  shows "\<exists>fs'. generate_main dev headers fs = Ok () fs' \<and> generate_main dev headers' fs' = Ok () fs' \<and>
    fs' = generated_files dev (set (headers_of is_relevant_directory [] headers)) fs"
  using generate_main_result [OF assms(1,2,4)] generate_main_result [OF assms(1,3)] generated_files_again [OF assms(4)] assms(5)
  by simp

text \<open>
  On any device and for any tree of headers, whether the tool returns or throws: a file that was there before
  is still there and has not changed, unless it is the list of all headers.
\<close>

theorem generate_main_keeps:
  "leaves (generate_main dev headers fs) (\<lambda>fs'. \<forall>p n. p \<noteq> all_headers_file_name \<longrightarrow> fs p = Some n \<longrightarrow> fs' p = Some n)"
  using generate_recursively_keeps [of dev is_relevant_directory "[''sources'']" "[]" headers "\<lparr>files = fs, all_headers = []\<rparr>"]
  by (auto simp: generate_main_def open_output_def keeps_files_def split: outcome.splits)

lemma generate_main_keeps_witness:
  "leaves (generate_main \<lparr>may_create = (\<lambda>_. True), may_open = (\<lambda>_. True), room = (\<lambda>_. Some 3)\<rparr>
      [(''a.hpp'', Regular_File)] [[] \<mapsto> Dir, [''sources''] \<mapsto> Dir, [''sources'', ''a.cpp''] \<mapsto> File ''mine''])
    (\<lambda>fs'. fs' [''sources'', ''a.cpp''] = Some (File ''mine''))"
  by (rule leaves_mono [OF generate_main_keeps]) (simp add: all_headers_file_name_def)

text \<open>
  A source that could not be written completely is never repaired: a later run, on any device and for any
  headers, that reports success has left it cut off.
\<close>

theorem cut_off_source_stays:
  assumes "generate_main dev headers fs = Raise (Could_Not_Write source) fs'"
    and "generate_main dev' headers' fs' = Ok () fs''" and "source \<noteq> all_headers_file_name"
  shows "\<exists>name t. fs'' source = Some (File t) \<and> strict_prefix t (source_text name)"
proof -
  have "cut_off source fs'"
    using assms(1) generate_recursively_keeps [of dev is_relevant_directory "[''sources'']" "[]" headers "\<lparr>files = fs, all_headers = []\<rparr>"]
    by (auto simp: generate_main_def split: outcome.splits option.splits)
  moreover have "\<forall>n. fs' source = Some n \<longrightarrow> fs'' source = Some n"
    using assms(2,3) generate_recursively_keeps [of dev' is_relevant_directory "[''sources'']" "[]" headers' "\<lparr>files = fs', all_headers = []\<rparr>"]
    by (auto simp: generate_main_def open_output_def keeps_files_def split: outcome.splits option.splits if_splits)
  ultimately show ?thesis by (auto simp: cut_off_def)
qed

lemma generate_main_idempotent_witness:
  "\<exists>fs'. generate_main \<lparr>may_create = (\<lambda>_. True), may_open = (\<lambda>_. True), room = (\<lambda>_. None)\<rparr>
      [(''a.hpp'', Regular_File), (''linux'', Directory [(''d.hpp'', Regular_File)])] [[] \<mapsto> Dir] = Ok () fs' \<and>
    generate_main \<lparr>may_create = (\<lambda>_. True), may_open = (\<lambda>_. True), room = (\<lambda>_. None)\<rparr>
      [(''win32'', Unreadable_Directory), (''linux'', Directory [(''d.hpp'', Regular_File)]), (''a.hpp'', Regular_File)] fs' = Ok () fs'"
proof -
  let ?dev = "\<lparr>may_create = (\<lambda>_. True), may_open = (\<lambda>_. True), room = (\<lambda>_. None)\<rparr> :: device"
  let ?h = "[(''a.hpp'', Regular_File), (''linux'', Directory [(''d.hpp'', Regular_File)])]"
  let ?h' = "[(''win32'', Unreadable_Directory), (''linux'', Directory [(''d.hpp'', Regular_File)]), (''a.hpp'', Regular_File)]"
  have h: "headers_of is_relevant_directory [] ?h = [([], ''a.hpp''), ([''linux''], ''d.hpp'')]"
    "headers_of is_relevant_directory [] ?h' = [([''linux''], ''d.hpp''), ([], ''a.hpp'')]"
    by (simp_all add: is_relevant_directory_def blacklist_def path_extension_def)
  have "nothing_in_the_way (set (headers_of is_relevant_directory [] ?h)) [[] \<mapsto> Dir]"
    unfolding h by (simp add: nothing_in_the_way_def fits_def source_of_def path_stem_def all_headers_file_name_def)
  then show ?thesis
    using generate_main_idempotent [of ?dev ?h ?h' "[[] \<mapsto> Dir]"] unfolding h
    by (auto simp: no_device_errors_def is_relevant_directory_def blacklist_def insert_commute)
qed

lemma cut_off_source_stays_witness:
  "\<exists>fs' fs'' t. generate_main \<lparr>may_create = (\<lambda>_. True), may_open = (\<lambda>_. True), room = (\<lambda>_. Some 8)\<rparr>
      [(''a.hpp'', Regular_File)] [[] \<mapsto> Dir, [''sources''] \<mapsto> Dir, [''sources'', ''linux''] \<mapsto> Dir] =
        Raise (Could_Not_Write [''sources'', ''a.cpp'']) fs' \<and>
    generate_main \<lparr>may_create = (\<lambda>_. True), may_open = (\<lambda>_. True), room = (\<lambda>_. None)\<rparr> [(''a.hpp'', Regular_File)] fs' = Ok () fs'' \<and>
    fs'' [''sources'', ''a.cpp''] = Some (File t) \<and> (\<exists>name. strict_prefix t (source_text name))"
proof -
  let ?dev = "\<lparr>may_create = (\<lambda>_. True), may_open = (\<lambda>_. True), room = (\<lambda>_. Some 8)\<rparr> :: device"
  let ?dev' = "\<lparr>may_create = (\<lambda>_. True), may_open = (\<lambda>_. True), room = (\<lambda>_. None)\<rparr> :: device"
  let ?fs = "[[] \<mapsto> Dir, [''sources''] \<mapsto> Dir, [''sources'', ''linux''] \<mapsto> Dir]"
  let ?s = "[''sources'', ''a.cpp'']"
  let ?fs' = "?fs(?s \<mapsto> File ''#include'')"
  have first: "generate_main ?dev [(''a.hpp'', Regular_File)] ?fs = Raise (Could_Not_Write ?s) ?fs'"
    by (simp add: generate_main_def generate_source_def path_extension_def path_stem_def create_directories_def make_directory_def
        then_op_def ret_def Let_def open_output_def written_text_def source_text_def)
  moreover obtain fs'' where second: "generate_main ?dev' [(''a.hpp'', Regular_File)] ?fs' = Ok () fs''"
    by (simp add: generate_main_def generate_source_def path_extension_def path_stem_def create_directories_def make_directory_def
        then_op_def ret_def Let_def open_output_def all_headers_file_name_def)
  ultimately show ?thesis
    using cut_off_source_stays [OF first second] by (auto simp: all_headers_file_name_def)
qed

text \<open>The list of all headers may be cut off; \<open>main\<close> succeeds nevertheless.\<close>

theorem all_headers_unchecked:
  assumes "no_device_errors dev" "readable is_relevant_directory headers"
    and "nothing_in_the_way (set (headers_of is_relevant_directory [] headers)) fs" "room dev all_headers_file_name = Some n"
  shows "\<exists>fs'. generate_main dev headers fs = Ok () fs' \<and>
    fs' all_headers_file_name = Some (File (take n (include_lines
      (sorted_list_of_set (name_of ` set (headers_of is_relevant_directory [] headers))))))"
  using generate_main_result [OF assms(1-3)] assms(4) by (simp add: generated_files_def written_text_def)

end
