(* ===== verification/Exchange.thy ===== *)
theory Exchange
  imports Silicium_Prelude
begin

text \<open>
  \<open>exchange.hpp\<close> and \<open>move_if_noexcept.hpp\<close>: replacing a value and getting the old one, for a type whose operations may
  throw.  \<open>traits\<close> are what the type traits say of it; \<open>assign\<close> is the assignment of the new value.  The old value is
  returned without being moved again.
\<close>

record traits =
  nothrow_move_constructible :: bool
  copy_constructible :: bool
  nothrow_assignable :: bool

datatype reference = Const_Reference | Rvalue_Reference

text \<open>The function of the standard library, and the one for compilers without it.\<close>

definition move_if_noexcept :: "traits \<Rightarrow> reference" where
  "move_if_noexcept tr =
     (if \<not> nothrow_move_constructible tr \<and> copy_constructible tr then Const_Reference else Rvalue_Reference)"

definition move_if_noexcept_fallback :: "traits \<Rightarrow> reference" where
  "move_if_noexcept_fallback tr = (if nothrow_move_constructible tr then Const_Reference else Rvalue_Reference)"

definition construct_from :: "('a, 'e) element_type \<Rightarrow> reference \<Rightarrow> ('a, 'e, 'a) op" where
  "construct_from T r x = (case r of
      Const_Reference \<Rightarrow> (case copy_construct T x of Inl e \<Rightarrow> Raise e x | Inr y \<Rightarrow> Ok y x)
    | Rvalue_Reference \<Rightarrow> (case move_construct T x of Inl (e, x') \<Rightarrow> Raise e x' | Inr (y, x') \<Rightarrow> Ok y x'))"

definition assign_new :: "('a \<Rightarrow> ('e \<times> 'a) + 'a) \<Rightarrow> 'a \<Rightarrow> ('a, 'e, 'a) op" where
  "assign_new assign old d = (case assign d of Inl (e, d') \<Rightarrow> Raise e d' | Inr d' \<Rightarrow> Ok old d')"

definition exchange_impl_true :: "(traits \<Rightarrow> reference) \<Rightarrow> traits \<Rightarrow> ('a, 'e) element_type \<Rightarrow> ('a \<Rightarrow> ('e \<times> 'a) + 'a) \<Rightarrow> ('a, 'e, 'a) op" where
  "exchange_impl_true mover tr T assign = bind_op (construct_from T (mover tr)) (assign_new assign)"

definition exchange_impl_false :: "('a, 'e) element_type \<Rightarrow> ('a \<Rightarrow> ('e \<times> 'a) + 'a) \<Rightarrow> ('a, 'e, 'a) op" where
  "exchange_impl_false T assign = bind_op (construct_from T Const_Reference) (assign_new assign)"

definition exchange_value :: "(traits \<Rightarrow> reference) \<Rightarrow> traits \<Rightarrow> ('a, 'e) element_type \<Rightarrow> ('a \<Rightarrow> ('e \<times> 'a) + 'a) \<Rightarrow> ('a, 'e, 'a) op" where
  "exchange_value mover tr T assign =
     (if nothrow_assignable tr then exchange_impl_true mover tr T assign else exchange_impl_false T assign)"

text \<open>
  The traits are right, the type is regular, \<open>assign\<close> assigns \<open>v\<close>, and the call compiles: a type that cannot be copied
  has an assignment that does not throw.
\<close>

definition traits_right :: "traits \<Rightarrow> ('a, 'e) element_type \<Rightarrow> ('a \<Rightarrow> ('e \<times> 'a) + 'a) \<Rightarrow> 'a \<Rightarrow> bool" where
  "traits_right tr T assign v \<longleftrightarrow> regular T \<and>
     (nothrow_move_constructible tr \<longrightarrow> (\<forall>x. \<exists>y z. move_construct T x = Inr (y, z))) \<and>
     (nothrow_assignable tr \<longrightarrow> (\<forall>d. \<exists>d'. assign d = Inr d')) \<and>
     (nothrow_assignable tr \<or> copy_constructible tr) \<and> (\<forall>d d'. assign d = Inr d' \<longrightarrow> d' = v)"

text \<open>
  C37: With \<open>move_if_noexcept\<close> of the standard library, for a regular type whose traits are right, and with the
  return of the old value elided, \<open>exchange\<close> returns the old value and leaves the new one, or it throws and
  leaves the old one, with two exceptions: an assignment that may throw, and does, leaves what it leaves, and
  so does the move of a type that cannot be copied and whose move throws.
\<close>

theorem exchange_strong:
  assumes "traits_right tr T assign v"
  shows "case exchange_value move_if_noexcept tr T assign x of
      Ok old d \<Rightarrow> old = x \<and> d = v
    | Raise e d \<Rightarrow> d = x \<or> (\<not> nothrow_assignable tr \<and> assign x = Inl (e, d)) \<or>
        (\<not> nothrow_move_constructible tr \<and> \<not> copy_constructible tr \<and> move_construct T x = Inl (e, d))
    | Fault f \<Rightarrow> False"
proof -
  from assms have right: "regular T" "\<And>x. nothrow_move_constructible tr \<Longrightarrow> \<exists>y z. move_construct T x = Inr (y, z)"
    "\<And>d. nothrow_assignable tr \<Longrightarrow> \<exists>d'. assign d = Inr d'" "nothrow_assignable tr \<or> copy_constructible tr"
    "\<And>d d'. assign d = Inr d' \<Longrightarrow> d' = v"
    by (auto simp: traits_right_def)
  show ?thesis
  proof (cases "nothrow_assignable tr \<and> (nothrow_move_constructible tr \<or> \<not> copy_constructible tr)")
    case True
    then have run: "exchange_value move_if_noexcept tr T assign x = bind_op (construct_from T Rvalue_Reference) (assign_new assign) x"
      by (auto simp: exchange_value_def exchange_impl_true_def move_if_noexcept_def)
    show ?thesis
    proof (cases "move_construct T x")
      case (Inl p)
      moreover from Inl right(2) [of x] True have "\<not> nothrow_move_constructible tr" "\<not> copy_constructible tr" by auto
      ultimately show ?thesis by (cases p) (simp add: run construct_from_def bind_op_def)
    next
      case (Inr p)
      from True right(3) obtain d where "assign (snd p) = Inr d" by meson
      with Inr right(1,5) regular_move_construct [of T x "fst p" "snd p"] show ?thesis
        by (cases p) (simp add: run construct_from_def assign_new_def bind_op_def)
    qed
  next
    case False
    have "exchange_value move_if_noexcept tr T assign x = exchange_impl_false T assign x"
      using False right(4) by (auto simp: exchange_value_def exchange_impl_true_def exchange_impl_false_def move_if_noexcept_def)
    moreover have "nothrow_assignable tr \<Longrightarrow> assign x \<noteq> Inl p" for p using right(3) [of x] by auto
    ultimately show ?thesis
      using right(5) [of x] regular_copy_construct [OF right(1), of x]
      by (auto simp: exchange_impl_false_def construct_from_def assign_new_def bind_op_def split: sum.split)
  qed
qed

lemma exchange_strong_witness:
  "exchange_value move_if_noexcept \<lparr>nothrow_move_constructible = False, copy_constructible = True, nothrow_assignable = True\<rparr>
     \<lparr>copy_construct = (\<lambda>x. if x = 3 then Inl ''copy'' else Inr x), move_construct = (\<lambda>x. Inl (''move'', 0)),
      copy_assign = (\<lambda>d x. Inr x), move_assign = (\<lambda>d x. Inr (x, 0))\<rparr> (\<lambda>_. Inr 7) (3 :: nat) = Raise ''copy'' 3"
proof -
  let ?tr = "\<lparr>nothrow_move_constructible = False, copy_constructible = True, nothrow_assignable = True\<rparr> :: traits"
  let ?T = "\<lparr>copy_construct = (\<lambda>x. if x = 3 then Inl ''copy'' else Inr x), move_construct = (\<lambda>x. Inl (''move'', 0)),
      copy_assign = (\<lambda>d x. Inr x), move_assign = (\<lambda>d x. Inr (x, 0))\<rparr> :: (nat, string) element_type"
  have "traits_right ?tr ?T (\<lambda>_. Inr 7) 7" by (simp add: traits_right_def regular_def)
  from exchange_strong [OF this, of 3] show ?thesis
    by (simp add: exchange_value_def exchange_impl_true_def move_if_noexcept_def construct_from_def bind_op_def)
qed

text \<open>
  With the fallback the old value is lost where moving it throws, although it could have been copied: its branches are
  the wrong way round.
\<close>

theorem exchange_fallback_loses:
  assumes "nothrow_assignable tr" "\<not> nothrow_move_constructible tr" "move_construct T x = Inl (e, x')"
  shows "exchange_value move_if_noexcept_fallback tr T assign x = Raise e x'"
  using assms
  by (simp add: exchange_value_def exchange_impl_true_def move_if_noexcept_fallback_def construct_from_def bind_op_def)

end
