(* ===== verification/Spec2Isabelle.thy ===== *)
theory Spec2Isabelle
  imports Optional Error_Or Expected Variant Sources Buffering_Source Sinks Lines Http Request_Parser Html
    Arithmetic Bounded_Int Ranges Files Callables Asio Zlib Connections Server Ownership
    Strings Windows Delegators Compact_Optional Destructive_Move Dsl Trait_Boxes
    Lua_Threads Integer_Sequence Examples Async_Pipe Generate_Sources Exchange
begin

text \<open>
  A verification library for Silicium, a C++ header library (\<open>src/silicium\<close>), with the server of
  \<open>examples/hellohttp.cpp\<close> as its client.

  The program and its parts.  Silicium has three layers.  Types that own values:
  \<open>optional\<close>, \<open>error_or\<close>, \<open>expected\<close>, \<open>variant\<close>, \<open>function\<close>, \<open>destructor\<close>, \<open>file_handle\<close>,
  \<open>dynamic_library\<close>.  Streams: a source is asked for elements with \<open>copy_next\<close> and \<open>map_next\<close>, a sink
  receives them with \<open>append\<close>; adapters buffer, filter, transform, throw, compress.  Protocols on
  streams of characters: lines, HTTP requests and responses, HTML.  The server reads a request from a
  \<open>buffering_source\<close> in front of a socket and generates the response into a \<open>buffering_sink\<close>.

  How a C++ operation is modelled (\<open>Silicium_Prelude\<close>).  An operation is a function from the state
  of the objects it works on to an \<open>outcome\<close>: \<open>Ok\<close> with a result, \<open>Raise\<close> with an exception and the state
  it leaves behind, or \<open>Fault\<close> for what the language or an \<open>assert\<close> forbids: a dead object read, a
  living one overwritten, a place outside a range read, an assertion, an exception leaving a
  \<open>noexcept\<close> function.  Storage is a \<open>slot\<close> that is dead or holds an object, so that leaks, double
  destruction and construction over a living object are visible; the template parameter \<open>T\<close> is the
  record \<open>element_type\<close> of its special member functions, which may throw.  Reading operations return
  \<open>fault + 'a\<close>; a loop that need not end is an option, and that it ends is proved.  \<open>this\<close> and \<open>other\<close>
  are different objects unless a theory says otherwise.

  The theories, in the order of their dependence.
  \<open>Std_Map\<close>: \<open>std::map\<close> as an ordered association list.
  \<open>Optional\<close>, \<open>Error_Or\<close>, \<open>Expected\<close>, \<open>Variant\<close>: \<open>optional.hpp\<close>, \<open>error_or.hpp\<close>, \<open>expected.hpp\<close>, \<open>variant.hpp\<close>;
  every constructor, assignment, accessor, comparison and hash; programs of assignments preserve the
  invariants (\<open>opt_run_lifetime_safe\<close>, \<open>eo_run_lifetime_safe\<close>, \<open>variant_run_values\<close>), the assignments
  refine those of HOL options and sums, and what they leave behind when a copy throws is stated.
  \<open>Source_Contract\<close>: the locale \<open>element_source\<close>, what a client relies on (elements come in order, at
  least one if there is one, an empty result is the end), with \<open>exact_source\<close> for sources that never
  read short.
  \<open>Sources\<close>: every source and adapter of \<open>source/\<close>; each interprets the locale or has a theorem.
  \<open>Buffering_Source\<close>: \<open>source/buffering_source.hpp\<close>; \<open>split_at\<close> stands for where
  \<open>boost::circular_buffer\<close> wraps around, any value; the contract is handed through.
  \<open>Sinks\<close>: \<open>sink/\<close>; the locales \<open>element_sink\<close> (what arrives is a prefix, all of it on success) and
  \<open>reliable_sink\<close> (it never fails) and \<open>sticky_sink\<close> (its failures last); \<open>buffering_sink\<close> gives one
  from another, and cannot tear a hole into what arrives at a sticky one.
  \<open>Lines\<close>: \<open>detail/line_source.hpp\<close>, against the reference \<open>split_line\<close>.
  \<open>Http\<close>: \<open>http/\<close>, parsers and generators with round trips; over any source the parsers refine
  functions on strings (\<open>parse_request_string\<close>); \<open>lexical_cast\<close> is a parameter.
  \<open>Request_Parser\<close>: \<open>http/request_parser_sink.hpp\<close>, one definition for a turn of its loop; the loop
  is bounded by the length of the chunk, which every turn shortens.
  \<open>Html\<close>: \<open>html/\<close>, the generator and the tree with its lengths, against the text of the tree.
  \<open>Arithmetic\<close>, \<open>Bounded_Int\<close>: \<open>arithmetic/\<close>, \<open>byte_order_intrinsics.hpp\<close> on \<open>'w word\<close>; \<open>bounded_int.hpp\<close> with
  the integer type (width and sign) and the bounds as values, a static assertion as \<open>None\<close>.
  \<open>Ranges\<close>: \<open>iterator_range.hpp\<close>, \<open>memory_range.hpp\<close>, \<open>array_view.hpp\<close>: an array with two positions.
  \<open>Files\<close>: \<open>file_handle.hpp\<close>, \<open>pipe.hpp\<close>, \<open>read.hpp\<close>, \<open>write.hpp\<close>, \<open>sink/file_sink.hpp\<close>: a trace of closed
  descriptors; system calls are parameters with \<open>write_contract\<close> as hypothesis.
  \<open>Callables\<close>: \<open>function.hpp\<close> over a counted heap, \<open>make_destructor.hpp\<close>, \<open>error_code.hpp\<close>,
  \<open>error_handler.hpp\<close>, \<open>c_string.hpp\<close>.
  \<open>Asio\<close>: \<open>asio/\<close>; \<open>async.hpp\<close> as a transition system with any interleaving of callers, threads that run the
  steps of the work, and the foreground; the two dispatchers are parameters, with \<open>dispatcher_contract\<close> (each
  posted function is run once, in any order) and \<open>fifo\<close> as hypotheses.
  \<open>Zlib\<close>: \<open>zlib/\<close>; \<open>::deflate\<close> is a parameter with \<open>deflate_contract\<close> as hypothesis, the next sink
  anything that keeps the locale \<open>space_sink\<close>.
  \<open>Ownership\<close>: \<open>detail/basic_dynamic_library.hpp\<close>, copies and moves of
  \<open>owning_source\<close> over an explicit store of buffers, \<open>aligned_ref.hpp\<close>, \<open>environment_variables.hpp\<close>.
  \<open>Connections\<close>: a source whose reading throws, as that of a socket does: the contract
  \<open>throwing_reader\<close>, buffers in front of it, and \<open>parse_request\<close> over both.
  \<open>Server\<close>: \<open>examples/hellohttp.cpp\<close>: \<open>serve_client\<close> with the \<open>catch\<close> around it, on any input over a socket
  that may fail, that a client understands its answer, and the loop of \<open>main\<close> over all clients.
  \<open>Strings\<close>: \<open>to_utf8_string.hpp\<close>, \<open>noexcept_string.hpp\<close>, \<open>os_string.hpp\<close>: the conversions of the two
  platforms; \<open>MultiByteToWideChar\<close> and its inverse are parameters with a contract.
  \<open>Windows\<close>: the Windows branches of \<open>write.hpp\<close>, \<open>read.hpp\<close>, \<open>pipe.hpp\<close>, \<open>dynamic_library_impl.hpp\<close> and
  \<open>win32/\<close>: \<open>write\<close> with its pieces of at most a \<open>DWORD\<close> over a \<open>WriteFile\<close> that keeps \<open>write_file_contract\<close>, and
  that the other operations do what those of POSIX do.
  \<open>Delegators\<close>: \<open>delegator/\<close>: the tables of functions behind \<open>eraser\<close> and \<open>fat_ref\<close>, with copies and moves
  that throw, against plain calls on plain objects.
  \<open>Compact_Optional\<close>, \<open>Destructive_Move\<close>, \<open>Dsl\<close>: the libraries that live in \<open>test/\<close>: \<open>compact_optional\<close> with
  the empty state inside the value, moves that end the life of the source (locale \<open>destructible\<close>, with
  a count of living objects), and the language whose values are used at most once.
  \<open>Trait_Boxes\<close>: \<open>trait.hpp\<close>: erasers and boxes over a heap, with methods that throw.
  \<open>Lua_Pins\<close>, \<open>Lua_Threads\<close>: \<open>test/lua/lua.cpp\<close>: \<open>pinned_value\<close> over the registry of a Lua that keeps
  \<open>lua_contract\<close>, and \<open>lua_thread\<close>; making one, and its function \<open>yield\<close>, over the objects of a Lua
  that keeps \<open>lua_objects_contract\<close>.
  \<open>Async_Pipe\<close>: \<open>test/async_pipe.cpp\<close>: the two ends of a pipe and their callbacks as a transition system, and
  sessions of one writer and one reader that a dispatcher runs.
  \<open>Generate_Sources\<close>: \<open>test_includes/generate_sources.cpp\<close>: the tool over a file system as a map and a device that
  may fail, against a specification that is a function of the set of headers.
  \<open>Exchange\<close>: \<open>exchange.hpp\<close> and \<open>move_if_noexcept.hpp\<close> for types whose operations throw.
  \<open>Integer_Sequence\<close>: \<open>detail/integer_sequence.hpp\<close>, and what it costs the compiler.
  \<open>Examples\<close>: \<open>examples/trivialhttp.cpp\<close> and the page of \<open>examples/html.cpp\<close>.
  This theory: what several components give together, a buffered file and requests through both buffers.

  Termination.  \<open>parse_request\<close>, \<open>line_source\<close>, \<open>copy\<close>, \<open>filter_source\<close>, \<open>buffering_source\<close>'s iteration
  and the deflating sink are options, since they need not end over a source that breaks its
  contract; over one that keeps it each is proved to return.  So are the loop that drains a throwing
  reader and the loop of the server over its clients, which ends when accepting one fails, as it does
  by its hypothesis.  A session of an \<open>async_pipe\<close> is an option too; two theorems say how it ends.
  No fuel is used.

  Platform.  POSIX (the theories \<open>Windows\<close> and \<open>Strings\<close> have the other branch), a compiler with C++14 and
  its standard library, exceptions on, assertions on.

  Not modelled.  On Windows, closing a handle in \<open>file_handle.hpp\<close> and the byte order functions.
  The preprocessor and template machinery that only selects code or types (\<open>config.hpp\<close>,
  \<open>type_traits.hpp\<close>) and aliases or forwarders (\<open>std_threading.hpp\<close>,
  \<open>boost_threading.hpp\<close>, \<open>make_unique.hpp\<close>).  That newer versions of zlib remember the address of a
  \<open>z_stream\<close>, which moving a stream changes: the state of a stream is a value here.  Boost, zlib and
  the system calls, which are parameters.  The tests in \<open>test/\<close> that only call the library.  The
  vendored SQLite amalgamation, which nothing under \<open>src/silicium\<close> uses.
\<close>

section \<open>A buffered file\<close>

text \<open>
  C16: Pieces of data appended to a \<open>buffering_sink\<close> in front of a \<open>file_sink\<close>, one after the other up to
  the first error, then flushed, over a \<open>::write\<close> that may write any part of a non-empty piece but never
  none of it (\<open>write_progress\<close>), and may fail at any time: if everything reports success, the file has
  received exactly the pieces, in order; if an append fails, it has received a prefix of them.
\<close>

theorem buffered_file_output:
  assumes "write_contract sys_write errno file content" "write_progress sys_write file"
    and "append_until_error (buffering_append (file_append sys_write errno file)) (buffering_sink_init w buffer) pieces = (r, s)"
  shows "case r of
      Some e \<Rightarrow> \<exists>k. content (m_destination s) = content w @ take k (concat pieces)
    | None \<Rightarrow> (case buffering_flush (file_append sys_write errno file) s of
          (None, s') \<Rightarrow> content (m_destination s') = content w @ concat pieces
        | (Some e, s') \<Rightarrow> \<exists>k. content (m_destination s') = content w @ take k (concat pieces))"
proof -
  note sink = file_element_sink [OF assms(1,2)]
  let ?s = "buffering_sink_init w buffer"
  have init: "buffering_sink_inv (\<lambda>_. True) ?s" "buffered_elements ?s = []" "m_destination ?s = w"
    by (simp_all add: buffering_sink_init_def buffering_sink_inv_def buffered_elements_def)
  note all = element_sink.buffering_pieces [OF sink init(1) assms(3)]
  show ?thesis
  proof (cases r)
    case (Some e)
    with all init show ?thesis by simp
  next
    case None
    with all init have s: "buffering_sink_inv (\<lambda>_. True) s" "content (m_destination s) @ buffered_elements s = content w @ concat pieces"
        "\<exists>P. content (m_destination s) = content w @ P"
      by (simp_all add: buffering_written_def)
    then obtain P where P: "content (m_destination s) = content w @ P" "P @ buffered_elements s = concat pieces" by auto
    have prefix: "\<exists>k. content (m_destination s) @ take m (buffered_elements s) = content w @ take k (concat pieces)" for m
      using P by (intro exI [of _ "length P + min m (length (buffered_elements s))"]) (simp add: min_def flip: P(2))
    show ?thesis
      using element_sink.buffering_flush_cases [OF sink s(1)] None s(2) prefix
      by (cases "buffering_flush (file_append sys_write errno file) s")
         (fastforce simp: buffering_written_def split: option.splits)
  qed
qed

lemma buffered_file_output_witness:
  "case buffering_flush (file_append small_device (\<lambda>_. 28) 7)
      (snd (append_until_error (buffering_append (file_append small_device (\<lambda>_. 28) 7)) (buffering_sink_init [] ''..'') [''a'', ''bcd''])) of
      (None, s') \<Rightarrow> m_destination s' = ''abcd'' | (Some e, s') \<Rightarrow> False"
proof -
  let ?app = "file_append small_device (\<lambda>_. 28) 7"
  let ?r = "append_until_error (buffering_append ?app) (buffering_sink_init [] ''..'') [''a'', ''bcd'']"
  have ok: "fst ?r = None" "fst (buffering_flush ?app (snd ?r)) = None"
    by (simp_all add: buffering_append_def buffering_flush_def buffering_sink_init_def file_append_def write_file_def
        write_loop.simps small_device_def Let_def eo_error_def is_error_def is_set_error_def no_error_def)
  then have "?r = (None, snd ?r)" by (simp add: prod_eq_iff)
  from buffered_file_output [OF small_device_contract this] ok show ?thesis by (auto split: prod.splits option.splits)
qed

section \<open>Requests through the whole library\<close>

text \<open>
  C5: Any sequence of valid requests that \<open>generate_request\<close> writes into a \<open>buffering_sink\<close> with a buffer of
  any size, which is then flushed: whoever reads what has arrived through a \<open>buffering_source\<close> of any
  capacity and \<open>copy\<close>s it into a \<open>request_parser_sink\<close> receives exactly these requests, in order, the
  copying ends, and the parser is back in its initial state.
\<close>

theorem requests_through_buffers:
  assumes sink: "reliable_sink app written sink_inv" "sink_inv t" "written t = []"
    and source: "element_source cn pending source_inv" "valid_split split_at"
    and parser: "request_sink out_app out_written out_inv" "out_inv out"
    and rs: "\<forall>r \<in> set rs. valid_request r"
    and s: "source_inv s" "pending s = written (m_destination (snd (buffering_flush app
      (fold (\<lambda>r t. generate_request (buffering_append app) t r) rs (buffering_sink_init t buffer)))))"
  shows "\<exists>s' out'. copy_all (buffering_copy_next cn split_at fill) (parser_append out_app) (buffering_init s capacity) (parser_init out) =
      Some (s', parser_init out') \<and> out_written out' = out_written out @ rs"
proof -
  from buffered_requests_written [OF sink(1,2), of rs buffer] sink(3) s(2) have bytes: "pending s = concat (map request_text rs)"
    by auto
  have "buffered_source cn pending source_inv split_at"
    using source by (simp add: buffered_source_def buffered_source_axioms_def)
  note buffered = buffered_source.buffering_contract [OF this]
  have i: "buffering_inv source_inv (buffering_init s capacity)" "buffering_pending pending (buffering_init s capacity) = pending s"
    using s(1) by (simp_all add: buffering_inv_def buffering_init_def buffering_pending_def)
  have fed: "fold (\<lambda>x t. snd (append_single (parser_append out_app) t x)) cs p = feed_chunks out_app (map (\<lambda>c. [c]) cs) p" for cs p
    by (simp add: feed_chunks_def fold_map append_single_def comp_def)
  have "concat (map (\<lambda>c. [c]) (pending s)) = concat (map request_text rs)" using bytes by simp
  from request_sink.feed_valid_requests [OF parser rs this] obtain out' where
    out: "feed_chunks out_app (map (\<lambda>c. [c]) (pending s)) (parser_init out) = parser_init out'" "out_written out' = out_written out @ rs"
    by blast
  from element_source.copy_all_fold [OF buffered i(1), where app = "parser_append out_app" and t = "parser_init out"] obtain s' where
    "copy_all (buffering_copy_next cn split_at fill) (parser_append out_app) (buffering_init s capacity) (parser_init out) =
      Some (s', feed_chunks out_app (map (\<lambda>c. [c]) (pending s)) (parser_init out))"
    unfolding i(2) fed by blast
  with out show ?thesis by auto
qed

lemma requests_through_buffers_witness:
  "\<exists>s' out. copy_all (buffering_copy_next memory_copy_next no_wrap (CHR ''.'')) (parser_append container_append)
     (buffering_init (concat (map request_text [example_request, example_request])) 4) (parser_init []) = Some (s', parser_init out) \<and>
   out = [example_request, example_request]"
proof -
  let ?rs = "[example_request, example_request]"
  let ?t = "fold (\<lambda>r t. generate_request (buffering_append container_append) t r) ?rs (buffering_sink_init [] ''..........'')"
  have "m_destination (snd (buffering_flush container_append ?t)) = concat (map request_text ?rs)"
    using buffered_requests_written [OF container.reliable_sink_axioms, where t = "[]" and rs = ?rs and buffer = "''..........''"] by auto
  from requests_through_buffers [OF container.reliable_sink_axioms _ _ memory.element_source_axioms valid_split_no_wrap
      request_container.request_sink_axioms _ _ _ this [symmetric], where out = "[]" and capacity = 4 and fill = "CHR ''.''"]
    valid_example_request
  show ?thesis by auto
qed

end
